(* ===== verification/Prelude.thy ===== *)
theory Prelude
  imports Main "HOL-Library.Word" "HOL-Library.Multiset"
begin

text \<open>
  Types and lemmas every component shares: Go's machine types (\<open>byte\<close>, \<open>int64\<close> with its
  wrap-around), results as sums, list update by index, and the contract of \<open>sort.Slice\<close>.
\<close>

unbundle bit_operations_syntax

section \<open>Collections of facts\<close>

named_theorems fetch_simps \<open>what a lookup returns after an update\<close>
named_theorems keeps_inv \<open>operations that keep a component's invariant\<close>

section \<open>Machine types\<close>

type_synonym byte = "8 word"
type_synonym bytes = "byte list"

text \<open>
  A Go string is a sequence of bytes, as an Isabelle \<^typ>\<open>string\<close> is; \<open>[]byte(s)\<close> reads
  it as bytes.
\<close>

definition bytes_of_string :: "string \<Rightarrow> bytes" where
  "bytes_of_string s = map of_char s"

text \<open>
  \<open>int64\<close> (and \<open>int\<close>, 64 bits wide on the platforms the program is built for) is an
  \<^typ>\<open>int\<close>; where the code computes with it the wrap-around is written out.
\<close>

definition wrap64 :: "int \<Rightarrow> int" where
  "wrap64 x = (x + 2 ^ 63) mod 2 ^ 64 - 2 ^ 63"

definition in_int64 :: "int \<Rightarrow> bool" where
  "in_int64 x \<longleftrightarrow> - (2 ^ 63) \<le> x \<and> x < 2 ^ 63"

lemma wrap64_id [simp]: "in_int64 x \<Longrightarrow> wrap64 x = x"
  by (simp add: in_int64_def wrap64_def)

lemma in_int64_wrap64 [simp]: "in_int64 (wrap64 x)"
  by (simp add: in_int64_def wrap64_def)

lemma wrap64_add: "wrap64 (wrap64 a + b) = wrap64 (a + b)"
proof -
  have "((a + 2 ^ 63) mod 2 ^ 64 - 2 ^ 63 + b + 2 ^ 63) mod 2 ^ 64 = (a + b + 2 ^ 63) mod (2 ^ 64 :: int)"
    by (simp add: mod_simps algebra_simps)
  then show ?thesis by (simp add: wrap64_def)
qed

lemma wrap64_range: "- (2 ^ 63) \<le> wrap64 x" "wrap64 x < 2 ^ 63"
  using in_int64_wrap64 [of x] by (simp_all add: in_int64_def)

lemma unat_byte_less [simp]: "unat (b :: byte) < 256"
  using unsigned_less [of b] by simp

lemma unat_of_char [simp]: "unat (of_char c :: byte) = of_char c"
proof -
  have "(of_char c :: byte) = word_of_nat (of_char c)"
    by (rule of_nat_of_char [symmetric])
  then have "unat (of_char c :: byte) = take_bit 8 (of_char c)"
    by (simp only: unsigned_of_nat) simp
  also have "\<dots> = (of_char c :: nat) mod 256" by (simp add: take_bit_eq_mod)
  finally show ?thesis by simp
qed

lemma of_char_byte_inject: "of_char c = (of_char d :: byte) \<longleftrightarrow> c = d"
  by (metis unat_of_char of_char_eq_iff)

lemma bytes_of_string_inject [simp]: "bytes_of_string s = bytes_of_string t \<longleftrightarrow> s = t"
  by (simp add: bytes_of_string_def inj_def of_char_byte_inject)

lemma bytes_of_string_append: "bytes_of_string (s @ t) = bytes_of_string s @ bytes_of_string t"
  by (simp add: bytes_of_string_def)

lemma length_bytes_of_string [simp]: "length (bytes_of_string s) = length s"
  by (simp add: bytes_of_string_def)

section \<open>Results\<close>

text \<open>
  A Go function that returns \<open>(T, error)\<close> returns \<open>'e + 't\<close> here: \<^const>\<open>Inl\<close> the error,
  \<^const>\<open>Inr\<close> the value.
\<close>

definition is_ok :: "'e + 'a \<Rightarrow> bool" where
  "is_ok r = (case r of Inl _ \<Rightarrow> False | Inr _ \<Rightarrow> True)"

lemma is_ok_simps [simp]: "\<not> is_ok (Inl e)" "is_ok (Inr x)"
  by (simp_all add: is_ok_def)

lemma is_okE: "is_ok r \<Longrightarrow> (\<And>x. r = Inr x \<Longrightarrow> P) \<Longrightarrow> P"
  by (cases r) auto

lemma option_eqI: "(\<And>x. a = Some x \<longleftrightarrow> b = Some x) \<Longrightarrow> a = b"
  by (cases a; cases b) auto

lemma find_key: "distinct (map f xs) \<Longrightarrow> x \<in> set xs \<Longrightarrow> find (\<lambda>y. f y = f x) xs = Some x"
proof (induction xs)
  case (Cons y ys)
  then show ?case by (cases "x = y") (auto simp: image_iff)
qed simp

section \<open>Sorting\<close>

text \<open>
  \<open>sort.Slice(xs, less)\<close> permutes \<open>xs\<close> so that no later element is \<open>less\<close> than an earlier
  one; it is not stable, so nothing more is known of its result.
\<close>

definition sort_slice_ok :: "('a \<Rightarrow> 'a \<Rightarrow> bool) \<Rightarrow> ('a list \<Rightarrow> 'a list) \<Rightarrow> bool" where
  "sort_slice_ok lt srt \<longleftrightarrow>
     (\<forall>xs. mset (srt xs) = mset xs \<and> sorted_wrt (\<lambda>a b. \<not> lt b a) (srt xs))"

lemma sort_slice_mset: "sort_slice_ok lt srt \<Longrightarrow> mset (srt xs) = mset xs"
  by (simp add: sort_slice_ok_def)

lemma sort_slice_sorted: "sort_slice_ok lt srt \<Longrightarrow> sorted_wrt (\<lambda>a b. \<not> lt b a) (srt xs)"
  by (simp add: sort_slice_ok_def)

lemma sort_slice_set: "sort_slice_ok lt srt \<Longrightarrow> set (srt xs) = set xs"
  by (metis sort_slice_mset set_mset_mset)

lemma sort_slice_length: "sort_slice_ok lt srt \<Longrightarrow> length (srt xs) = length xs"
  by (metis sort_slice_mset size_mset)

lemma sort_slice_distinct: "sort_slice_ok lt srt \<Longrightarrow> distinct (srt xs) = distinct xs"
  by (metis sort_slice_mset mset_eq_imp_distinct_iff)

text \<open>The first elements of a sorted list against the rest of it.\<close>

lemma sorted_wrt_take_drop:
  assumes "sorted_wrt R xs" "x \<in> set (take n xs)" "y \<in> set (drop n xs)"
  shows "R x y"
  using assms by (metis append_take_drop_id sorted_wrt_append)

text \<open>An insertion sort by a strict order, a concrete \<open>sort.Slice\<close>.\<close>

fun insert_by :: "('a \<Rightarrow> 'a \<Rightarrow> bool) \<Rightarrow> 'a \<Rightarrow> 'a list \<Rightarrow> 'a list" where
  "insert_by lt x [] = [x]"
| "insert_by lt x (y # ys) = (if lt y x then y # insert_by lt x ys else x # y # ys)"

fun sort_by :: "('a \<Rightarrow> 'a \<Rightarrow> bool) \<Rightarrow> 'a list \<Rightarrow> 'a list" where
  "sort_by lt [] = []"
| "sort_by lt (x # xs) = insert_by lt x (sort_by lt xs)"

lemma mset_insert_by: "mset (insert_by lt x xs) = add_mset x (mset xs)"
  by (induction xs) auto

lemma set_insert_by [simp]: "set (insert_by lt x xs) = insert x (set xs)"
  by (induction xs) auto

lemma mset_sort_by: "mset (sort_by lt xs) = mset xs"
  by (induction xs) (simp_all add: mset_insert_by)

lemma sorted_insert_by:
  assumes trans: "\<And>a b c. \<not> lt b a \<Longrightarrow> \<not> lt c b \<Longrightarrow> \<not> lt c a"
    and asym: "\<And>a b. lt a b \<Longrightarrow> \<not> lt b a"
    and "sorted_wrt (\<lambda>a b. \<not> lt b a) xs"
  shows "sorted_wrt (\<lambda>a b. \<not> lt b a) (insert_by lt x xs)"
  using assms(3)
proof (induction xs)
  case (Cons y ys)
  show ?case
  proof (cases "lt y x")
    case True
    with Cons asym show ?thesis by auto
  next
    case False
    with Cons trans show ?thesis by auto
  qed
qed simp

lemma sort_by_ok:
  assumes "\<And>a b c. \<not> lt b a \<Longrightarrow> \<not> lt c b \<Longrightarrow> \<not> lt c a"
    and "\<And>a b. lt a b \<Longrightarrow> \<not> lt b a"
  shows "sort_slice_ok lt (sort_by lt)"
proof -
  have "sorted_wrt (\<lambda>a b. \<not> lt b a) (sort_by lt xs)" for xs
    by (induction xs) (simp_all add: sorted_insert_by [OF assms])
  then show ?thesis by (simp add: sort_slice_ok_def mset_sort_by)
qed

section \<open>Cutting a list into pieces\<close>

text \<open>A list is cut at the first occurrence of a separator in one way only.\<close>

lemma cut_at_separator:
  assumes "x \<notin> set a" "x \<notin> set b"
  shows "a @ x # s = b @ x # t \<longleftrightarrow> a = b \<and> s = t"
  using assms
proof (induction a arbitrary: b)
  case Nil
  then show ?case by (cases b) auto
next
  case (Cons y a)
  then show ?case by (cases b) auto
qed

text \<open>Pieces of \<open>n\<close> elements, the last one shorter when \<open>n\<close> does not divide the length.\<close>

function chunks_of :: "nat \<Rightarrow> 'a list \<Rightarrow> 'a list list" where
  "chunks_of n xs = (if n = 0 \<or> xs = [] then [] else take n xs # chunks_of n (drop n xs))"
  by pat_completeness auto
termination
  by (relation "measure (\<lambda>(n, xs). length xs)") auto

declare chunks_of.simps [simp del]

lemma chunks_of_Nil [simp]: "chunks_of n [] = []"
  by (simp add: chunks_of.simps)

lemma chunks_of_step: "0 < n \<Longrightarrow> xs \<noteq> [] \<Longrightarrow> chunks_of n xs = take n xs # chunks_of n (drop n xs)"
  by (simp add: chunks_of.simps [of n xs])

lemma concat_chunks_of: "0 < n \<Longrightarrow> concat (chunks_of n xs) = xs"
proof (induction n xs rule: chunks_of.induct)
  case (1 n xs)
  then show ?case by (cases "xs = []") (simp_all add: chunks_of_step)
qed

lemma chunks_of_sizes:
  assumes "0 < n" "c \<in> set (chunks_of n xs)"
  shows "c \<noteq> [] \<and> length c \<le> n"
  using assms
proof (induction n xs rule: chunks_of.induct)
  case (1 n xs)
  then show ?case by (cases "xs = []") (auto simp: chunks_of_step)
qed

lemma length_chunks_of: "0 < n \<Longrightarrow> length (chunks_of n xs) = (length xs + n - 1) div n"
proof (induction n xs rule: chunks_of.induct)
  case (1 n xs)
  show ?case
  proof (cases "xs = []")
    case False
    then have step: "chunks_of n xs = take n xs # chunks_of n (drop n xs)" and len: "1 \<le> length xs"
      using 1(2) by (simp_all add: chunks_of_step Suc_le_eq)
    show ?thesis
    proof (cases "length xs \<le> n")
      case True
      with len 1(2) have "(length xs + n - 1) div n = 1" by (intro div_nat_eqI) auto
      with True show ?thesis by (simp add: step)
    next
      case longer: False
      with len 1(2) have "length xs + n - 1 = (length xs - n + n - 1) + n" by simp
      then have "(length xs + n - 1) div n = Suc ((length xs - n + n - 1) div n)"
        using 1(2) by (metis div_add_self2 less_not_refl Suc_eq_plus1)
      with longer False 1 show ?thesis by (simp add: step)
    qed
  qed (use 1 in simp)
qed

lemma nth_chunks_of:
  assumes "0 < n" "k < length (chunks_of n xs)"
  shows "chunks_of n xs ! k = take n (drop (k * n) xs)"
  using assms
proof (induction k arbitrary: xs)
  case 0
  then show ?case by (cases "xs = []") (simp_all add: chunks_of_step)
next
  case (Suc k)
  then have "xs \<noteq> []" by auto
  with Suc have "chunks_of n (drop n xs) ! k = take n (drop (k * n) (drop n xs))"
    by (intro Suc.IH) (simp_all add: chunks_of_step)
  with \<open>xs \<noteq> []\<close> Suc.prems(1) show ?case by (simp add: chunks_of_step add.commute)
qed

section \<open>Lists updated by index\<close>

text \<open>
  \<open>xs[i] = v\<close> for an \<open>int\<close> index: out of range the Go program panics, which is \<^const>\<open>None\<close>.
\<close>

definition upd_at :: "'a list \<Rightarrow> int \<Rightarrow> 'a \<Rightarrow> 'a list option" where
  "upd_at xs i v = (if 0 \<le> i \<and> i < int (length xs) then Some (xs[nat i := v]) else None)"

definition get_at :: "'a list \<Rightarrow> int \<Rightarrow> 'a option" where
  "get_at xs i = (if 0 \<le> i \<and> i < int (length xs) then Some (xs ! nat i) else None)"

end
