(* ===== verification/Gostd.thy ===== *)
theory Gostd
  imports Prelude
begin

text \<open>
  What the code uses of Go's standard library beside the hashes: \<open>%d\<close> and \<open>encoding/hex\<close>,
  the ASCII part of \<open>strings\<close>, \<open>encoding/base64\<close>, and the way \<open>encoding/json\<close> maps structs to
  JSON documents and back.
\<close>

section \<open>Decimal numbers (\<open>%d\<close>)\<close>

definition digit_char :: "nat \<Rightarrow> char" where
  "digit_char d = char_of (48 + d)"

fun show_nat :: "nat \<Rightarrow> string" where
  "show_nat n = (if n < 10 then [digit_char n] else show_nat (n div 10) @ [digit_char (n mod 10)])"

declare show_nat.simps [simp del]

definition show_int :: "int \<Rightarrow> string" where
  "show_int i = (if i < 0 then CHR ''-'' # show_nat (nat (- i)) else show_nat (nat i))"

definition read_nat :: "string \<Rightarrow> nat" where
  "read_nat s = foldl (\<lambda>n c. 10 * n + (of_char c - 48)) 0 s"

lemma of_digit_char: "d < 10 \<Longrightarrow> of_char (digit_char d) = 48 + d"
  by (simp add: digit_char_def)

lemma read_show_nat [simp]: "read_nat (show_nat n) = n"
proof (induction n rule: show_nat.induct)
  case (1 n)
  then show ?case
    by (cases "n < 10") (simp_all add: show_nat.simps [of n] read_nat_def of_digit_char)
qed

lemma show_nat_inject [simp]: "show_nat m = show_nat n \<longleftrightarrow> m = n"
  by (metis read_show_nat)

lemma show_nat_digits: "c \<in> set (show_nat n) \<Longrightarrow> 48 \<le> (of_char c :: nat) \<and> (of_char c :: nat) \<le> 57"
proof (induction n rule: show_nat.induct)
  case (1 n)
  then show ?case
    by (cases "n < 10") (auto simp: show_nat.simps [of n] of_digit_char)
qed

lemma show_nat_not: "(of_char c :: nat) < 48 \<or> 57 < (of_char c :: nat) \<Longrightarrow> c \<notin> set (show_nat n)"
  using show_nat_digits by fastforce

lemma show_nat_nonempty [simp]: "show_nat n \<noteq> []"
  by (simp add: show_nat.simps [of n])

lemma show_int_inject [simp]: "show_int i = show_int j \<longleftrightarrow> i = j"
proof -
  have "show_nat n \<noteq> CHR ''-'' # s" for n s
    using show_nat_not [of "CHR ''-''" n] by auto
  then show ?thesis
    by (auto simp: show_int_def) (metis show_nat_inject nat_eq_iff2 neg_0_le_iff_le neg_equal_iff_equal
        int_nat_eq not_less)+
qed

lemma colon_notin_show_int [simp]: "CHR '':'' \<notin> set (show_int i)"
  by (simp add: show_int_def show_nat_not)

section \<open>Hexadecimal (\<open>encoding/hex\<close>)\<close>

definition hex_digit :: "nat \<Rightarrow> char" where
  "hex_digit d = (if d < 10 then char_of (48 + d) else char_of (87 + d))"

definition hex_encode :: "bytes \<Rightarrow> string" where
  "hex_encode bs = concat (map (\<lambda>b. [hex_digit (unat b div 16), hex_digit (unat b mod 16)]) bs)"

lemma length_hex_encode [simp]: "length (hex_encode bs) = 2 * length bs"
  by (induction bs) (simp_all add: hex_encode_def)

lemma of_hex_digit: "d < 16 \<Longrightarrow> of_char (hex_digit d) = (if d < 10 then 48 + d else 87 + d)"
  by (simp add: hex_digit_def)

lemma hex_encode_chars:
  assumes "c \<in> set (hex_encode bs)"
  shows "(48 \<le> (of_char c :: nat) \<and> (of_char c :: nat) \<le> 57) \<or> (97 \<le> (of_char c :: nat) \<and> (of_char c :: nat) \<le> 102)"
proof -
  from assms obtain b where "b \<in> set bs" and "c = hex_digit (unat b div 16) \<or> c = hex_digit (unat b mod 16)"
    by (auto simp: hex_encode_def)
  moreover have "unat b div 16 < 16"
    by (simp add: less_mult_imp_div_less)
  ultimately obtain d where "d < 16" "c = hex_digit d"
    by (metis mod_less_divisor zero_less_numeral)
  then show ?thesis by (auto simp: of_hex_digit)
qed

lemma colon_notin_hex [simp]: "CHR '':'' \<notin> set (hex_encode bs)"
  using hex_encode_chars [of "CHR '':''" bs] by auto

section \<open>ASCII text (\<open>strings\<close>)\<close>

definition to_lower :: "char \<Rightarrow> char" where
  "to_lower c = (let n = of_char c :: nat in if 65 \<le> n \<and> n \<le> 90 then char_of (n + 32) else c)"

definition lower :: "string \<Rightarrow> string" where
  "lower s = map to_lower s"

definition is_space :: "char \<Rightarrow> bool" where
  "is_space c \<longleftrightarrow> (of_char c :: nat) \<in> {9, 10, 11, 12, 13, 32}"

definition trim_space :: "string \<Rightarrow> string" where
  "trim_space s = rev (dropWhile is_space (rev (dropWhile is_space s)))"

lemma lower_idem [simp]: "lower (lower s) = lower s"
proof -
  have "to_lower (to_lower c) = to_lower c" for c
    by (auto simp: to_lower_def Let_def)
  then show ?thesis by (simp add: lower_def)
qed

section \<open>Base64 (\<open>encoding/base64\<close>)\<close>

text \<open>
  \<open>StdEncoding\<close> and \<open>URLEncoding\<close>, both padded; they differ in the last two letters of the
  alphabet. The decoder skips line breaks and, not being in strict mode, ignores the unused
  bits before the padding.
\<close>

datatype b64_encoding = StdEncoding | URLEncoding

definition b64_char :: "b64_encoding \<Rightarrow> nat \<Rightarrow> char" where
  "b64_char e n =
     (if n < 26 then char_of (n + 65) else if n < 52 then char_of (n + 71)
      else if n < 62 then char_of (n - 4)
      else if n = 62 then (case e of StdEncoding \<Rightarrow> CHR ''+'' | URLEncoding \<Rightarrow> CHR ''-'')
      else (case e of StdEncoding \<Rightarrow> CHR ''/'' | URLEncoding \<Rightarrow> CHR ''_''))"

definition b64_val :: "b64_encoding \<Rightarrow> char \<Rightarrow> nat option" where
  "b64_val e c = (let n = of_char c :: nat in
     if 65 \<le> n \<and> n \<le> 90 then Some (n - 65) else if 97 \<le> n \<and> n \<le> 122 then Some (n - 71)
     else if 48 \<le> n \<and> n \<le> 57 then Some (n + 4)
     else if c = (case e of StdEncoding \<Rightarrow> CHR ''+'' | URLEncoding \<Rightarrow> CHR ''-'') then Some 62
     else if c = (case e of StdEncoding \<Rightarrow> CHR ''/'' | URLEncoding \<Rightarrow> CHR ''_'') then Some 63
     else None)"

fun b64_encode :: "b64_encoding \<Rightarrow> bytes \<Rightarrow> string" where
  "b64_encode e (x # y # z # bs) =
     (let n = unat x * 65536 + unat y * 256 + unat z
      in b64_char e (n div 262144) # b64_char e (n div 4096 mod 64) # b64_char e (n div 64 mod 64)
         # b64_char e (n mod 64) # b64_encode e bs)"
| "b64_encode e [x, y] =
     (let n = unat x * 65536 + unat y * 256
      in [b64_char e (n div 262144), b64_char e (n div 4096 mod 64), b64_char e (n div 64 mod 64), CHR ''=''])"
| "b64_encode e [x] =
     (let n = unat x * 65536
      in [b64_char e (n div 262144), b64_char e (n div 4096 mod 64), CHR ''='', CHR ''=''])"
| "b64_encode e [] = []"

fun b64_quads :: "b64_encoding \<Rightarrow> string \<Rightarrow> bytes option" where
  "b64_quads e [] = Some []"
| "b64_quads e (a # b # c # d # rest) =
     (case (b64_val e a, b64_val e b) of
        (Some x, Some y) \<Rightarrow>
          if c = CHR ''='' then
            (if d = CHR ''='' \<and> rest = []
             then Some [word_of_nat ((x * 262144 + y * 4096) div 65536)] else None)
          else (case b64_val e c of
             None \<Rightarrow> None
           | Some z \<Rightarrow>
               let n = x * 262144 + y * 4096 + z * 64 in
               if d = CHR ''='' then
                 (if rest = [] then Some [word_of_nat (n div 65536), word_of_nat (n div 256)] else None)
               else (case b64_val e d of
                  None \<Rightarrow> None
                | Some w \<Rightarrow>
                    (case b64_quads e rest of
                       None \<Rightarrow> None
                     | Some bs \<Rightarrow> Some (word_of_nat (n div 65536) # word_of_nat (n div 256)
                                        # word_of_nat (n + w) # bs))))
      | _ \<Rightarrow> None)"
| "b64_quads e _ = None"

definition b64_decode :: "b64_encoding \<Rightarrow> string \<Rightarrow> bytes option" where
  "b64_decode e s = b64_quads e (filter (\<lambda>c. (of_char c :: nat) \<notin> {10, 13}) s)"

lemma b64_val_char [simp]: "n < 64 \<Longrightarrow> b64_val e (b64_char e n) = Some n"
  by (auto simp: b64_val_def b64_char_def Let_def split: b64_encoding.splits)

lemma b64_char_not:
  assumes "n < 64"
  shows "b64_char e n \<noteq> CHR ''=''" and "(of_char (b64_char e n) :: nat) \<notin> {10, 13}"
proof -
  have "b64_val e (CHR ''='') = None" by (cases e) (simp_all add: b64_val_def)
  then show "b64_char e n \<noteq> CHR ''=''" using b64_val_char [OF assms, of e] by auto
  show "(of_char (b64_char e n) :: nat) \<notin> {10, 13}"
    using assms by (auto simp: b64_char_def split: b64_encoding.splits)
qed

lemma word_byte_eq: "n mod 256 = unat b \<Longrightarrow> word_of_nat n = (b :: byte)"
  by (simp add: word_unat_eq_iff unsigned_of_nat take_bit_eq_mod)

text \<open>The four 6-bit digits of three bytes, and the bytes read back from them.\<close>

lemma b64_digits:
  fixes x y z :: byte
  assumes n: "n = unat x * 65536 + unat y * 256 + unat z"
  defines "a \<equiv> n div 262144" and "b \<equiv> n div 4096 mod 64" and "c \<equiv> n div 64 mod 64" and "d \<equiv> n mod 64"
  shows "a < 64" "b < 64" "c < 64" "d < 64"
    and "word_of_nat ((a * 262144 + b * 4096 + c * 64) div 65536) = x"
    and "word_of_nat ((a * 262144 + b * 4096 + c * 64) div 256) = y"
    and "word_of_nat (a * 262144 + b * 4096 + c * 64 + d) = z"
proof -
  have le: "unat x < 256" "unat y < 256" "unat z < 256" by simp_all
  have "n < 64 * 262144" using le unfolding n by linarith
  then show "a < 64" unfolding a_def by (rule less_mult_imp_div_less)
  have e1: "n = n div 64 * 64 + d" by (simp add: d_def)
  have e2: "n div 64 = n div 4096 * 64 + c"
    using div_mult_mod_eq [of "n div 64" 64] by (simp add: c_def flip: div_mult2_eq)
  have e3: "n div 4096 = a * 64 + b"
    using div_mult_mod_eq [of "n div 4096" 64] by (simp add: a_def b_def flip: div_mult2_eq)
  have hi: "a * 262144 + b * 4096 + c * 64 = n div 64 * 64" using e2 e3 by linarith
  have "n div 64 * 64 div 65536 = n div 65536" "n div 64 * 64 div 256 = n div 256"
    using div_mult2_eq [of "n div 64 * 64" 64 1024] div_mult2_eq [of "n div 64 * 64" 64 4]
    by (simp_all flip: div_mult2_eq)
  moreover have "unat y * 256 + unat z < 65536" using le by linarith
  then have "n div 65536 = unat x" unfolding n by simp
  moreover have n2: "n = (unat x * 256 + unat y) * 256 + unat z" unfolding n by simp
  then have "n div 256 = unat x * 256 + unat y"
    by (simp only: div_mult_self3 div_less le(3))
  moreover have "n mod 256 = unat z"
    using n2 by (simp only: mod_mult_self3 mod_less le(3))
  ultimately have "n div 64 * 64 div 65536 mod 256 = unat x" "n div 64 * 64 div 256 mod 256 = unat y"
    "(n div 64 * 64 + d) mod 256 = unat z"
    using le e1 by simp_all
  then show "word_of_nat ((a * 262144 + b * 4096 + c * 64) div 65536) = x"
    "word_of_nat ((a * 262144 + b * 4096 + c * 64) div 256) = y"
    "word_of_nat (a * 262144 + b * 4096 + c * 64 + d) = z"
    unfolding hi by (simp_all only: word_byte_eq)
qed (simp_all add: b_def c_def d_def)

lemma b64_quads_encode: "b64_quads e (b64_encode e bs) = Some bs"
proof (induction e bs rule: b64_encode.induct)
  case (1 e x y z bs)
  define n where "n = unat x * 65536 + unat y * 256 + unat z"
  define a b c d where abcd: "a = n div 262144" "b = n div 4096 mod 64" "c = n div 64 mod 64" "d = n mod 64"
  have enc: "b64_encode e (x # y # z # bs) =
      b64_char e a # b64_char e b # b64_char e c # b64_char e d # b64_encode e bs"
    by (simp add: Let_def n_def abcd)
  note digits = b64_digits [OF n_def, folded abcd]
  show ?case
    unfolding enc using 1 digits b64_char_not(1)
    by (simp add: Let_def del: of_nat_add of_nat_mult)
next
  case (2 e x y)
  define n where "n = unat x * 65536 + unat y * 256 + unat (0 :: byte)"
  define a b c where abc: "a = n div 262144" "b = n div 4096 mod 64" "c = n div 64 mod 64"
  have enc: "b64_encode e [x, y] = [b64_char e a, b64_char e b, b64_char e c, CHR ''='']"
    by (simp add: Let_def n_def abc)
  note digits = b64_digits [OF n_def, folded abc]
  show ?case
    unfolding enc using digits b64_char_not(1)
    by (simp add: Let_def del: of_nat_add of_nat_mult)
next
  case (3 e x)
  define n where "n = unat x * 65536 + unat (0 :: byte) * 256 + unat (0 :: byte)"
  define a b where ab: "a = n div 262144" "b = n div 4096 mod 64"
  have enc: "b64_encode e [x] = [b64_char e a, b64_char e b, CHR ''='', CHR ''='']"
    by (simp add: Let_def n_def ab)
  have "n div 64 mod 64 = 0" by (simp add: n_def)
  with b64_digits [OF n_def, folded ab] show ?case
    unfolding enc by (simp add: Let_def del: of_nat_add of_nat_mult)
qed simp

lemma b64_encode_no_breaks: "list_all (\<lambda>c. (of_char c :: nat) \<notin> {10, 13}) (b64_encode e bs)"
proof (induction e bs rule: b64_encode.induct)
  case (1 e x y z bs)
  define n where "n = unat x * 65536 + unat y * 256 + unat z"
  note b64_digits(1-4) [OF n_def, THEN b64_char_not(2)]
  with 1 show ?case by (simp add: Let_def flip: n_def)
next
  case (2 e x y)
  define n where "n = unat x * 65536 + unat y * 256 + unat (0 :: byte)"
  have enc: "b64_encode e [x, y] =
      [b64_char e (n div 262144), b64_char e (n div 4096 mod 64), b64_char e (n div 64 mod 64), CHR ''='']"
    by (simp add: Let_def n_def)
  show ?case unfolding enc using b64_digits(1-3) [OF n_def, THEN b64_char_not(2)] by simp
next
  case (3 e x)
  define n where "n = unat x * 65536 + unat (0 :: byte) * 256 + unat (0 :: byte)"
  have enc: "b64_encode e [x] =
      [b64_char e (n div 262144), b64_char e (n div 4096 mod 64), CHR ''='', CHR ''='']"
    by (simp add: Let_def n_def)
  show ?case unfolding enc using b64_digits(1-2) [OF n_def, THEN b64_char_not(2)] by simp
qed simp

lemma b64_roundtrip [simp]: "b64_decode e (b64_encode e bs) = Some bs"
proof -
  have "filter (\<lambda>c. (of_char c :: nat) \<notin> {10, 13}) (b64_encode e bs) = b64_encode e bs"
    using b64_encode_no_breaks [of e bs] by (simp add: filter_id_conv list_all_iff)
  then show ?thesis by (simp add: b64_decode_def b64_quads_encode)
qed

end
