(* ===== verification/Json.thy ===== *)
theory Json
  imports Gostd
begin

text \<open>
  \<open>encoding/json\<close> as the code uses it. A struct is mapped to a JSON document field by field, in
  the order and under the names its tags give, and read back from one by \<open>json.Unmarshal\<close>'s
  rules: object members are taken in their order, a member that names no field is ignored, a
  name matches a field in any case, \<open>null\<close> leaves a scalar alone, and a member of the wrong
  kind is an error. The text of a document is produced and parsed by the functions of
  \<open>json_codec\<close>, which are parameters of the model: what the code relies on is
  \<open>json_codec_ok\<close>, that a well-formed document is read back from its own text.
\<close>

section \<open>Documents\<close>

datatype json =
    JNull
  | JBool bool
  | JInt int            \<comment> \<open>a number literal without fraction or exponent\<close>
  | JFloat string       \<comment> \<open>any other number literal\<close>
  | JStr string
  | JArr "json list"
  | JObj "(string \<times> json) list"

text \<open>\<open>utf8.Valid\<close>: \<open>json.Marshal\<close> rewrites any other string.\<close>

definition utf8_cont :: "nat \<Rightarrow> bool" where
  "utf8_cont n \<longleftrightarrow> 128 \<le> n \<and> n < 192"

fun utf8_codes :: "nat list \<Rightarrow> bool" where
  "utf8_codes [] = True"
| "utf8_codes (a # as) =
     (if a < 128 then utf8_codes as
      else case as of [] \<Rightarrow> False | b # bs \<Rightarrow>
        if 194 \<le> a \<and> a < 224 then utf8_cont b \<and> utf8_codes bs
        else case bs of [] \<Rightarrow> False | c # cs \<Rightarrow>
          if 224 \<le> a \<and> a < 240
          then utf8_cont b \<and> (a = 224 \<longrightarrow> 160 \<le> b) \<and> (a = 237 \<longrightarrow> b < 160) \<and> utf8_cont c \<and> utf8_codes cs
          else case cs of [] \<Rightarrow> False | d # ds \<Rightarrow>
            240 \<le> a \<and> a < 245 \<and> utf8_cont b \<and> (a = 240 \<longrightarrow> 144 \<le> b) \<and> (a = 244 \<longrightarrow> b < 144)
            \<and> utf8_cont c \<and> utf8_cont d \<and> utf8_codes ds)"

definition utf8_valid :: "string \<Rightarrow> bool" where
  "utf8_valid s = utf8_codes (map of_char s)"

fun json_depth :: "json \<Rightarrow> nat" where
  "json_depth (JArr vs) = Suc (foldr max (map json_depth vs) 0)"
| "json_depth (JObj kvs) = Suc (foldr max (map (\<lambda>kv. json_depth (snd kv)) kvs) 0)"
| "json_depth _ = 0"

fun json_strings_ok :: "json \<Rightarrow> bool" where
  "json_strings_ok (JStr s) = utf8_valid s"
| "json_strings_ok (JFloat _) = False"
| "json_strings_ok (JArr vs) = list_all json_strings_ok vs"
| "json_strings_ok (JObj kvs) = list_all (\<lambda>kv. utf8_valid (fst kv) \<and> json_strings_ok (snd kv)) kvs"
| "json_strings_ok _ = True"

text \<open>What the parser yields: it replaces what is not UTF-8 in a string.\<close>

fun json_utf8 :: "json \<Rightarrow> bool" where
  "json_utf8 (JStr s) = utf8_valid s"
| "json_utf8 (JArr vs) = list_all json_utf8 vs"
| "json_utf8 (JObj kvs) = list_all (\<lambda>kv. json_utf8 (snd kv)) kvs"
| "json_utf8 _ = True"

text \<open>
  Well-formed: only UTF-8 strings, no fractional numbers, and no deeper than the parser goes
  (it refuses more than 10000 levels).
\<close>

definition json_ok :: "json \<Rightarrow> bool" where
  "json_ok v \<longleftrightarrow> json_strings_ok v \<and> json_depth v \<le> 10000"

lemma utf8_codes_ascii: "list_all (\<lambda>n. n < 128) ns \<Longrightarrow> utf8_codes ns"
  by (induction ns) auto

lemma utf8_valid_ascii: "list_all (\<lambda>c. (of_char c :: nat) < 128) s \<Longrightarrow> utf8_valid s"
  by (simp add: utf8_valid_def utf8_codes_ascii list.pred_map comp_def)

lemma utf8_valid_b64 [simp]: "utf8_valid (b64_encode e bs)"
proof -
  have "(of_char (b64_char e n) :: nat) < 128" if "n < 64" for n
    using that by (auto simp: b64_char_def split: b64_encoding.splits)
  moreover have "n div 4096 mod 64 < (64 :: nat)" for n :: nat by simp
  ultimately have "list_all (\<lambda>c. (of_char c :: nat) < 128) (b64_encode e bs)"
  proof (induction e bs rule: b64_encode.induct)
    case (1 e x y z bs)
    then show ?case using b64_digits(1) [OF refl, of x y z] by (simp add: Let_def)
  next
    case (2 e x y)
    then show ?case using b64_digits(1) [OF refl, of x y 0] by (simp add: Let_def)
  next
    case (3 e x)
    then show ?case using b64_digits(1) [OF refl, of x 0 0] by (simp add: Let_def)
  qed simp
  then show ?thesis by (rule utf8_valid_ascii)
qed

section \<open>Text\<close>

record json_codec =
  json_marshal :: "json \<Rightarrow> bytes"           \<comment> \<open>\<open>json.Marshal\<close>\<close>
  json_unmarshal :: "bytes \<Rightarrow> json option"  \<comment> \<open>\<open>json.Unmarshal\<close>: the whole input is one document\<close>
  json_decode :: "bytes \<Rightarrow> json option"     \<comment> \<open>\<open>json.NewDecoder(r).Decode\<close>: the first document of the input\<close>

text \<open>\<open>json.NewEncoder(w).Encode\<close> ends the text with a newline.\<close>

definition json_encode :: "json_codec \<Rightarrow> json \<Rightarrow> bytes" where
  "json_encode jc v = json_marshal jc v @ [10]"

definition json_codec_ok :: "json_codec \<Rightarrow> bool" where
  "json_codec_ok jc \<longleftrightarrow>
     (\<forall>v. json_ok v \<longrightarrow> json_unmarshal jc (json_marshal jc v) = Some v
        \<and> json_decode jc (json_marshal jc v) = Some v \<and> json_decode jc (json_encode jc v) = Some v)
     \<and> (\<forall>bs v. json_unmarshal jc bs = Some v \<or> json_decode jc bs = Some v \<longrightarrow> json_utf8 v)"

lemma json_codec_utf8:
  "json_codec_ok jc \<Longrightarrow> json_unmarshal jc bs = Some v \<Longrightarrow> json_utf8 v"
  "json_codec_ok jc \<Longrightarrow> json_decode jc bs = Some v \<Longrightarrow> json_utf8 v"
  by (auto simp: json_codec_ok_def)

lemma json_strings_utf8: "json_strings_ok v \<Longrightarrow> json_utf8 v"
  by (induction v rule: json_utf8.induct) (auto simp: list_all_iff)

lemma json_codec_okD:
  assumes "json_codec_ok jc" "json_ok v"
  shows "json_unmarshal jc (json_marshal jc v) = Some v"
    and "json_decode jc (json_marshal jc v) = Some v"
    and "json_decode jc (json_encode jc v) = Some v"
  using assms by (simp_all add: json_codec_ok_def)

section \<open>Fields\<close>

text \<open>Whether an object member is the field with this (lower-case) tag.\<close>

definition field_is :: "string \<Rightarrow> string \<Rightarrow> bool" where
  "field_is tag k \<longleftrightarrow> lower k = tag"

definition dec_string :: "json \<Rightarrow> string \<Rightarrow> string option" where
  "dec_string v old = (case v of JStr s \<Rightarrow> Some s | JNull \<Rightarrow> Some old | _ \<Rightarrow> None)"

definition dec_bool :: "json \<Rightarrow> bool \<Rightarrow> bool option" where
  "dec_bool v old = (case v of JBool b \<Rightarrow> Some b | JNull \<Rightarrow> Some old | _ \<Rightarrow> None)"

text \<open>Integers of type \<open>int64\<close> or \<open>int\<close>, and of type \<open>uint8\<close>.\<close>

definition dec_int64 :: "json \<Rightarrow> int \<Rightarrow> int option" where
  "dec_int64 v old =
     (case v of JInt i \<Rightarrow> if in_int64 i then Some i else None | JNull \<Rightarrow> Some old | _ \<Rightarrow> None)"

definition dec_uint8 :: "json \<Rightarrow> int \<Rightarrow> int option" where
  "dec_uint8 v old =
     (case v of JInt i \<Rightarrow> if 0 \<le> i \<and> i < 256 then Some i else None | JNull \<Rightarrow> Some old | _ \<Rightarrow> None)"

fun dec_list :: "(json \<Rightarrow> 'a option) \<Rightarrow> json list \<Rightarrow> 'a list option" where
  "dec_list f [] = Some []"
| "dec_list f (v # vs) =
     (case f v of None \<Rightarrow> None
      | Some x \<Rightarrow> (case dec_list f vs of None \<Rightarrow> None | Some xs \<Rightarrow> Some (x # xs)))"

text \<open>
  \<open>[]byte\<close>: base64 text, or an array of numbers; \<open>null\<close> is the nil slice. \<open>[32]byte\<close>: an array
  of numbers, filled up with zeros when it is short and cut when it is long.
\<close>

definition dec_byte :: "json \<Rightarrow> byte option" where
  "dec_byte v = map_option word_of_int (dec_uint8 v 0)"

definition dec_bytes :: "json \<Rightarrow> bytes option" where
  "dec_bytes v =
     (case v of JStr s \<Rightarrow> b64_decode StdEncoding s | JArr vs \<Rightarrow> dec_list dec_byte vs
      | JNull \<Rightarrow> Some [] | _ \<Rightarrow> None)"

definition dec_bytes32 :: "json \<Rightarrow> bytes \<Rightarrow> bytes option" where
  "dec_bytes32 v old =
     (case v of JArr vs \<Rightarrow>
        map_option (\<lambda>bs. bs @ replicate (32 - length bs) 0) (dec_list dec_byte (take 32 vs))
      | JNull \<Rightarrow> Some old | _ \<Rightarrow> None)"

definition enc_bytes :: "bytes \<Rightarrow> json" where
  "enc_bytes bs = JStr (b64_encode StdEncoding bs)"

definition enc_bytes32 :: "bytes \<Rightarrow> json" where
  "enc_bytes32 bs = JArr (map (\<lambda>b. JInt (uint b)) bs)"

text \<open>The members of an object, each stored by the struct's own \<open>put\<close>.\<close>

fun fold_members :: "(string \<Rightarrow> json \<Rightarrow> 'r \<Rightarrow> 'r option) \<Rightarrow> (string \<times> json) list \<Rightarrow> 'r \<Rightarrow> 'r option" where
  "fold_members put [] r = Some r"
| "fold_members put ((k, v) # kvs) r =
     (case put k v r of None \<Rightarrow> None | Some r' \<Rightarrow> fold_members put kvs r')"

definition dec_struct :: "(string \<Rightarrow> json \<Rightarrow> 'r \<Rightarrow> 'r option) \<Rightarrow> 'r \<Rightarrow> json \<Rightarrow> 'r option" where
  "dec_struct put zero v =
     (case v of JObj kvs \<Rightarrow> fold_members put kvs zero | JNull \<Rightarrow> Some zero | _ \<Rightarrow> None)"

text \<open>A property of the struct that every assignment keeps holds of what is read.\<close>

lemma dec_struct_keeps:
  assumes "dec_struct put r v = Some r'" "json_utf8 v" "P r"
    and "\<And>k u q q'. P q \<Longrightarrow> json_utf8 u \<Longrightarrow> put k u q = Some q' \<Longrightarrow> P q'"
  shows "P r'"
proof -
  have "P q'" if "fold_members put kvs q = Some q'" "list_all (\<lambda>kv. json_utf8 (snd kv)) kvs" "P q" for kvs q q'
    using that
  proof (induction kvs arbitrary: q)
    case (Cons kv kvs)
    obtain k u where kv: "kv = (k, u)" by (cases kv)
    with Cons.prems obtain q1 where q1: "put k u q = Some q1" "fold_members put kvs q1 = Some q'"
      by (auto split: option.splits)
    have "P q1" by (rule assms(4) [OF Cons.prems(3) _ q1(1)]) (use Cons.prems(2) kv in simp)
    with Cons.IH [OF q1(2)] Cons.prems(2) show ?case by simp
  qed simp
  with assms(1-3) show ?thesis by (auto simp: dec_struct_def split: json.splits)
qed

text \<open>A slice of structs; \<open>null\<close> is the nil slice.\<close>

definition dec_structs :: "(string \<Rightarrow> json \<Rightarrow> 'r \<Rightarrow> 'r option) \<Rightarrow> 'r \<Rightarrow> json \<Rightarrow> 'r list option" where
  "dec_structs put zero v =
     (case v of JArr vs \<Rightarrow> dec_list (dec_struct put zero) vs | JNull \<Rightarrow> Some [] | _ \<Rightarrow> None)"

section \<open>Round trips of the fields\<close>

lemma dec_list_map: "(\<And>x. x \<in> set xs \<Longrightarrow> f (g x) = Some x) \<Longrightarrow> dec_list f (map g xs) = Some xs"
  by (induction xs) auto

lemma dec_byte_uint [simp]: "dec_byte (JInt (uint b)) = Some b"
  using unsigned_less [of b] by (simp add: dec_byte_def dec_uint8_def)

lemma dec_bytes_enc [simp]: "dec_bytes (enc_bytes bs) = Some bs"
  by (simp add: dec_bytes_def enc_bytes_def)

lemma dec_bytes32_enc [simp]: "length bs = 32 \<Longrightarrow> dec_bytes32 (enc_bytes32 bs) old = Some bs"
  by (simp add: dec_bytes32_def enc_bytes32_def dec_list_map)

lemma dec_scalars [simp]:
  "dec_string (JStr s) old = Some s"
  "dec_bool (JBool b) old_b = Some b"
  "in_int64 i \<Longrightarrow> dec_int64 (JInt i) old_i = Some i"
  "0 \<le> i \<Longrightarrow> i < 256 \<Longrightarrow> dec_uint8 (JInt i) old_i = Some i"
  by (simp_all add: dec_string_def dec_bool_def dec_int64_def dec_uint8_def)

lemma json_strings_enc [simp]:
  "json_strings_ok (enc_bytes bs)" "json_strings_ok (enc_bytes32 bs)"
  by (simp_all add: enc_bytes_def enc_bytes32_def list.pred_map comp_def list.pred_True)

lemma json_depth_enc [simp]:
  "json_depth (enc_bytes bs) = 0" "json_depth (enc_bytes32 bs) = 1"
proof -
  have "foldr max (map (json_depth \<circ> (\<lambda>b. JInt (uint b))) bs) 0 = 0" by (induction bs) auto
  then show "json_depth (enc_bytes bs) = 0" "json_depth (enc_bytes32 bs) = 1"
    by (simp_all add: enc_bytes_def enc_bytes32_def)
qed

lemma json_depth_JArr:
  assumes "list_all (\<lambda>v. json_depth v \<le> n) vs"
  shows "json_depth (JArr vs) \<le> Suc n"
proof -
  have "foldr max (map json_depth vs) 0 \<le> n" using assms by (induction vs) auto
  then show ?thesis by simp
qed

section \<open>Struct types\<close>

text \<open>
  A struct type is given by how it is written, how a member is assigned, and its zero value; a
  value of it makes the round trip when its document is well-formed and read back to it.
\<close>

definition struct_codec :: "('r \<Rightarrow> json) \<Rightarrow> (string \<Rightarrow> json \<Rightarrow> 'r \<Rightarrow> 'r option) \<Rightarrow> 'r \<Rightarrow> 'r \<Rightarrow> bool" where
  "struct_codec to_json put zero r \<longleftrightarrow>
     json_strings_ok (to_json r) \<and> json_depth (to_json r) \<le> 10 \<and> dec_struct put zero (to_json r) = Some r"

definition unmarshal_struct ::
    "json_codec \<Rightarrow> (string \<Rightarrow> json \<Rightarrow> 'r \<Rightarrow> 'r option) \<Rightarrow> 'r \<Rightarrow> bytes \<Rightarrow> 'r option" where
  "unmarshal_struct jc put zero bs = Option.bind (json_unmarshal jc bs) (dec_struct put zero)"

definition unmarshal_structs ::
    "json_codec \<Rightarrow> (string \<Rightarrow> json \<Rightarrow> 'r \<Rightarrow> 'r option) \<Rightarrow> 'r \<Rightarrow> bytes \<Rightarrow> 'r list option" where
  "unmarshal_structs jc put zero bs = Option.bind (json_unmarshal jc bs) (dec_structs put zero)"

lemma struct_codec_json_ok: "struct_codec to_json put zero r \<Longrightarrow> json_ok (to_json r)"
  by (simp add: struct_codec_def json_ok_def)

lemma struct_codec_dec: "struct_codec to_json put zero r \<Longrightarrow> dec_struct put zero (to_json r) = Some r"
  by (simp add: struct_codec_def)

lemma unmarshal_marshal:
  "json_codec_ok jc \<Longrightarrow> struct_codec to_json put zero r \<Longrightarrow>
     unmarshal_struct jc put zero (json_marshal jc (to_json r)) = Some r"
  by (simp add: unmarshal_struct_def json_codec_okD(1) struct_codec_json_ok struct_codec_dec)

text \<open>Slices of structs; the nil slice and an empty one are the same list, and read back as one.\<close>

definition enc_structs :: "('r \<Rightarrow> json) \<Rightarrow> 'r list \<Rightarrow> json" where
  "enc_structs to_json rs = JArr (map to_json rs)"

lemma dec_structs_enc:
  "(\<And>r. r \<in> set rs \<Longrightarrow> struct_codec to_json put zero r) \<Longrightarrow> dec_structs put zero (enc_structs to_json rs) = Some rs"
  by (simp add: dec_structs_def enc_structs_def dec_list_map struct_codec_dec)

lemma enc_structs_json:
  assumes "\<And>r. r \<in> set rs \<Longrightarrow> struct_codec to_json put zero r"
  shows "json_strings_ok (enc_structs to_json rs)" "json_depth (enc_structs to_json rs) \<le> 11"
proof -
  show "json_strings_ok (enc_structs to_json rs)"
    using assms by (auto simp: enc_structs_def list_all_iff struct_codec_def)
  have "json_depth (JArr (map to_json rs)) \<le> Suc 10"
    using assms by (intro json_depth_JArr) (auto simp: list_all_iff struct_codec_def)
  then show "json_depth (enc_structs to_json rs) \<le> 11" by (simp add: enc_structs_def)
qed

lemma unmarshal_marshal_structs:
  assumes "json_codec_ok jc" "\<And>r. r \<in> set rs \<Longrightarrow> struct_codec to_json put zero r"
  shows "unmarshal_structs jc put zero (json_marshal jc (enc_structs to_json rs)) = Some rs"
proof -
  have "json_ok (enc_structs to_json rs)"
    using enc_structs_json [of rs, OF assms(2)] by (simp add: json_ok_def)
  moreover have "dec_structs put zero (enc_structs to_json rs) = Some rs"
    by (rule dec_structs_enc) (rule assms(2))
  ultimately show ?thesis
    by (simp add: unmarshal_structs_def json_codec_okD(1) [OF assms(1)])
qed

end
