(* ===== verification/JsonText.thy ===== *)
theory JsonText
  imports Json
begin

text \<open>
  A concrete pair of functions that meets \<open>json_codec_ok\<close>, for the witnesses: a document is
  written in a self-delimiting binary form (a tag, and for strings, arrays and objects a 1
  before each element and a 0 at the end). It is not the text Go writes; the development rests
  on \<open>json_codec_ok\<close> alone.
\<close>

fun ser_string :: "string \<Rightarrow> bytes" where
  "ser_string [] = [0]"
| "ser_string (c # cs) = 1 # of_char c # ser_string cs"

fun par_string :: "bytes \<Rightarrow> (string \<times> bytes) option" where
  "par_string (t # bs) =
     (if t = 0 then Some ([], bs)
      else case bs of [] \<Rightarrow> None
        | b # bs' \<Rightarrow> (case par_string bs' of None \<Rightarrow> None | Some (s, r) \<Rightarrow> Some (char_of (unat b) # s, r)))"
| "par_string [] = None"

lemma par_ser_string [simp]: "par_string (ser_string s @ r) = Some (s, r)"
  by (induction s) auto

definition read_int :: "string \<Rightarrow> int" where
  "read_int s = (case s of [] \<Rightarrow> 0 | c # cs \<Rightarrow> if c = CHR ''-'' then - int (read_nat cs) else int (read_nat s))"

lemma read_show_int [simp]: "read_int (show_int i) = i"
proof (cases "i < 0")
  case False
  obtain c cs where nat: "show_nat (nat i) = c # cs" by (cases "show_nat (nat i)") auto
  then have "c \<noteq> CHR ''-''" using show_nat_not [of "CHR ''-''" "nat i"] by auto
  with False nat read_show_nat [of "nat i"] show ?thesis by (simp add: read_int_def show_int_def)
qed (simp add: read_int_def show_int_def)

fun ser :: "json \<Rightarrow> bytes" where
  "ser JNull = [0]"
| "ser (JBool b) = [1, if b then 1 else 0]"
| "ser (JInt i) = 2 # ser_string (show_int i)"
| "ser (JFloat s) = 3 # ser_string s"
| "ser (JStr s) = 4 # ser_string s"
| "ser (JArr vs) = 5 # concat (map (\<lambda>v. 1 # ser v) vs) @ [0]"
| "ser (JObj kvs) = 6 # concat (map (\<lambda>kv. 1 # ser_string (fst kv) @ ser (snd kv)) kvs) @ [0]"

text \<open>The parsers spend one unit of fuel per element; the length of the input is enough.\<close>

fun par :: "nat \<Rightarrow> bytes \<Rightarrow> (json \<times> bytes) option"
  and par_arr :: "nat \<Rightarrow> bytes \<Rightarrow> (json list \<times> bytes) option"
  and par_obj :: "nat \<Rightarrow> bytes \<Rightarrow> ((string \<times> json) list \<times> bytes) option" where
  "par 0 _ = None"
| "par (Suc n) [] = None"
| "par (Suc n) (t # bs) =
     (if t = 0 then Some (JNull, bs)
      else if t = 1 then (case bs of [] \<Rightarrow> None | b # bs' \<Rightarrow> Some (JBool (b = 1), bs'))
      else if t = 2 then map_option (\<lambda>(s, r). (JInt (read_int s), r)) (par_string bs)
      else if t = 3 then map_option (\<lambda>(s, r). (JFloat s, r)) (par_string bs)
      else if t = 4 then map_option (\<lambda>(s, r). (JStr s, r)) (par_string bs)
      else if t = 5 then map_option (\<lambda>(vs, r). (JArr vs, r)) (par_arr n bs)
      else if t = 6 then map_option (\<lambda>(kvs, r). (JObj kvs, r)) (par_obj n bs)
      else None)"
| "par_arr 0 _ = None"
| "par_arr (Suc n) [] = None"
| "par_arr (Suc n) (t # bs) =
     (if t = 0 then Some ([], bs)
      else case par n bs of None \<Rightarrow> None
        | Some (v, r) \<Rightarrow> map_option (\<lambda>(vs, r'). (v # vs, r')) (par_arr n r))"
| "par_obj 0 _ = None"
| "par_obj (Suc n) [] = None"
| "par_obj (Suc n) (t # bs) =
     (if t = 0 then Some ([], bs)
      else case par_string bs of None \<Rightarrow> None
        | Some (k, r) \<Rightarrow> (case par n r of None \<Rightarrow> None
            | Some (v, r') \<Rightarrow> map_option (\<lambda>(kvs, r''). ((k, v) # kvs, r'')) (par_obj n r')))"

lemma ser_nonempty: "0 < length (ser v)"
  by (cases v) simp_all

lemma par_ser: "length (ser v) < n \<Longrightarrow> par n (ser v @ r) = Some (v, r)"
proof (induction v arbitrary: n r rule: ser.induct)
  case (6 vs)
  have arr: "length (concat (map (\<lambda>v. 1 # ser v) ws)) < m \<Longrightarrow> set ws \<subseteq> set vs \<Longrightarrow>
      par_arr m (concat (map (\<lambda>v. 1 # ser v) ws) @ 0 # r) = Some (ws, r)" for ws m
  proof (induction ws arbitrary: m)
    case Nil
    then show ?case by (cases m) auto
  next
    case (Cons w ws)
    then obtain m' where m: "m = Suc m'" by (cases m) auto
    with Cons.prems "6.IH" [of w m'] ser_nonempty [of w] Cons.IH [of m'] show ?case by auto
  qed
  from "6.prems" arr [of vs "n - 1"] show ?case by (cases n) auto
next
  case (7 kvs)
  have obj: "length (concat (map (\<lambda>kv. 1 # ser_string (fst kv) @ ser (snd kv)) ws)) < m \<Longrightarrow> set ws \<subseteq> set kvs \<Longrightarrow>
      par_obj m (concat (map (\<lambda>kv. 1 # ser_string (fst kv) @ ser (snd kv)) ws) @ 0 # r) = Some (ws, r)" for ws m
  proof (induction ws arbitrary: m)
    case Nil
    then show ?case by (cases m) auto
  next
    case (Cons w ws)
    then obtain m' where m: "m = Suc m'" by (cases m) auto
    with Cons.prems "7.IH" [of w m'] ser_nonempty [of "snd w"] Cons.IH [of m'] show ?case by auto
  qed
  from "7.prems" obj [of kvs "n - 1"] show ?case by (cases n) auto
qed (case_tac [!] n, auto)

text \<open>What is not UTF-8 is not accepted.\<close>

definition checked :: "json option \<Rightarrow> json option" where
  "checked r = (case r of None \<Rightarrow> None | Some v \<Rightarrow> if json_utf8 v then Some v else None)"

definition par_whole :: "bytes \<Rightarrow> json option" where
  "par_whole bs = (case par (Suc (length bs)) bs of Some (v, []) \<Rightarrow> Some v | _ \<Rightarrow> None)"

definition par_first :: "bytes \<Rightarrow> json option" where
  "par_first bs = map_option fst (par (Suc (length bs)) bs)"

definition ser_codec :: json_codec where
  "ser_codec = \<lparr>json_marshal = ser, json_unmarshal = (\<lambda>bs. checked (par_whole bs)),
     json_decode = (\<lambda>bs. checked (par_first bs))\<rparr>"

lemma ser_codec_ok: "json_codec_ok ser_codec"
proof -
  have "par (Suc (length (ser v @ r))) (ser v @ r) = Some (v, r)" for v r
    by (rule par_ser) simp
  from this [of _ "[]"] this [of _ "[10]"] show ?thesis
    by (auto simp: json_codec_ok_def ser_codec_def par_whole_def par_first_def json_encode_def checked_def
        json_ok_def json_strings_utf8 split: option.splits if_splits)
qed

end
