(* ===== verification/Chunker.thy ===== *)
theory Chunker
  imports Sha256
begin

text \<open>
  \<open>internal/chunker/chunker.go\<close>: a stream is cut into chunks of a fixed size, each with its
  index and SHA-256; the chunks are checked and written back in order. A reader is the pieces
  its \<open>Read\<close> will return, in their order, and the error after the last of them, so a file, a
  network stream and a reader with short or empty reads are all readers.
\<close>

section \<open>Readers and writers (\<open>io\<close>)\<close>

datatype io_err = EOF | UnexpectedEOF | IOError string

record reader =
  rd_pieces :: "bytes list"
  rd_end :: io_err

definition rd_content :: "reader \<Rightarrow> bytes" where
  "rd_content r = concat (rd_pieces r)"

text \<open>\<open>r.Read(p)\<close> with \<open>len(p) = k\<close>: what it stores, its error, and the reader after it.\<close>

definition reader_read :: "reader \<Rightarrow> nat \<Rightarrow> bytes \<times> io_err option \<times> reader" where
  "reader_read r k =
     (case rd_pieces r of
        [] \<Rightarrow> ([], Some (rd_end r), r)
      | p # ps \<Rightarrow>
          if length p \<le> k then (p, None, r\<lparr>rd_pieces := ps\<rparr>)
          else (take k p, None, r\<lparr>rd_pieces := drop k p # ps\<rparr>))"

text \<open>The loop of \<open>io.ReadFull\<close>: read on until \<open>k\<close> bytes are there or \<open>Read\<close> fails.\<close>

function read_more :: "reader \<Rightarrow> nat \<Rightarrow> bytes \<Rightarrow> bytes \<times> io_err option \<times> reader" where
  "read_more r k acc =
     (if k = 0 then (acc, None, r)
      else case reader_read r k of
             (d, Some e, r') \<Rightarrow> (acc @ d, Some e, r')
           | (d, None, r') \<Rightarrow> read_more r' (k - length d) (acc @ d))"
  by pat_completeness auto
termination
  by (relation "measure (\<lambda>(r, k, acc). length (rd_pieces r) + k)")
    (auto simp: reader_read_def split: list.splits if_splits)

declare read_more.simps [simp del]

definition read_full :: "reader \<Rightarrow> nat \<Rightarrow> bytes \<times> io_err option \<times> reader" where
  "read_full r k =
     (case read_more r k [] of
        (d, None, r') \<Rightarrow> (d, None, r')
      | (d, Some e, r') \<Rightarrow> (d, Some (if d \<noteq> [] \<and> e = EOF then UnexpectedEOF else e), r'))"

text \<open>What a \<open>Read\<close> loop returns depends on the content and the final error alone.\<close>

lemma read_more_spec:
  "read_more r k acc = (d, e, r') \<Longrightarrow>
     d = acc @ take k (rd_content r) \<and> rd_content r' = drop k (rd_content r) \<and> rd_end r' = rd_end r
     \<and> e = (if k \<le> length (rd_content r) then None else Some (rd_end r))"
proof (induction r k acc arbitrary: d e r' rule: read_more.induct)
  case (1 r k acc)
  show ?case
  proof (cases "k = 0 \<or> rd_pieces r = []")
    case True
    with "1.prems" show ?thesis
      by (auto simp: read_more.simps [of r k acc] reader_read_def rd_content_def)
  next
    case False
    then obtain p ps where p: "rd_pieces r = p # ps" and k: "k \<noteq> 0"
      by (cases "rd_pieces r") auto
    show ?thesis
    proof (cases "length p \<le> k")
      case True
      with "1.prems" p k have "read_more (r\<lparr>rd_pieces := ps\<rparr>) (k - length p) (acc @ p) = (d, e, r')"
        by (simp add: read_more.simps [of r k acc] reader_read_def)
      from "1.IH" [OF k _ _ _ this] True p show ?thesis
        by (auto simp: reader_read_def rd_content_def)
    next
      case long: False
      with "1.prems" p k show ?thesis
        by (auto simp: read_more.simps [of r k acc] read_more.simps [of _ 0] reader_read_def rd_content_def)
    qed
  qed
qed

lemma read_full_spec:
  assumes "read_full r k = (d, e, r')"
  shows "d = take k (rd_content r)" and "rd_content r' = drop k (rd_content r)" and "rd_end r' = rd_end r"
    and "e = (if k \<le> length (rd_content r) then None
              else if rd_content r \<noteq> [] \<and> rd_end r = EOF then Some UnexpectedEOF else Some (rd_end r))"
proof -
  obtain d' e' r'' where more: "read_more r k [] = (d', e', r'')" by (cases "read_more r k []") auto
  note spec = read_more_spec [OF more]
  from assms more spec show "d = take k (rd_content r)" "rd_content r' = drop k (rd_content r)"
    "rd_end r' = rd_end r"
    by (auto simp: read_full_def split: option.splits if_splits)
  from assms more spec show "e = (if k \<le> length (rd_content r) then None
      else if rd_content r \<noteq> [] \<and> rd_end r = EOF then Some UnexpectedEOF else Some (rd_end r))"
    by (auto simp: read_full_def split: option.splits if_splits)
qed

text \<open>
  An \<open>io.Writer\<close> that takes everything it is given: the contract \<open>Reassemble\<close> is proved
  against. \<open>wr\<close> returns the error, if any, and the writer after the call.
\<close>

locale byte_sink =
  fixes wr :: "bytes \<Rightarrow> 'w \<Rightarrow> io_err option \<times> 'w"
    and written :: "'w \<Rightarrow> bytes"
  assumes write_ok: "fst (wr d w) = None"
    and written_write: "written (snd (wr d w)) = written w @ d"

text \<open>\<open>bytes.Buffer\<close> is one; a file whose disk may be full is not.\<close>

definition buffer_write :: "bytes \<Rightarrow> bytes \<Rightarrow> io_err option \<times> bytes" where
  "buffer_write d buf = (None, buf @ d)"

interpretation buffer: byte_sink buffer_write "\<lambda>buf. buf"
  by unfold_locales (simp_all add: buffer_write_def)

section \<open>Chunks\<close>

definition DefaultChunkSize :: int where
  "DefaultChunkSize = 1024 * 1024"

datatype chunk_err =
    ErrInvalidChunkSequence
  | ErrCorruptedChunk
  | ErrReadingStream io_err
  | ErrWritingChunk int io_err

record Chunk =
  ch_Index :: int
  ch_Data :: bytes
  ch_Hash :: bytes

text \<open>
  The \<open>for\<close> loop of \<open>Split\<close>; \<^const>\<open>None\<close> is a loop that does not end. \<open>Some (Inl e)\<close> is the
  error that ended the stream early.
\<close>

partial_function (option) split_loop ::
    "reader \<Rightarrow> nat \<Rightarrow> int \<Rightarrow> Chunk list \<Rightarrow> (chunk_err + Chunk list) option" where
  "split_loop r bufsize index chunks =
     (case read_full r bufsize of (data, err, r') \<Rightarrow>
        let chunks' = (if data \<noteq> [] then chunks @ [\<lparr>ch_Index = index, ch_Data = data, ch_Hash = sha256 data\<rparr>]
                       else chunks);
            index' = (if data \<noteq> [] then index + 1 else index)
        in case err of
             None \<Rightarrow> split_loop r' bufsize index' chunks'
           | Some e \<Rightarrow> if e = EOF \<or> e = UnexpectedEOF then Some (Inr chunks')
                       else Some (Inl (ErrReadingStream e)))"

definition Split :: "reader \<Rightarrow> int \<Rightarrow> (chunk_err + Chunk list) option" where
  "Split r chunkSize =
     (let bufsize = (if chunkSize \<le> 0 then DefaultChunkSize else chunkSize)
      in split_loop r (nat bufsize) 0 [])"

fun reassemble_from :: "(bytes \<Rightarrow> 'w \<Rightarrow> io_err option \<times> 'w) \<Rightarrow> int \<Rightarrow> Chunk list \<Rightarrow> 'w \<Rightarrow> chunk_err option \<times> 'w" where
  "reassemble_from write i [] w = (None, w)"
| "reassemble_from write i (c # cs) w =
     (if ch_Index c \<noteq> i then (Some ErrInvalidChunkSequence, w)
      else if sha256 (ch_Data c) \<noteq> ch_Hash c then (Some ErrCorruptedChunk, w)
      else case write (ch_Data c) w of
             (Some e, w') \<Rightarrow> (Some (ErrWritingChunk i e), w')
           | (None, w') \<Rightarrow> reassemble_from write (i + 1) cs w')"

definition Reassemble :: "(bytes \<Rightarrow> 'w \<Rightarrow> io_err option \<times> 'w) \<Rightarrow> Chunk list \<Rightarrow> 'w \<Rightarrow> chunk_err option \<times> 'w" where
  "Reassemble write chunks w = reassemble_from write 0 chunks w"

section \<open>What \<open>Split\<close> returns\<close>

text \<open>The reference: number the pieces of the content and hash each.\<close>

fun number_chunks :: "int \<Rightarrow> bytes list \<Rightarrow> Chunk list" where
  "number_chunks i [] = []"
| "number_chunks i (d # ds) = \<lparr>ch_Index = i, ch_Data = d, ch_Hash = sha256 d\<rparr> # number_chunks (i + 1) ds"

definition split_result :: "io_err \<Rightarrow> Chunk list \<Rightarrow> chunk_err + Chunk list" where
  "split_result e cs = (if e = EOF \<or> e = UnexpectedEOF then Inr cs else Inl (ErrReadingStream e))"

lemma split_loop_eq:
  assumes "0 < bufsize"
  shows "split_loop r bufsize i cs =
           Some (split_result (rd_end r) (cs @ number_chunks i (chunks_of bufsize (rd_content r))))"
  using assms
proof (induction "length (rd_content r)" arbitrary: r i cs rule: less_induct)
  case less
  obtain d e r' where read: "read_full r bufsize = (d, e, r')" by (cases "read_full r bufsize") auto
  note spec = read_full_spec [OF read]
  show ?case
  proof (cases "bufsize \<le> length (rd_content r)")
    case True
    with less.prems have ne: "rd_content r \<noteq> []" "d \<noteq> []" by (auto simp: spec(1))
    have "split_loop r bufsize i cs = split_loop r' bufsize (i + 1)
            (cs @ [\<lparr>ch_Index = i, ch_Data = d, ch_Hash = sha256 d\<rparr>])"
      using True ne by (subst split_loop.simps) (simp add: read spec(4))
    with less.hyps [of r'] less.prems ne True show ?thesis
      by (simp add: spec(1-3) chunks_of_step)
  next
    case False
    have "split_loop r bufsize i cs =
        Some (split_result (rd_end r)
          (if d \<noteq> [] then cs @ [\<lparr>ch_Index = i, ch_Data = d, ch_Hash = sha256 d\<rparr>] else cs))"
      using False by (subst split_loop.simps) (auto simp: read spec(4) split_result_def)
    with False less.prems show ?thesis
      by (cases "rd_content r = []") (simp_all add: spec(1) chunks_of_step)
  qed
qed

definition chunk_size :: "int \<Rightarrow> nat" where
  "chunk_size n = nat (if n \<le> 0 then DefaultChunkSize else n)"

lemma chunk_size_pos [simp]: "0 < chunk_size n"
  by (simp add: chunk_size_def DefaultChunkSize_def)

lemma Split_eq:
  "Split r n = Some (split_result (rd_end r) (number_chunks 0 (chunks_of (chunk_size n) (rd_content r))))"
  using chunk_size_pos [of n] unfolding Split_def Let_def chunk_size_def
  by (simp add: split_loop_eq)

lemma map_number_chunks [simp]: "map ch_Data (number_chunks i ds) = ds"
  by (induction ds arbitrary: i) auto

lemma length_number_chunks [simp]: "length (number_chunks i ds) = length ds"
  by (induction ds arbitrary: i) auto

lemma nth_number_chunks:
  "k < length ds \<Longrightarrow> number_chunks i ds ! k = \<lparr>ch_Index = i + int k, ch_Data = ds ! k, ch_Hash = sha256 (ds ! k)\<rparr>"
  by (induction ds arbitrary: i k) (auto simp: nth_Cons' algebra_simps)

section \<open>What \<open>Reassemble\<close> writes\<close>

context byte_sink
begin

lemma reassemble_Cons:
  "reassemble_from wr i (c # cs) w =
     (if ch_Index c \<noteq> i then (Some ErrInvalidChunkSequence, w)
      else if sha256 (ch_Data c) \<noteq> ch_Hash c then (Some ErrCorruptedChunk, w)
      else reassemble_from wr (i + 1) cs (snd (wr (ch_Data c) w)))"
  using write_ok [of "ch_Data c" w] by (cases "wr (ch_Data c) w") auto

lemmas reassemble_simps = reassemble_from.simps(1) reassemble_Cons

lemma reassemble_number_chunks:
  "fst (reassemble_from wr i (number_chunks i ds) w) = None"
  "written (snd (reassemble_from wr i (number_chunks i ds) w)) = written w @ concat ds"
  by (induction ds arbitrary: i w)
    (simp_all add: reassemble_simps written_write del: reassemble_from.simps(2))

text \<open>The chunks before the first bad one: right index, right checksum.\<close>

lemma reassemble_outcome:
  assumes "reassemble_from wr i cs w = (e, w')"
  shows "\<exists>good rest. cs = good @ rest
           \<and> (\<forall>k < length good. ch_Index (good ! k) = i + int k \<and> ch_Hash (good ! k) = sha256 (ch_Data (good ! k)))
           \<and> written w' = written w @ concat (map ch_Data good)
           \<and> (case e of
                None \<Rightarrow> rest = []
              | Some ErrInvalidChunkSequence \<Rightarrow> rest \<noteq> [] \<and> ch_Index (hd rest) \<noteq> i + int (length good)
              | Some ErrCorruptedChunk \<Rightarrow> rest \<noteq> [] \<and> ch_Index (hd rest) = i + int (length good)
                                       \<and> ch_Hash (hd rest) \<noteq> sha256 (ch_Data (hd rest))
              | Some _ \<Rightarrow> False)"
  using assms
proof (induction cs arbitrary: i w)
  case (Cons c cs)
  show ?case
  proof (cases "ch_Index c = i \<and> sha256 (ch_Data c) = ch_Hash c")
    case True
    define v where "v = snd (wr (ch_Data c) w)"
    from True Cons.prems have "reassemble_from wr (i + 1) cs v = (e, w')"
      by (simp add: reassemble_Cons v_def del: reassemble_from.simps(2))
    from Cons.IH [OF this] obtain good rest where gr: "cs = good @ rest"
      "\<forall>k < length good. ch_Index (good ! k) = i + 1 + int k \<and> ch_Hash (good ! k) = sha256 (ch_Data (good ! k))"
      "written w' = written v @ concat (map ch_Data good)"
      "case e of None \<Rightarrow> rest = []
         | Some ErrInvalidChunkSequence \<Rightarrow> rest \<noteq> [] \<and> ch_Index (hd rest) \<noteq> i + 1 + int (length good)
         | Some ErrCorruptedChunk \<Rightarrow> rest \<noteq> [] \<and> ch_Index (hd rest) = i + 1 + int (length good)
                                  \<and> ch_Hash (hd rest) \<noteq> sha256 (ch_Data (hd rest))
         | Some _ \<Rightarrow> False"
      by blast
    have "written v = written w @ ch_Data c" by (simp add: v_def written_write)
    with gr True show ?thesis
      by (intro exI [of _ "c # good"] exI [of _ rest])
        (auto simp: nth_Cons' algebra_simps split: option.splits chunk_err.splits)
  next
    case False
    with Cons.prems show ?thesis
      by (intro exI [of _ "[]"] exI [of _ "c # cs"]) (auto split: if_splits)
  qed
qed auto

end

section \<open>Properties\<close>

text \<open>
  C7: every file survives \<open>Split\<close> and \<open>Reassemble\<close>: whatever the pieces the reader's \<open>Read\<close>
  calls come in and whatever chunk size is asked for, a stream that ends normally is split
  without error and the chunks are accepted and written back as exactly its content.
\<close>
theorem Split_Reassemble:
  assumes "rd_end r = EOF"
  shows "\<exists>cs. Split r n = Some (Inr cs) \<and> Reassemble buffer_write cs w = (None, w @ rd_content r)"
proof -
  let ?cs = "number_chunks 0 (chunks_of (chunk_size n) (rd_content r))"
  have "Split r n = Some (Inr ?cs)" by (simp add: Split_eq split_result_def assms)
  moreover have "Reassemble buffer_write ?cs w = (None, w @ rd_content r)"
    using buffer.reassemble_number_chunks [of 0 "chunks_of (chunk_size n) (rd_content r)" w]
    by (simp add: Reassemble_def prod_eq_iff concat_chunks_of)
  ultimately show ?thesis by blast
qed

lemma Split_Reassemble_witness:
  "\<exists>cs. Split \<lparr>rd_pieces = [[1], [], [2, 3, 4], [5]], rd_end = EOF\<rparr> 2 = Some (Inr cs)
     \<and> Reassemble buffer_write cs [9] = (None, [9, 1, 2, 3, 4, 5])"
  using Split_Reassemble [of "\<lparr>rd_pieces = [[1], [], [2, 3, 4], [5]], rd_end = EOF\<rparr>" 2 "[9]"]
  by (simp add: rd_content_def)

text \<open>
  \<open>Split\<close> always returns, and what it returns depends on the content of the stream alone:
  an error of the stream is its error; otherwise the chunks are numbered from 0, every chunk
  but the last has exactly the chunk size (1 MiB when none is asked for), the last one is not
  empty, their number is the length divided by the size, rounded up, and each carries the
  SHA-256 of its data.
\<close>
theorem Split_functional:
  "\<exists>res. Split r n = Some res \<and>
     (case res of
        Inl e \<Rightarrow> e = ErrReadingStream (rd_end r) \<and> rd_end r \<noteq> EOF \<and> rd_end r \<noteq> UnexpectedEOF
      | Inr cs \<Rightarrow>
          concat (map ch_Data cs) = rd_content r
          \<and> length cs = (length (rd_content r) + chunk_size n - 1) div chunk_size n
          \<and> (\<forall>k < length cs. ch_Index (cs ! k) = int k \<and> ch_Hash (cs ! k) = sha256 (ch_Data (cs ! k))
               \<and> ch_Data (cs ! k) = take (chunk_size n) (drop (k * chunk_size n) (rd_content r))
               \<and> ch_Data (cs ! k) \<noteq> []))"
proof -
  let ?ds = "chunks_of (chunk_size n) (rd_content r)"
  have "?ds ! k \<noteq> []" if "k < length ?ds" for k
    using chunks_of_sizes [OF chunk_size_pos nth_mem [OF that]] by simp
  then show ?thesis
    by (auto simp: Split_eq split_result_def nth_number_chunks concat_chunks_of length_chunks_of
        nth_chunks_of)
qed

lemma Split_functional_witness:
  "(\<exists>res. Split \<lparr>rd_pieces = [[1, 2], [3]], rd_end = EOF\<rparr> 2 = Some res)"
  using Split_functional [of "\<lparr>rd_pieces = [[1, 2], [3]], rd_end = EOF\<rparr>" 2] by blast

text \<open>
  \<open>Reassemble\<close> stops at the first bad chunk and has then written exactly the chunks before
  it: it reports a wrong sequence when the next chunk's index is not its position, a corrupted
  chunk when the index is right and the checksum is not, and no error only when every chunk
  has the right index and checksum.
\<close>
theorem Reassemble_first_bad:
  "\<exists>good rest. cs = good @ rest
     \<and> (\<forall>k < length good. ch_Index (good ! k) = int k \<and> ch_Hash (good ! k) = sha256 (ch_Data (good ! k)))
     \<and> snd (Reassemble buffer_write cs w) = w @ concat (map ch_Data good)
     \<and> (case fst (Reassemble buffer_write cs w) of
          None \<Rightarrow> rest = []
        | Some ErrInvalidChunkSequence \<Rightarrow> rest \<noteq> [] \<and> ch_Index (hd rest) \<noteq> int (length good)
        | Some ErrCorruptedChunk \<Rightarrow> rest \<noteq> [] \<and> ch_Index (hd rest) = int (length good)
                                 \<and> ch_Hash (hd rest) \<noteq> sha256 (ch_Data (hd rest))
        | Some _ \<Rightarrow> False)"
proof -
  obtain e w' where "reassemble_from buffer_write 0 cs w = (e, w')"
    by (cases "reassemble_from buffer_write 0 cs w") auto
  with buffer.reassemble_outcome [OF this, unfolded add_0] show ?thesis
    by (simp add: Reassemble_def)
qed

lemma Reassemble_first_bad_witness:
  "let cs = [\<lparr>ch_Index = 0, ch_Data = [7], ch_Hash = sha256 [7]\<rparr>, \<lparr>ch_Index = 2, ch_Data = [8], ch_Hash = sha256 [8]\<rparr>]
   in Reassemble buffer_write cs [] = (Some ErrInvalidChunkSequence, [7]) \<and> (\<exists>good rest. cs = good @ rest)"
  using Reassemble_first_bad [of "[\<lparr>ch_Index = 0, ch_Data = [7], ch_Hash = sha256 [7]\<rparr>,
      \<lparr>ch_Index = 2, ch_Data = [8], ch_Hash = sha256 [8]\<rparr>]" "[]"]
  by (auto simp: Reassemble_def buffer_write_def)

end
