(* ===== verification/Crypto.thy ===== *)
theory Crypto
  imports Prelude
begin

text \<open>
  \<open>internal/crypto/crypto.go\<close>: salts, key derivation and shard encryption. Argon2id and
  XChaCha20-Poly1305 are third-party packages and so parameters of the model: \<open>argon2_idkey\<close>
  is \<open>argon2.IDKey\<close>, \<open>newx\<close> is \<open>chacha20poly1305.NewX\<close>, which gives an \<open>AEAD\<close> value or an
  error. What \<open>rand.Read\<close> yields for a buffer of \<open>n\<close> bytes is a parameter too, \<^const>\<open>None\<close>
  where it fails.
\<close>

section \<open>The package's parameters\<close>

record AEAD =
  NonceSize :: nat
  Seal :: "bytes \<Rightarrow> bytes \<Rightarrow> bytes \<Rightarrow> bytes"          \<comment> \<open>\<open>Seal(dst, nonce, plaintext, nil)\<close>\<close>
  Open :: "bytes \<Rightarrow> bytes \<Rightarrow> bytes option"            \<comment> \<open>\<open>Open(nil, nonce, ciphertext, nil)\<close>\<close>

type_synonym newx_fun = "bytes \<Rightarrow> string + AEAD"
type_synonym rand_fun = "nat \<Rightarrow> bytes option"

text \<open>
  The documented behaviour of an AEAD: \<open>Seal\<close> appends the sealed text to its first argument,
  and \<open>Open\<close> gives the plaintext back under the nonce it was sealed with.
\<close>

definition aead_ok :: "AEAD \<Rightarrow> bool" where
  "aead_ok a \<longleftrightarrow>
     (\<forall>dst nonce p. length nonce = NonceSize a \<longrightarrow>
        (\<exists>ct. Seal a dst nonce p = dst @ ct \<and> Open a nonce ct = Some p))"

text \<open>\<open>NewX\<close> accepts this key (it wants 32 bytes), and its nonces are 24 bytes long.\<close>

definition newx_ok :: "newx_fun \<Rightarrow> bytes \<Rightarrow> bool" where
  "newx_ok newx key \<longleftrightarrow>
     (case newx key of Inl _ \<Rightarrow> False | Inr a \<Rightarrow> NonceSize a = 24 \<and> aead_ok a)"

definition rand_ok :: "rand_fun \<Rightarrow> bool" where
  "rand_ok rnd \<longleftrightarrow> (\<forall>n. \<exists>bs. rnd n = Some bs \<and> length bs = n)"

section \<open>The functions\<close>

datatype crypto_err =
    ErrInvalidCiphertext
  | ErrDecryptionFailed
  | ErrInvalidSalt
  | ErrGeneratingSalt
  | ErrCreatingCipher string
  | ErrGeneratingNonce

definition argon2Time :: int where "argon2Time = 3"
definition argon2Memory :: int where "argon2Memory = 64 * 1024"
definition argon2Threads :: int where "argon2Threads = 4"
definition keySize :: nat where "keySize = 32"
definition minSaltSize :: nat where "minSaltSize = 16"

type_synonym idkey_fun = "bytes \<Rightarrow> bytes \<Rightarrow> int \<Rightarrow> int \<Rightarrow> int \<Rightarrow> nat \<Rightarrow> bytes"

definition NewSalt :: "rand_fun \<Rightarrow> crypto_err + bytes" where
  "NewSalt rnd = (case rnd 32 of None \<Rightarrow> Inl ErrGeneratingSalt | Some salt \<Rightarrow> Inr salt)"

definition DeriveKey :: "idkey_fun \<Rightarrow> bytes \<Rightarrow> bytes \<Rightarrow> crypto_err + bytes" where
  "DeriveKey argon2_idkey passphrase salt =
     (if length salt < minSaltSize then Inl ErrInvalidSalt
      else Inr (argon2_idkey passphrase salt argon2Time argon2Memory argon2Threads keySize))"

definition Encrypt :: "newx_fun \<Rightarrow> rand_fun \<Rightarrow> bytes \<Rightarrow> bytes \<Rightarrow> crypto_err + bytes" where
  "Encrypt newx rnd plaintext key =
     (case newx key of
        Inl e \<Rightarrow> Inl (ErrCreatingCipher e)
      | Inr a \<Rightarrow>
          (case rnd (NonceSize a) of
             None \<Rightarrow> Inl ErrGeneratingNonce
           | Some nonce \<Rightarrow> Inr (Seal a nonce nonce plaintext)))"

definition Decrypt :: "newx_fun \<Rightarrow> bytes \<Rightarrow> bytes \<Rightarrow> crypto_err + bytes" where
  "Decrypt newx ciphertext key =
     (case newx key of
        Inl e \<Rightarrow> Inl (ErrCreatingCipher e)
      | Inr a \<Rightarrow>
          if length ciphertext < NonceSize a then Inl ErrInvalidCiphertext
          else
            (case Open a (take (NonceSize a) ciphertext) (drop (NonceSize a) ciphertext) of
               None \<Rightarrow> Inl ErrDecryptionFailed
             | Some plaintext \<Rightarrow> Inr plaintext))"

section \<open>The contract of a shard cipher\<close>

text \<open>
  What \<open>put\<close>, \<open>get\<close> and the repairer rely on, for the keys and random sources that meet
  \<open>key_ok\<close> and \<open>rnd_ok\<close>: encryption succeeds, is not empty (an empty shard counts as missing),
  and is undone by decryption.
\<close>

locale shard_cipher =
  fixes key_ok :: "'x \<Rightarrow> 'k \<Rightarrow> bool"
    and rnd_ok :: "'r \<Rightarrow> bool"
    and enc :: "'x \<Rightarrow> 'r \<Rightarrow> bytes \<Rightarrow> 'k \<Rightarrow> 'e + bytes"
    and dec :: "'x \<Rightarrow> bytes \<Rightarrow> 'k \<Rightarrow> 'e + bytes"
  assumes enc_dec: "key_ok x k \<Longrightarrow> rnd_ok r \<Longrightarrow> \<exists>ct. enc x r p k = Inr ct \<and> ct \<noteq> [] \<and> dec x ct k = Inr p"
begin

lemma enc_ok: "key_ok x k \<Longrightarrow> rnd_ok r \<Longrightarrow> is_ok (enc x r p k)"
  using enc_dec [of x k r p] by auto

lemma dec_enc: "key_ok x k \<Longrightarrow> rnd_ok r \<Longrightarrow> enc x r p k = Inr ct \<Longrightarrow> ct \<noteq> [] \<and> dec x ct k = Inr p"
  using enc_dec [of x k r p] by auto

lemma enc_inject:
  assumes "key_ok x k" "rnd_ok r" "rnd_ok r'" "enc x r p k = Inr ct" "enc x r' p' k = Inr ct"
  shows "p = p'"
  using dec_enc [OF assms(1,2,4)] dec_enc [OF assms(1,3,5)] by simp

text \<open>A shard decrypted after it was encrypted, as the reader and the repairer do with each.\<close>

lemma enc_all:
  assumes "key_ok x k" "\<And>i. rnd_ok (r i)"
  shows "\<exists>cts. length cts = length ps \<and> (\<forall>i < length ps. enc x (r i) (ps ! i) k = Inr (cts ! i)
           \<and> cts ! i \<noteq> [] \<and> dec x (cts ! i) k = Inr (ps ! i))"
proof -
  have "\<forall>i. \<exists>ct. enc x (r i) (ps ! i) k = Inr ct \<and> ct \<noteq> [] \<and> dec x ct k = Inr (ps ! i)"
    using enc_dec [OF assms] by blast
  then obtain f where "\<forall>i. enc x (r i) (ps ! i) k = Inr (f i) \<and> f i \<noteq> [] \<and> dec x (f i) k = Inr (ps ! i)"
    by metis
  then show ?thesis by (intro exI [of _ "map f [0..<length ps]"]) simp
qed

end

interpretation cipher: shard_cipher newx_ok rand_ok Encrypt Decrypt
proof unfold_locales
  fix x k r p
  assume "newx_ok x k" "rand_ok r"
  then obtain a nonce where a: "x k = Inr a" "NonceSize a = 24" "aead_ok a"
    and nonce: "r 24 = Some nonce" "length nonce = 24"
    by (auto simp: newx_ok_def rand_ok_def split: sum.splits)
  from a(3) a(2) nonce(2) obtain ct where "Seal a nonce nonce p = nonce @ ct" "Open a nonce ct = Some p"
    by (metis aead_ok_def)
  with a(1,2) nonce show "\<exists>ct. Encrypt x r p k = Inr ct \<and> ct \<noteq> [] \<and> Decrypt x ct k = Inr p"
    by (intro exI [of _ "nonce @ ct"]) (auto simp: Encrypt_def Decrypt_def)
qed

section \<open>Properties\<close>

text \<open>A concrete cipher for the witnesses: a tag byte and the plaintext XORed with the key.\<close>

definition xor_aead :: "bytes \<Rightarrow> AEAD" where
  "xor_aead key =
     \<lparr>NonceSize = 24,
      Seal = (\<lambda>dst nonce p. dst @ foldr (XOR) nonce 0 # map (\<lambda>b. b XOR foldr (XOR) key 0) p),
      Open = (\<lambda>nonce ct. case ct of [] \<Rightarrow> None
        | t # bs \<Rightarrow> if t = foldr (XOR) nonce 0 then Some (map (\<lambda>b. b XOR foldr (XOR) key 0) bs) else None)\<rparr>"

definition xor_newx :: newx_fun where
  "xor_newx key = (if length key = 32 then Inr (xor_aead key) else Inl ''bad key length'')"

lemma xor_newx_ok: "length key = 32 \<Longrightarrow> newx_ok xor_newx key"
  by (simp add: newx_ok_def xor_newx_def xor_aead_def aead_ok_def comp_def xor.assoc)

definition zero_rand :: rand_fun where
  "zero_rand n = Some (replicate n 0)"

lemma zero_rand_ok: "rand_ok zero_rand"
  by (simp add: rand_ok_def zero_rand_def)

text \<open>
  C9: what \<open>Encrypt\<close> makes of a plaintext under a usable key, whatever nonce it draws, is not
  empty and \<open>Decrypt\<close> under the same key gives the plaintext back.
\<close>
theorem Encrypt_Decrypt:
  assumes "newx_ok newx key" "rand_ok rnd"
  shows "\<exists>ct. Encrypt newx rnd plaintext key = Inr ct \<and> ct \<noteq> [] \<and> Decrypt newx ct key = Inr plaintext"
  by (rule cipher.enc_dec [OF assms])

lemma Encrypt_Decrypt_witness:
  "\<exists>ct. Encrypt xor_newx zero_rand [1, 2, 3] (replicate 32 7) = Inr ct \<and> ct \<noteq> []
     \<and> Decrypt xor_newx ct (replicate 32 7) = Inr [1, 2, 3]"
  by (rule Encrypt_Decrypt [OF xor_newx_ok zero_rand_ok]) simp

text \<open>
  The ways \<open>Decrypt\<close> can end under a usable key: a text shorter than a nonce is refused before
  it is cut, a plaintext is returned exactly when the rest of the text opens under the nonce at
  its front, and every other text is a failed decryption.
\<close>
theorem Decrypt_outcome:
  assumes "newx key = Inr a"
  shows "(Decrypt newx ct key = Inr p \<longleftrightarrow>
        (\<exists>nonce body. ct = nonce @ body \<and> length nonce = NonceSize a \<and> Open a nonce body = Some p))
    \<and> (Decrypt newx ct key = Inl ErrInvalidCiphertext \<longleftrightarrow> length ct < NonceSize a)
    \<and> (Decrypt newx ct key = Inl ErrDecryptionFailed \<longleftrightarrow>
        (\<exists>nonce body. ct = nonce @ body \<and> length nonce = NonceSize a \<and> Open a nonce body = None))"
proof -
  have cut: "(\<exists>nonce body. ct = nonce @ body \<and> length nonce = n \<and> P nonce body) \<longleftrightarrow>
      n \<le> length ct \<and> P (take n ct) (drop n ct)" for n P
  proof
    assume "n \<le> length ct \<and> P (take n ct) (drop n ct)"
    then show "\<exists>nonce body. ct = nonce @ body \<and> length nonce = n \<and> P nonce body"
      by (intro exI [of _ "take n ct"] exI [of _ "drop n ct"]) simp
  qed auto
  show ?thesis
    unfolding cut by (auto simp: Decrypt_def assms not_less split: option.splits)
qed

lemma Decrypt_outcome_witness:
  "Decrypt xor_newx [1, 2, 3] (replicate 32 7) = Inl ErrInvalidCiphertext
   \<and> Decrypt xor_newx (replicate 24 0 @ [9, 9]) (replicate 32 7) = Inl ErrDecryptionFailed"
proof -
  have key: "xor_newx (replicate 32 7) = Inr (xor_aead (replicate 32 7))" by (simp add: xor_newx_def)
  have tag: "((XOR) (0 :: byte) ^^ n) 0 = 0" for n by (induction n) simp_all
  have "\<exists>nonce body. replicate 24 0 @ [9, 9] = nonce @ body
      \<and> length nonce = NonceSize (xor_aead (replicate 32 7)) \<and> Open (xor_aead (replicate 32 7)) nonce body = None"
    by (rule exI [of _ "replicate 24 0"], rule exI [of _ "[9, 9]"]) (simp add: xor_aead_def tag)
  moreover have "length [1, 2, 3 :: byte] < NonceSize (xor_aead (replicate 32 7))"
    by (simp add: xor_aead_def)
  ultimately show ?thesis
    using Decrypt_outcome [where newx = xor_newx and key = "replicate 32 7" and a = "xor_aead (replicate 32 7)"] key
    by blast
qed

end
