(* ===== verification/Erasure.thy ===== *)
theory Erasure
  imports Prelude
begin

text \<open>
  \<open>internal/erasure/erasure.go\<close>: a chunk is encoded into data and parity shards and rebuilt from
  any large enough part of them. The Reed-Solomon code itself is a third-party package
  (\<open>klauspost/reedsolomon\<close>); the value \<open>rs\<close> an \<open>Encoder\<close> holds is the record of its methods,
  and the function that makes one, \<open>reedsolomon.New\<close>, is a parameter of \<open>NewEncoder\<close>.
\<close>

section \<open>The third-party encoder\<close>

record RSEncoder =
  rs_Split :: "bytes \<Rightarrow> string + bytes list"
  rs_Encode :: "bytes list \<Rightarrow> string + bytes list"        \<comment> \<open>the slices after the call\<close>
  rs_Reconstruct :: "bytes list \<Rightarrow> string + bytes list"   \<comment> \<open>the slices after the call\<close>
  rs_Join :: "bytes list \<Rightarrow> int \<Rightarrow> string + bytes"        \<comment> \<open>what is written to \<open>dst\<close>\<close>

text \<open>
  Its documented behaviour with \<open>k\<close> data and \<open>m\<close> parity shards: data that is not empty is split
  and encoded into \<open>k + m\<close> shards that are not empty, from any \<open>k\<close> of them (an empty slice is a
  missing shard) the others are rebuilt, fewer are refused, and the data shards are joined to
  the data.
\<close>

definition n_present :: "bytes list \<Rightarrow> nat" where
  "n_present got = length (filter (\<lambda>s. s \<noteq> []) got)"

definition part_of :: "bytes list \<Rightarrow> bytes list \<Rightarrow> bool" where
  "part_of got full \<longleftrightarrow> list_all2 (\<lambda>g f. g = [] \<or> g = f) got full"

definition rs_ok :: "nat \<Rightarrow> nat \<Rightarrow> RSEncoder \<Rightarrow> bool" where
  "rs_ok k m rs \<longleftrightarrow>
     (\<forall>data. data \<noteq> [] \<longrightarrow>
        (\<exists>raw full. rs_Split rs data = Inr raw \<and> rs_Encode rs raw = Inr full
           \<and> length full = k + m \<and> [] \<notin> set full
           \<and> rs_Join rs full (int (length data)) = Inr data
           \<and> (\<forall>got. part_of got full \<longrightarrow>
                (if k \<le> n_present got then rs_Reconstruct rs got = Inr full
                 else \<not> is_ok (rs_Reconstruct rs got)))))"

section \<open>The package\<close>

definition DefaultDataShards :: int where "DefaultDataShards = 4"
definition DefaultParityShards :: int where "DefaultParityShards = 4"

datatype erasure_err =
    ErrInvalidShardCount
  | ErrTooFewShards
  | ErrReconstructionFailed string
  | ErrCreatingEncoder string
  | ErrSplittingData string
  | ErrEncodingParity string
  | ErrJoiningShards string

record Shard =
  sh_Index :: int
  sh_Data :: bytes

record Encoder =
  dataShards :: int
  parityShards :: int
  enc_rs :: RSEncoder

definition NewEncoder :: "(int \<Rightarrow> int \<Rightarrow> string + RSEncoder) \<Rightarrow> int \<Rightarrow> int \<Rightarrow> erasure_err + Encoder" where
  "NewEncoder rs_New k m =
     (if k \<le> 0 \<or> m \<le> 0 then Inl ErrInvalidShardCount
      else case rs_New k m of
             Inl e \<Rightarrow> Inl (ErrCreatingEncoder e)
           | Inr rs \<Rightarrow> Inr \<lparr>dataShards = k, parityShards = m, enc_rs = rs\<rparr>)"

definition totalShards :: "Encoder \<Rightarrow> int" where
  "totalShards e = dataShards e + parityShards e"

definition index_shards :: "bytes list \<Rightarrow> Shard list" where
  "index_shards raw = map (\<lambda>i. \<lparr>sh_Index = int i, sh_Data = raw ! i\<rparr>) [0..<length raw]"

definition Encode :: "Encoder \<Rightarrow> bytes \<Rightarrow> erasure_err + Shard list" where
  "Encode e data =
     (if data = [] then Inr (index_shards (replicate (nat (totalShards e)) []))
      else case rs_Split (enc_rs e) data of
             Inl err \<Rightarrow> Inl (ErrSplittingData err)
           | Inr raw \<Rightarrow>
               (case rs_Encode (enc_rs e) raw of
                  Inl err \<Rightarrow> Inl (ErrEncodingParity err)
                | Inr raw' \<Rightarrow> Inr (index_shards raw')))"

text \<open>The loop that sorts the shards in by their index; it returns \<open>rawShards\<close> and \<open>validCount\<close>.\<close>

fun place_shards :: "int \<Rightarrow> Shard list \<Rightarrow> bytes list \<Rightarrow> nat \<Rightarrow> bytes list \<times> nat" where
  "place_shards tot [] raw valid = (raw, valid)"
| "place_shards tot (s # ss) raw valid =
     (if 0 \<le> sh_Index s \<and> sh_Index s < tot \<and> sh_Data s \<noteq> []
      then place_shards tot ss (raw[nat (sh_Index s) := sh_Data s]) (Suc valid)
      else place_shards tot ss raw valid)"

definition Reconstruct :: "Encoder \<Rightarrow> Shard list \<Rightarrow> int \<Rightarrow> erasure_err + bytes" where
  "Reconstruct e shards originalSize =
     (if originalSize = 0 then Inr []
      else if int (length shards) < totalShards e then Inl ErrTooFewShards
      else case place_shards (totalShards e) shards (replicate (nat (totalShards e)) []) 0 of
        (raw, valid) \<Rightarrow>
          if int valid < dataShards e then Inl ErrTooFewShards
          else case rs_Reconstruct (enc_rs e) raw of
                 Inl err \<Rightarrow> Inl (ErrReconstructionFailed err)
               | Inr raw' \<Rightarrow>
                   (case rs_Join (enc_rs e) raw' originalSize of
                      Inl err \<Rightarrow> Inl (ErrJoiningShards err)
                    | Inr data \<Rightarrow> Inr data))"

definition encoder_ok :: "Encoder \<Rightarrow> bool" where
  "encoder_ok e \<longleftrightarrow> 0 < dataShards e \<and> 0 < parityShards e
     \<and> rs_ok (nat (dataShards e)) (nat (parityShards e)) (enc_rs e)"

section \<open>Shards put in their places\<close>

text \<open>A shard the loop takes, and whether it is the one \<open>Encode\<close> made for its index.\<close>

definition usable :: "int \<Rightarrow> Shard \<Rightarrow> bool" where
  "usable tot s \<longleftrightarrow> 0 \<le> sh_Index s \<and> sh_Index s < tot \<and> sh_Data s \<noteq> []"

definition usable_indices :: "int \<Rightarrow> Shard list \<Rightarrow> nat set" where
  "usable_indices tot ss = {nat (sh_Index s) | s. s \<in> set ss \<and> usable tot s}"

definition genuine :: "int \<Rightarrow> bytes list \<Rightarrow> Shard list \<Rightarrow> bool" where
  "genuine tot full ss \<longleftrightarrow>
     (\<forall>s \<in> set ss. usable tot s \<longrightarrow> sh_Data s = full ! nat (sh_Index s))"

lemma usable_indices_simps [simp]:
  "usable_indices tot [] = {}"
  "usable_indices tot (s # ss) =
     (if usable tot s then insert (nat (sh_Index s)) (usable_indices tot ss) else usable_indices tot ss)"
  by (auto simp: usable_indices_def)

lemma finite_usable_indices [simp]: "finite (usable_indices tot ss)"
  by (induction ss) simp_all

lemma usable_indices_bound: "i \<in> usable_indices tot ss \<Longrightarrow> int i < tot"
  by (auto simp: usable_indices_def usable_def)

lemma place_shards_cons:
  "place_shards tot (s # ss) raw valid =
     (if usable tot s then place_shards tot ss (raw[nat (sh_Index s) := sh_Data s]) (Suc valid)
      else place_shards tot ss raw valid)"
  by (simp add: usable_def)

declare place_shards.simps(2) [simp del]

lemma place_shards_count:
  "place_shards tot ss raw valid = (raw', valid') \<Longrightarrow> valid' = valid + length (filter (usable tot) ss)"
proof (induction ss arbitrary: raw valid)
  case (Cons s ss)
  show ?case
  proof (cases "usable tot s")
    case True
    with Cons.IH [of "raw[nat (sh_Index s) := sh_Data s]" "Suc valid"] Cons.prems
    show ?thesis by (simp add: place_shards_cons)
  qed (use Cons in \<open>simp add: place_shards_cons\<close>)
qed simp

lemma place_shards_slots:
  assumes "place_shards tot ss raw valid = (raw', valid')" "genuine tot full ss"
    and "length raw = length full" "int (length full) = tot"
  shows "length raw' = length raw
    \<and> (\<forall>i < length raw. raw' ! i = (if i \<in> usable_indices tot ss then full ! i else raw ! i))"
  using assms
proof (induction ss arbitrary: raw valid)
  case (Cons s ss)
  show ?case
  proof (cases "usable tot s")
    case True
    with Cons.prems have data: "sh_Data s = full ! nat (sh_Index s)" by (simp add: genuine_def)
    from True Cons.prems Cons.IH [of "raw[nat (sh_Index s) := sh_Data s]" "Suc valid"]
    show ?thesis by (auto simp: place_shards_cons genuine_def data nth_list_update)
  next
    case False
    with Cons show ?thesis by (auto simp: place_shards_cons genuine_def)
  qed
qed simp

lemma card_le_usable: "card (usable_indices tot ss) \<le> length (filter (usable tot) ss)"
proof (induction ss)
  case (Cons s ss)
  then show ?case
    using card_insert_le_m1 [of "Suc (length (filter (usable tot) ss))" "usable_indices tot ss" "nat (sh_Index s)"]
    by simp
qed simp

text \<open>Genuine shards, sorted in, are a part of the full row, with one slot taken per index.\<close>

lemma place_genuine:
  assumes "place_shards tot ss (replicate (nat tot) []) 0 = (raw, valid)" "genuine tot full ss"
    and "int (length full) = tot" "[] \<notin> set full"
  shows "part_of raw full" and "n_present raw = card (usable_indices tot ss)"
proof -
  from assms(3) have nt: "nat tot = length full" by simp
  have slots: "length raw = length full"
    "i < length full \<Longrightarrow> raw ! i = (if i \<in> usable_indices tot ss then full ! i else [])" for i
    using place_shards_slots [OF assms(1,2)] assms(3) by (simp_all add: nt)
  then show "part_of raw full"
    by (auto simp: part_of_def list_all2_conv_all_nth)
  have "usable_indices tot ss \<subseteq> {..<length full}"
    using usable_indices_bound assms(3) by fastforce
  moreover have "{i. i < length raw \<and> raw ! i \<noteq> []} = usable_indices tot ss \<inter> {..<length full}"
    using slots assms(4) by (auto simp: in_set_conv_nth split: if_splits)
  ultimately have "{i. i < length raw \<and> raw ! i \<noteq> []} = usable_indices tot ss" by auto
  then show "n_present raw = card (usable_indices tot ss)"
    by (simp add: n_present_def length_filter_conv_card)
qed

section \<open>\<open>Encode\<close> and \<open>Reconstruct\<close>\<close>

lemma Encode_full:
  assumes "encoder_ok e" "data \<noteq> []"
  obtains full where "Encode e data = Inr (index_shards full)" "int (length full) = totalShards e" "[] \<notin> set full"
    "rs_Join (enc_rs e) full (int (length data)) = Inr data"
    "\<And>got. part_of got full \<Longrightarrow> nat (dataShards e) \<le> n_present got \<Longrightarrow> rs_Reconstruct (enc_rs e) got = Inr full"
    "\<And>got. part_of got full \<Longrightarrow> n_present got < nat (dataShards e) \<Longrightarrow> \<not> is_ok (rs_Reconstruct (enc_rs e) got)"
proof -
  from assms have pos: "0 < dataShards e" "0 < parityShards e"
    and rs: "rs_ok (nat (dataShards e)) (nat (parityShards e)) (enc_rs e)" by (simp_all add: encoder_ok_def)
  from rs assms(2) obtain raw full where f: "rs_Split (enc_rs e) data = Inr raw" "rs_Encode (enc_rs e) raw = Inr full"
    "length full = nat (dataShards e) + nat (parityShards e)" "[] \<notin> set full"
    "rs_Join (enc_rs e) full (int (length data)) = Inr data"
    "\<And>got. part_of got full \<Longrightarrow> if nat (dataShards e) \<le> n_present got then rs_Reconstruct (enc_rs e) got = Inr full
        else \<not> is_ok (rs_Reconstruct (enc_rs e) got)"
    unfolding rs_ok_def by blast
  have "Encode e data = Inr (index_shards full)" using assms(2) f(1,2) by (simp add: Encode_def)
  moreover have "int (length full) = totalShards e" using f(3) pos by (simp add: totalShards_def)
  ultimately show thesis
    using f(4-6) that by (metis not_le)
qed

lemma index_shards_simps [simp]:
  "length (index_shards full) = length full"
  "i < length full \<Longrightarrow> sh_Index (index_shards full ! i) = int i"
  "i < length full \<Longrightarrow> sh_Data (index_shards full ! i) = full ! i"
  by (simp_all add: index_shards_def)

text \<open>
  \<open>Reconstruct\<close> on shards that are all genuine: it gives the data back exactly when they cover
  at least \<open>dataShards\<close> different indices.
\<close>

lemma Reconstruct_genuine:
  assumes "encoder_ok e" "data \<noteq> []" "Encode e data = Inr shards"
    and "genuine (totalShards e) (map sh_Data shards) got" "totalShards e \<le> int (length got)"
  shows "if nat (dataShards e) \<le> card (usable_indices (totalShards e) got)
    then Reconstruct e got (int (length data)) = Inr data
    else \<not> is_ok (Reconstruct e got (int (length data)))"
proof -
  obtain full where enc: "Encode e data = Inr (index_shards full)"
    and len: "int (length full) = totalShards e" and ne: "[] \<notin> set full"
    and join: "rs_Join (enc_rs e) full (int (length data)) = Inr data"
    and rec: "\<And>g. part_of g full \<Longrightarrow> nat (dataShards e) \<le> n_present g \<Longrightarrow> rs_Reconstruct (enc_rs e) g = Inr full"
    and refuse: "\<And>g. part_of g full \<Longrightarrow> n_present g < nat (dataShards e) \<Longrightarrow> \<not> is_ok (rs_Reconstruct (enc_rs e) g)"
    by (rule Encode_full [OF assms(1,2)]) blast
  obtain raw valid where place: "place_shards (totalShards e) got (replicate (nat (totalShards e)) []) 0 = (raw, valid)"
    by fastforce
  have "map sh_Data shards = full"
    using assms(3) enc by (auto intro!: nth_equalityI simp: index_shards_def)
  with assms(4) have gen: "genuine (totalShards e) full got" by simp
  note raw = place_genuine [OF place gen len ne]
  have valid: "card (usable_indices (totalShards e) got) \<le> valid"
    using card_le_usable place_shards_count [OF place] by simp
  have unfold: "Reconstruct e got (int (length data)) =
      (if int valid < dataShards e then Inl ErrTooFewShards
       else case rs_Reconstruct (enc_rs e) raw of
              Inl err \<Rightarrow> Inl (ErrReconstructionFailed err)
            | Inr raw' \<Rightarrow> (case rs_Join (enc_rs e) raw' (int (length data)) of
                 Inl err \<Rightarrow> Inl (ErrJoiningShards err) | Inr d \<Rightarrow> Inr d))"
    using assms(2,5) place by (simp add: Reconstruct_def)
  show ?thesis
  proof (cases "nat (dataShards e) \<le> card (usable_indices (totalShards e) got)")
    case True
    with raw rec have "rs_Reconstruct (enc_rs e) raw = Inr full" by simp
    with True valid join show ?thesis by (simp add: unfold)
  next
    case False
    with raw refuse have "\<not> is_ok (rs_Reconstruct (enc_rs e) raw)" by simp
    then obtain err where "rs_Reconstruct (enc_rs e) raw = Inl err"
      by (cases "rs_Reconstruct (enc_rs e) raw") auto
    with False show ?thesis by (simp add: unfold)
  qed
qed

section \<open>The contract of a shard code\<close>

text \<open>
  What the writers and readers of chunks rely on: \<open>n\<close> numbered shards are made of a chunk, and
  a row of \<open>n\<close> numbered slots gives the chunk back when each slot is empty or holds its own
  shard and \<open>k\<close> are not empty (none need be for the empty chunk).
\<close>

locale shard_code =
  fixes code_ok :: "'c \<Rightarrow> bool"
    and k_of n_of :: "'c \<Rightarrow> nat"
    and encode :: "'c \<Rightarrow> bytes \<Rightarrow> 'e + Shard list"
    and reconstruct :: "'c \<Rightarrow> Shard list \<Rightarrow> int \<Rightarrow> 'e + bytes"
  assumes encode_ok: "code_ok c \<Longrightarrow> \<exists>ss. encode c d = Inr ss \<and> length ss = n_of c
      \<and> (\<forall>i < n_of c. sh_Index (ss ! i) = int i \<and> (sh_Data (ss ! i) = [] \<longleftrightarrow> d = []))"
    and recover: "code_ok c \<Longrightarrow> encode c d = Inr ss \<Longrightarrow> length got = n_of c \<Longrightarrow>
      (\<And>i. i < n_of c \<Longrightarrow> sh_Index (got ! i) = int i \<and> (sh_Data (got ! i) = [] \<or> sh_Data (got ! i) = sh_Data (ss ! i))) \<Longrightarrow>
      d = [] \<or> k_of c \<le> card {i. i < n_of c \<and> sh_Data (got ! i) \<noteq> []} \<Longrightarrow>
      reconstruct c got (int (length d)) = Inr d"
begin

text \<open>The shards with a set of indices in their slots, the other slots empty.\<close>

definition keep :: "nat set \<Rightarrow> Shard list \<Rightarrow> Shard list" where
  "keep A ss = map (\<lambda>i. \<lparr>sh_Index = int i, sh_Data = if i \<in> A then sh_Data (ss ! i) else []\<rparr>) [0..<length ss]"

lemma keep_simps [simp]:
  "length (keep A ss) = length ss"
  "i < length ss \<Longrightarrow> keep A ss ! i = \<lparr>sh_Index = int i, sh_Data = if i \<in> A then sh_Data (ss ! i) else []\<rparr>"
  by (simp_all add: keep_def)

lemma recover_keep:
  assumes "code_ok c" "encode c d = Inr ss" "A \<subseteq> {..<n_of c}" "k_of c \<le> card A"
  shows "reconstruct c (keep A ss) (int (length d)) = Inr d"
proof -
  from encode_ok [OF assms(1), of d] assms(2) have ss: "length ss = n_of c"
    "\<And>i. i < n_of c \<Longrightarrow> sh_Data (ss ! i) = [] \<longleftrightarrow> d = []" by auto
  have "{i. i < n_of c \<and> sh_Data (keep A ss ! i) \<noteq> []} = A" if "d \<noteq> []"
    using assms(3) ss that by (auto split: if_splits)
  then have "d = [] \<or> k_of c \<le> card {i. i < n_of c \<and> sh_Data (keep A ss ! i) \<noteq> []}"
    using assms(4) by metis
  with ss show ?thesis by (intro recover [OF assms(1,2)]) auto
qed

text \<open>What is rebuilt is encoded to the very shards it was rebuilt from.\<close>

lemma encode_recovered:
  assumes "code_ok c" "encode c d = Inr ss" "A \<subseteq> {..<n_of c}" "k_of c \<le> card A"
  shows "\<exists>d'. reconstruct c (keep A ss) (int (length d)) = Inr d' \<and> encode c d' = Inr ss"
  using recover_keep [OF assms] assms(2) by blast

end

lemma encoder_ok_shards:
  assumes "encoder_ok e"
  shows "\<exists>ss. Encode e d = Inr ss \<and> length ss = nat (totalShards e)
    \<and> (\<forall>i < nat (totalShards e). sh_Index (ss ! i) = int i \<and> (sh_Data (ss ! i) = [] \<longleftrightarrow> d = []))"
proof (cases "d = []")
  case True
  then show ?thesis by (simp add: Encode_def index_shards_def)
next
  case False
  obtain full where "Encode e d = Inr (index_shards full)" "int (length full) = totalShards e" "[] \<notin> set full"
    by (rule Encode_full [OF assms False])
  with False show ?thesis by (intro exI [of _ "index_shards full"]) (auto simp: in_set_conv_nth)
qed

interpretation rs_code: shard_code encoder_ok "\<lambda>e. nat (dataShards e)" "\<lambda>e. nat (totalShards e)" Encode Reconstruct
proof unfold_locales
  fix c d ss and got :: "Shard list"
  assume ok: "encoder_ok c" and enc: "Encode c d = Inr ss" and len: "length got = nat (totalShards c)"
    and slots: "\<And>i. i < nat (totalShards c) \<Longrightarrow>
      sh_Index (got ! i) = int i \<and> (sh_Data (got ! i) = [] \<or> sh_Data (got ! i) = sh_Data (ss ! i))"
    and many: "d = [] \<or> nat (dataShards c) \<le> card {i. i < nat (totalShards c) \<and> sh_Data (got ! i) \<noteq> []}"
  show "Reconstruct c got (int (length d)) = Inr d"
  proof (cases "d = []")
    case True
    then show ?thesis by (simp add: Reconstruct_def)
  next
    case False
    from ok have pos: "0 < totalShards c" by (simp add: encoder_ok_def totalShards_def)
    have "length ss = nat (totalShards c)" using encoder_ok_shards [OF ok, of d] enc by auto
    then have gen: "genuine (totalShards c) (map sh_Data ss) got"
      using slots len by (fastforce simp: genuine_def usable_def in_set_conv_nth)
    have "{i. i < nat (totalShards c) \<and> sh_Data (got ! i) \<noteq> []} \<subseteq> usable_indices (totalShards c) got"
    proof clarify
      fix i assume i: "i < nat (totalShards c)" "sh_Data (got ! i) \<noteq> []"
      with slots len have "got ! i \<in> set got" "sh_Index (got ! i) = int i" by auto
      with i show "i \<in> usable_indices (totalShards c) got"
        by (force simp: usable_indices_def usable_def)
    qed
    then have "nat (dataShards c) \<le> card (usable_indices (totalShards c) got)"
      using many False by (meson card_mono order_trans finite_usable_indices)
    with Reconstruct_genuine [OF ok False enc gen] len pos show ?thesis by simp
  qed
qed (rule encoder_ok_shards)

section \<open>Properties\<close>

text \<open>A concrete code for the witnesses: every shard is a copy of the data.\<close>

definition copy_rs :: "nat \<Rightarrow> nat \<Rightarrow> RSEncoder" where
  "copy_rs k m =
     \<lparr>rs_Split = (\<lambda>d. if d = [] then Inl ''short data'' else Inr (replicate (k + m) d)),
      rs_Encode = Inr,
      rs_Reconstruct = (\<lambda>got. if k \<le> n_present got
         then Inr (replicate (length got) (hd (filter (\<lambda>s. s \<noteq> []) got))) else Inl ''too few shards''),
      rs_Join = (\<lambda>full n. case full of [] \<Rightarrow> Inl ''too few shards'' | s # _ \<Rightarrow> Inr (take (nat n) s))\<rparr>"

lemma part_of_replicate:
  assumes "part_of got (replicate n d)"
  shows "length got = n" and "filter (\<lambda>s. s \<noteq> []) got = replicate (n_present got) d"
proof -
  show "length got = n" using assms by (simp add: part_of_def list_all2_lengthD)
  have "s = d" if "s \<in> set got" "s \<noteq> []" for s
    using assms that by (auto simp: part_of_def list_all2_conv_all_nth in_set_conv_nth)
  then show "filter (\<lambda>s. s \<noteq> []) got = replicate (n_present got) d"
    unfolding n_present_def by (intro replicate_eqI) auto
qed

lemma copy_rs_ok: "0 < k \<Longrightarrow> rs_ok k m (copy_rs k m)"
  unfolding rs_ok_def
proof (intro allI impI exI conjI)
  fix data :: bytes and got :: "bytes list"
  assume k: "0 < k" and d: "data \<noteq> []"
  show "rs_Split (copy_rs k m) data = Inr (replicate (k + m) data)"
    using d by (simp add: copy_rs_def)
  show "rs_Encode (copy_rs k m) (replicate (k + m) data) = Inr (replicate (k + m) data)"
    by (simp add: copy_rs_def)
  show "rs_Join (copy_rs k m) (replicate (k + m) data) (int (length data)) = Inr data"
    using k by (cases k) (simp_all add: copy_rs_def)
  assume p: "part_of got (replicate (k + m) data)"
  show "if k \<le> n_present got then rs_Reconstruct (copy_rs k m) got = Inr (replicate (k + m) data)
        else \<not> is_ok (rs_Reconstruct (copy_rs k m) got)"
    using part_of_replicate [OF p] k by (auto simp: copy_rs_def)
qed (auto simp: copy_rs_def)

definition copy_encoder :: "int \<Rightarrow> int \<Rightarrow> Encoder" where
  "copy_encoder k m = \<lparr>dataShards = k, parityShards = m, enc_rs = copy_rs (nat k) (nat m)\<rparr>"

lemma copy_encoder_ok: "0 < k \<Longrightarrow> 0 < m \<Longrightarrow> encoder_ok (copy_encoder k m)"
  by (simp add: encoder_ok_def copy_encoder_def copy_rs_ok)

text \<open>
  C8: any \<open>dataShards\<close> of the shards \<open>Encode\<close> makes are enough, and fewer are refused. The shards
  may come in any order, more than once, with empty ones and ones of an impossible index among
  them; what counts is how many different indices are there.
\<close>
theorem Encode_Reconstruct:
  assumes "encoder_ok e" "data \<noteq> []" "Encode e data = Inr shards"
    and "\<forall>s \<in> set got. s \<in> set shards \<or> sh_Data s = [] \<or> sh_Index s < 0 \<or> totalShards e \<le> sh_Index s"
    and "totalShards e \<le> int (length got)"
  shows "if dataShards e \<le> int (card (sh_Index ` (set got \<inter> set shards)))
         then Reconstruct e got (int (length data)) = Inr data
         else \<not> is_ok (Reconstruct e got (int (length data)))"
proof -
  have shards: "length shards = nat (totalShards e)"
    "\<And>i. i < nat (totalShards e) \<Longrightarrow> sh_Index (shards ! i) = int i \<and> sh_Data (shards ! i) \<noteq> []"
    using encoder_ok_shards [OF assms(1), of data] assms(2,3) by auto
  have in_shards: "usable (totalShards e) s \<and> shards ! nat (sh_Index s) = s" if s: "s \<in> set shards" for s
  proof -
    from s obtain i where "i < length shards" "s = shards ! i" by (auto simp: in_set_conv_nth)
    with shards show ?thesis by (simp add: usable_def)
  qed
  have usable: "s \<in> set got \<Longrightarrow> usable (totalShards e) s \<longleftrightarrow> s \<in> set shards" for s
    using assms(4) in_shards by (auto simp: usable_def)
  have "genuine (totalShards e) (map sh_Data shards) got"
    unfolding genuine_def
  proof (intro ballI impI)
    fix s assume "s \<in> set got" "usable (totalShards e) s"
    with usable have "s \<in> set shards" by blast
    with in_shards [of s] shards(1) show "sh_Data s = map sh_Data shards ! nat (sh_Index s)"
      by (simp add: usable_def)
  qed
  note rec = Reconstruct_genuine [OF assms(1-3) this assms(5)]
  have "usable_indices (totalShards e) got = nat ` sh_Index ` (set got \<inter> set shards)"
    using usable by (auto simp: usable_indices_def)
  moreover have "inj_on nat (sh_Index ` (set got \<inter> set shards))"
    using in_shards by (force simp: inj_on_def usable_def intro: eq_nat_nat_iff [THEN iffD1])
  ultimately have "card (usable_indices (totalShards e) got) = card (sh_Index ` (set got \<inter> set shards))"
    by (simp add: card_image)
  with rec show ?thesis by (simp add: nat_le_iff)
qed

lemma Encode_Reconstruct_witness:
  "let e = copy_encoder 1 1; junk = \<lparr>sh_Index = 7, sh_Data = [9]\<rparr>
   in Reconstruct e [junk, \<lparr>sh_Index = 1, sh_Data = [5, 6]\<rparr>] 2 = Inr [5, 6]
      \<and> \<not> is_ok (Reconstruct e [junk, junk] 2)"
proof -
  let ?e = "copy_encoder 1 1"
  let ?junk = "\<lparr>sh_Index = 7, sh_Data = [9]\<rparr>"
  let ?ss = "[\<lparr>sh_Index = 0, sh_Data = [5, 6]\<rparr>, \<lparr>sh_Index = 1, sh_Data = [5, 6]\<rparr>]"
  have ok: "encoder_ok ?e" by (simp add: copy_encoder_ok)
  have enc: "Encode ?e [5, 6] = Inr ?ss"
    by (simp add: Encode_def copy_encoder_def copy_rs_def index_shards_def)
  have tot: "totalShards ?e = 2" "dataShards ?e = 1"
    by (simp_all add: copy_encoder_def totalShards_def)
  have "Reconstruct ?e [?junk, \<lparr>sh_Index = 1, sh_Data = [5, 6]\<rparr>] 2 = Inr [5, 6]"
    using Encode_Reconstruct [OF ok _ enc, of "[?junk, \<lparr>sh_Index = 1, sh_Data = [5, 6]\<rparr>]"]
    by (simp add: tot)
  moreover have "\<not> is_ok (Reconstruct ?e [?junk, ?junk] 2)"
    using Encode_Reconstruct [OF ok _ enc, of "[?junk, ?junk]"] by (simp add: tot)
  ultimately show ?thesis by simp
qed

text \<open>
  C37: what the shards of a usable encoder look like: as
  many as data and parity shards together, numbered from 0, and empty only for empty data,
  which \<open>Reconstruct\<close> gives back from any shards at all.
\<close>
theorem Encode_shape:
  assumes "encoder_ok e"
  shows "\<exists>shards. Encode e data = Inr shards \<and> int (length shards) = dataShards e + parityShards e
      \<and> (\<forall>i < length shards. sh_Index (shards ! i) = int i \<and> (sh_Data (shards ! i) = [] \<longleftrightarrow> data = []))
      \<and> Reconstruct e got 0 = Inr []"
proof -
  have "0 < totalShards e" using assms by (simp add: encoder_ok_def totalShards_def)
  moreover obtain ss where "Encode e data = Inr ss" "length ss = nat (totalShards e)"
    "\<forall>i < nat (totalShards e). sh_Index (ss ! i) = int i \<and> (sh_Data (ss ! i) = [] \<longleftrightarrow> data = [])"
    using encoder_ok_shards [OF assms, of data] by blast
  ultimately show ?thesis by (intro exI [of _ ss]) (simp add: totalShards_def Reconstruct_def)
qed

lemma Encode_shape_witness:
  "\<exists>shards. Encode (copy_encoder 4 4) [1] = Inr shards \<and> int (length shards) = 8"
proof -
  have "encoder_ok (copy_encoder 4 4)" by (simp add: copy_encoder_ok)
  from Encode_shape [OF this, of "[1]" "[]"] show ?thesis
    by (auto simp: copy_encoder_def)
qed

end
