(* ===== verification/Protocol.thy ===== *)
theory Protocol
  imports JsonText Sha256
begin

text \<open>
  \<open>internal/protocol/protocol.go\<close>: the message bodies exchanged with a storage node, the signed
  envelope they travel in, and the functions that seal (\<open>Encode\<close>) and open (\<open>Decode\<close>) it. The
  clock (\<open>time.Now().UnixNano()\<close>) is an argument of \<open>Encode\<close>.
\<close>

section \<open>Message types\<close>

definition TypePutShardRequest :: int where "TypePutShardRequest = 1"
definition TypePutShardResponse :: int where "TypePutShardResponse = 2"
definition TypeGetShardRequest :: int where "TypeGetShardRequest = 3"
definition TypeGetShardResponse :: int where "TypeGetShardResponse = 4"
definition TypeHealthReportRequest :: int where "TypeHealthReportRequest = 5"
definition TypeHealthReportResponse :: int where "TypeHealthReportResponse = 6"
definition TypeRelaySessionRequest :: int where "TypeRelaySessionRequest = 7"
definition TypeRelaySessionResponse :: int where "TypeRelaySessionResponse = 8"

lemmas message_types =
  TypePutShardRequest_def TypePutShardResponse_def TypeGetShardRequest_def TypeGetShardResponse_def
  TypeHealthReportRequest_def TypeHealthReportResponse_def TypeRelaySessionRequest_def
  TypeRelaySessionResponse_def

datatype protocol_err = ErrInvalidSignature | ErrUnsupportedMessageType | ErrMalformedMessage

section \<open>Bodies\<close>

record PutShardRequest =
  psq_ShardID :: string
  psq_Data :: bytes

record PutShardResponse =
  psr_ShardID :: string
  psr_Success :: bool
  psr_Error :: string

record GetShardRequest =
  gsq_ShardID :: string

record GetShardResponse =
  gsr_ShardID :: string
  gsr_Data :: bytes
  gsr_Found :: bool

record HealthReportRequest =
  hrq_NodeID :: string

record HealthReportResponse =
  hrr_NodeID :: string
  hrr_StorageUsed :: int
  hrr_StorageAllocated :: int
  hrr_IsHealthy :: bool

record RelaySessionRequest =
  rsq_SessionID :: string
  rsq_TargetNodeID :: string

record RelaySessionResponse =
  rsr_SessionID :: string
  rsr_Success :: bool
  rsr_Error :: string

text \<open>
  The tags: the members \<open>json.Marshal\<close> writes, in their order (\<open>omitempty\<close> leaves an empty one
  out), and the member-by-member assignment of \<open>json.Unmarshal\<close>.
\<close>

definition json_PutShardRequest :: "PutShardRequest \<Rightarrow> json" where
  "json_PutShardRequest q = JObj [(''shard_id'', JStr (psq_ShardID q)), (''data'', enc_bytes (psq_Data q))]"

definition put_PutShardRequest :: "string \<Rightarrow> json \<Rightarrow> PutShardRequest \<Rightarrow> PutShardRequest option" where
  "put_PutShardRequest k v q =
     (if field_is ''shard_id'' k then map_option (\<lambda>s. q\<lparr>psq_ShardID := s\<rparr>) (dec_string v (psq_ShardID q))
      else if field_is ''data'' k then map_option (\<lambda>d. q\<lparr>psq_Data := d\<rparr>) (dec_bytes v)
      else Some q)"

definition zero_PutShardRequest :: PutShardRequest where
  "zero_PutShardRequest = \<lparr>psq_ShardID = '''', psq_Data = []\<rparr>"

definition json_PutShardResponse :: "PutShardResponse \<Rightarrow> json" where
  "json_PutShardResponse r =
     JObj ([(''shard_id'', JStr (psr_ShardID r)), (''success'', JBool (psr_Success r))]
           @ (if psr_Error r = '''' then [] else [(''error'', JStr (psr_Error r))]))"

definition put_PutShardResponse :: "string \<Rightarrow> json \<Rightarrow> PutShardResponse \<Rightarrow> PutShardResponse option" where
  "put_PutShardResponse k v r =
     (if field_is ''shard_id'' k then map_option (\<lambda>s. r\<lparr>psr_ShardID := s\<rparr>) (dec_string v (psr_ShardID r))
      else if field_is ''success'' k then map_option (\<lambda>b. r\<lparr>psr_Success := b\<rparr>) (dec_bool v (psr_Success r))
      else if field_is ''error'' k then map_option (\<lambda>s. r\<lparr>psr_Error := s\<rparr>) (dec_string v (psr_Error r))
      else Some r)"

definition zero_PutShardResponse :: PutShardResponse where
  "zero_PutShardResponse = \<lparr>psr_ShardID = '''', psr_Success = False, psr_Error = ''''\<rparr>"

definition json_GetShardRequest :: "GetShardRequest \<Rightarrow> json" where
  "json_GetShardRequest q = JObj [(''shard_id'', JStr (gsq_ShardID q))]"

definition put_GetShardRequest :: "string \<Rightarrow> json \<Rightarrow> GetShardRequest \<Rightarrow> GetShardRequest option" where
  "put_GetShardRequest k v q =
     (if field_is ''shard_id'' k then map_option (\<lambda>s. q\<lparr>gsq_ShardID := s\<rparr>) (dec_string v (gsq_ShardID q))
      else Some q)"

definition zero_GetShardRequest :: GetShardRequest where
  "zero_GetShardRequest = \<lparr>gsq_ShardID = ''''\<rparr>"

definition json_GetShardResponse :: "GetShardResponse \<Rightarrow> json" where
  "json_GetShardResponse r =
     JObj ([(''shard_id'', JStr (gsr_ShardID r))]
           @ (if gsr_Data r = [] then [] else [(''data'', enc_bytes (gsr_Data r))])
           @ [(''found'', JBool (gsr_Found r))])"

definition put_GetShardResponse :: "string \<Rightarrow> json \<Rightarrow> GetShardResponse \<Rightarrow> GetShardResponse option" where
  "put_GetShardResponse k v r =
     (if field_is ''shard_id'' k then map_option (\<lambda>s. r\<lparr>gsr_ShardID := s\<rparr>) (dec_string v (gsr_ShardID r))
      else if field_is ''data'' k then map_option (\<lambda>d. r\<lparr>gsr_Data := d\<rparr>) (dec_bytes v)
      else if field_is ''found'' k then map_option (\<lambda>b. r\<lparr>gsr_Found := b\<rparr>) (dec_bool v (gsr_Found r))
      else Some r)"

definition zero_GetShardResponse :: GetShardResponse where
  "zero_GetShardResponse = \<lparr>gsr_ShardID = '''', gsr_Data = [], gsr_Found = False\<rparr>"

definition json_HealthReportRequest :: "HealthReportRequest \<Rightarrow> json" where
  "json_HealthReportRequest q = JObj [(''node_id'', JStr (hrq_NodeID q))]"

definition put_HealthReportRequest :: "string \<Rightarrow> json \<Rightarrow> HealthReportRequest \<Rightarrow> HealthReportRequest option" where
  "put_HealthReportRequest k v q =
     (if field_is ''node_id'' k then map_option (\<lambda>s. q\<lparr>hrq_NodeID := s\<rparr>) (dec_string v (hrq_NodeID q))
      else Some q)"

definition zero_HealthReportRequest :: HealthReportRequest where
  "zero_HealthReportRequest = \<lparr>hrq_NodeID = ''''\<rparr>"

definition json_RelaySessionRequest :: "RelaySessionRequest \<Rightarrow> json" where
  "json_RelaySessionRequest q =
     JObj [(''session_id'', JStr (rsq_SessionID q)), (''target_node_id'', JStr (rsq_TargetNodeID q))]"

definition json_RelaySessionResponse :: "RelaySessionResponse \<Rightarrow> json" where
  "json_RelaySessionResponse r =
     JObj ([(''session_id'', JStr (rsr_SessionID r)), (''success'', JBool (rsr_Success r))]
           @ (if rsr_Error r = '''' then [] else [(''error'', JStr (rsr_Error r))]))"

definition json_HealthReportResponse :: "HealthReportResponse \<Rightarrow> json" where
  "json_HealthReportResponse r =
     JObj [(''node_id'', JStr (hrr_NodeID r)), (''storage_used'', JInt (hrr_StorageUsed r)),
           (''storage_allocated'', JInt (hrr_StorageAllocated r)), (''is_healthy'', JBool (hrr_IsHealthy r))]"

definition put_HealthReportResponse :: "string \<Rightarrow> json \<Rightarrow> HealthReportResponse \<Rightarrow> HealthReportResponse option" where
  "put_HealthReportResponse k v r =
     (if field_is ''node_id'' k then map_option (\<lambda>s. r\<lparr>hrr_NodeID := s\<rparr>) (dec_string v (hrr_NodeID r))
      else if field_is ''storage_used'' k
      then map_option (\<lambda>i. r\<lparr>hrr_StorageUsed := i\<rparr>) (dec_int64 v (hrr_StorageUsed r))
      else if field_is ''storage_allocated'' k
      then map_option (\<lambda>i. r\<lparr>hrr_StorageAllocated := i\<rparr>) (dec_int64 v (hrr_StorageAllocated r))
      else if field_is ''is_healthy'' k then map_option (\<lambda>b. r\<lparr>hrr_IsHealthy := b\<rparr>) (dec_bool v (hrr_IsHealthy r))
      else Some r)"

definition zero_HealthReportResponse :: HealthReportResponse where
  "zero_HealthReportResponse = \<lparr>hrr_NodeID = '''', hrr_StorageUsed = 0, hrr_StorageAllocated = 0, hrr_IsHealthy = False\<rparr>"

section \<open>Envelopes\<close>

record MessageEnvelope =
  env_Type :: int
  env_NodeID :: string
  env_Timestamp :: int
  env_MAC :: bytes
  env_Payload :: bytes

definition json_MessageEnvelope :: "MessageEnvelope \<Rightarrow> json" where
  "json_MessageEnvelope e =
     JObj [(''type'', JInt (env_Type e)), (''node_id'', JStr (env_NodeID e)),
           (''timestamp'', JInt (env_Timestamp e)), (''mac'', enc_bytes32 (env_MAC e)),
           (''payload'', enc_bytes (env_Payload e))]"

definition put_MessageEnvelope :: "string \<Rightarrow> json \<Rightarrow> MessageEnvelope \<Rightarrow> MessageEnvelope option" where
  "put_MessageEnvelope k v e =
     (if field_is ''type'' k then map_option (\<lambda>t. e\<lparr>env_Type := t\<rparr>) (dec_uint8 v (env_Type e))
      else if field_is ''node_id'' k then map_option (\<lambda>s. e\<lparr>env_NodeID := s\<rparr>) (dec_string v (env_NodeID e))
      else if field_is ''timestamp'' k then map_option (\<lambda>i. e\<lparr>env_Timestamp := i\<rparr>) (dec_int64 v (env_Timestamp e))
      else if field_is ''mac'' k then map_option (\<lambda>m. e\<lparr>env_MAC := m\<rparr>) (dec_bytes32 v (env_MAC e))
      else if field_is ''payload'' k then map_option (\<lambda>p. e\<lparr>env_Payload := p\<rparr>) (dec_bytes v)
      else Some e)"

definition zero_MessageEnvelope :: MessageEnvelope where
  "zero_MessageEnvelope =
     \<lparr>env_Type = 0, env_NodeID = '''', env_Timestamp = 0, env_MAC = replicate 32 0, env_Payload = []\<rparr>"

text \<open>
  \<open>UnmarshalBody\<close> reads the payload into a struct, given by its assignment function and its
  zero value.
\<close>

definition UnmarshalBody ::
    "json_codec \<Rightarrow> (string \<Rightarrow> json \<Rightarrow> 'r \<Rightarrow> 'r option) \<Rightarrow> 'r \<Rightarrow> MessageEnvelope \<Rightarrow> protocol_err + 'r" where
  "UnmarshalBody jc put zero env =
     (case json_unmarshal jc (env_Payload env) of
        None \<Rightarrow> Inl ErrMalformedMessage
      | Some v \<Rightarrow> (case dec_struct put zero v of None \<Rightarrow> Inl ErrMalformedMessage | Some r \<Rightarrow> Inr r))"

text \<open>What is hashed: \<open>"%d:%s:%d:"\<close> and the payload.\<close>

definition mac_input :: "int \<Rightarrow> string \<Rightarrow> int \<Rightarrow> bytes \<Rightarrow> bytes" where
  "mac_input msgType nodeID timestamp payload =
     bytes_of_string (show_int msgType @ '':'' @ nodeID @ '':'' @ show_int timestamp @ '':'') @ payload"

definition calculateMAC :: "int \<Rightarrow> string \<Rightarrow> int \<Rightarrow> bytes \<Rightarrow> bytes \<Rightarrow> bytes" where
  "calculateMAC msgType nodeID timestamp payload networkKey =
     hmac_sha256 networkKey (mac_input msgType nodeID timestamp payload)"

definition Encode :: "json_codec \<Rightarrow> int \<Rightarrow> int \<Rightarrow> string \<Rightarrow> json \<Rightarrow> bytes \<Rightarrow> protocol_err + bytes" where
  "Encode jc now msgType nodeID body networkKey =
     (if msgType < TypePutShardRequest \<or> TypeHealthReportResponse < msgType then Inl ErrUnsupportedMessageType
      else let payload = json_marshal jc body;
               env = \<lparr>env_Type = msgType, env_NodeID = nodeID, env_Timestamp = now,
                      env_MAC = calculateMAC msgType nodeID now payload networkKey, env_Payload = payload\<rparr>
           in Inr (json_marshal jc (json_MessageEnvelope env)))"

definition Decode :: "json_codec \<Rightarrow> bytes \<Rightarrow> bytes \<Rightarrow> protocol_err + MessageEnvelope" where
  "Decode jc data networkKey =
     (case json_unmarshal jc data of
        None \<Rightarrow> Inl ErrMalformedMessage
      | Some v \<Rightarrow>
          (case dec_struct put_MessageEnvelope zero_MessageEnvelope v of
             None \<Rightarrow> Inl ErrMalformedMessage
           | Some env \<Rightarrow>
               if env_MAC env \<noteq> calculateMAC (env_Type env) (env_NodeID env) (env_Timestamp env) (env_Payload env) networkKey
               then Inl ErrInvalidSignature else Inr env))"

section \<open>Round trips\<close>

lemma field_is_simps [simp]:
  "field_is tag ''type'' \<longleftrightarrow> tag = ''type''" "field_is tag ''node_id'' \<longleftrightarrow> tag = ''node_id''"
  "field_is tag ''timestamp'' \<longleftrightarrow> tag = ''timestamp''" "field_is tag ''mac'' \<longleftrightarrow> tag = ''mac''"
  "field_is tag ''payload'' \<longleftrightarrow> tag = ''payload''" "field_is tag ''shard_id'' \<longleftrightarrow> tag = ''shard_id''"
  "field_is tag ''data'' \<longleftrightarrow> tag = ''data''" "field_is tag ''found'' \<longleftrightarrow> tag = ''found''"
  "field_is tag ''success'' \<longleftrightarrow> tag = ''success''" "field_is tag ''error'' \<longleftrightarrow> tag = ''error''"
  "field_is tag ''storage_used'' \<longleftrightarrow> tag = ''storage_used''"
  "field_is tag ''storage_allocated'' \<longleftrightarrow> tag = ''storage_allocated''"
  "field_is tag ''is_healthy'' \<longleftrightarrow> tag = ''is_healthy''"
  by (auto simp: field_is_def lower_def to_lower_def)

lemma utf8_valid_tags [simp]:
  "utf8_valid ''type''" "utf8_valid ''node_id''" "utf8_valid ''timestamp''" "utf8_valid ''mac''"
  "utf8_valid ''payload''" "utf8_valid ''shard_id''" "utf8_valid ''data''" "utf8_valid ''found''"
  "utf8_valid ''success''" "utf8_valid ''error''"
  "utf8_valid ''storage_used''" "utf8_valid ''storage_allocated''" "utf8_valid ''is_healthy''"
  by (simp_all add: utf8_valid_ascii)

lemma codec_PutShardRequest:
  "utf8_valid (psq_ShardID q) \<Longrightarrow> struct_codec json_PutShardRequest put_PutShardRequest zero_PutShardRequest q"
  by (simp add: struct_codec_def json_PutShardRequest_def put_PutShardRequest_def zero_PutShardRequest_def
      dec_struct_def json_ok_def)

lemma codec_GetShardRequest:
  "utf8_valid (gsq_ShardID q) \<Longrightarrow> struct_codec json_GetShardRequest put_GetShardRequest zero_GetShardRequest q"
  by (simp add: struct_codec_def json_GetShardRequest_def put_GetShardRequest_def zero_GetShardRequest_def
      dec_struct_def json_ok_def)

lemma codec_GetShardResponse:
  "utf8_valid (gsr_ShardID r) \<Longrightarrow> struct_codec json_GetShardResponse put_GetShardResponse zero_GetShardResponse r"
  by (simp add: struct_codec_def json_GetShardResponse_def put_GetShardResponse_def zero_GetShardResponse_def
      dec_struct_def json_ok_def)

lemma codec_PutShardResponse:
  "utf8_valid (psr_ShardID r) \<Longrightarrow> utf8_valid (psr_Error r) \<Longrightarrow>
     struct_codec json_PutShardResponse put_PutShardResponse zero_PutShardResponse r"
  by (simp add: struct_codec_def json_PutShardResponse_def put_PutShardResponse_def zero_PutShardResponse_def
      dec_struct_def json_ok_def)

lemma codec_HealthReportRequest:
  "utf8_valid (hrq_NodeID q) \<Longrightarrow> struct_codec json_HealthReportRequest put_HealthReportRequest zero_HealthReportRequest q"
  by (simp add: struct_codec_def json_HealthReportRequest_def put_HealthReportRequest_def zero_HealthReportRequest_def
      dec_struct_def json_ok_def)

lemma codec_HealthReportResponse:
  "utf8_valid (hrr_NodeID r) \<Longrightarrow> in_int64 (hrr_StorageUsed r) \<Longrightarrow> in_int64 (hrr_StorageAllocated r) \<Longrightarrow>
     struct_codec json_HealthReportResponse put_HealthReportResponse zero_HealthReportResponse r"
  by (simp add: struct_codec_def json_HealthReportResponse_def put_HealthReportResponse_def zero_HealthReportResponse_def
      dec_struct_def json_ok_def)

lemma dec_MessageEnvelope:
  assumes "0 \<le> env_Type e" "env_Type e < 256" "in_int64 (env_Timestamp e)" "length (env_MAC e) = 32"
  shows "dec_struct put_MessageEnvelope zero_MessageEnvelope (json_MessageEnvelope e) = Some e"
  using assms by (simp add: json_MessageEnvelope_def put_MessageEnvelope_def zero_MessageEnvelope_def dec_struct_def)

lemma json_ok_MessageEnvelope: "utf8_valid (env_NodeID e) \<Longrightarrow> json_ok (json_MessageEnvelope e)"
  by (simp add: json_MessageEnvelope_def json_ok_def)

lemma length_calculateMAC [simp]: "length (calculateMAC t n ts p k) = 32"
  by (simp add: calculateMAC_def)

text \<open>The envelope \<open>Encode\<close> seals a body in.\<close>

definition signed_env :: "int \<Rightarrow> string \<Rightarrow> int \<Rightarrow> bytes \<Rightarrow> bytes \<Rightarrow> MessageEnvelope" where
  "signed_env t n ts p key =
     \<lparr>env_Type = t, env_NodeID = n, env_Timestamp = ts, env_MAC = calculateMAC t n ts p key, env_Payload = p\<rparr>"

definition sealed_env :: "json_codec \<Rightarrow> int \<Rightarrow> int \<Rightarrow> string \<Rightarrow> json \<Rightarrow> bytes \<Rightarrow> MessageEnvelope" where
  "sealed_env jc now msgType nodeID body key = signed_env msgType nodeID now (json_marshal jc body) key"

lemma signed_env_simps [simp]:
  "env_Type (signed_env t n ts p key) = t" "env_NodeID (signed_env t n ts p key) = n"
  "env_Timestamp (signed_env t n ts p key) = ts" "env_Payload (signed_env t n ts p key) = p"
  "env_MAC (signed_env t n ts p key) = calculateMAC t n ts p key"
  by (simp_all add: signed_env_def)

lemma Decode_signed:
  assumes "json_codec_ok jc" "in_int64 ts" "utf8_valid n" "0 \<le> t" "t < 256"
  shows "Decode jc (json_marshal jc (json_MessageEnvelope (signed_env t n ts p key))) key = Inr (signed_env t n ts p key)"
proof -
  let ?e = "signed_env t n ts p key"
  have "json_unmarshal jc (json_marshal jc (json_MessageEnvelope ?e)) = Some (json_MessageEnvelope ?e)"
    using assms by (intro json_codec_okD(1)) (simp_all add: json_ok_MessageEnvelope)
  moreover have "dec_struct put_MessageEnvelope zero_MessageEnvelope (json_MessageEnvelope ?e) = Some ?e"
    using assms by (intro dec_MessageEnvelope) simp_all
  ultimately show ?thesis by (simp add: Decode_def)
qed

lemma Encode_Decode_env:
  assumes "json_codec_ok jc" "in_int64 now" "utf8_valid nodeID"
    and "TypePutShardRequest \<le> msgType" "msgType \<le> TypeHealthReportResponse"
  shows "\<exists>data. Encode jc now msgType nodeID body key = Inr data
           \<and> Decode jc data key = Inr (sealed_env jc now msgType nodeID body key)"
  using Decode_signed [OF assms(1-3), of msgType "json_marshal jc body" key] assms(4,5)
  by (simp add: Encode_def sealed_env_def Let_def message_types flip: signed_env_def)

lemma UnmarshalBody_sealed:
  assumes "json_codec_ok jc" "struct_codec to_json put zero r"
  shows "UnmarshalBody jc put zero (sealed_env jc now t n (to_json r) key) = Inr r"
  using assms json_codec_okD(1) [OF assms(1) struct_codec_json_ok [OF assms(2)]]
  by (simp add: UnmarshalBody_def sealed_env_def struct_codec_dec)

lemma Decode_MAC:
  "Decode jc data key = Inr env \<Longrightarrow>
     env_MAC env = calculateMAC (env_Type env) (env_NodeID env) (env_Timestamp env) (env_Payload env) key"
  by (auto simp: Decode_def split: option.splits if_splits)

text \<open>A receiver opens the envelope and reads the body, as every handler and client does.\<close>

definition receive ::
    "json_codec \<Rightarrow> (string \<Rightarrow> json \<Rightarrow> 'r \<Rightarrow> 'r option) \<Rightarrow> 'r \<Rightarrow> bytes \<Rightarrow> bytes \<Rightarrow> protocol_err + MessageEnvelope \<times> 'r" where
  "receive jc put zero data key =
     (case Decode jc data key of
        Inl e \<Rightarrow> Inl e
      | Inr env \<Rightarrow> (case UnmarshalBody jc put zero env of Inl e \<Rightarrow> Inl e | Inr r \<Rightarrow> Inr (env, r)))"

lemma receive_sealed:
  assumes "json_codec_ok jc" "in_int64 now" "utf8_valid nodeID"
    and "TypePutShardRequest \<le> t" "t \<le> TypeHealthReportResponse" "struct_codec to_json put zero r"
  shows "\<exists>data. Encode jc now t nodeID (to_json r) key = Inr data
           \<and> receive jc put zero data key = Inr (sealed_env jc now t nodeID (to_json r) key, r)"
  using Encode_Decode_env [OF assms(1-5), of "to_json r" key] UnmarshalBody_sealed [OF assms(1,6)]
  by (auto simp: receive_def)

text \<open>
  A body arrives: sealing it gives a message, and the holder of the key reads from it the type, the
  sender, the time and the same body.
\<close>

definition arrives ::
    "json_codec \<Rightarrow> int \<Rightarrow> string \<Rightarrow> bytes \<Rightarrow> int \<Rightarrow> ('r \<Rightarrow> json) \<Rightarrow> (string \<Rightarrow> json \<Rightarrow> 'r \<Rightarrow> 'r option) \<Rightarrow> 'r \<Rightarrow> 'r \<Rightarrow> bool" where
  "arrives jc now nodeID key t to_json put zero r \<longleftrightarrow>
     (\<exists>msg env. Encode jc now t nodeID (to_json r) key = Inr msg
        \<and> receive jc put zero msg key = Inr (env, r)
        \<and> env_Type env = t \<and> env_NodeID env = nodeID \<and> env_Timestamp env = now)"

lemma sealed_arrives:
  assumes "json_codec_ok jc" "in_int64 now" "utf8_valid nodeID" "struct_codec to_json put zero r"
    and "TypePutShardRequest \<le> t" "t \<le> TypeHealthReportResponse"
  shows "arrives jc now nodeID key t to_json put zero r"
  using receive_sealed [OF assms(1-3,5,6,4), of key] by (auto simp: sealed_env_def arrives_def)

section \<open>The MAC's input\<close>

lemma mac_input_inject:
  assumes "CHR '':'' \<notin> set n1" "CHR '':'' \<notin> set n2" "mac_input t1 n1 ts1 p1 = mac_input t2 n2 ts2 p2"
  shows "t1 = t2 \<and> n1 = n2 \<and> ts1 = ts2 \<and> p1 = p2"
proof -
  define colon where "colon = (of_char (CHR '':'') :: byte)"
  have fields: "mac_input t n ts p = bytes_of_string (show_int t) @ colon # bytes_of_string n @ colon #
      bytes_of_string (show_int ts) @ colon # p" for t n ts p
    by (simp add: mac_input_def bytes_of_string_def colon_def)
  have no_colon: "colon \<notin> set (bytes_of_string s)" if "CHR '':'' \<notin> set s" for s
  proof
    assume "colon \<in> set (bytes_of_string s)"
    then obtain c where "c \<in> set s" "(of_char c :: byte) = of_char (CHR '':'')"
      unfolding bytes_of_string_def colon_def set_map by (elim imageE) simp
    with that show False by (metis of_char_byte_inject)
  qed
  show ?thesis
    using assms(3) no_colon [OF assms(1)] no_colon [OF assms(2)]
    by (simp add: fields cut_at_separator no_colon)
qed

lemma mac_input_shift:
  "mac_input t (n @ '':'' @ show_int ts1) ts2 p = mac_input t n ts1 (bytes_of_string (show_int ts2 @ '':'') @ p)"
  unfolding mac_input_def bytes_of_string_def map_append append_assoc ..

section \<open>Properties\<close>

text \<open>
  C18: whatever a node seals with the network key, a holder of the key opens and reads back: the
  requests to store a shard, to fetch one and to report health, and the answers to them, arrive
  with their type, sender, timestamp and every field of the body as they were sent.
\<close>
theorem Encode_Decode:
  assumes "json_codec_ok jc" "in_int64 now" "utf8_valid nodeID"
    and "utf8_valid (psq_ShardID q)" "utf8_valid (psr_ShardID a)" "utf8_valid (psr_Error a)"
    and "utf8_valid (gsq_ShardID g)" "utf8_valid (gsr_ShardID r)" "utf8_valid (hrq_NodeID h)"
    and "utf8_valid (hrr_NodeID s)" "in_int64 (hrr_StorageUsed s)" "in_int64 (hrr_StorageAllocated s)"
  shows "arrives jc now nodeID key TypePutShardRequest json_PutShardRequest put_PutShardRequest zero_PutShardRequest q
       \<and> arrives jc now nodeID key TypePutShardResponse json_PutShardResponse put_PutShardResponse zero_PutShardResponse a
       \<and> arrives jc now nodeID key TypeGetShardRequest json_GetShardRequest put_GetShardRequest zero_GetShardRequest g
       \<and> arrives jc now nodeID key TypeGetShardResponse json_GetShardResponse put_GetShardResponse zero_GetShardResponse r
       \<and> arrives jc now nodeID key TypeHealthReportRequest
           json_HealthReportRequest put_HealthReportRequest zero_HealthReportRequest h
       \<and> arrives jc now nodeID key TypeHealthReportResponse
           json_HealthReportResponse put_HealthReportResponse zero_HealthReportResponse s"
  using assms
  by (intro conjI sealed_arrives codec_PutShardRequest codec_PutShardResponse codec_GetShardRequest
      codec_GetShardResponse codec_HealthReportRequest codec_HealthReportResponse)
    (simp_all add: message_types)

lemma Encode_Decode_witness:
  "\<exists>msg env. Encode ser_codec 5 TypePutShardRequest ''aldea-cli'' (json_PutShardRequest \<lparr>psq_ShardID = ''s1'', psq_Data = [1, 2]\<rparr>) [7] = Inr msg
     \<and> receive ser_codec put_PutShardRequest zero_PutShardRequest msg [7] = Inr (env, \<lparr>psq_ShardID = ''s1'', psq_Data = [1, 2]\<rparr>)"
  using Encode_Decode [OF ser_codec_ok, of 5 "''aldea-cli''" "\<lparr>psq_ShardID = ''s1'', psq_Data = [1, 2]\<rparr>"
      zero_PutShardResponse "\<lparr>gsq_ShardID = ''s1''\<rparr>" zero_GetShardResponse zero_HealthReportRequest
      zero_HealthReportResponse "[7]"]
  by (auto simp: in_int64_def utf8_valid_ascii arrives_def zero_PutShardResponse_def zero_GetShardResponse_def
      zero_HealthReportRequest_def zero_HealthReportResponse_def)

text \<open>
  A MAC stands for one message. Two messages a holder of the key accepts under the same MAC
  are the same envelope, provided their senders' names hold no colon (the separator of the
  hashed text) and HMAC does not collide on the two texts that were hashed.
\<close>
theorem Decode_binding:
  assumes "Decode jc d1 key = Inr e1" "Decode jc d2 key = Inr e2" "env_MAC e1 = env_MAC e2"
    and "CHR '':'' \<notin> set (env_NodeID e1)" "CHR '':'' \<notin> set (env_NodeID e2)"
    and no_collision: "calculateMAC (env_Type e1) (env_NodeID e1) (env_Timestamp e1) (env_Payload e1) key =
        calculateMAC (env_Type e2) (env_NodeID e2) (env_Timestamp e2) (env_Payload e2) key \<Longrightarrow>
      mac_input (env_Type e1) (env_NodeID e1) (env_Timestamp e1) (env_Payload e1) =
        mac_input (env_Type e2) (env_NodeID e2) (env_Timestamp e2) (env_Payload e2)"
  shows "e1 = e2"
proof -
  from assms(3) have "calculateMAC (env_Type e1) (env_NodeID e1) (env_Timestamp e1) (env_Payload e1) key =
      calculateMAC (env_Type e2) (env_NodeID e2) (env_Timestamp e2) (env_Payload e2) key"
    by (simp add: Decode_MAC [OF assms(1)] Decode_MAC [OF assms(2)])
  from mac_input_inject [OF assms(4,5) no_collision [OF this]] assms(3) show ?thesis by simp
qed

lemma Decode_binding_witness:
  "\<exists>msg env. Decode ser_codec msg [7] = Inr env \<and> env_NodeID env = ''aldea-cli''
     \<and> (\<forall>env'. Decode ser_codec msg [7] = Inr env' \<longrightarrow> env' = env)"
proof -
  obtain msg where msg: "Decode ser_codec msg [7] = Inr (sealed_env ser_codec 5 TypeGetShardRequest ''aldea-cli'' JNull [7])"
    using Encode_Decode_env [OF ser_codec_ok, of 5 "''aldea-cli''" TypeGetShardRequest JNull "[7]"]
    by (auto simp: in_int64_def utf8_valid_ascii message_types)
  let ?env = "sealed_env ser_codec 5 TypeGetShardRequest ''aldea-cli'' JNull [7]"
  have name: "env_NodeID ?env = ''aldea-cli''" by (simp add: sealed_env_def)
  have "env' = ?env" if "Decode ser_codec msg [7] = Inr env'" for env'
    by (rule Decode_binding [OF that msg]) (use that msg name in simp_all)
  with msg name show ?thesis by blast
qed

text \<open>
  The proviso on colons is needed: a sender's name is not escaped in the hashed text, so a
  message from \<open>n:t\<close> at one time and a message from \<open>n\<close> at time \<open>t\<close>, with part of the text
  moved into the payload, are different envelopes with the same MAC, and both are accepted,
  whatever the key.
\<close>
theorem Decode_ambiguous_name:
  fixes t :: int
  assumes "json_codec_ok jc" "in_int64 ts1" "in_int64 ts2" "utf8_valid n" "utf8_valid (n @ '':'' @ show_int ts1)"
    and "0 \<le> t" "t < 256"
  shows "\<exists>e1 e2. Decode jc (json_marshal jc (json_MessageEnvelope e1)) key = Inr e1
    \<and> Decode jc (json_marshal jc (json_MessageEnvelope e2)) key = Inr e2
    \<and> env_MAC e1 = env_MAC e2
    \<and> env_NodeID e1 = n @ '':'' @ show_int ts1 \<and> env_Timestamp e1 = ts2 \<and> env_Payload e1 = p
    \<and> env_NodeID e2 = n \<and> env_Timestamp e2 = ts1
    \<and> env_Payload e2 = bytes_of_string (show_int ts2 @ '':'') @ p"
proof -
  let ?e1 = "signed_env t (n @ '':'' @ show_int ts1) ts2 p key"
  let ?e2 = "signed_env t n ts1 (bytes_of_string (show_int ts2 @ '':'') @ p) key"
  have "env_MAC ?e1 = env_MAC ?e2"
    unfolding signed_env_simps calculateMAC_def mac_input_shift ..
  then show ?thesis
    using Decode_signed [OF assms(1,3,5,6,7)] Decode_signed [OF assms(1,2,4,6,7)]
    by (intro exI [of _ ?e1] exI [of _ ?e2]) simp
qed

lemma Decode_ambiguous_name_witness:
  "\<exists>d1 d2 e1 e2. Decode ser_codec d1 [7] = Inr e1 \<and> Decode ser_codec d2 [7] = Inr e2
     \<and> env_NodeID e1 = ''node:3'' \<and> env_NodeID e2 = ''node''"
proof -
  have show3: "show_int 3 = ''3''" by code_simp
  have "utf8_valid (''node'' @ '':'' @ show_int 3)" by (simp add: show3 utf8_valid_ascii)
  from Decode_ambiguous_name [OF ser_codec_ok _ _ _ this, of 4 1 "[7]" "[9]"] show ?thesis
    unfolding show3 by (simp add: in_int64_def utf8_valid_ascii) blast
qed

text \<open>
  \<open>Encode\<close> refuses exactly the types outside the storage and health messages. The two relay
  types are among the refused: they are declared, but no message of them can be sealed.
\<close>
theorem Encode_types:
  "(\<not> is_ok (Encode jc now t nodeID body key) \<longleftrightarrow> Encode jc now t nodeID body key = Inl ErrUnsupportedMessageType)
   \<and> (is_ok (Encode jc now t nodeID body key) \<longleftrightarrow>
        t \<in> {TypePutShardRequest, TypePutShardResponse, TypeGetShardRequest, TypeGetShardResponse,
             TypeHealthReportRequest, TypeHealthReportResponse})
   \<and> Encode jc now TypeRelaySessionRequest nodeID body key = Inl ErrUnsupportedMessageType
   \<and> Encode jc now TypeRelaySessionResponse nodeID body key = Inl ErrUnsupportedMessageType"
  by (auto simp: Encode_def message_types Let_def)

end
