(* ===== verification/Dht.thy ===== *)
theory Dht
  imports Sha256 "HOL-Library.Sublist"
begin

text \<open>
  \<open>internal/dht/dht.go\<close>: node identifiers of 20 bytes under the XOR distance, and the routing
  table that keeps the contacts in one bucket per length of the prefix they share with the local
  identifier. Every method holds the table's lock to its end, so a call is one step here. The
  value of \<open>sort.Slice\<close> is a parameter of \<open>FindClosest\<close> (it is not a stable sort).
\<close>

section \<open>Identifiers\<close>

definition IDBytes :: nat where "IDBytes = 20"
definition BucketSize :: nat where "BucketSize = 20"

type_synonym NodeID = bytes

text \<open>A value of the array type \<open>[20]byte\<close>.\<close>

definition id_ok :: "NodeID \<Rightarrow> bool" where
  "id_ok a \<longleftrightarrow> length a = IDBytes"

definition NewNodeID :: "string \<Rightarrow> NodeID" where
  "NewNodeID input = take IDBytes (sha256 (bytes_of_string input))"

definition xor_id :: "NodeID \<Rightarrow> NodeID \<Rightarrow> NodeID" where
  "xor_id a b = map (\<lambda>i. a ! i XOR b ! i) [0..<IDBytes]"

text \<open>The inner loop, from \<open>bit\<close> 7 down to 0.\<close>

fun scan_bits :: "byte \<Rightarrow> nat list \<Rightarrow> nat option" where
  "scan_bits b [] = None"
| "scan_bits b (k # ks) = (if b AND push_bit k 1 \<noteq> 0 then Some k else scan_bits b ks)"

fun scan_bytes :: "nat \<Rightarrow> bytes \<Rightarrow> nat" where
  "scan_bytes i [] = IDBytes * 8"
| "scan_bytes i (b # bs) =
     (if b \<noteq> 0
      then case scan_bits b [7, 6, 5, 4, 3, 2, 1, 0] of
             Some k \<Rightarrow> i * 8 + (7 - k)
           | None \<Rightarrow> scan_bytes (i + 1) bs
      else scan_bytes (i + 1) bs)"

definition PrefixLen :: "NodeID \<Rightarrow> NodeID \<Rightarrow> nat" where
  "PrefixLen i target = scan_bytes 0 (xor_id i target)"

text \<open>\<open>bytes.Compare(a, b) < 0\<close>.\<close>

fun bytes_less :: "bytes \<Rightarrow> bytes \<Rightarrow> bool" where
  "bytes_less _ [] = False"
| "bytes_less [] (_ # _) = True"
| "bytes_less (a # as) (b # bs) = (a < b \<or> (a = b \<and> bytes_less as bs))"

section \<open>The routing table\<close>

record Contact =
  ct_ID :: NodeID
  ct_Address :: string
  ct_LastSeen :: int

record RoutingTable =
  localID :: NodeID
  buckets :: "Contact list list"

definition NewRoutingTable :: "NodeID \<Rightarrow> RoutingTable" where
  "NewRoutingTable local = \<lparr>localID = local, buckets = replicate (IDBytes * 8) []\<rparr>"

definition bucketIdx :: "RoutingTable \<Rightarrow> NodeID \<Rightarrow> nat" where
  "bucketIdx rt i =
     (let k = PrefixLen (localID rt) i
      in if length (buckets rt) \<le> k then length (buckets rt) - 1 else k)"

text \<open>The two loops over a bucket: they act on the first contact with the identifier.\<close>

fun replace_contact :: "Contact \<Rightarrow> Contact list \<Rightarrow> Contact list option" where
  "replace_contact c [] = None"
| "replace_contact c (e # es) =
     (if ct_ID e = ct_ID c then Some (c # es) else map_option ((#) e) (replace_contact c es))"

fun remove_contact :: "NodeID \<Rightarrow> Contact list \<Rightarrow> Contact list" where
  "remove_contact i [] = []"
| "remove_contact i (e # es) = (if ct_ID e = i then es else e # remove_contact i es)"

definition Add :: "RoutingTable \<Rightarrow> Contact \<Rightarrow> bool \<times> RoutingTable" where
  "Add rt c =
     (if ct_ID c = localID rt then (False, rt)
      else let k = bucketIdx rt (ct_ID c); b = buckets rt ! k
           in case replace_contact c b of
                Some b' \<Rightarrow> (True, rt\<lparr>buckets := (buckets rt)[k := b']\<rparr>)
              | None \<Rightarrow>
                  if length b < BucketSize then (True, rt\<lparr>buckets := (buckets rt)[k := b @ [c]]\<rparr>)
                  else (False, rt))"

definition Remove :: "RoutingTable \<Rightarrow> NodeID \<Rightarrow> RoutingTable" where
  "Remove rt i =
     (let k = bucketIdx rt i
      in rt\<lparr>buckets := (buckets rt)[k := remove_contact i (buckets rt ! k)]\<rparr>)"

definition closer :: "NodeID \<Rightarrow> Contact \<Rightarrow> Contact \<Rightarrow> bool" where
  "closer target a b = bytes_less (xor_id (ct_ID a) target) (xor_id (ct_ID b) target)"

text \<open>A negative \<open>count\<close> panics in the slice expression, unless there is nothing to cut.\<close>

definition FindClosest ::
    "((Contact \<Rightarrow> Contact \<Rightarrow> bool) \<Rightarrow> Contact list \<Rightarrow> Contact list) \<Rightarrow> RoutingTable \<Rightarrow> NodeID \<Rightarrow> int \<Rightarrow> Contact list option" where
  "FindClosest sort_slice rt target cnt =
     (let all = sort_slice (closer target) (concat (buckets rt))
      in if cnt < int (length all)
         then if cnt < 0 then None else Some (take (nat cnt) all)
         else Some all)"

section \<open>The distance\<close>

text \<open>An identifier read as a 160-bit number, first byte first, and as a sequence of bits.\<close>

fun id_num :: "bytes \<Rightarrow> nat" where
  "id_num [] = 0"
| "id_num (b # bs) = unat b * 256 ^ length bs + id_num bs"

definition byte_bits :: "byte \<Rightarrow> bool list" where
  "byte_bits b = map (bit b) [7, 6, 5, 4, 3, 2, 1, 0]"

definition id_bits :: "bytes \<Rightarrow> bool list" where
  "id_bits a = concat (map byte_bits a)"

definition id_dist :: "NodeID \<Rightarrow> NodeID \<Rightarrow> nat" where
  "id_dist a b = id_num (xor_id a b)"

lemma xor_id_zip: "id_ok a \<Longrightarrow> id_ok b \<Longrightarrow> xor_id a b = map2 (XOR) a b"
  by (rule nth_equalityI) (simp_all add: xor_id_def id_ok_def)

lemma length_xor_id [simp]: "length (xor_id a b) = IDBytes"
  by (simp add: xor_id_def)

lemma id_num_bound: "id_num a < 256 ^ length a"
proof (induction a)
  case (Cons b bs)
  have "unat b * 256 ^ length bs + id_num bs < (unat b + 1) * 256 ^ length bs" using Cons by simp
  also have "\<dots> \<le> 256 * 256 ^ length bs"
    using unat_byte_less [of b] by (intro mult_right_mono) (simp_all add: Suc_le_eq)
  finally show ?case by simp
qed simp

text \<open>The bytes are compared as the numbers they spell.\<close>

lemma digit_less:
  fixes x y m n :: nat
  assumes "m < b" "n < b"
  shows "x * b + m < y * b + n \<longleftrightarrow> x < y \<or> (x = y \<and> m < n)"
proof -
  have less: "u * b + p < v * b + q" if "u < v" "p < b" for u v p q :: nat
  proof -
    have "u * b + p < Suc u * b" using that by simp
    also have "\<dots> \<le> v * b" using that by (intro mult_right_mono) simp_all
    finally show ?thesis by simp
  qed
  show ?thesis
    using less [of x y m n] less [of y x n m] assms by (cases x y rule: linorder_cases) auto
qed

lemma digit_eq:
  fixes x y m n :: nat
  assumes "m < b" "n < b"
  shows "x * b + m = y * b + n \<longleftrightarrow> x = y \<and> m = n"
  using digit_less [OF assms, of x y] digit_less [OF assms(2,1), of y x]
  by (metis nat_neq_iff)

lemma unat_byte_eq: "unat (x :: byte) = unat y \<longleftrightarrow> x = y"
  by (rule word_unat_eq_iff [symmetric])

lemma bytes_less_num: "length a = length b \<Longrightarrow> bytes_less a b \<longleftrightarrow> id_num a < id_num b"
proof (induction a b rule: list_induct2)
  case (Cons x xs y ys)
  then show ?case
    using digit_less [of "id_num xs" "256 ^ length ys" "id_num ys" "unat x" "unat y"]
      id_num_bound [of xs] id_num_bound [of ys]
    by (simp add: word_less_nat_alt unat_byte_eq)
qed simp

lemma id_num_inject: "length a = length b \<Longrightarrow> id_num a = id_num b \<longleftrightarrow> a = b"
proof (induction a b rule: list_induct2)
  case (Cons x xs y ys)
  then show ?case
    using digit_eq [of "id_num xs" "256 ^ length ys" "id_num ys" "unat x" "unat y"]
      id_num_bound [of xs] id_num_bound [of ys]
    by (simp add: unat_byte_eq)
qed simp

lemma closer_dist: "closer target a b \<longleftrightarrow> id_dist (ct_ID a) target < id_dist (ct_ID b) target"
  by (simp add: closer_def id_dist_def bytes_less_num)

text \<open>
  What the closest-contact search needs of a distance: it separates the identifiers, seen from
  any target, so that the order of distinct contacts is fixed even though the sort is not
  stable.
\<close>

locale id_metric =
  fixes valid :: "'i \<Rightarrow> bool" and dist :: "'i \<Rightarrow> 'i \<Rightarrow> nat"
  assumes dist_zero: "valid a \<Longrightarrow> valid b \<Longrightarrow> dist a b = 0 \<longleftrightarrow> a = b"
    and dist_sym: "valid a \<Longrightarrow> valid b \<Longrightarrow> dist a b = dist b a"
    and dist_separates: "valid a \<Longrightarrow> valid b \<Longrightarrow> valid t \<Longrightarrow> dist a t = dist b t \<longleftrightarrow> a = b"
begin

lemma strictly_ordered:
  assumes "valid t" "\<And>c. c \<in> set cs \<Longrightarrow> valid (key c)" "distinct (map key cs)"
    and "sorted_wrt (\<lambda>a b. \<not> dist (key b) t < dist (key a) t) cs"
  shows "sorted_wrt (\<lambda>a b. dist (key a) t < dist (key b) t) cs"
  using assms(2-4)
proof (induction cs)
  case (Cons c cs)
  have "dist (key c) t < dist (key b) t" if "b \<in> set cs" for b
  proof -
    from that Cons.prems(2) have "key c \<noteq> key b" by (auto simp: image_iff)
    moreover from that Cons.prems(1) have "valid (key c)" "valid (key b)" by simp_all
    ultimately have "dist (key c) t \<noteq> dist (key b) t" using dist_separates assms(1) by blast
    moreover from that Cons.prems(3) have "\<not> dist (key b) t < dist (key c) t" by simp
    ultimately show ?thesis by linarith
  qed
  with Cons show ?case by simp
qed simp

text \<open>Two sorted arrangements of the same contacts are the same.\<close>

lemma arrangement_unique:
  assumes "valid t" "\<And>c. c \<in> set cs \<Longrightarrow> valid (key c)" "distinct (map key cs)"
    and "sorted_wrt (\<lambda>a b. \<not> dist (key b) t < dist (key a) t) cs"
    and "sorted_wrt (\<lambda>a b. \<not> dist (key b) t < dist (key a) t) ds" "mset cs = mset ds"
  shows "cs = ds"
proof -
  from assms(6) have sets: "set cs = set ds" by (rule mset_eq_setD)
  from assms(3,6) have dd: "distinct (map key ds)" by (metis mset_eq_imp_distinct_iff mset_map)
  have "sorted_wrt (\<lambda>a b. dist (key a) t < dist (key b) t) cs"
    using assms by (intro strictly_ordered) simp_all
  moreover have "sorted_wrt (\<lambda>a b. dist (key a) t < dist (key b) t) ds"
    using assms sets dd by (intro strictly_ordered) simp_all
  ultimately have so: "sorted_wrt (<) (map (\<lambda>c. dist (key c) t) cs)" "sorted_wrt (<) (map (\<lambda>c. dist (key c) t) ds)"
    by (simp_all add: sorted_wrt_map)
  have "inj_on (\<lambda>c. dist (key c) t) (set cs \<union> set ds)"
  proof (rule inj_onI)
    fix x y assume "x \<in> set cs \<union> set ds" "y \<in> set cs \<union> set ds" "dist (key x) t = dist (key y) t"
    with assms(1,2) sets dist_separates have "key x = key y" "x \<in> set cs" "y \<in> set cs" by auto
    with assms(3) show "x = y" by (auto simp: distinct_map inj_on_def)
  qed
  with so sets show ?thesis
    by (intro map_sorted_distinct_set_unique [of "\<lambda>c. dist (key c) t"]) (simp_all add: strict_sorted_iff)
qed

end

lemma xor_id_inject: "id_ok a \<Longrightarrow> id_ok b \<Longrightarrow> id_ok t \<Longrightarrow> xor_id a t = xor_id b t \<longleftrightarrow> a = b"
proof
  assume ok: "id_ok a" "id_ok b" "id_ok t" and eq: "xor_id a t = xor_id b t"
  show "a = b"
  proof (rule nth_equalityI)
    fix i assume "i < length a"
    with ok have "i < IDBytes" by (simp add: id_ok_def)
    with arg_cong [OF eq, of "\<lambda>x. x ! i"] have "a ! i XOR t ! i = b ! i XOR t ! i"
      by (simp add: xor_id_def)
    then have "(a ! i XOR t ! i) XOR t ! i = (b ! i XOR t ! i) XOR t ! i" by simp
    then show "a ! i = b ! i" by (simp add: xor.assoc)
  qed (use ok in \<open>simp add: id_ok_def\<close>)
qed simp

lemma id_dist_separates: "id_ok a \<Longrightarrow> id_ok b \<Longrightarrow> id_ok t \<Longrightarrow> id_dist a t = id_dist b t \<longleftrightarrow> a = b"
  by (simp add: id_dist_def id_num_inject xor_id_inject)

lemma id_num_zeros: "id_num (replicate n 0) = 0"
  by (induction n) simp_all

lemma id_dist_self: "id_dist a a = 0"
proof -
  have "xor_id a a = replicate IDBytes 0" by (simp add: xor_id_def map_replicate_const)
  then show ?thesis by (simp add: id_dist_def id_num_zeros)
qed

interpretation xor_metric: id_metric id_ok id_dist
proof unfold_locales
  show "id_dist a b = 0 \<longleftrightarrow> a = b" if "id_ok a" "id_ok b" for a b
    using id_dist_separates [of a b b] that by (simp add: id_dist_self)
  show "id_dist a b = id_dist b a" for a b
    by (simp add: id_dist_def xor_id_def xor.commute)
qed (rule id_dist_separates)

section \<open>The prefix length\<close>

abbreviation lead :: "bool list \<Rightarrow> nat" where
  "lead bs \<equiv> length (takeWhile Not bs)"

lemma lead_append: "lead (xs @ ys) = (if True \<in> set xs then lead xs else length xs + lead ys)"
  by (induction xs) auto

lemma lead_common: "length xs = length ys \<Longrightarrow> lead (map2 (\<noteq>) xs ys) = length (longest_common_prefix xs ys)"
  by (induction xs ys rule: list_induct2) auto

lemma bits_down: "[7, 6, 5, 4, 3, 2, 1, 0] = rev [0..<8 :: nat]"
  by (simp add: upt_rec)

lemma byte_bits_down: "byte_bits b = map (bit b) (rev [0..<8])"
  by (simp only: byte_bits_def bits_down)

lemma scan_bits_nth:
  "scan_bits b ks = (let j = lead (map (bit b) ks) in if j < length ks then Some (ks ! j) else None)"
  by (induction ks) (simp_all add: and_exp_eq_0_iff_not_bit Let_def)

lemma lead_less: "lead xs < length xs \<longleftrightarrow> True \<in> set xs"
  by (induction xs) auto

lemma byte_bits_mem: "k < 8 \<Longrightarrow> bit b k \<in> set (byte_bits b)"
  by (simp add: byte_bits_down)

lemma scan_bits_lead:
  assumes "b \<noteq> 0"
  shows "True \<in> set (byte_bits b) \<and>
    (\<exists>k. scan_bits b [7, 6, 5, 4, 3, 2, 1, 0] = Some k \<and> 7 - k = lead (byte_bits b))"
proof -
  have "\<exists>k < 8. bit b k"
  proof (rule ccontr)
    assume "\<nexists>k. k < 8 \<and> bit b k"
    then have "b = 0" by (intro bit_word_eqI) simp
    with assms show False by simp
  qed
  then have set: "True \<in> set (byte_bits b)" using byte_bits_mem [of _ b] by metis
  then have less: "lead (byte_bits b) < 8" using lead_less [of "byte_bits b"] by (simp add: byte_bits_down)
  then have "scan_bits b [7, 6, 5, 4, 3, 2, 1, 0] = Some (7 - lead (byte_bits b))"
    by (simp only: bits_down scan_bits_nth) (simp add: Let_def rev_nth flip: byte_bits_down)
  with set less show ?thesis by auto
qed

lemma byte_bits_xor: "byte_bits (a XOR b) = map2 (\<noteq>) (byte_bits a) (byte_bits b)"
  by (simp add: byte_bits_def bit_xor_iff)

lemma length_byte_bits [simp]: "length (byte_bits b) = 8"
  by (simp add: byte_bits_def)

lemma id_bits_simps [simp]: "id_bits [] = []" "id_bits (b # bs) = byte_bits b @ id_bits bs"
  by (simp_all add: id_bits_def)

lemma length_id_bits [simp]: "length (id_bits a) = 8 * length a"
  by (induction a) simp_all

lemma id_bits_xor: "length a = length b \<Longrightarrow> id_bits (map2 (XOR) a b) = map2 (\<noteq>) (id_bits a) (id_bits b)"
  by (induction a b rule: list_induct2) (simp_all add: byte_bits_xor)

lemma byte_bits_zero: "byte_bits 0 = replicate 8 False"
  by (simp add: byte_bits_def eval_nat_numeral)

lemma scan_bytes_lead: "i + length bs = IDBytes \<Longrightarrow> scan_bytes i bs = i * 8 + lead (id_bits bs)"
proof (induction bs arbitrary: i)
  case (Cons b bs)
  show ?case
  proof (cases "b = 0")
    case True
    with Cons.IH [of "Suc i"] Cons.prems show ?thesis by (simp add: lead_append byte_bits_zero)
  next
    case False
    from scan_bits_lead [OF False] obtain k where
      "scan_bits b [7, 6, 5, 4, 3, 2, 1, 0] = Some k" "7 - k = lead (byte_bits b)" "True \<in> set (byte_bits b)"
      by blast
    with False show ?thesis by (simp add: lead_append del: scan_bits.simps)
  qed
qed simp

lemma PrefixLen_bits:
  assumes "id_ok a" "id_ok b"
  shows "PrefixLen a b = length (longest_common_prefix (id_bits a) (id_bits b))"
proof -
  from assms have "length a = length b" by (simp add: id_ok_def)
  then show ?thesis
    using assms lead_common [of "id_bits a" "id_bits b"]
    by (simp add: PrefixLen_def scan_bytes_lead xor_id_zip id_bits_xor id_ok_def)
qed

lemma byte_bits_inject: "byte_bits a = byte_bits b \<longleftrightarrow> a = b"
proof
  assume eq: "byte_bits a = byte_bits b"
  show "a = b"
  proof (rule bit_word_eqI)
    fix k assume "k < LENGTH(8)"
    with eq show "bit a k = bit b k" by (simp add: byte_bits_down)
  qed
qed simp

lemma id_bits_inject: "length a = length b \<Longrightarrow> id_bits a = id_bits b \<longleftrightarrow> a = b"
  by (induction a b rule: list_induct2) (simp_all add: byte_bits_inject)

lemma common_prefix_all: "length xs = length ys \<Longrightarrow>
    length (longest_common_prefix xs ys) \<le> length xs \<and>
    (length (longest_common_prefix xs ys) = length xs \<longleftrightarrow> xs = ys)"
  by (induction xs ys rule: list_induct2) auto

lemma PrefixLen_max:
  assumes "id_ok a" "id_ok b"
  shows "PrefixLen a b \<le> 160 \<and> (PrefixLen a b = 160 \<longleftrightarrow> a = b)"
  using assms common_prefix_all [of "id_bits a" "id_bits b"] id_bits_inject [of a b]
  by (simp add: PrefixLen_bits id_ok_def IDBytes_def)

section \<open>The table's invariant\<close>

definition bucket_ok :: "NodeID \<Rightarrow> nat \<Rightarrow> Contact list \<Rightarrow> bool" where
  "bucket_ok local k b \<longleftrightarrow> length b \<le> BucketSize \<and> distinct (map ct_ID b)
     \<and> (\<forall>c \<in> set b. id_ok (ct_ID c) \<and> ct_ID c \<noteq> local \<and> PrefixLen local (ct_ID c) = k)"

definition rt_ok :: "RoutingTable \<Rightarrow> bool" where
  "rt_ok rt \<longleftrightarrow> id_ok (localID rt) \<and> length (buckets rt) = 160
     \<and> (\<forall>k < 160. bucket_ok (localID rt) k (buckets rt ! k))"

text \<open>The contact the table holds for an identifier.\<close>

definition contact_of :: "RoutingTable \<Rightarrow> NodeID \<Rightarrow> Contact option" where
  "contact_of rt i = find (\<lambda>c. ct_ID c = i) (concat (buckets rt))"

abbreviation bucket_of :: "RoutingTable \<Rightarrow> NodeID \<Rightarrow> Contact list" where
  "bucket_of rt i \<equiv> buckets rt ! bucketIdx rt i"

lemma find_contact: "distinct (map ct_ID cs) \<Longrightarrow> find (\<lambda>c. ct_ID c = i) cs = Some c \<longleftrightarrow> c \<in> set cs \<and> ct_ID c = i"
  by (induction cs) auto

lemma bucketIdx_less: "rt_ok rt \<Longrightarrow> bucketIdx rt i < 160"
  by (simp add: bucketIdx_def rt_ok_def Let_def)

lemma bucketIdx_eq:
  "rt_ok rt \<Longrightarrow> id_ok i \<Longrightarrow> i \<noteq> localID rt \<Longrightarrow> bucketIdx rt i = PrefixLen (localID rt) i"
  using PrefixLen_max [of "localID rt" i] by (simp add: bucketIdx_def rt_ok_def Let_def)

lemma rt_ok_bucket: "rt_ok rt \<Longrightarrow> k < 160 \<Longrightarrow> bucket_ok (localID rt) k (buckets rt ! k)"
  by (simp add: rt_ok_def)

text \<open>All contacts of the table are in the bucket of their identifier, once.\<close>

lemma in_table:
  assumes "rt_ok rt" "id_ok (ct_ID c)"
  shows "c \<in> set (concat (buckets rt)) \<longleftrightarrow> c \<in> set (bucket_of rt (ct_ID c))"
proof
  assume "c \<in> set (concat (buckets rt))"
  then obtain k where k: "k < length (buckets rt)" "c \<in> set (buckets rt ! k)"
    by (auto simp: in_set_conv_nth [of _ "buckets rt"])
  with assms rt_ok_bucket [of rt k] have "ct_ID c \<noteq> localID rt" "PrefixLen (localID rt) (ct_ID c) = k"
    by (auto simp: bucket_ok_def rt_ok_def)
  with k assms show "c \<in> set (bucket_of rt (ct_ID c))" by (simp add: bucketIdx_eq)
next
  assume "c \<in> set (bucket_of rt (ct_ID c))"
  moreover have "bucketIdx rt (ct_ID c) < length (buckets rt)"
    using bucketIdx_less [OF assms(1)] assms(1) by (simp add: rt_ok_def)
  ultimately show "c \<in> set (concat (buckets rt))" by (auto intro: nth_mem)
qed

lemma table_ids_ok: "rt_ok rt \<Longrightarrow> c \<in> set (concat (buckets rt)) \<Longrightarrow> id_ok (ct_ID c) \<and> ct_ID c \<noteq> localID rt"
  using rt_ok_bucket [of rt] by (fastforce simp: rt_ok_def bucket_ok_def in_set_conv_nth [of _ "buckets rt"])

lemma distinct_concat_nth:
  assumes "\<And>k. k < length xss \<Longrightarrow> distinct (map f (xss ! k)) \<and> (\<forall>x \<in> set (xss ! k). g (f x) = i + k)"
  shows "distinct (map f (concat xss))"
  using assms
proof (induction xss arbitrary: i)
  case (Cons xs xss)
  from Cons.prems [of 0] have hd: "distinct (map f xs)" "\<forall>x \<in> set xs. g (f x) = i" by simp_all
  have tail: "distinct (map f (xss ! k)) \<and> (\<forall>x \<in> set (xss ! k). g (f x) = Suc i + k)"
    if "k < length xss" for k
    using Cons.prems [of "Suc k"] that by simp
  have "g (f y) \<noteq> i" if y: "y \<in> set (concat xss)" for y
  proof -
    from y obtain k where "k < length xss" "y \<in> set (xss ! k)"
      by (auto simp: in_set_conv_nth [of _ xss])
    with tail have "g (f y) = Suc i + k" by blast
    then show ?thesis by simp
  qed
  moreover have "distinct (map f (concat xss))" by (rule Cons.IH [OF tail])
  ultimately show ?case
    using hd by (simp del: set_concat add: disjoint_iff) (metis imageE)
qed simp

lemma table_distinct: "rt_ok rt \<Longrightarrow> distinct (map ct_ID (concat (buckets rt)))"
  by (rule distinct_concat_nth [where g = "PrefixLen (localID rt)" and i = 0])
    (simp add: rt_ok_def bucket_ok_def)

lemma contact_of_iff: "rt_ok rt \<Longrightarrow> contact_of rt i = Some c \<longleftrightarrow> c \<in> set (concat (buckets rt)) \<and> ct_ID c = i"
  unfolding contact_of_def by (intro find_contact table_distinct)

lemma contact_of_bucket:
  assumes "rt_ok rt" "id_ok i"
  shows "contact_of rt i = find (\<lambda>c. ct_ID c = i) (bucket_of rt i)"
proof -
  have dist: "distinct (map ct_ID (bucket_of rt i))"
    using rt_ok_bucket [OF assms(1) bucketIdx_less [OF assms(1)], of i] by (simp add: bucket_ok_def)
  have "contact_of rt i = Some c \<longleftrightarrow> find (\<lambda>c. ct_ID c = i) (bucket_of rt i) = Some c" for c
    unfolding contact_of_iff [OF assms(1)] find_contact [OF dist]
    using in_table [OF assms(1), of c] assms(2) by metis
  then show ?thesis by (rule option_eqI)
qed

lemma contact_of_invalid: "rt_ok rt \<Longrightarrow> \<not> id_ok i \<or> i = localID rt \<Longrightarrow> contact_of rt i = None"
  using contact_of_iff [of rt i] table_ids_ok [of rt] by (metis not_None_eq)

section \<open>\<open>Add\<close> and \<open>Remove\<close>\<close>

lemma replace_contact_None: "replace_contact c b = None \<longleftrightarrow> ct_ID c \<notin> ct_ID ` set b"
  by (induction b) auto

lemma replace_contact_Some:
  "replace_contact c b = Some b' \<Longrightarrow> map ct_ID b' = map ct_ID b
     \<and> find (\<lambda>e. ct_ID e = i) b' = (if i = ct_ID c then Some c else find (\<lambda>e. ct_ID e = i) b)
     \<and> set b' \<subseteq> insert c (set b)"
proof (induction b arbitrary: b')
  case (Cons e es)
  show ?case
  proof (cases "ct_ID e = ct_ID c")
    case True
    then have "b' = c # es" using Cons.prems by simp
    with True show ?thesis by auto
  next
    case False
    with Cons.prems obtain es' where es': "replace_contact c es = Some es'" "b' = e # es'" by auto
    with Cons.IH [OF es'(1)] False show ?thesis by auto
  qed
qed simp

lemma find_append_new:
  "ct_ID c \<notin> ct_ID ` set b \<Longrightarrow>
     find (\<lambda>e. ct_ID e = j) (b @ [c]) = (if j = ct_ID c then Some c else find (\<lambda>e. ct_ID e = j) b)"
  by (induction b) auto

lemma find_remove_contact:
  "distinct (map ct_ID b) \<Longrightarrow>
     find (\<lambda>e. ct_ID e = j) (remove_contact i b) = (if j = i then None else find (\<lambda>e. ct_ID e = j) b)"
  by (induction b) (auto simp: find_None_iff image_iff)

lemma remove_contact_sub: "set (remove_contact i b) \<subseteq> set b \<and> length (remove_contact i b) \<le> length b
    \<and> (distinct (map ct_ID b) \<longrightarrow> distinct (map ct_ID (remove_contact i b)))"
  by (induction b) auto

text \<open>One bucket of the table is replaced.\<close>

lemma rt_ok_update:
  assumes "rt_ok rt" "k < 160" "bucket_ok (localID rt) k b"
  shows "rt_ok (rt\<lparr>buckets := (buckets rt)[k := b]\<rparr>)"
  using assms by (auto simp: rt_ok_def nth_list_update)

lemma contact_of_update:
  assumes "rt_ok rt" "bucket_ok (localID rt) (bucketIdx rt i) b"
    and "\<And>j. find (\<lambda>e. ct_ID e = j) b = (if j = i then x else find (\<lambda>e. ct_ID e = j) (bucket_of rt i))"
    and "id_ok i"
  shows "contact_of (rt\<lparr>buckets := (buckets rt)[bucketIdx rt i := b]\<rparr>) = (contact_of rt)(i := x)"
proof
  fix j
  let ?rt' = "rt\<lparr>buckets := (buckets rt)[bucketIdx rt i := b]\<rparr>"
  have ok: "rt_ok ?rt'" by (rule rt_ok_update [OF assms(1) bucketIdx_less [OF assms(1)] assms(2)])
  have idx: "bucketIdx ?rt' j = bucketIdx rt j" by (simp add: bucketIdx_def Let_def)
  have len: "length (buckets rt) = 160" using assms(1) by (simp add: rt_ok_def)
  show "contact_of ?rt' j = ((contact_of rt)(i := x)) j"
  proof (cases "id_ok j")
    case True
    then show ?thesis
      using assms(3) [of j] bucketIdx_less [OF assms(1), of i] assms(1,4) len
      by (auto simp: contact_of_bucket [OF ok] contact_of_bucket [OF assms(1)] idx nth_list_update)
  next
    case False
    with assms(4) show ?thesis
      using contact_of_invalid [OF ok, of j] contact_of_invalid [OF assms(1), of j] by auto
  qed
qed

lemma Remove_effect:
  assumes "rt_ok rt" "id_ok i"
  shows "rt_ok (Remove rt i) \<and> contact_of (Remove rt i) = (contact_of rt)(i := None)"
proof -
  let ?k = "bucketIdx rt i"
  have b: "bucket_ok (localID rt) ?k (bucket_of rt i)"
    by (rule rt_ok_bucket [OF assms(1) bucketIdx_less [OF assms(1)]])
  have b': "bucket_ok (localID rt) ?k (remove_contact i (bucket_of rt i))"
    using b remove_contact_sub [of i "bucket_of rt i"] by (auto simp: bucket_ok_def)
  show ?thesis
    using rt_ok_update [OF assms(1) bucketIdx_less [OF assms(1)] b']
      contact_of_update [OF assms(1) b' _ assms(2), of None] find_remove_contact [of "bucket_of rt i"] b
    by (simp add: Remove_def Let_def bucket_ok_def)
qed

text \<open>Whether \<open>Add\<close> takes a contact: it is known, or its bucket has room.\<close>

definition addable :: "RoutingTable \<Rightarrow> NodeID \<Rightarrow> bool" where
  "addable rt i \<longleftrightarrow> i \<noteq> localID rt \<and> (contact_of rt i \<noteq> None \<or> length (bucket_of rt i) < BucketSize)"

lemma Add_effect:
  assumes "rt_ok rt" "id_ok (ct_ID c)"
  shows "if addable rt (ct_ID c)
    then \<exists>rt'. Add rt c = (True, rt') \<and> rt_ok rt' \<and> contact_of rt' = (contact_of rt)(ct_ID c \<mapsto> c) \<and> localID rt' = localID rt
    else Add rt c = (False, rt)"
proof (cases "ct_ID c = localID rt")
  case True
  then show ?thesis by (simp add: Add_def addable_def)
next
  case False
  let ?i = "ct_ID c" let ?k = "bucketIdx rt (ct_ID c)" let ?b = "bucket_of rt (ct_ID c)"
  have b: "bucket_ok (localID rt) ?k ?b"
    by (rule rt_ok_bucket [OF assms(1) bucketIdx_less [OF assms(1)]])
  have own: "id_ok ?i \<and> ?i \<noteq> localID rt \<and> PrefixLen (localID rt) ?i = ?k"
    using bucketIdx_eq [OF assms False] assms(2) False by simp
  have known: "contact_of rt ?i \<noteq> None \<longleftrightarrow> ?i \<in> ct_ID ` set ?b"
    unfolding contact_of_bucket [OF assms] find_None_iff by (auto intro: image_eqI [OF sym])
  show ?thesis
  proof (cases "replace_contact c ?b")
    case (Some b')
    note r = replace_contact_Some [OF Some]
    from r have lens: "map ct_ID b' = map ct_ID ?b" "length b' = length ?b"
      by (blast, metis length_map)
    have "set b' \<subseteq> insert c (set ?b)" using r by blast
    with lens b own have b': "bucket_ok (localID rt) ?k b'" by (fastforce simp: bucket_ok_def)
    have "addable rt ?i" using Some False known replace_contact_None [of c ?b] by (auto simp: addable_def)
    then show ?thesis
      using False Some rt_ok_update [OF assms(1) bucketIdx_less [OF assms(1)] b']
        contact_of_update [OF assms(1) b' _ assms(2), of "Some c"] r
      by (simp add: Add_def Let_def)
  next
    case None
    then have new: "?i \<notin> ct_ID ` set ?b" by (simp add: replace_contact_None)
    show ?thesis
    proof (cases "length ?b < BucketSize")
      case room: True
      have b': "bucket_ok (localID rt) ?k (?b @ [c])" using b own new room by (auto simp: bucket_ok_def)
      have "find (\<lambda>e. ct_ID e = j) (?b @ [c]) = (if j = ?i then Some c else find (\<lambda>e. ct_ID e = j) ?b)" for j
        using find_append_new [OF new] .
      then show ?thesis
        using False None room rt_ok_update [OF assms(1) bucketIdx_less [OF assms(1)] b']
          contact_of_update [OF assms(1) b' _ assms(2), of "Some c"]
        by (simp add: Add_def Let_def addable_def)
    next
      case full: False
      with None new known False show ?thesis by (simp add: Add_def Let_def addable_def)
    qed
  qed
qed

lemma rt_ok_new: "id_ok local \<Longrightarrow> rt_ok (NewRoutingTable local)"
  by (simp add: rt_ok_def NewRoutingTable_def bucket_ok_def IDBytes_def)

section \<open>Properties\<close>

text \<open>
  The bucket index of a contact: \<open>PrefixLen\<close> is the number of leading bits two identifiers
  have in common, 160 for the same identifier only, so that a table has a bucket for every other
  identifier.
\<close>
theorem PrefixLen_common:
  assumes "length a = IDBytes" "length b = IDBytes"
  shows "PrefixLen a b = length (longest_common_prefix (id_bits a) (id_bits b))
    \<and> PrefixLen a b \<le> 160 \<and> (PrefixLen a b = 160 \<longleftrightarrow> a = b)"
  using PrefixLen_bits [of a b] PrefixLen_max [of a b] assms by (simp add: id_ok_def)

lemma PrefixLen_common_witness:
  "PrefixLen (replicate 19 0 @ [5]) (replicate 19 0 @ [1]) = length (longest_common_prefix
     (id_bits (replicate 19 0 @ [5])) (id_bits (replicate 19 0 @ [1])))
   \<and> PrefixLen (replicate 19 0 @ [5]) (replicate 19 0 @ [1]) < 160"
proof -
  have "length (replicate 19 0 @ [5 :: byte]) = IDBytes" "length (replicate 19 0 @ [1 :: byte]) = IDBytes"
    by (simp_all add: IDBytes_def)
  from PrefixLen_common [OF this] show ?thesis by (auto simp: le_less)
qed

text \<open>
  C21: \<open>Add\<close> on a well-formed table (160 buckets of at most 20 contacts, each contact in the
  bucket of its prefix length, no identifier twice, the local one nowhere). It refuses the local
  identifier and a new contact for a full bucket, and then changes nothing; otherwise it keeps
  the table well-formed and replaces or adds exactly this contact. It never evicts another one.
\<close>
theorem Add_spec:
  assumes "rt_ok rt" "length (ct_ID c) = IDBytes"
  shows "case Add rt c of (added, rt') \<Rightarrow>
    (added \<longleftrightarrow> ct_ID c \<noteq> localID rt \<and>
       (contact_of rt (ct_ID c) \<noteq> None \<or> length (bucket_of rt (ct_ID c)) < BucketSize))
    \<and> rt_ok rt'
    \<and> (if added then contact_of rt' = (contact_of rt)(ct_ID c \<mapsto> c) else rt' = rt)"
  using Add_effect [OF assms(1), of c] assms
  by (auto simp: id_ok_def addable_def split: if_splits)

lemma Add_spec_witness:
  "let rt = NewRoutingTable (replicate 20 0);
       c = \<lparr>ct_ID = replicate 20 1, ct_Address = ''10.0.0.1:9000'', ct_LastSeen = 0\<rparr>
   in case Add rt c of (added, rt') \<Rightarrow> added \<and> rt_ok rt' \<and> contact_of rt' = (contact_of rt)(ct_ID c \<mapsto> c)"
proof -
  let ?rt = "NewRoutingTable (replicate 20 0)"
  let ?c = "\<lparr>ct_ID = replicate 20 1, ct_Address = ''10.0.0.1:9000'', ct_LastSeen = 0\<rparr>"
  have ok: "rt_ok ?rt" by (rule rt_ok_new) (simp add: id_ok_def IDBytes_def)
  have "bucket_of ?rt (ct_ID ?c) = []"
    using bucketIdx_less [OF ok, of "ct_ID ?c"] by (simp add: NewRoutingTable_def IDBytes_def)
  moreover have "ct_ID ?c \<noteq> localID ?rt" by (simp add: NewRoutingTable_def)
  ultimately show ?thesis
    using Add_spec [OF ok, of ?c] by (auto simp: IDBytes_def BucketSize_def split: if_splits)
qed

text \<open>
  \<open>Remove\<close> keeps the table well-formed, takes exactly the contact of that identifier out, and
  so makes room: the same contact can be added again.
\<close>
theorem Remove_spec:
  assumes "rt_ok rt" "length i = IDBytes"
  shows "rt_ok (Remove rt i) \<and> contact_of (Remove rt i) = (contact_of rt)(i := None)"
  using Remove_effect [OF assms(1)] assms(2) by (simp add: id_ok_def)

lemma Remove_spec_witness:
  "rt_ok (Remove (NewRoutingTable (replicate 20 0)) (replicate 20 1))"
proof -
  have "rt_ok (NewRoutingTable (replicate 20 0))" by (rule rt_ok_new) (simp add: id_ok_def IDBytes_def)
  from Remove_spec [OF this] show ?thesis by (simp add: IDBytes_def)
qed

text \<open>The search's order is the order of the distances.\<close>

lemma closest_arrangement:
  assumes "rt_ok rt" "id_ok target" "sort_slice_ok (closer target) (srt (closer target))"
  defines "all \<equiv> srt (closer target) (concat (buckets rt))"
  shows "mset all = mset (concat (buckets rt))" "distinct (map ct_ID all)"
    and "sorted_wrt (\<lambda>a b. id_dist (ct_ID a) target < id_dist (ct_ID b) target) all"
proof -
  show m: "mset all = mset (concat (buckets rt))"
    unfolding all_def by (rule sort_slice_mset [OF assms(3)])
  then show d: "distinct (map ct_ID all)"
    using table_distinct [OF assms(1)] by (metis mset_eq_imp_distinct_iff mset_map)
  have "sorted_wrt (\<lambda>a b. \<not> id_dist (ct_ID b) target < id_dist (ct_ID a) target) all"
    using sort_slice_sorted [OF assms(3)] by (simp add: all_def closer_dist)
  moreover have "id_ok (ct_ID c)" if "c \<in> set all" for c
    using that table_ids_ok [OF assms(1)] mset_eq_setD [OF m] by simp
  ultimately show "sorted_wrt (\<lambda>a b. id_dist (ct_ID a) target < id_dist (ct_ID b) target) all"
    using assms(2) d by (intro xor_metric.strictly_ordered)
qed

text \<open>
  C20: \<open>FindClosest\<close> returns the contacts nearest to the target by XOR distance, each once and in
  order of strictly growing distance, \<open>count\<close> of them or all when there are fewer, and every
  contact it leaves out is farther than every contact it returns.
\<close>
theorem FindClosest_nearest:
  assumes "rt_ok rt" "length target = IDBytes" "sort_slice_ok (closer target) (srt (closer target))" "0 \<le> n"
  shows "\<exists>res. FindClosest srt rt target n = Some res
    \<and> length res = min (nat n) (length (concat (buckets rt)))
    \<and> set res \<subseteq> set (concat (buckets rt))
    \<and> sorted_wrt (\<lambda>a b. id_dist (ct_ID a) target < id_dist (ct_ID b) target) res
    \<and> (\<forall>c \<in> set res. \<forall>d \<in> set (concat (buckets rt)) - set res. id_dist (ct_ID c) target < id_dist (ct_ID d) target)"
proof -
  define all where "all = srt (closer target) (concat (buckets rt))"
  from assms(2) have "id_ok target" by (simp add: id_ok_def)
  from closest_arrangement [of rt target srt, OF assms(1) this assms(3), folded all_def]
  have m: "mset all = mset (concat (buckets rt))"
    and s: "sorted_wrt (\<lambda>a b. id_dist (ct_ID a) target < id_dist (ct_ID b) target) all" by blast+
  have sets: "set all = set (concat (buckets rt))" by (rule mset_eq_setD [OF m])
  have lens: "length all = length (concat (buckets rt))" by (rule mset_eq_length [OF m])
  have res: "FindClosest srt rt target n = Some (take (nat n) all)"
    using assms(4) by (auto simp: FindClosest_def Let_def all_def)
  have "id_dist (ct_ID c) target < id_dist (ct_ID d) target"
    if "c \<in> set (take (nat n) all)" "d \<in> set all - set (take (nat n) all)" for c d
  proof -
    from that(2) have "d \<in> set (drop (nat n) all)"
      by (metis Diff_iff Un_iff append_take_drop_id set_append)
    with sorted_wrt_take_drop [OF s that(1)] show ?thesis .
  qed
  then show ?thesis
    unfolding res sets [symmetric] lens [symmetric]
    using s set_take_subset [of "nat n" all] by (simp add: sorted_wrt_take min.commute)
qed

text \<open>
  The answer of \<open>FindClosest\<close> does not depend on how \<open>sort.Slice\<close> orders equal elements: two
  different sorting functions give the same contacts in the same order.
\<close>
theorem FindClosest_deterministic:
  assumes "rt_ok rt" "length target = IDBytes"
    and "sort_slice_ok (closer target) (srt (closer target))" "sort_slice_ok (closer target) (srt' (closer target))"
  shows "FindClosest srt rt target n = FindClosest srt' rt target n"
proof -
  from assms(2) have t: "id_ok target" by (simp add: id_ok_def)
  have "srt (closer target) (concat (buckets rt)) = srt' (closer target) (concat (buckets rt))"
  proof (rule xor_metric.arrangement_unique [OF t, where key = ct_ID])
    fix c assume "c \<in> set (srt (closer target) (concat (buckets rt)))"
    then have "c \<in> set (concat (buckets rt))" by (simp add: sort_slice_set [OF assms(3)])
    then show "id_ok (ct_ID c)" using table_ids_ok [OF assms(1)] by blast
  next
    show "distinct (map ct_ID (srt (closer target) (concat (buckets rt))))"
      by (rule closest_arrangement(2) [of rt target srt, OF assms(1) t assms(3)])
    show "sorted_wrt (\<lambda>a b. \<not> id_dist (ct_ID b) target < id_dist (ct_ID a) target) (srt (closer target) (concat (buckets rt)))"
      using sort_slice_sorted [OF assms(3)] by (simp add: closer_dist)
    show "sorted_wrt (\<lambda>a b. \<not> id_dist (ct_ID b) target < id_dist (ct_ID a) target) (srt' (closer target) (concat (buckets rt)))"
      using sort_slice_sorted [OF assms(4)] by (simp add: closer_dist)
    show "mset (srt (closer target) (concat (buckets rt))) = mset (srt' (closer target) (concat (buckets rt)))"
      by (simp add: sort_slice_mset [OF assms(3)] sort_slice_mset [OF assms(4)])
  qed
  then show ?thesis by (simp add: FindClosest_def)
qed

lemma sort_by_closer: "sort_slice_ok (closer t) (sort_by (closer t))"
  by (rule sort_by_ok) (auto simp: closer_dist)

text \<open>A table of two contacts for the witnesses.\<close>

definition demo_contact :: "byte \<Rightarrow> Contact" where
  "demo_contact b = \<lparr>ct_ID = replicate 20 b, ct_Address = ''10.0.0.1:9000'', ct_LastSeen = 0\<rparr>"

definition demo_table :: RoutingTable where
  "demo_table = snd (Add (snd (Add (NewRoutingTable (replicate 20 0)) (demo_contact 4))) (demo_contact 1))"

lemma demo_table_ok: "rt_ok demo_table"
proof -
  have "rt_ok (NewRoutingTable (replicate 20 0))" by (rule rt_ok_new) (simp add: id_ok_def IDBytes_def)
  moreover have "rt_ok (snd (Add rt (demo_contact b)))" if "rt_ok rt" for rt b
    using Add_effect [OF that, of "demo_contact b"] that
    by (auto simp: demo_contact_def id_ok_def IDBytes_def split: if_splits)
  ultimately show ?thesis by (simp add: demo_table_def)
qed

lemma FindClosest_nearest_witness:
  "\<exists>res. FindClosest sort_by demo_table (replicate 20 5) 1 = Some res \<and> res = [demo_contact 4]
     \<and> length res = min 1 (length (concat (buckets demo_table)))"
proof -
  have "FindClosest sort_by demo_table (replicate 20 5) 1 = Some [demo_contact 4]" by code_simp
  with FindClosest_nearest [OF demo_table_ok, where srt = sort_by and target = "replicate 20 5" and n = 1]
  show ?thesis by (auto simp: IDBytes_def sort_by_closer)
qed

lemma FindClosest_deterministic_witness:
  "FindClosest (\<lambda>lt xs. sort_by lt (rev xs)) demo_table (replicate 20 3) 5
   = FindClosest sort_by demo_table (replicate 20 3) 5"
proof -
  have "sort_slice_ok (closer (replicate 20 3)) (\<lambda>xs. sort_by (closer (replicate 20 3)) (rev xs))"
    using sort_by_closer [of "replicate 20 3"] by (simp add: sort_slice_ok_def)
  then show ?thesis
    by (intro FindClosest_deterministic demo_table_ok sort_by_closer) (simp_all add: IDBytes_def)
qed

end
