(* ===== verification/Bolt.thy ===== *)
theory Bolt
  imports Prelude "HOL-Library.AList"
begin

text \<open>
  The database the tracker and the storage node keep their state in, \<open>go.etcd.io/bbolt\<close>: a
  third-party package, so a record of the operations the code uses, over an unknown type of
  database files. The code uses it in three ways: \<open>db.Update\<close> with some \<open>Put\<close>s, which all
  happen or none does; \<open>db.View\<close> with \<open>Get\<close>s; and \<open>db.View\<close> with a \<open>ForEach\<close> over a bucket.
  Keys and bucket names are strings here, as the code makes them from strings.
\<close>

record 'd bolt =
  bb_open :: "string \<Rightarrow> string + 'd"                        \<comment> \<open>\<open>bolt.Open\<close>\<close>
  bb_create :: "'d \<Rightarrow> string list \<Rightarrow> string + 'd"             \<comment> \<open>\<open>Update\<close> with \<open>CreateBucketIfNotExists\<close> calls\<close>
  bb_update :: "'d \<Rightarrow> (string \<times> string \<times> bytes) list \<Rightarrow> string + 'd"
                                                              \<comment> \<open>\<open>Update\<close> with these \<open>Put\<close>s, bucket, key and value of each\<close>
  bb_view :: "'d \<Rightarrow> string option"                          \<comment> \<open>the error of \<open>View\<close> itself, if it has one\<close>
  bb_get :: "'d \<Rightarrow> string \<Rightarrow> string \<Rightarrow> bytes option"          \<comment> \<open>\<open>Get\<close> in a \<open>View\<close>\<close>
  bb_entries :: "'d \<Rightarrow> string \<Rightarrow> (string \<times> bytes) list"     \<comment> \<open>what \<open>ForEach\<close> visits in a \<open>View\<close>\<close>

record 'd DB =
  db_ops :: "'d bolt"
  db_file :: 'd

text \<open>
  The documented behaviour: a transaction that commits has the effect of its \<open>Put\<close>s, in their
  order; \<open>ForEach\<close> visits every key of the bucket once, with its value.
\<close>

type_synonym kv = "string \<Rightarrow> string \<Rightarrow> bytes option"

fun apply_puts :: "(string \<times> string \<times> bytes) list \<Rightarrow> kv \<Rightarrow> kv" where
  "apply_puts [] g = g"
| "apply_puts ((b, k, v) # ps) g = apply_puts ps (g(b := (g b)(k \<mapsto> v)))"

definition bolt_ok :: "'d bolt \<Rightarrow> bool" where
  "bolt_ok B \<longleftrightarrow>
     (\<forall>d puts d'. bb_update B d puts = Inr d' \<longrightarrow> bb_get B d' = apply_puts puts (bb_get B d))
     \<and> (\<forall>d names d'. bb_create B d names = Inr d' \<longrightarrow> bb_get B d' = bb_get B d)
     \<and> (\<forall>d b. distinct (map fst (bb_entries B d b)) \<and> map_of (bb_entries B d b) = bb_get B d b)"

lemma bolt_update: "bolt_ok B \<Longrightarrow> bb_update B d puts = Inr d' \<Longrightarrow> bb_get B d' = apply_puts puts (bb_get B d)"
  by (simp add: bolt_ok_def)

lemma bolt_create: "bolt_ok B \<Longrightarrow> bb_create B d names = Inr d' \<Longrightarrow> bb_get B d' = bb_get B d"
  by (simp add: bolt_ok_def)

lemma bolt_entries:
  assumes "bolt_ok B"
  shows "distinct (map fst (bb_entries B d b))" "(k, v) \<in> set (bb_entries B d b) \<longleftrightarrow> bb_get B d b k = Some v"
proof -
  from assms have d: "distinct (map fst (bb_entries B d b))" and m: "map_of (bb_entries B d b) = bb_get B d b"
    by (simp_all add: bolt_ok_def)
  show "distinct (map fst (bb_entries B d b))" by (rule d)
  show "(k, v) \<in> set (bb_entries B d b) \<longleftrightarrow> bb_get B d b k = Some v"
    using map_of_eq_Some_iff [OF d, of k v] by (simp add: m)
qed

text \<open>The values of a bucket are the values of its keys, one each.\<close>

lemma bolt_entries_finite: "bolt_ok B \<Longrightarrow> finite (dom (bb_get B d b))"
  by (metis bolt_ok_def finite_dom_map_of)

section \<open>A concrete database\<close>

text \<open>
  For the witnesses: association lists per bucket, empty keys refused as bbolt does, every
  transaction committed.
\<close>

definition alist_bolt :: "(string \<Rightarrow> (string \<times> bytes) list) bolt" where
  "alist_bolt =
     \<lparr>bb_open = (\<lambda>_. Inr (\<lambda>_. [])),
      bb_create = (\<lambda>d _. Inr d),
      bb_update = (\<lambda>d puts. if list_all (\<lambda>(b, k, v). k \<noteq> []) puts
         then Inr (fold (\<lambda>(b, k, v) d. d(b := AList.update k v (d b))) puts d) else Inl ''key required''),
      bb_view = (\<lambda>_. None),
      bb_get = (\<lambda>d b. map_of (d b)),
      bb_entries = (\<lambda>d b. AList.clearjunk (d b))\<rparr>"

lemma alist_bolt_ok: "bolt_ok alist_bolt"
proof -
  have "(\<lambda>b. map_of (fold (\<lambda>(b, k, v) d. d(b := AList.update k v (d b))) puts d b)) =
      apply_puts puts (\<lambda>b. map_of (d b))" for puts d
  proof (induction puts arbitrary: d)
    case (Cons p puts)
    obtain b k v where p: "p = (b, k, v)" by (cases p)
    have "(\<lambda>c. map_of ((d(b := AList.update k v (d b))) c)) = (\<lambda>c. map_of (d c))(b := (map_of (d b))(k \<mapsto> v))"
      by (auto simp: update_conv')
    with Cons.IH [of "d(b := AList.update k v (d b))"] show ?case by (simp add: p)
  qed simp
  then show ?thesis
    by (auto simp: bolt_ok_def alist_bolt_def distinct_clearjunk map_of_clearjunk split: if_splits)
qed

end
