(* ===== verification/Tracker.thy ===== *)
theory Tracker
  imports JsonText Bolt
begin

text \<open>
  \<open>internal/tracker/tracker.go\<close>: the tracker's database of nodes, files and shard placements, and
  the choice of the nodes that take the shards of a chunk. Its contract is the locale
  \<open>placement_store\<close>, over the nodes and files a store holds; the server, the liveness pass and
  the repairer rely on it.
\<close>

section \<open>Records\<close>

record NodeMetadata =
  nm_NodeID :: string
  nm_Address :: string
  nm_StorageAllocated :: int
  nm_StorageUsed :: int
  nm_LastSeen :: int
  nm_IsHealthy :: bool

record FileMetadata =
  fm_FileID :: string
  fm_FileName :: string
  fm_Size :: int
  fm_ChunkCount :: int
  fm_CreatedAt :: int

record ShardPlacement =
  sp_ShardID :: string
  sp_FileID :: string
  sp_ChunkIndex :: int
  sp_ShardIndex :: int
  sp_NodeID :: string
  sp_OriginalChunkSize :: int

definition json_NodeMetadata :: "NodeMetadata \<Rightarrow> json" where
  "json_NodeMetadata n =
     JObj [(''node_id'', JStr (nm_NodeID n)), (''address'', JStr (nm_Address n)),
           (''storage_allocated'', JInt (nm_StorageAllocated n)), (''storage_used'', JInt (nm_StorageUsed n)),
           (''last_seen'', JInt (nm_LastSeen n)), (''is_healthy'', JBool (nm_IsHealthy n))]"

definition put_NodeMetadata :: "string \<Rightarrow> json \<Rightarrow> NodeMetadata \<Rightarrow> NodeMetadata option" where
  "put_NodeMetadata k v n =
     (if field_is ''node_id'' k then map_option (\<lambda>s. n\<lparr>nm_NodeID := s\<rparr>) (dec_string v (nm_NodeID n))
      else if field_is ''address'' k then map_option (\<lambda>s. n\<lparr>nm_Address := s\<rparr>) (dec_string v (nm_Address n))
      else if field_is ''storage_allocated'' k
        then map_option (\<lambda>i. n\<lparr>nm_StorageAllocated := i\<rparr>) (dec_int64 v (nm_StorageAllocated n))
      else if field_is ''storage_used'' k
        then map_option (\<lambda>i. n\<lparr>nm_StorageUsed := i\<rparr>) (dec_int64 v (nm_StorageUsed n))
      else if field_is ''last_seen'' k then map_option (\<lambda>i. n\<lparr>nm_LastSeen := i\<rparr>) (dec_int64 v (nm_LastSeen n))
      else if field_is ''is_healthy'' k then map_option (\<lambda>b. n\<lparr>nm_IsHealthy := b\<rparr>) (dec_bool v (nm_IsHealthy n))
      else Some n)"

definition zero_NodeMetadata :: NodeMetadata where
  "zero_NodeMetadata = \<lparr>nm_NodeID = '''', nm_Address = '''', nm_StorageAllocated = 0, nm_StorageUsed = 0,
     nm_LastSeen = 0, nm_IsHealthy = False\<rparr>"

definition json_FileMetadata :: "FileMetadata \<Rightarrow> json" where
  "json_FileMetadata f =
     JObj [(''file_id'', JStr (fm_FileID f)), (''file_name'', JStr (fm_FileName f)), (''size'', JInt (fm_Size f)),
           (''chunk_count'', JInt (fm_ChunkCount f)), (''created_at'', JInt (fm_CreatedAt f))]"

definition put_FileMetadata :: "string \<Rightarrow> json \<Rightarrow> FileMetadata \<Rightarrow> FileMetadata option" where
  "put_FileMetadata k v f =
     (if field_is ''file_id'' k then map_option (\<lambda>s. f\<lparr>fm_FileID := s\<rparr>) (dec_string v (fm_FileID f))
      else if field_is ''file_name'' k then map_option (\<lambda>s. f\<lparr>fm_FileName := s\<rparr>) (dec_string v (fm_FileName f))
      else if field_is ''size'' k then map_option (\<lambda>i. f\<lparr>fm_Size := i\<rparr>) (dec_int64 v (fm_Size f))
      else if field_is ''chunk_count'' k then map_option (\<lambda>i. f\<lparr>fm_ChunkCount := i\<rparr>) (dec_int64 v (fm_ChunkCount f))
      else if field_is ''created_at'' k then map_option (\<lambda>i. f\<lparr>fm_CreatedAt := i\<rparr>) (dec_int64 v (fm_CreatedAt f))
      else Some f)"

definition zero_FileMetadata :: FileMetadata where
  "zero_FileMetadata = \<lparr>fm_FileID = '''', fm_FileName = '''', fm_Size = 0, fm_ChunkCount = 0, fm_CreatedAt = 0\<rparr>"

definition json_ShardPlacement :: "ShardPlacement \<Rightarrow> json" where
  "json_ShardPlacement p =
     JObj [(''shard_id'', JStr (sp_ShardID p)), (''file_id'', JStr (sp_FileID p)),
           (''chunk_index'', JInt (sp_ChunkIndex p)), (''shard_index'', JInt (sp_ShardIndex p)),
           (''node_id'', JStr (sp_NodeID p)), (''original_chunk_size'', JInt (sp_OriginalChunkSize p))]"

definition put_ShardPlacement :: "string \<Rightarrow> json \<Rightarrow> ShardPlacement \<Rightarrow> ShardPlacement option" where
  "put_ShardPlacement k v p =
     (if field_is ''shard_id'' k then map_option (\<lambda>s. p\<lparr>sp_ShardID := s\<rparr>) (dec_string v (sp_ShardID p))
      else if field_is ''file_id'' k then map_option (\<lambda>s. p\<lparr>sp_FileID := s\<rparr>) (dec_string v (sp_FileID p))
      else if field_is ''chunk_index'' k then map_option (\<lambda>i. p\<lparr>sp_ChunkIndex := i\<rparr>) (dec_int64 v (sp_ChunkIndex p))
      else if field_is ''shard_index'' k then map_option (\<lambda>i. p\<lparr>sp_ShardIndex := i\<rparr>) (dec_int64 v (sp_ShardIndex p))
      else if field_is ''node_id'' k then map_option (\<lambda>s. p\<lparr>sp_NodeID := s\<rparr>) (dec_string v (sp_NodeID p))
      else if field_is ''original_chunk_size'' k
        then map_option (\<lambda>i. p\<lparr>sp_OriginalChunkSize := i\<rparr>) (dec_int64 v (sp_OriginalChunkSize p))
      else Some p)"

definition zero_ShardPlacement :: ShardPlacement where
  "zero_ShardPlacement = \<lparr>sp_ShardID = '''', sp_FileID = '''', sp_ChunkIndex = 0, sp_ShardIndex = 0,
     sp_NodeID = '''', sp_OriginalChunkSize = 0\<rparr>"

text \<open>Values of the struct types: their integers fit their fields, their strings are UTF-8.\<close>

definition node_ok :: "NodeMetadata \<Rightarrow> bool" where
  "node_ok n \<longleftrightarrow> utf8_valid (nm_NodeID n) \<and> utf8_valid (nm_Address n) \<and> in_int64 (nm_StorageAllocated n)
     \<and> in_int64 (nm_StorageUsed n) \<and> in_int64 (nm_LastSeen n)"

definition file_ok :: "FileMetadata \<Rightarrow> bool" where
  "file_ok f \<longleftrightarrow> utf8_valid (fm_FileID f) \<and> utf8_valid (fm_FileName f) \<and> in_int64 (fm_Size f)
     \<and> in_int64 (fm_ChunkCount f) \<and> in_int64 (fm_CreatedAt f)"

definition placement_ok :: "ShardPlacement \<Rightarrow> bool" where
  "placement_ok p \<longleftrightarrow> utf8_valid (sp_ShardID p) \<and> utf8_valid (sp_FileID p) \<and> in_int64 (sp_ChunkIndex p)
     \<and> in_int64 (sp_ShardIndex p) \<and> utf8_valid (sp_NodeID p) \<and> in_int64 (sp_OriginalChunkSize p)"

section \<open>The store\<close>

datatype tracker_err =
    ErrInsufficientNodes
  | ErrFileNotFound
  | ErrDatabase string
  | ErrStoredJSON

definition bucketNodes :: string where "bucketNodes = ''nodes''"
definition bucketFiles :: string where "bucketFiles = ''files''"
definition bucketPlacements :: string where "bucketPlacements = ''placements''"

type_synonym 'd Store = "'d DB"

definition NewStore :: "'d bolt \<Rightarrow> string \<Rightarrow> tracker_err + 'd Store" where
  "NewStore B dbPath =
     (case bb_open B dbPath of
        Inl e \<Rightarrow> Inl (ErrDatabase e)
      | Inr d \<Rightarrow>
          (case bb_create B d [bucketNodes, bucketFiles, bucketPlacements] of
             Inl e \<Rightarrow> Inl (ErrDatabase e)
           | Inr d' \<Rightarrow> Inr \<lparr>db_ops = B, db_file = d'\<rparr>))"

text \<open>A transaction with these \<open>Put\<close>s: its error, if any, and the store after it.\<close>

definition store_update :: "'d Store \<Rightarrow> (string \<times> string \<times> bytes) list \<Rightarrow> tracker_err option \<times> 'd Store" where
  "store_update s puts =
     (case bb_update (db_ops s) (db_file s) puts of
        Inl e \<Rightarrow> (Some (ErrDatabase e), s)
      | Inr d \<Rightarrow> (None, s\<lparr>db_file := d\<rparr>))"

definition RegisterNode :: "json_codec \<Rightarrow> 'd Store \<Rightarrow> NodeMetadata \<Rightarrow> tracker_err option \<times> 'd Store" where
  "RegisterNode jc s node =
     store_update s [(bucketNodes, nm_NodeID node, json_marshal jc (json_NodeMetadata node))]"

text \<open>The \<open>ForEach\<close> that reads every value of a bucket into a struct.\<close>

fun unmarshal_each :: "json_codec \<Rightarrow> (string \<Rightarrow> json \<Rightarrow> 'r \<Rightarrow> 'r option) \<Rightarrow> 'r \<Rightarrow> bytes list \<Rightarrow> tracker_err + 'r list" where
  "unmarshal_each jc put zero [] = Inr []"
| "unmarshal_each jc put zero (v # vs) =
     (case unmarshal_struct jc put zero v of
        None \<Rightarrow> Inl ErrStoredJSON
      | Some r \<Rightarrow> (case unmarshal_each jc put zero vs of Inl e \<Rightarrow> Inl e | Inr rs \<Rightarrow> Inr (r # rs)))"

definition bucket_values :: "'d Store \<Rightarrow> string \<Rightarrow> bytes list" where
  "bucket_values s b = map snd (bb_entries (db_ops s) (db_file s) b)"

definition ListNodes :: "json_codec \<Rightarrow> 'd Store \<Rightarrow> tracker_err + NodeMetadata list" where
  "ListNodes jc s =
     (case bb_view (db_ops s) (db_file s) of
        Some e \<Rightarrow> Inl (ErrDatabase e)
      | None \<Rightarrow> unmarshal_each jc put_NodeMetadata zero_NodeMetadata (bucket_values s bucketNodes))"

definition free_space :: "NodeMetadata \<Rightarrow> int" where
  "free_space n = wrap64 (nm_StorageAllocated n - nm_StorageUsed n)"

definition more_space :: "NodeMetadata \<Rightarrow> NodeMetadata \<Rightarrow> bool" where
  "more_space a b \<longleftrightarrow> free_space b < free_space a"

definition eligible :: "int \<Rightarrow> NodeMetadata list \<Rightarrow> NodeMetadata list" where
  "eligible requiredSpace nodes = filter (\<lambda>n. nm_IsHealthy n \<and> requiredSpace \<le> free_space n) nodes"

text \<open>\<^const>\<open>None\<close> is the panic of \<open>eligible[:count]\<close> for a negative \<open>count\<close>.\<close>

definition SelectPlacementNodes ::
    "((NodeMetadata \<Rightarrow> NodeMetadata \<Rightarrow> bool) \<Rightarrow> NodeMetadata list \<Rightarrow> NodeMetadata list) \<Rightarrow> json_codec \<Rightarrow> 'd Store
      \<Rightarrow> int \<Rightarrow> int \<Rightarrow> (tracker_err + NodeMetadata list) option" where
  "SelectPlacementNodes sort_slice jc s cnt requiredSpace =
     (case ListNodes jc s of
        Inl e \<Rightarrow> Some (Inl e)
      | Inr nodes \<Rightarrow>
          let el = eligible requiredSpace nodes
          in if int (length el) < cnt then Some (Inl ErrInsufficientNodes)
             else if cnt < 0 then None
             else Some (Inr (take (nat cnt) (sort_slice more_space el))))"

definition SaveFilePlacement ::
    "json_codec \<Rightarrow> 'd Store \<Rightarrow> FileMetadata \<Rightarrow> ShardPlacement list \<Rightarrow> tracker_err option \<times> 'd Store" where
  "SaveFilePlacement jc s f placements =
     store_update s
       [(bucketFiles, fm_FileID f, json_marshal jc (json_FileMetadata f)),
        (bucketPlacements, fm_FileID f, json_marshal jc (enc_structs json_ShardPlacement placements))]"

definition ListFiles :: "json_codec \<Rightarrow> 'd Store \<Rightarrow> tracker_err + FileMetadata list" where
  "ListFiles jc s =
     (case bb_view (db_ops s) (db_file s) of
        Some e \<Rightarrow> Inl (ErrDatabase e)
      | None \<Rightarrow> unmarshal_each jc put_FileMetadata zero_FileMetadata (bucket_values s bucketFiles))"

definition GetFilePlacement ::
    "json_codec \<Rightarrow> 'd Store \<Rightarrow> string \<Rightarrow> tracker_err + FileMetadata \<times> ShardPlacement list" where
  "GetFilePlacement jc s fileID =
     (case bb_view (db_ops s) (db_file s) of
        Some e \<Rightarrow> Inl (ErrDatabase e)
      | None \<Rightarrow>
          (case bb_get (db_ops s) (db_file s) bucketFiles fileID of
             None \<Rightarrow> Inl ErrFileNotFound
           | Some fileBytes \<Rightarrow>
               (case unmarshal_struct jc put_FileMetadata zero_FileMetadata fileBytes of
                  None \<Rightarrow> Inl ErrStoredJSON
                | Some f \<Rightarrow>
                    (case bb_get (db_ops s) (db_file s) bucketPlacements fileID of
                       None \<Rightarrow> Inr (f, [])
                     | Some placementBytes \<Rightarrow>
                         (case unmarshal_structs jc put_ShardPlacement zero_ShardPlacement placementBytes of
                            None \<Rightarrow> Inl ErrStoredJSON
                          | Some ps \<Rightarrow> Inr (f, ps))))))"

section \<open>The contract of a store\<close>

text \<open>
  A store keeps one node per node identifier and one entry (a file's metadata and placements) per
  file identifier; an operation that reports an error has changed nothing.
\<close>

locale placement_store =
  fixes ok :: "'x \<Rightarrow> 's \<Rightarrow> bool"
    and node_valid :: "'n \<Rightarrow> bool" and node_id :: "'n \<Rightarrow> string"
    and entry_valid :: "'f \<Rightarrow> bool" and entry_id :: "'f \<Rightarrow> string"
    and node_at :: "'x \<Rightarrow> 's \<Rightarrow> string \<Rightarrow> 'n option"
    and file_at :: "'x \<Rightarrow> 's \<Rightarrow> string \<Rightarrow> 'f option"
    and register :: "'x \<Rightarrow> 's \<Rightarrow> 'n \<Rightarrow> 'e option \<times> 's"
    and nodes :: "'x \<Rightarrow> 's \<Rightarrow> 'e + 'n list"
    and save :: "'x \<Rightarrow> 's \<Rightarrow> 'f \<Rightarrow> 'e option \<times> 's"
    and lookup_file :: "'x \<Rightarrow> 's \<Rightarrow> string \<Rightarrow> 'e + 'f"
  assumes node_at_valid: "ok x s \<Longrightarrow> node_at x s i = Some n \<Longrightarrow> node_valid n \<and> node_id n = i"
    and file_at_valid: "ok x s \<Longrightarrow> file_at x s i = Some f \<Longrightarrow> entry_valid f \<and> entry_id f = i"
    and register_law: "ok x s \<Longrightarrow> node_valid n \<Longrightarrow> register x s n = (e, s') \<Longrightarrow>
          ok x s' \<and> file_at x s' = file_at x s
          \<and> node_at x s' = (if e = None then (node_at x s)(node_id n \<mapsto> n) else node_at x s)"
    and save_law: "ok x s \<Longrightarrow> entry_valid f \<Longrightarrow> save x s f = (e, s') \<Longrightarrow>
          ok x s' \<and> node_at x s' = node_at x s
          \<and> file_at x s' = (if e = None then (file_at x s)(entry_id f \<mapsto> f) else file_at x s)"
    and nodes_law: "ok x s \<Longrightarrow> nodes x s = Inr ns \<Longrightarrow>
          distinct (map node_id ns) \<and> (\<forall>n. n \<in> set ns \<longleftrightarrow> node_at x s (node_id n) = Some n)"
    and lookup_law: "ok x s \<Longrightarrow> lookup_file x s i = Inr f \<Longrightarrow> file_at x s i = Some f"
begin

lemma register_keeps: "ok x s \<Longrightarrow> node_valid n \<Longrightarrow> ok x (snd (register x s n))"
  using register_law [of x s n] by (cases "register x s n") auto

lemma save_keeps: "ok x s \<Longrightarrow> entry_valid f \<Longrightarrow> ok x (snd (save x s f))"
  using save_law [of x s f] by (cases "save x s f") auto

lemma register_then_list:
  assumes "ok x s" "node_valid n" "register x s n = (None, s')" "nodes x s' = Inr ns"
  shows "n \<in> set ns" "m \<in> set ns \<longleftrightarrow> m = n \<or> (node_id m \<noteq> node_id n \<and> node_at x s (node_id m) = Some m)"
  using register_law [OF assms(1-3)] nodes_law [OF _ assms(4)] by auto

lemma save_then_lookup:
  assumes "ok x s" "entry_valid f" "save x s f = (None, s')" "lookup_file x s' (entry_id f) = Inr f'"
  shows "f' = f"
  using save_law [OF assms(1-3)] lookup_law [OF _ assms(4)] by auto

text \<open>A pass over listed nodes that registers the changed ones again and stops at an error.\<close>

fun update_nodes :: "'x \<Rightarrow> ('n \<Rightarrow> 'n option) \<Rightarrow> 'n list \<Rightarrow> 's \<Rightarrow> nat \<Rightarrow> (nat \<times> 'e option) \<times> 's" where
  "update_nodes x f [] s c = ((c, None), s)"
| "update_nodes x f (n # ns) s c =
     (case f n of
        None \<Rightarrow> update_nodes x f ns s c
      | Some n' \<Rightarrow>
          (case register x s n' of
             (Some e, s') \<Rightarrow> ((c, Some e), s')
           | (None, s') \<Rightarrow> update_nodes x f ns s' (c + 1)))"

definition revised :: "('n \<Rightarrow> 'n option) \<Rightarrow> 'n list \<Rightarrow> (string \<Rightarrow> 'n option) \<Rightarrow> string \<Rightarrow> 'n option" where
  "revised f ns g i = (case find (\<lambda>n. node_id n = i) ns of
     None \<Rightarrow> g i | Some n \<Rightarrow> (case f n of None \<Rightarrow> g i | Some n' \<Rightarrow> Some n'))"

lemma revised_Cons: "revised f (n # ns) g i =
    (if node_id n = i then (case f n of None \<Rightarrow> g i | Some n' \<Rightarrow> Some n') else revised f ns g i)"
  by (simp add: revised_def)

lemma revised_absent: "i \<notin> node_id ` set ns \<Longrightarrow> revised f ns g i = g i"
  by (induction ns) (auto simp: revised_Cons revised_def)

lemma revised_cong: "g i = h i \<Longrightarrow> revised f ns g i = revised f ns h i"
  by (simp add: revised_def split: option.split)

lemma update_nodes_law:
  assumes "ok x s" "update_nodes x f ns s c = ((c', e), s')" "distinct (map node_id ns)"
    and "\<And>n n'. n \<in> set ns \<Longrightarrow> f n = Some n' \<Longrightarrow> node_valid n' \<and> node_id n' = node_id n"
  shows "\<exists>done rest. ns = done @ rest \<and> (e = None \<longrightarrow> rest = []) \<and> ok x s' \<and> file_at x s' = file_at x s
    \<and> c' = c + length (filter (\<lambda>n. f n \<noteq> None) done) \<and> node_at x s' = revised f done (node_at x s)"
  using assms
proof (induction ns arbitrary: s c)
  case Nil
  then show ?case by (simp add: revised_def fun_eq_iff)
next
  case (Cons n ns)
  show ?case
  proof (cases "f n")
    case None
    with Cons.prems Cons.IH [of s c] obtain dn rest where ih: "ns = dn @ rest" "e = None \<longrightarrow> rest = []" "ok x s'"
      "file_at x s' = file_at x s" "c' = c + length (filter (\<lambda>n. f n \<noteq> None) dn)"
      "node_at x s' = revised f dn (node_at x s)" by auto
    have "revised f (n # dn) (node_at x s) = revised f dn (node_at x s)"
    proof
      fix i
      show "revised f (n # dn) (node_at x s) i = revised f dn (node_at x s) i"
        using Cons.prems(3) ih(1) None revised_absent [of i dn f "node_at x s"]
        by (cases "i = node_id n") (auto simp: revised_Cons)
    qed
    with ih None show ?thesis by (intro exI [of _ "n # dn"] exI [of _ rest]) simp
  next
    case (Some n')
    with Cons.prems(4) [of n n'] have n': "node_valid n'" "node_id n' = node_id n" by simp_all
    obtain r s1 where reg: "register x s n' = (r, s1)" by (cases "register x s n'")
    note law = register_law [OF Cons.prems(1) n'(1) reg]
    show ?thesis
    proof (cases r)
      case None
      with law have s1: "ok x s1" "file_at x s1 = file_at x s" by simp_all
      have run: "update_nodes x f ns s1 (c + 1) = ((c', e), s')" using Cons.prems(2) reg Some None by simp
      have "distinct (map node_id ns)" using Cons.prems(3) by simp
      from Cons.IH [OF s1(1) run this Cons.prems(4)] obtain dn rest where ih: "ns = dn @ rest"
        "e = None \<longrightarrow> rest = []" "ok x s'" "file_at x s' = file_at x s"
        "c' = c + 1 + length (filter (\<lambda>n. f n \<noteq> None) dn)" "node_at x s' = revised f dn (node_at x s1)"
        unfolding s1(2) by (meson list.set_intros(2))
      have "revised f dn (node_at x s1) = revised f (n # dn) (node_at x s)"
      proof
        fix i
        have "revised f dn (node_at x s1) i = revised f dn (node_at x s) i" if "i \<noteq> node_id n"
          using law None n'(2) that by (intro revised_cong) simp
        moreover have "revised f dn (node_at x s1) i = Some n'" if "i = node_id n"
          using Cons.prems(3) ih(1) law None n'(2) that revised_absent [of i dn f "node_at x s1"] by auto
        ultimately show "revised f dn (node_at x s1) i = revised f (n # dn) (node_at x s) i"
          using Some by (auto simp: revised_Cons)
      qed
      with ih Some show ?thesis by (intro exI [of _ "n # dn"] exI [of _ rest]) simp
    next
      case (Some e')
      with \<open>f n = Some n'\<close> Cons.prems law reg show ?thesis
        by (intro exI [of _ "[]"] exI [of _ "n # ns"]) (auto simp: revised_def fun_eq_iff)
    qed
  qed
qed

end

text \<open>A store that can also list its files; the repairer needs it, remote clients do not have it.\<close>

locale file_listing =
  placement_store ok node_valid node_id entry_valid entry_id node_at file_at register nodes save lookup_file
  for ok :: "'x \<Rightarrow> 's \<Rightarrow> bool"
    and node_valid :: "'n \<Rightarrow> bool" and node_id :: "'n \<Rightarrow> string"
    and entry_valid :: "'f \<Rightarrow> bool" and entry_id :: "'f \<Rightarrow> string"
    and node_at :: "'x \<Rightarrow> 's \<Rightarrow> string \<Rightarrow> 'n option"
    and file_at :: "'x \<Rightarrow> 's \<Rightarrow> string \<Rightarrow> 'f option"
    and register :: "'x \<Rightarrow> 's \<Rightarrow> 'n \<Rightarrow> 'e option \<times> 's"
    and nodes :: "'x \<Rightarrow> 's \<Rightarrow> 'e + 'n list"
    and save :: "'x \<Rightarrow> 's \<Rightarrow> 'f \<Rightarrow> 'e option \<times> 's"
    and lookup_file :: "'x \<Rightarrow> 's \<Rightarrow> string \<Rightarrow> 'e + 'f" +
  fixes meta :: "'f \<Rightarrow> 'm" and files :: "'x \<Rightarrow> 's \<Rightarrow> 'e + 'm list"
  assumes files_law: "ok x s \<Longrightarrow> files x s = Inr ms \<Longrightarrow> set ms = meta ` ran (file_at x s)"
begin

lemma listed_entry:
  assumes "ok x s" "files x s = Inr ms" "m \<in> set ms"
  shows "\<exists>f. meta f = m \<and> file_at x s (entry_id f) = Some f \<and> entry_valid f"
proof -
  from files_law [OF assms(1,2)] assms(3) obtain f i where "file_at x s i = Some f" "meta f = m"
    by (auto simp: ran_def)
  with file_at_valid [OF assms(1) this(1)] show ?thesis by blast
qed

end

section \<open>The tracker's store meets it\<close>

lemma tracker_tags [simp]:
  "field_is tag ''node_id'' \<longleftrightarrow> tag = ''node_id''" "field_is tag ''address'' \<longleftrightarrow> tag = ''address''"
  "field_is tag ''storage_allocated'' \<longleftrightarrow> tag = ''storage_allocated''"
  "field_is tag ''storage_used'' \<longleftrightarrow> tag = ''storage_used''" "field_is tag ''last_seen'' \<longleftrightarrow> tag = ''last_seen''"
  "field_is tag ''is_healthy'' \<longleftrightarrow> tag = ''is_healthy''" "field_is tag ''file_id'' \<longleftrightarrow> tag = ''file_id''"
  "field_is tag ''file_name'' \<longleftrightarrow> tag = ''file_name''" "field_is tag ''size'' \<longleftrightarrow> tag = ''size''"
  "field_is tag ''chunk_count'' \<longleftrightarrow> tag = ''chunk_count''" "field_is tag ''created_at'' \<longleftrightarrow> tag = ''created_at''"
  "field_is tag ''shard_id'' \<longleftrightarrow> tag = ''shard_id''" "field_is tag ''chunk_index'' \<longleftrightarrow> tag = ''chunk_index''"
  "field_is tag ''shard_index'' \<longleftrightarrow> tag = ''shard_index''"
  "field_is tag ''original_chunk_size'' \<longleftrightarrow> tag = ''original_chunk_size''"
  by (auto simp: field_is_def lower_def to_lower_def)

lemma tracker_tags_utf8 [simp]:
  "utf8_valid ''node_id''" "utf8_valid ''address''" "utf8_valid ''storage_allocated''" "utf8_valid ''storage_used''"
  "utf8_valid ''last_seen''" "utf8_valid ''is_healthy''" "utf8_valid ''file_id''" "utf8_valid ''file_name''"
  "utf8_valid ''size''" "utf8_valid ''chunk_count''" "utf8_valid ''created_at''" "utf8_valid ''shard_id''"
  "utf8_valid ''chunk_index''" "utf8_valid ''shard_index''" "utf8_valid ''original_chunk_size''"
  by (simp_all add: utf8_valid_ascii)

lemma codec_NodeMetadata: "node_ok n \<Longrightarrow> struct_codec json_NodeMetadata put_NodeMetadata zero_NodeMetadata n"
  by (simp add: struct_codec_def json_NodeMetadata_def put_NodeMetadata_def zero_NodeMetadata_def
      dec_struct_def node_ok_def)

lemma codec_FileMetadata: "file_ok f \<Longrightarrow> struct_codec json_FileMetadata put_FileMetadata zero_FileMetadata f"
  by (simp add: struct_codec_def json_FileMetadata_def put_FileMetadata_def zero_FileMetadata_def
      dec_struct_def file_ok_def)

lemma codec_ShardPlacement:
  "placement_ok p \<Longrightarrow> struct_codec json_ShardPlacement put_ShardPlacement zero_ShardPlacement p"
  by (simp add: struct_codec_def json_ShardPlacement_def put_ShardPlacement_def zero_ShardPlacement_def
      dec_struct_def placement_ok_def)

text \<open>The nodes and files a store holds, read from its buckets.\<close>

abbreviation stored :: "'d Store \<Rightarrow> kv" where
  "stored s \<equiv> bb_get (db_ops s) (db_file s)"

type_synonym file_entry = "FileMetadata \<times> ShardPlacement list"

definition node_at :: "json_codec \<Rightarrow> 'd Store \<Rightarrow> string \<Rightarrow> NodeMetadata option" where
  "node_at jc s i = Option.bind (stored s bucketNodes i) (unmarshal_struct jc put_NodeMetadata zero_NodeMetadata)"

definition file_at :: "json_codec \<Rightarrow> 'd Store \<Rightarrow> string \<Rightarrow> file_entry option" where
  "file_at jc s i =
     Option.bind (stored s bucketFiles i) (\<lambda>fb.
     Option.bind (unmarshal_struct jc put_FileMetadata zero_FileMetadata fb) (\<lambda>f.
     Option.bind (stored s bucketPlacements i) (\<lambda>pb.
     Option.bind (unmarshal_structs jc put_ShardPlacement zero_ShardPlacement pb) (\<lambda>ps. Some (f, ps)))))"

definition entry_ok :: "file_entry \<Rightarrow> bool" where
  "entry_ok e \<longleftrightarrow> file_ok (fst e) \<and> list_all placement_ok (snd e)"

definition entry_id :: "file_entry \<Rightarrow> string" where
  "entry_id e = fm_FileID (fst e)"

definition save_entry :: "json_codec \<Rightarrow> 'd Store \<Rightarrow> file_entry \<Rightarrow> tracker_err option \<times> 'd Store" where
  "save_entry jc s e = SaveFilePlacement jc s (fst e) (snd e)"

text \<open>
  The invariant: whatever is in the buckets was written by the store, so it reads back as a
  record under its own identifier, and every file has its placements.
\<close>

definition store_ok :: "json_codec \<Rightarrow> 'd Store \<Rightarrow> bool" where
  "store_ok jc s \<longleftrightarrow> json_codec_ok jc \<and> bolt_ok (db_ops s)
     \<and> (\<forall>i \<in> dom (stored s bucketNodes). \<exists>n. node_at jc s i = Some n \<and> node_ok n \<and> nm_NodeID n = i)
     \<and> (\<forall>i \<in> dom (stored s bucketFiles). \<exists>e. file_at jc s i = Some e \<and> entry_ok e \<and> entry_id e = i)"

lemma bucket_names [simp]:
  "bucketFiles \<noteq> bucketNodes" "bucketPlacements \<noteq> bucketNodes" "bucketPlacements \<noteq> bucketFiles"
  "bucketNodes \<noteq> bucketFiles" "bucketNodes \<noteq> bucketPlacements" "bucketFiles \<noteq> bucketPlacements"
  by (simp_all add: bucketNodes_def bucketFiles_def bucketPlacements_def)

lemma node_at_dom: "node_at jc s i = Some n \<Longrightarrow> i \<in> dom (stored s bucketNodes)"
  by (auto simp: node_at_def bind_eq_Some_conv)

lemma file_at_dom: "file_at jc s i = Some e \<Longrightarrow> i \<in> dom (stored s bucketFiles)"
  by (auto simp: file_at_def bind_eq_Some_conv)

lemma store_okD:
  assumes "store_ok jc s"
  shows "json_codec_ok jc" "bolt_ok (db_ops s)"
    and "node_at jc s i = Some n \<Longrightarrow> node_ok n \<and> nm_NodeID n = i"
    and "file_at jc s i = Some e \<Longrightarrow> entry_ok e \<and> entry_id e = i"
    and "stored s bucketNodes i = Some v \<Longrightarrow> \<exists>n. node_at jc s i = Some n"
    and "stored s bucketFiles i = Some v \<Longrightarrow> \<exists>e. file_at jc s i = Some e"
proof -
  note parts = assms [unfolded store_ok_def]
  show "json_codec_ok jc" "bolt_ok (db_ops s)" using parts by blast+
  show "node_ok n \<and> nm_NodeID n = i" if n: "node_at jc s i = Some n"
  proof -
    have "\<exists>n'. node_at jc s i = Some n' \<and> node_ok n' \<and> nm_NodeID n' = i"
      using parts node_at_dom [OF n] by blast
    with n show ?thesis by simp
  qed
  show "entry_ok e \<and> entry_id e = i" if e: "file_at jc s i = Some e"
  proof -
    have "\<exists>e'. file_at jc s i = Some e' \<and> entry_ok e' \<and> entry_id e' = i"
      using parts file_at_dom [OF e] by blast
    with e show ?thesis by simp
  qed
  show "\<exists>n. node_at jc s i = Some n" if "stored s bucketNodes i = Some v"
    using parts domI [of "stored s bucketNodes", OF that] by blast
  show "\<exists>e. file_at jc s i = Some e" if "stored s bucketFiles i = Some v"
    using parts domI [of "stored s bucketFiles", OF that] by blast
qed

lemma store_update_stored:
  assumes "bolt_ok (db_ops s)" "store_update s puts = (e, s')"
  shows "db_ops s' = db_ops s" "stored s' = (if e = None then apply_puts puts (stored s) else stored s)"
    "e \<noteq> None \<Longrightarrow> s' = s"
  using assms bolt_update [OF assms(1)] by (auto simp: store_update_def split: sum.splits)

lemma RegisterNode_law:
  assumes "store_ok jc s" "node_ok n" "RegisterNode jc s n = (e, s')"
  shows "store_ok jc s' \<and> file_at jc s' = file_at jc s
    \<and> node_at jc s' = (if e = None then (node_at jc s)(nm_NodeID n \<mapsto> n) else node_at jc s)"
proof (cases "e = None")
  case False
  with store_update_stored(3) [OF store_okD(2) [OF assms(1)] assms(3) [unfolded RegisterNode_def]] assms(1)
  show ?thesis using False by auto
next
  case True
  note upd = store_update_stored [OF store_okD(2) [OF assms(1)] assms(3) [unfolded RegisterNode_def]]
  have st: "stored s' = (stored s)(bucketNodes := (stored s bucketNodes)(nm_NodeID n \<mapsto> json_marshal jc (json_NodeMetadata n)))"
    using upd(2) True by simp
  have files: "file_at jc s' = file_at jc s" by (rule ext) (simp add: file_at_def st)
  have "unmarshal_struct jc put_NodeMetadata zero_NodeMetadata (json_marshal jc (json_NodeMetadata n)) = Some n"
    by (rule unmarshal_marshal [OF store_okD(1) [OF assms(1)] codec_NodeMetadata [OF assms(2)]])
  then have nodes: "node_at jc s' = (node_at jc s)(nm_NodeID n \<mapsto> n)"
    by (intro ext) (simp add: node_at_def st)
  have "store_ok jc s'"
    using assms(1,2) unfolding store_ok_def files nodes st unfolding upd(1) by auto
  with files nodes True show ?thesis by simp
qed

lemma save_entry_law:
  assumes "store_ok jc s" "entry_ok f" "save_entry jc s f = (e, s')"
  shows "store_ok jc s' \<and> node_at jc s' = node_at jc s
    \<and> file_at jc s' = (if e = None then (file_at jc s)(entry_id f \<mapsto> f) else file_at jc s)"
proof (cases "e = None")
  case False
  with store_update_stored(3) [OF store_okD(2) [OF assms(1)] assms(3) [unfolded save_entry_def SaveFilePlacement_def]] assms(1)
  show ?thesis using False by auto
next
  case True
  let ?fb = "json_marshal jc (json_FileMetadata (fst f))"
  let ?pb = "json_marshal jc (enc_structs json_ShardPlacement (snd f))"
  note upd = store_update_stored [OF store_okD(2) [OF assms(1)] assms(3) [unfolded save_entry_def SaveFilePlacement_def]]
  have st: "stored s' = (stored s)(bucketFiles := (stored s bucketFiles)(entry_id f \<mapsto> ?fb),
      bucketPlacements := (stored s bucketPlacements)(entry_id f \<mapsto> ?pb))"
    using upd(2) True by (simp add: entry_id_def)
  have nodes: "node_at jc s' = node_at jc s" by (rule ext) (simp add: node_at_def st)
  have "unmarshal_struct jc put_FileMetadata zero_FileMetadata ?fb = Some (fst f)"
    using assms(2) by (intro unmarshal_marshal [OF store_okD(1) [OF assms(1)]] codec_FileMetadata) (simp add: entry_ok_def)
  moreover have "unmarshal_structs jc put_ShardPlacement zero_ShardPlacement ?pb = Some (snd f)"
    using assms(2) by (intro unmarshal_marshal_structs [OF store_okD(1) [OF assms(1)]] codec_ShardPlacement)
      (simp add: entry_ok_def list_all_iff)
  ultimately have files: "file_at jc s' = (file_at jc s)(entry_id f \<mapsto> f)"
    by (intro ext) (simp add: file_at_def st)
  have "store_ok jc s'"
    using assms(1,2) unfolding store_ok_def files nodes st unfolding upd(1) by (cases f) auto
  with files nodes True show ?thesis by simp
qed

lemma unmarshal_each_Inr:
  "unmarshal_each jc put zero vs = Inr rs \<longleftrightarrow> list_all2 (\<lambda>v r. unmarshal_struct jc put zero v = Some r) vs rs"
proof (induction vs arbitrary: rs)
  case (Cons v vs)
  show ?case using Cons.IH [of "tl rs"]
    by (cases rs; cases "unmarshal_struct jc put zero v"; cases "unmarshal_each jc put zero vs") auto
qed auto

text \<open>Reading a bucket: every value is read, and an error is about a value that is there.\<close>

lemma bucket_read:
  assumes "bolt_ok (db_ops s)" "unmarshal_each jc put zero (bucket_values s b) = Inr rs"
    and "\<And>i r. Option.bind (stored s b i) (unmarshal_struct jc put zero) = Some r \<Longrightarrow> ident r = i"
  shows "distinct (map ident rs)"
    and "r \<in> set rs \<longleftrightarrow> Option.bind (stored s b (ident r)) (unmarshal_struct jc put zero) = Some r"
proof -
  let ?kvs = "bb_entries (db_ops s) (db_file s) b"
  have all2: "list_all2 (\<lambda>kv r. unmarshal_struct jc put zero (snd kv) = Some r) ?kvs rs"
    using assms(2) by (simp add: unmarshal_each_Inr bucket_values_def list_all2_map1)
  have in_kvs: "(i, v) \<in> set ?kvs \<longleftrightarrow> stored s b i = Some v" for i v
    by (rule bolt_entries(2) [OF assms(1)])
  have ids: "ident (rs ! j) = fst (?kvs ! j) \<and> unmarshal_struct jc put zero (snd (?kvs ! j)) = Some (rs ! j)"
    if "j < length rs" for j
  proof -
    have j: "j < length ?kvs" using all2 that by (simp add: list_all2_lengthD)
    then have r: "unmarshal_struct jc put zero (snd (?kvs ! j)) = Some (rs ! j)"
      by (rule list_all2_nthD [OF all2])
    have "stored s b (fst (?kvs ! j)) = Some (snd (?kvs ! j))"
      using in_kvs [of "fst (?kvs ! j)" "snd (?kvs ! j)"] nth_mem [OF j] by simp
    with r assms(3) [of "fst (?kvs ! j)" "rs ! j"] show ?thesis by simp
  qed
  have len: "length rs = length ?kvs" using all2 by (simp add: list_all2_lengthD)
  then have "map ident rs = map fst ?kvs" using ids by (intro nth_equalityI) simp_all
  then show "distinct (map ident rs)" using bolt_entries(1) [OF assms(1)] by simp
  show "r \<in> set rs \<longleftrightarrow> Option.bind (stored s b (ident r)) (unmarshal_struct jc put zero) = Some r"
  proof
    assume "r \<in> set rs"
    then obtain j where j: "j < length rs" "r = rs ! j" by (auto simp: in_set_conv_nth)
    then have "(fst (?kvs ! j), snd (?kvs ! j)) \<in> set ?kvs" using len by simp
    with ids [OF j(1)] j(2) in_kvs [of "fst (?kvs ! j)" "snd (?kvs ! j)"]
    show "Option.bind (stored s b (ident r)) (unmarshal_struct jc put zero) = Some r" by simp
  next
    assume "Option.bind (stored s b (ident r)) (unmarshal_struct jc put zero) = Some r"
    then obtain v where v: "stored s b (ident r) = Some v" "unmarshal_struct jc put zero v = Some r"
      by (auto simp: bind_eq_Some_conv)
    then have "(ident r, v) \<in> set ?kvs" by (simp add: in_kvs)
    then obtain j where j: "j < length rs" "?kvs ! j = (ident r, v)" unfolding in_set_conv_nth len by blast
    have "unmarshal_struct jc put zero (snd (?kvs ! j)) = Some (rs ! j)" using ids [OF j(1)] by blast
    then have "rs ! j = r" unfolding j(2) by (simp add: v(2))
    with j(1) show "r \<in> set rs" by (metis nth_mem)
  qed
qed

lemma ListNodes_law:
  assumes "store_ok jc s" "ListNodes jc s = Inr ns"
  shows "distinct (map nm_NodeID ns) \<and> (\<forall>n. n \<in> set ns \<longleftrightarrow> node_at jc s (nm_NodeID n) = Some n)"
proof -
  have "unmarshal_each jc put_NodeMetadata zero_NodeMetadata (bucket_values s bucketNodes) = Inr ns"
    using assms(2) by (simp add: ListNodes_def split: option.splits)
  note read = bucket_read [OF store_okD(2) [OF assms(1)] this, of nm_NodeID, folded node_at_def]
  show ?thesis using read store_okD(3) [OF assms(1)] by blast
qed

lemma unmarshal_each_ok:
  "(\<And>v. v \<in> set vs \<Longrightarrow> unmarshal_struct jc put zero v \<noteq> None) \<Longrightarrow> \<exists>rs. unmarshal_each jc put zero vs = Inr rs"
  by (induction vs) (fastforce split: option.splits)+

text \<open>Listing fails only where \<open>View\<close> itself does.\<close>

lemma ListNodes_ok:
  assumes "store_ok jc s" "bb_view (db_ops s) (db_file s) = None"
  shows "\<exists>ns. ListNodes jc s = Inr ns"
proof -
  have "unmarshal_struct jc put_NodeMetadata zero_NodeMetadata v \<noteq> None" if v: "v \<in> set (bucket_values s bucketNodes)" for v
  proof -
    from v obtain i where "(i, v) \<in> set (bb_entries (db_ops s) (db_file s) bucketNodes)"
      by (auto simp: bucket_values_def)
    then have "stored s bucketNodes i = Some v" by (simp add: bolt_entries(2) [OF store_okD(2) [OF assms(1)]])
    with store_okD(5) [OF assms(1) this] show ?thesis by (auto simp: node_at_def)
  qed
  then have "\<exists>ns. unmarshal_each jc put_NodeMetadata zero_NodeMetadata (bucket_values s bucketNodes) = Inr ns"
    by (rule unmarshal_each_ok)
  with assms(2) show ?thesis by (simp add: ListNodes_def)
qed

lemma file_of_entry: "file_at jc s i = Some e \<Longrightarrow>
    Option.bind (stored s bucketFiles i) (unmarshal_struct jc put_FileMetadata zero_FileMetadata) = Some (fst e)"
  by (auto simp: file_at_def bind_eq_Some_conv)

lemma ListFiles_law:
  assumes "store_ok jc s" "ListFiles jc s = Inr fs"
  shows "set fs = fst ` ran (file_at jc s)"
proof -
  let ?meta = "\<lambda>i. Option.bind (stored s bucketFiles i) (unmarshal_struct jc put_FileMetadata zero_FileMetadata)"
  have entry: "\<exists>e. file_at jc s i = Some e \<and> fst e = f \<and> fm_FileID f = i" if "?meta i = Some f" for i f
  proof -
    from that obtain v where "stored s bucketFiles i = Some v" by (auto simp: bind_eq_Some_conv)
    from store_okD(6) [OF assms(1) this] obtain e where e: "file_at jc s i = Some e" by blast
    with file_of_entry [OF e] that store_okD(4) [OF assms(1) e] show ?thesis by (auto simp: entry_id_def)
  qed
  have read: "unmarshal_each jc put_FileMetadata zero_FileMetadata (bucket_values s bucketFiles) = Inr fs"
    using assms(2) by (simp add: ListFiles_def split: option.splits)
  have "f \<in> set fs \<longleftrightarrow> ?meta (fm_FileID f) = Some f" for f
    by (rule bucket_read(2) [OF store_okD(2) [OF assms(1)] read]) (use entry in blast)
  moreover have "?meta (fm_FileID f) = Some f \<longleftrightarrow> f \<in> fst ` ran (file_at jc s)" for f
  proof
    assume "?meta (fm_FileID f) = Some f"
    from entry [OF this] show "f \<in> fst ` ran (file_at jc s)" by (auto intro!: image_eqI ranI)
  next
    assume "f \<in> fst ` ran (file_at jc s)"
    then obtain i e where e: "file_at jc s i = Some e" "f = fst e" by (auto simp: ran_def)
    with store_okD(4) [OF assms(1) e(1)] have "fm_FileID f = i" by (simp add: entry_id_def)
    with file_of_entry [OF e(1)] e(2) show "?meta (fm_FileID f) = Some f" by simp
  qed
  ultimately show ?thesis by blast
qed

lemma GetFilePlacement_law:
  assumes "store_ok jc s"
  shows "GetFilePlacement jc s i = Inr e \<Longrightarrow> file_at jc s i = Some e"
    and "bb_view (db_ops s) (db_file s) = None \<Longrightarrow>
      GetFilePlacement jc s i = (case file_at jc s i of None \<Rightarrow> Inl ErrFileNotFound | Some e \<Rightarrow> Inr e)"
proof -
  show *: "GetFilePlacement jc s i = (case file_at jc s i of None \<Rightarrow> Inl ErrFileNotFound | Some e \<Rightarrow> Inr e)"
    if "bb_view (db_ops s) (db_file s) = None"
  proof (cases "stored s bucketFiles i")
    case (Some v)
    from store_okD(6) [OF assms this] that Some show ?thesis
      by (auto simp: GetFilePlacement_def file_at_def bind_eq_Some_conv)
  qed (use that in \<open>simp add: GetFilePlacement_def file_at_def\<close>)
  show "file_at jc s i = Some e" if "GetFilePlacement jc s i = Inr e"
  proof -
    have "bb_view (db_ops s) (db_file s) = None"
      using that by (cases "bb_view (db_ops s) (db_file s)") (simp_all add: GetFilePlacement_def)
    from * [OF this] that show ?thesis by (simp split: option.splits)
  qed
qed

interpretation tracker: file_listing store_ok node_ok nm_NodeID entry_ok entry_id node_at file_at
  RegisterNode ListNodes save_entry GetFilePlacement fst ListFiles
proof unfold_locales
  show "node_ok n \<and> nm_NodeID n = i" if "store_ok x s" "node_at x s i = Some n" for x and s :: "'a Store" and i n
    by (rule store_okD(3) [OF that])
  show "entry_ok f \<and> entry_id f = i" if "store_ok x s" "file_at x s i = Some f" for x and s :: "'a Store" and i f
    by (rule store_okD(4) [OF that])
qed (rule RegisterNode_law save_entry_law ListNodes_law ListFiles_law GetFilePlacement_law(1); assumption)+

section \<open>The choice of nodes\<close>

lemma eligible_iff: "n \<in> set (eligible req ns) \<longleftrightarrow> n \<in> set ns \<and> nm_IsHealthy n \<and> req \<le> free_space n"
  by (auto simp: eligible_def)

lemma distinct_eligible: "distinct (map nm_NodeID ns) \<Longrightarrow> distinct (map nm_NodeID (eligible req ns))"
  by (simp add: eligible_def distinct_map_filter)

lemma sort_by_more_space: "sort_slice_ok more_space (sort_by more_space)"
  by (rule sort_by_ok) (auto simp: more_space_def)

lemma SelectPlacementNodes_Inr:
  assumes "ListNodes jc s = Inr ns"
  shows "SelectPlacementNodes srt jc s cnt req = Some (Inr res) \<longleftrightarrow>
     0 \<le> cnt \<and> cnt \<le> int (length (eligible req ns)) \<and> res = take (nat cnt) (srt more_space (eligible req ns))"
  using assms by (auto simp: SelectPlacementNodes_def Let_def)

lemma SelectPlacementNodes_listed:
  assumes "SelectPlacementNodes srt jc s cnt req = Some (Inr res)"
  shows "\<exists>ns. ListNodes jc s = Inr ns"
  using assms by (cases "ListNodes jc s") (simp_all add: SelectPlacementNodes_def)

text \<open>What the clients of a choice use.\<close>

lemma SelectPlacementNodes_nodes:
  assumes "store_ok jc s" "sort_slice_ok more_space (srt more_space)"
    and "SelectPlacementNodes srt jc s cnt req = Some (Inr res)"
  shows "int (length res) = cnt" "distinct (map nm_NodeID res)"
    and "n \<in> set res \<Longrightarrow> node_at jc s (nm_NodeID n) = Some n \<and> nm_IsHealthy n \<and> req \<le> free_space n \<and> node_ok n"
    and "n \<in> set res \<Longrightarrow> node_at jc s i = Some m \<Longrightarrow> m \<notin> set res \<Longrightarrow> nm_IsHealthy m \<Longrightarrow> req \<le> free_space m \<Longrightarrow>
      free_space m \<le> free_space n"
proof -
  obtain ns where ns: "ListNodes jc s = Inr ns" using SelectPlacementNodes_listed [OF assms(3)] by blast
  let ?el = "eligible req ns" and ?all = "srt more_space (eligible req ns)"
  have res: "0 \<le> cnt" "cnt \<le> int (length ?el)" "res = take (nat cnt) ?all"
    using assms(3) SelectPlacementNodes_Inr [OF ns] by auto
  note listed = ListNodes_law [OF assms(1) ns]
  have all: "set ?all = set ?el" "length ?all = length ?el"
    by (rule sort_slice_set [OF assms(2)], rule sort_slice_length [OF assms(2)])
  show "int (length res) = cnt" using res all by simp
  have "mset (map nm_NodeID ?all) = mset (map nm_NodeID ?el)"
    using sort_slice_mset [OF assms(2), of ?el] by simp
  then have "distinct (map nm_NodeID ?all)"
    using distinct_eligible listed by (metis mset_eq_imp_distinct_iff)
  then show "distinct (map nm_NodeID res)" unfolding res(3) take_map [symmetric] by (rule distinct_take)
  have in_el: "n \<in> set ?el" if "n \<in> set res" for n
    using that res(3) all(1) by (auto dest: in_set_takeD)
  show "node_at jc s (nm_NodeID n) = Some n \<and> nm_IsHealthy n \<and> req \<le> free_space n \<and> node_ok n" if "n \<in> set res"
    using in_el [OF that] listed store_okD(3) [OF assms(1)] by (auto simp: eligible_iff)
  show "free_space m \<le> free_space n"
    if "n \<in> set res" "node_at jc s i = Some m" "m \<notin> set res" "nm_IsHealthy m" "req \<le> free_space m"
  proof -
    have "m \<in> set ns" using listed store_okD(3) [OF assms(1) that(2)] that(2) by auto
    with that have "m \<in> set ?all" using all(1) by (simp add: eligible_iff)
    with that(3) res(3) have "m \<in> set (drop (nat cnt) ?all)"
      by (metis Un_iff append_take_drop_id set_append)
    with sorted_wrt_take_drop [OF sort_slice_sorted [OF assms(2)]] that(1) res(3) have "\<not> more_space m n"
      by blast
    then show ?thesis by (simp add: more_space_def)
  qed
qed

section \<open>Properties\<close>

text \<open>A concrete store for the witnesses.\<close>

definition demo_node :: "string \<Rightarrow> int \<Rightarrow> NodeMetadata" where
  "demo_node i free = \<lparr>nm_NodeID = i, nm_Address = ''10.0.0.1:9000'', nm_StorageAllocated = free,
     nm_StorageUsed = 0, nm_LastSeen = 100, nm_IsHealthy = True\<rparr>"

definition empty_store :: "(string \<Rightarrow> (string \<times> bytes) list) Store" where
  "empty_store = \<lparr>db_ops = alist_bolt, db_file = (\<lambda>_. [])\<rparr>"

definition demo_store :: "(string \<Rightarrow> (string \<times> bytes) list) Store" where
  "demo_store = snd (RegisterNode ser_codec (snd (RegisterNode ser_codec empty_store (demo_node ''a'' 10))) (demo_node ''b'' 20))"

lemma empty_store_ok: "store_ok ser_codec empty_store"
  by (simp add: store_ok_def empty_store_def ser_codec_ok alist_bolt_ok) (simp add: alist_bolt_def)

lemma demo_node_ok: "nm_NodeID n = i \<Longrightarrow> n = demo_node i k \<Longrightarrow> utf8_valid i \<Longrightarrow> in_int64 k \<Longrightarrow> node_ok n"
  by (simp add: demo_node_def node_ok_def utf8_valid_ascii in_int64_def)

lemma demo_nodes_ok: "node_ok (demo_node ''a'' 10)" "node_ok (demo_node ''b'' 20)"
  by (simp_all add: demo_node_def node_ok_def utf8_valid_ascii in_int64_def)

lemma demo_store_ok: "store_ok ser_codec demo_store"
  unfolding demo_store_def
  by (intro tracker.register_keeps demo_nodes_ok empty_store_ok)

text \<open>
  The tracker's nodes. On a well-formed store \<open>RegisterNode\<close> keeps the store well-formed and
  the files as they are; if it reports no error, \<open>ListNodes\<close> then lists exactly the registered
  node and the nodes listed before with another identifier, each once (registering again
  replaces); if it reports one, nothing has changed.
\<close>
theorem RegisterNode_ListNodes:
  assumes "store_ok jc s" "node_ok n" "ListNodes jc s = Inr before" "RegisterNode jc s n = (e, s')" "ListNodes jc s' = Inr after"
  shows "store_ok jc s' \<and> file_at jc s' = file_at jc s \<and> distinct (map nm_NodeID after)
    \<and> set after = (if e = None then insert n {m \<in> set before. nm_NodeID m \<noteq> nm_NodeID n} else set before)"
proof -
  note law = RegisterNode_law [OF assms(1,2,4)]
  note before = ListNodes_law [OF assms(1,3)] and after = ListNodes_law [OF conjunct1 [OF law] assms(5)]
  have "m \<in> set after \<longleftrightarrow> m \<in> (if e = None then insert n {m \<in> set before. nm_NodeID m \<noteq> nm_NodeID n} else set before)" for m
    using before after law by auto
  with law after show ?thesis by blast
qed

lemma demo_view [simp]: "bb_view (db_ops empty_store) d = None" "bb_view (db_ops demo_store) d = None"
  by (simp_all add: empty_store_def demo_store_def RegisterNode_def store_update_def alist_bolt_def demo_node_def)

lemma RegisterNode_ListNodes_witness:
  "\<exists>before after. ListNodes ser_codec demo_store = Inr before
     \<and> ListNodes ser_codec (snd (RegisterNode ser_codec demo_store (demo_node ''b'' 30))) = Inr after
     \<and> set after = insert (demo_node ''b'' 30) {m \<in> set before. nm_NodeID m \<noteq> ''b''}"
proof -
  let ?n = "demo_node ''b'' 30"
  obtain s' where run: "RegisterNode ser_codec demo_store ?n = (None, s')" and view: "bb_view (db_ops s') (db_file s') = None"
    by (simp add: demo_store_def RegisterNode_def store_update_def empty_store_def alist_bolt_def demo_node_def)
  have ok: "node_ok ?n" by (simp add: demo_node_def node_ok_def utf8_valid_ascii in_int64_def)
  obtain before where before: "ListNodes ser_codec demo_store = Inr before"
    using ListNodes_ok [OF demo_store_ok] by auto
  have "store_ok ser_codec s'" using tracker.register_keeps [OF demo_store_ok ok] run by simp
  then obtain after where after: "ListNodes ser_codec s' = Inr after" using ListNodes_ok view by blast
  from RegisterNode_ListNodes [OF demo_store_ok ok before run after] before after run show ?thesis
    by (auto simp: demo_node_def)
qed

text \<open>
  C14: the nodes chosen for placement: a successful choice has exactly as many nodes as were asked
  for, all different and all registered, healthy and with the required space, and no node that
  was passed over with the same qualities has more free space than a chosen one. It fails for
  lack of nodes exactly when fewer nodes qualify than were asked for, and for a negative number
  it does not return but panics.
\<close>
theorem SelectPlacementNodes_best:
  assumes "store_ok jc s" "ListNodes jc s = Inr ns" "sort_slice_ok more_space (srt more_space)"
  shows "case SelectPlacementNodes srt jc s cnt req of
      None \<Rightarrow> cnt < 0
    | Some (Inl e) \<Rightarrow> e = ErrInsufficientNodes \<and> int (card {n \<in> set ns. nm_IsHealthy n \<and> req \<le> free_space n}) < cnt
    | Some (Inr res) \<Rightarrow> int (length res) = cnt \<and> distinct (map nm_NodeID res)
        \<and> set res \<subseteq> {n \<in> set ns. nm_IsHealthy n \<and> req \<le> free_space n}
        \<and> (\<forall>n \<in> set res. \<forall>m \<in> set ns - set res. nm_IsHealthy m \<and> req \<le> free_space m \<longrightarrow> free_space m \<le> free_space n)"
proof -
  note listed = ListNodes_law [OF assms(1,2)]
  have "set (eligible req ns) = {n \<in> set ns. nm_IsHealthy n \<and> req \<le> free_space n}" by (auto simp: eligible_def)
  moreover have "distinct (eligible req ns)"
    using listed distinct_eligible [of ns req] by (simp add: distinct_map)
  ultimately have card: "card {n \<in> set ns. nm_IsHealthy n \<and> req \<le> free_space n} = length (eligible req ns)"
    using distinct_card by metis
  show ?thesis
  proof (cases "SelectPlacementNodes srt jc s cnt req")
    case None
    then show ?thesis using assms(2) by (auto simp: SelectPlacementNodes_def Let_def split: if_splits)
  next
    case (Some r)
    show ?thesis
    proof (cases r)
      case (Inl e)
      with Some show ?thesis
        using assms(2) card by (auto simp: SelectPlacementNodes_def Let_def split: if_splits)
    next
      case (Inr res)
      note chosen = SelectPlacementNodes_nodes [OF assms(1,3) Some [unfolded Inr]]
      have "set res \<subseteq> {n \<in> set ns. nm_IsHealthy n \<and> req \<le> free_space n}"
        using chosen(3) listed by blast
      moreover have "free_space m \<le> free_space n"
        if "n \<in> set res" "m \<in> set ns - set res" "nm_IsHealthy m" "req \<le> free_space m" for n m
        using chosen(4) [of n "nm_NodeID m" m] that listed by blast
      ultimately show ?thesis using Some Inr chosen(1,2) by simp
    qed
  qed
qed

lemma demo_store_nodes:
  "node_at ser_codec demo_store = [''a'' \<mapsto> demo_node ''a'' 10, ''b'' \<mapsto> demo_node ''b'' 20]"
proof -
  obtain s1 where one: "RegisterNode ser_codec empty_store (demo_node ''a'' 10) = (None, s1)"
    by (simp add: RegisterNode_def store_update_def empty_store_def alist_bolt_def demo_node_def)
  have two: "RegisterNode ser_codec s1 (demo_node ''b'' 20) = (None, demo_store)"
    using one by (auto simp: demo_store_def RegisterNode_def store_update_def empty_store_def alist_bolt_def demo_node_def)
  have "node_at ser_codec empty_store = Map.empty"
    by (rule ext) (simp add: node_at_def empty_store_def alist_bolt_def)
  with RegisterNode_law [OF empty_store_ok demo_nodes_ok(1) one]
  have s1: "store_ok ser_codec s1" "node_at ser_codec s1 = [''a'' \<mapsto> demo_node ''a'' 10]"
    by (simp_all add: demo_node_def)
  with RegisterNode_law [OF s1(1) demo_nodes_ok(2) two] show ?thesis by (simp add: demo_node_def)
qed

lemma demo_store_b: "node_at ser_codec demo_store ''b'' = Some (demo_node ''b'' 20)"
  by (simp add: demo_store_nodes)

text \<open>The concrete database takes every write with a key.\<close>

lemma alist_RegisterNode:
  assumes "db_ops s = alist_bolt" "nm_NodeID n \<noteq> ''''"
  shows "\<exists>s'. RegisterNode jc s n = (None, s') \<and> db_ops s' = alist_bolt"
  using assms by (simp add: RegisterNode_def store_update_def alist_bolt_def)

lemma alist_view [simp]: "bb_view alist_bolt d = None"
  by (simp add: alist_bolt_def)

lemma demo_ops: "db_ops demo_store = alist_bolt"
  by (simp add: demo_store_def RegisterNode_def store_update_def empty_store_def alist_bolt_def demo_node_def)

lemma SelectPlacementNodes_best_witness:
  "\<exists>n. SelectPlacementNodes sort_by ser_codec demo_store 1 15 = Some (Inr [n]) \<and> 20 \<le> free_space n"
proof -
  let ?b = "demo_node ''b'' 20"
  obtain ns where ns: "ListNodes ser_codec demo_store = Inr ns" using ListNodes_ok [OF demo_store_ok] by auto
  from ListNodes_law [OF demo_store_ok ns] demo_store_b have b: "?b \<in> set ns" by (simp add: demo_node_def)
  have free: "free_space ?b = 20" "nm_IsHealthy ?b" by (simp_all add: free_space_def demo_node_def in_int64_def)
  let ?S = "{n \<in> set ns. nm_IsHealthy n \<and> 15 \<le> free_space n}"
  from b free have "?b \<in> ?S" by simp
  then have "?S \<noteq> {}" by blast
  then have "0 < card ?S" by (simp add: card_gt_0_iff)
  then have "\<not> int (card ?S) < 1" by linarith
  with SelectPlacementNodes_best [OF demo_store_ok ns, where srt = sort_by and cnt = 1 and req = 15, OF sort_by_more_space]
  obtain res where res: "SelectPlacementNodes sort_by ser_codec demo_store 1 15 = Some (Inr res)" "length res = 1"
    "\<forall>n \<in> set res. \<forall>m \<in> set ns - set res. nm_IsHealthy m \<and> 15 \<le> free_space m \<longrightarrow> free_space m \<le> free_space n"
    by (auto split: option.splits sum.splits)
  from res(2) obtain n where n: "res = [n]" by (auto simp: length_Suc_conv)
  have "20 \<le> free_space n" using res(3) b free unfolding n by (cases "n = ?b") auto
  with res(1) n show ?thesis by blast
qed

text \<open>
  A file saved is the file found: after \<open>SaveFilePlacement\<close> reports no error,
  \<open>GetFilePlacement\<close> of its identifier gives back its metadata and all its placements in their
  order, the nodes are as they were and every other file is still found as before.
\<close>
theorem SaveFilePlacement_GetFilePlacement:
  assumes "store_ok jc s" "file_ok f" "list_all placement_ok ps" "SaveFilePlacement jc s f ps = (None, s')"
    and "bb_view (db_ops s) (db_file s) = None" "bb_view (db_ops s') (db_file s') = None"
  shows "store_ok jc s' \<and> node_at jc s' = node_at jc s
    \<and> GetFilePlacement jc s' = (GetFilePlacement jc s)(fm_FileID f := Inr (f, ps))"
proof -
  have "save_entry jc s (f, ps) = (None, s')" "entry_ok (f, ps)" "entry_id (f, ps) = fm_FileID f"
    using assms by (simp_all add: save_entry_def entry_ok_def entry_id_def)
  with save_entry_law [OF assms(1), of "(f, ps)" None s'] have s': "store_ok jc s'" "node_at jc s' = node_at jc s"
    "file_at jc s' = (file_at jc s)(fm_FileID f \<mapsto> (f, ps))" by simp_all
  have "GetFilePlacement jc s' i = ((GetFilePlacement jc s)(fm_FileID f := Inr (f, ps))) i" for i
    by (simp add: GetFilePlacement_law(2) [OF assms(1,5)] GetFilePlacement_law(2) [OF s'(1) assms(6)] s'(3))
  with s' show ?thesis by auto
qed

lemma SaveFilePlacement_GetFilePlacement_witness:
  "GetFilePlacement ser_codec (snd (SaveFilePlacement ser_codec demo_store (zero_FileMetadata\<lparr>fm_FileID := ''f''\<rparr>) [zero_ShardPlacement])) ''f''
     = Inr (zero_FileMetadata\<lparr>fm_FileID := ''f''\<rparr>, [zero_ShardPlacement])"
proof -
  let ?f = "zero_FileMetadata\<lparr>fm_FileID := ''f''\<rparr>"
  obtain s' where run: "SaveFilePlacement ser_codec demo_store ?f [zero_ShardPlacement] = (None, s')"
    and view: "bb_view (db_ops s') (db_file s') = None"
    by (simp add: demo_store_def RegisterNode_def SaveFilePlacement_def store_update_def empty_store_def
        alist_bolt_def demo_node_def)
  have "file_ok ?f" "placement_ok zero_ShardPlacement"
    by (simp_all add: file_ok_def placement_ok_def zero_FileMetadata_def zero_ShardPlacement_def
        in_int64_def utf8_valid_ascii)
  with SaveFilePlacement_GetFilePlacement [OF demo_store_ok _ _ run _ view] run show ?thesis
    by (simp add: zero_FileMetadata_def)
qed

text \<open>
  The free space is computed in 64 bits and wraps: a node that claims to have allocated less
  than nothing and used more than it has is taken for the one with the most free space, for any
  required space, and is preferred to every other node.
\<close>
theorem free_space_wraps:
  assumes "nm_StorageAllocated n = - 2" "nm_StorageUsed n = 2 ^ 63 - 1" "nm_IsHealthy n"
  shows "free_space n = 2 ^ 63 - 1 \<and> nm_StorageAllocated n - nm_StorageUsed n < 0
    \<and> (in_int64 req \<longrightarrow> eligible req [n] = [n]) \<and> \<not> more_space m n"
  using assms wrap64_range [of "nm_StorageAllocated m - nm_StorageUsed m"]
  by (auto simp: free_space_def wrap64_def in_int64_def eligible_def more_space_def)

lemma free_space_wraps_witness:
  "free_space (zero_NodeMetadata\<lparr>nm_StorageAllocated := - 2, nm_StorageUsed := 2 ^ 63 - 1, nm_IsHealthy := True\<rparr>) = 2 ^ 63 - 1"
  by (rule free_space_wraps [THEN conjunct1]) simp_all

end
