(* ===== verification/Liveness.thy ===== *)
theory Liveness
  imports Tracker
begin

text \<open>
  \<open>internal/tracker/liveness.go\<close>: a node is healthy, transient or dead by how long it has been
  silent, and \<open>ApplyLiveness\<close> writes the outcome back to the store. Durations are \<open>int64\<close>
  nanoseconds; the clock (\<open>timeNow\<close>) is an argument.
\<close>

datatype NodeStatus = StatusHealthy | StatusTransient | StatusDead

record LivenessConfig =
  TransientAfter :: int
  DeadAfter :: int

definition Second :: int where "Second = 1000000000"

definition DefaultLivenessConfig :: LivenessConfig where
  "DefaultLivenessConfig = \<lparr>TransientAfter = 60 * Second, DeadAfter = 600 * Second\<rparr>"

definition Evaluate :: "LivenessConfig \<Rightarrow> NodeMetadata \<Rightarrow> int \<Rightarrow> NodeStatus" where
  "Evaluate cfg node nowUnix =
     (if \<not> nm_IsHealthy node then StatusDead
      else let silent = wrap64 (wrap64 (nowUnix - nm_LastSeen node) * Second)
           in if silent < TransientAfter cfg then StatusHealthy
              else if silent < DeadAfter cfg then StatusTransient
              else StatusDead)"

text \<open>The loop over the listed nodes; it returns the count, the error if any, and the store.\<close>

fun apply_each ::
    "json_codec \<Rightarrow> LivenessConfig \<Rightarrow> int \<Rightarrow> NodeMetadata list \<Rightarrow> 'd Store \<Rightarrow> nat \<Rightarrow> (nat \<times> tracker_err option) \<times> 'd Store" where
  "apply_each jc cfg now [] s changed = ((changed, None), s)"
| "apply_each jc cfg now (n # ns) s changed =
     (let shouldBeHealthy = (Evaluate cfg n now = StatusHealthy)
      in if nm_IsHealthy n \<noteq> shouldBeHealthy
         then case RegisterNode jc s (n\<lparr>nm_IsHealthy := shouldBeHealthy\<rparr>) of
                (Some e, s') \<Rightarrow> ((changed, Some e), s')
              | (None, s') \<Rightarrow> apply_each jc cfg now ns s' (changed + 1)
         else apply_each jc cfg now ns s changed)"

definition ApplyLiveness ::
    "json_codec \<Rightarrow> 'd Store \<Rightarrow> LivenessConfig \<Rightarrow> int \<Rightarrow> (nat \<times> tracker_err option) \<times> 'd Store" where
  "ApplyLiveness jc s cfg now =
     (case ListNodes jc s of
        Inl e \<Rightarrow> ((0, Some e), s)
      | Inr nodes \<Rightarrow> apply_each jc cfg now nodes s 0)"

section \<open>The pass as an update of the nodes\<close>

definition liveness_change :: "LivenessConfig \<Rightarrow> int \<Rightarrow> NodeMetadata \<Rightarrow> NodeMetadata option" where
  "liveness_change cfg now n =
     (if nm_IsHealthy n \<noteq> (Evaluate cfg n now = StatusHealthy)
      then Some (n\<lparr>nm_IsHealthy := (Evaluate cfg n now = StatusHealthy)\<rparr>) else None)"

lemma apply_each_update: "apply_each jc cfg now ns s c = tracker.update_nodes jc (liveness_change cfg now) ns s c"
  by (induction ns arbitrary: s c)
    (auto simp: liveness_change_def Let_def split: option.splits prod.splits)

text \<open>An unhealthy node is dead and stays as it is, so the pass only ever marks nodes unhealthy.\<close>

lemma liveness_change_eq:
  "liveness_change cfg now n =
     (if nm_IsHealthy n \<and> Evaluate cfg n now \<noteq> StatusHealthy then Some (n\<lparr>nm_IsHealthy := False\<rparr>) else None)"
  by (auto simp: liveness_change_def Evaluate_def)

text \<open>A node as the pass leaves it.\<close>

definition after_pass :: "LivenessConfig \<Rightarrow> int \<Rightarrow> NodeMetadata \<Rightarrow> NodeMetadata" where
  "after_pass cfg now n = n\<lparr>nm_IsHealthy := (Evaluate cfg n now = StatusHealthy)\<rparr>"

lemma after_pass_change: "after_pass cfg now n = (case liveness_change cfg now n of None \<Rightarrow> n | Some n' \<Rightarrow> n')"
  by (auto simp: after_pass_def liveness_change_def)

lemma node_ok_health [simp]: "node_ok (n\<lparr>nm_IsHealthy := b\<rparr>) = node_ok n"
  by (simp add: node_ok_def)

lemma liveness_change_same:
  "liveness_change cfg now n = Some n' \<Longrightarrow> node_ok n' = node_ok n \<and> nm_NodeID n' = nm_NodeID n"
  by (auto simp: liveness_change_def split: if_splits)

lemma ApplyLiveness_run:
  assumes "store_ok jc s" "ListNodes jc s = Inr ns" "ApplyLiveness jc s cfg now = ((c, None), s')"
  shows "store_ok jc s' \<and> file_at jc s' = file_at jc s
    \<and> node_at jc s' = map_option (after_pass cfg now) \<circ> node_at jc s
    \<and> c = length (filter (\<lambda>n. liveness_change cfg now n \<noteq> None) ns)"
proof -
  note listed = ListNodes_law [OF assms(1,2)]
  have run: "tracker.update_nodes jc (liveness_change cfg now) ns s 0 = ((c, None), s')"
    using assms(2,3) by (simp add: ApplyLiveness_def apply_each_update)
  have upd: "node_ok n' \<and> nm_NodeID n' = nm_NodeID n" if "n \<in> set ns" "liveness_change cfg now n = Some n'" for n n'
  proof -
    have "node_ok n" using that(1) listed store_okD(3) [OF assms(1)] by blast
    with liveness_change_same [OF that(2)] show ?thesis by simp
  qed
  from tracker.update_nodes_law [OF assms(1) run conjunct1 [OF listed] upd] obtain
    res: "store_ok jc s'" "file_at jc s' = file_at jc s" "c = length (filter (\<lambda>n. liveness_change cfg now n \<noteq> None) ns)"
    "node_at jc s' = tracker.revised (liveness_change cfg now) ns (node_at jc s)" by auto
  have "tracker.revised (liveness_change cfg now) ns (node_at jc s) i = map_option (after_pass cfg now) (node_at jc s i)" for i
  proof (cases "node_at jc s i")
    case None
    then have "i \<notin> nm_NodeID ` set ns" using listed by force
    with None show ?thesis by (simp add: tracker.revised_absent)
  next
    case (Some n)
    have i: "nm_NodeID n = i" using store_okD(3) [OF assms(1) Some] by blast
    with Some have "node_at jc s (nm_NodeID n) = Some n" by simp
    with listed have "n \<in> set ns" by blast
    then have "find (\<lambda>n. nm_NodeID n = i) ns = Some n"
      using find_key [of nm_NodeID ns n] listed i by simp
    with Some show ?thesis by (simp add: tracker.revised_def after_pass_change split: option.split)
  qed
  with res show ?thesis by (simp add: fun_eq_iff)
qed

section \<open>Properties\<close>

text \<open>
  The three zones. While the silence of a healthy node, in nanoseconds, fits an \<open>int64\<close>, the
  node is healthy, transient or dead as the silence is below the first threshold, between the
  two, or past both, and a longer silence never improves its status; a node marked unhealthy is
  dead whatever its silence.
\<close>
theorem Evaluate_zones:
  assumes "in_int64 ((now - nm_LastSeen n) * Second)" "in_int64 ((later - nm_LastSeen n) * Second)"
    and "now \<le> later" "TransientAfter cfg \<le> DeadAfter cfg"
  shows "(Evaluate cfg n now = StatusHealthy \<longleftrightarrow> nm_IsHealthy n \<and> (now - nm_LastSeen n) * Second < TransientAfter cfg)
    \<and> (Evaluate cfg n now = StatusTransient \<longleftrightarrow>
         nm_IsHealthy n \<and> TransientAfter cfg \<le> (now - nm_LastSeen n) * Second \<and> (now - nm_LastSeen n) * Second < DeadAfter cfg)
    \<and> (Evaluate cfg n later = StatusHealthy \<longrightarrow> Evaluate cfg n now = StatusHealthy)
    \<and> (Evaluate cfg n now = StatusDead \<longrightarrow> Evaluate cfg n later = StatusDead)"
proof -
  have eval: "Evaluate cfg n t = (if \<not> nm_IsHealthy n then StatusDead
      else if (t - nm_LastSeen n) * Second < TransientAfter cfg then StatusHealthy
      else if (t - nm_LastSeen n) * Second < DeadAfter cfg then StatusTransient else StatusDead)"
    if fits: "in_int64 ((t - nm_LastSeen n) * Second)" for t
  proof -
    from fits have "in_int64 (t - nm_LastSeen n)" by (simp add: in_int64_def Second_def)
    with fits show ?thesis by (simp add: Evaluate_def Let_def)
  qed
  have "(now - nm_LastSeen n) * Second \<le> (later - nm_LastSeen n) * Second"
    using assms(3) by (simp add: Second_def)
  with assms(4) show ?thesis unfolding eval [OF assms(1)] eval [OF assms(2)] by auto
qed

lemma Evaluate_zones_witness:
  "Evaluate DefaultLivenessConfig (demo_node ''a'' 10) 130 = StatusHealthy
   \<and> Evaluate DefaultLivenessConfig (demo_node ''a'' 10) 200 = StatusTransient"
  using Evaluate_zones [of 130 "demo_node ''a'' 10" 130 DefaultLivenessConfig]
    Evaluate_zones [of 200 "demo_node ''a'' 10" 200 DefaultLivenessConfig]
  by (simp add: demo_node_def in_int64_def Second_def DefaultLivenessConfig_def)

text \<open>
  C26: what \<open>ApplyLiveness\<close> does when it reports no error: every node of the store keeps
  everything but its health, which becomes true exactly if the evaluator calls the node healthy.
  So a node that is only transient is marked unhealthy as a dead one is, against the comments
  of \<open>liveness.go\<close> on the three states. The files are untouched, and the count returned is the
  number of nodes that changed. A node marked unhealthy is never marked healthy again.
\<close>
theorem ApplyLiveness_effect:
  assumes "store_ok jc s" "ListNodes jc s = Inr before" "ApplyLiveness jc s cfg now = ((changed, None), s')"
    and "ListNodes jc s' = Inr after"
  shows "store_ok jc s' \<and> file_at jc s' = file_at jc s
    \<and> set after = (\<lambda>n. n\<lparr>nm_IsHealthy := (Evaluate cfg n now = StatusHealthy)\<rparr>) ` set before
    \<and> changed = card {n \<in> set before. nm_IsHealthy n \<and> Evaluate cfg n now \<noteq> StatusHealthy}"
proof -
  note run = ApplyLiveness_run [OF assms(1-3)]
  note before = ListNodes_law [OF assms(1,2)] and after = ListNodes_law [OF conjunct1 [OF run] assms(4)]
  have "distinct before" using before by (simp add: distinct_map)
  moreover have "{n. liveness_change cfg now n \<noteq> None} \<inter> set before =
      {n \<in> set before. nm_IsHealthy n \<and> Evaluate cfg n now \<noteq> StatusHealthy}"
    by (auto simp: liveness_change_eq)
  ultimately have "length (filter (\<lambda>n. liveness_change cfg now n \<noteq> None) before) =
      card {n \<in> set before. nm_IsHealthy n \<and> Evaluate cfg n now \<noteq> StatusHealthy}"
    by (simp only: distinct_length_filter)
  moreover have "set after = after_pass cfg now ` set before"
  proof (rule set_eqI)
    fix n
    have "n \<in> set after \<longleftrightarrow> node_at jc s' (nm_NodeID n) = Some n" using after by blast
    also have "\<dots> \<longleftrightarrow> (\<exists>m. node_at jc s (nm_NodeID n) = Some m \<and> n = after_pass cfg now m)"
      using run by (auto simp: map_option_case split: option.splits)
    also have "\<dots> \<longleftrightarrow> (\<exists>m. m \<in> set before \<and> n = after_pass cfg now m)"
    proof -
      have "node_at jc s (nm_NodeID (after_pass cfg now m)) = Some m \<longleftrightarrow> m \<in> set before" for m
        using before by (simp add: after_pass_def)
      then show ?thesis by blast
    qed
    also have "\<dots> \<longleftrightarrow> n \<in> after_pass cfg now ` set before" by blast
    finally show "n \<in> set after \<longleftrightarrow> n \<in> after_pass cfg now ` set before" .
  qed
  ultimately show ?thesis using run by (simp add: after_pass_def)
qed

text \<open>
  A short absence is made permanent: a node that is only transient is marked unhealthy by one
  pass, and from then on it is dead at every time, earlier ones and ones at which it would have
  been healthy again included.
\<close>
theorem transient_becomes_dead:
  assumes "store_ok jc s" "node_at jc s i = Some n" "Evaluate cfg n now = StatusTransient"
    and "ApplyLiveness jc s cfg now = ((changed, None), s')"
  shows "\<exists>n'. node_at jc s' i = Some n' \<and> (\<forall>cfg' t. Evaluate cfg' n' t = StatusDead)"
proof -
  obtain ns where "ListNodes jc s = Inr ns"
    using assms(4) by (cases "ListNodes jc s") (simp_all add: ApplyLiveness_def)
  from ApplyLiveness_run [OF assms(1) this assms(4)] assms(2,3) show ?thesis
    by (simp add: after_pass_def Evaluate_def)
qed

lemma alist_apply_each:
  assumes "db_ops s = alist_bolt" "list_all (\<lambda>n. nm_NodeID n \<noteq> '''') ns"
  shows "\<exists>c s'. apply_each jc cfg now ns s k = ((c, None), s') \<and> db_ops s' = alist_bolt"
  using assms
proof (induction ns arbitrary: s k)
  case (Cons n ns)
  show ?case
  proof (cases "nm_IsHealthy n = (Evaluate cfg n now = StatusHealthy)")
    case True
    with Cons show ?thesis by simp
  next
    case False
    let ?n = "n\<lparr>nm_IsHealthy := (Evaluate cfg n now = StatusHealthy)\<rparr>"
    from Cons.prems obtain s1 where "RegisterNode jc s ?n = (None, s1)" "db_ops s1 = alist_bolt"
      using alist_RegisterNode [of s ?n jc] by auto
    with Cons.IH [of s1 "k + 1"] Cons.prems(2) False show ?thesis by simp
  qed
qed simp

lemma demo_pass:
  "\<exists>ns c s'. ListNodes ser_codec demo_store = Inr ns \<and> set ns = {demo_node ''a'' 10, demo_node ''b'' 20}
     \<and> ApplyLiveness ser_codec demo_store cfg now = ((c, None), s') \<and> db_ops s' = alist_bolt"
proof -
  obtain ns where ns: "ListNodes ser_codec demo_store = Inr ns"
    using ListNodes_ok [OF demo_store_ok] by (auto simp: demo_ops)
  from ListNodes_law [OF demo_store_ok ns] have set: "set ns = {demo_node ''a'' 10, demo_node ''b'' 20}"
    by (auto simp: demo_store_nodes demo_node_def split: if_splits)
  then have "list_all (\<lambda>n. nm_NodeID n \<noteq> '''') ns" by (simp add: list_all_iff demo_node_def)
  with alist_apply_each [OF demo_ops this, of ser_codec cfg now 0] ns set show ?thesis
    by (auto simp: ApplyLiveness_def)
qed

lemma ApplyLiveness_effect_witness:
  "\<exists>s' after. ApplyLiveness ser_codec demo_store DefaultLivenessConfig 200 = ((2, None), s')
     \<and> ListNodes ser_codec s' = Inr after
     \<and> set after = {(demo_node ''a'' 10)\<lparr>nm_IsHealthy := False\<rparr>, (demo_node ''b'' 20)\<lparr>nm_IsHealthy := False\<rparr>}"
proof -
  obtain ns c s' where pass: "ListNodes ser_codec demo_store = Inr ns" "set ns = {demo_node ''a'' 10, demo_node ''b'' 20}"
    "ApplyLiveness ser_codec demo_store DefaultLivenessConfig 200 = ((c, None), s')" "db_ops s' = alist_bolt"
    using demo_pass by blast
  have eval: "Evaluate DefaultLivenessConfig (demo_node i k) 200 = StatusTransient" for i k
    by (simp add: Evaluate_def demo_node_def DefaultLivenessConfig_def Second_def in_int64_def)
  have "store_ok ser_codec s'" using ApplyLiveness_run [OF demo_store_ok pass(1,3)] by blast
  then obtain after where after: "ListNodes ser_codec s' = Inr after" using ListNodes_ok pass(4) by fastforce
  have "{n \<in> set ns. nm_IsHealthy n \<and> Evaluate DefaultLivenessConfig n 200 \<noteq> StatusHealthy} = set ns"
    by (auto simp: pass(2) eval) (simp_all add: demo_node_def)
  moreover have "card (set ns) = 2" by (simp add: pass(2) demo_node_def)
  ultimately show ?thesis
    using ApplyLiveness_effect [OF demo_store_ok pass(1,3) after] pass(3) after by (simp add: pass(2) eval)
qed

lemma transient_becomes_dead_witness:
  "\<exists>c s' n. ApplyLiveness ser_codec demo_store DefaultLivenessConfig 200 = ((c, None), s')
     \<and> node_at ser_codec s' ''a'' = Some n \<and> Evaluate DefaultLivenessConfig n 100 = StatusDead
     \<and> Evaluate DefaultLivenessConfig (demo_node ''a'' 10) 100 = StatusHealthy"
proof -
  obtain c s' where pass: "ApplyLiveness ser_codec demo_store DefaultLivenessConfig 200 = ((c, None), s')"
    using demo_pass by blast
  have "Evaluate DefaultLivenessConfig (demo_node ''a'' 10) 200 = StatusTransient"
    by (simp add: Evaluate_def demo_node_def DefaultLivenessConfig_def Second_def in_int64_def)
  moreover have "Evaluate DefaultLivenessConfig (demo_node ''a'' 10) 100 = StatusHealthy"
    by (simp add: Evaluate_def demo_node_def DefaultLivenessConfig_def Second_def in_int64_def)
  moreover have "node_at ser_codec demo_store ''a'' = Some (demo_node ''a'' 10)" by (simp add: demo_store_nodes)
  ultimately show ?thesis using transient_becomes_dead [OF demo_store_ok _ _ pass] pass by blast
qed

end
