(* ===== verification/Config.thy ===== *)
theory Config
  imports JsonText
begin

text \<open>
  \<open>internal/config/config.go\<close> and \<open>init.go\<close>, and the \<open>init\<close> command of \<open>cmd/aldea/init.go\<close>: the three
  configuration files, their validation, and the defaults written for a new node, tracker or
  client. YAML text (\<open>gopkg.in/yaml.v3\<close>) is a pair of parameters per file type; the file system
  is the contents of its files and the errors its calls give.
\<close>

record NodeConfig =
  nc_NodeID :: string
  nc_ListenAddr :: string
  nc_DataDir :: string
  nc_StorageAllocated :: int
  nc_NetworkKey :: string
  nc_TrackerAddr :: string

record TrackerConfig =
  tc_ListenAddr :: string
  tc_DBPath :: string
  tc_NetworkKey :: string

record ClientConfig =
  cc_TrackerAddr :: string
  cc_NetworkKey :: string
  cc_Salt :: string

datatype config_err =
    ErrInvalidConfig
  | ErrReadingFile string
  | ErrParsingYAML string
  | ErrSavingConfig string
  | ErrDecodingSalt
  | ErrInvalidRole string

definition node_config_valid :: "NodeConfig \<Rightarrow> config_err option" where
  "node_config_valid c =
     (if nc_NodeID c = '''' \<or> nc_ListenAddr c = '''' \<or> nc_DataDir c = '''' \<or> nc_NetworkKey c = ''''
      then Some ErrInvalidConfig else None)"

definition tracker_config_valid :: "TrackerConfig \<Rightarrow> config_err option" where
  "tracker_config_valid c =
     (if tc_ListenAddr c = '''' \<or> tc_DBPath c = '''' \<or> tc_NetworkKey c = ''''
      then Some ErrInvalidConfig else None)"

definition client_config_valid :: "ClientConfig \<Rightarrow> config_err option" where
  "client_config_valid c =
     (if cc_TrackerAddr c = '''' \<or> cc_NetworkKey c = '''' \<or> cc_Salt c = ''''
      then Some ErrInvalidConfig else None)"

definition DecodedSalt :: "ClientConfig \<Rightarrow> config_err + bytes" where
  "DecodedSalt c =
     (case b64_decode StdEncoding (cc_Salt c) of None \<Rightarrow> Inl ErrDecodingSalt | Some b \<Rightarrow> Inr b)"

section \<open>Files\<close>

record os_files =
  os_read :: "string \<Rightarrow> string + bytes"            \<comment> \<open>\<open>os.ReadFile\<close>\<close>
  os_mkdir :: "string \<Rightarrow> string option"            \<comment> \<open>the error of \<open>os.MkdirAll\<close> of the file's directory\<close>
  os_write_err :: "string \<Rightarrow> string option"        \<comment> \<open>the error of \<open>os.WriteFile\<close>\<close>

definition os_write :: "os_files \<Rightarrow> string \<Rightarrow> bytes \<Rightarrow> string + os_files" where
  "os_write w path data =
     (case os_write_err w path of
        Some e \<Rightarrow> Inl e
      | None \<Rightarrow> Inr (w\<lparr>os_read := (os_read w)(path := Inr data)\<rparr>))"

text \<open>\<open>yaml.Unmarshal\<close> and \<open>yaml.Marshal\<close> at one struct type.\<close>

record 'c yaml =
  yaml_dec :: "bytes \<Rightarrow> string + 'c"
  yaml_enc :: "'c \<Rightarrow> string + bytes"

definition yaml_ok :: "'c yaml \<Rightarrow> bool" where
  "yaml_ok y \<longleftrightarrow> (\<forall>c. \<exists>t. yaml_enc y c = Inr t \<and> yaml_dec y t = Inr c)"

definition load_config :: "('c \<Rightarrow> config_err option) \<Rightarrow> 'c yaml \<Rightarrow> os_files \<Rightarrow> string \<Rightarrow> config_err + 'c" where
  "load_config valid y w path =
     (case os_read w path of
        Inl e \<Rightarrow> Inl (ErrReadingFile e)
      | Inr data \<Rightarrow>
          (case yaml_dec y data of
             Inl e \<Rightarrow> Inl (ErrParsingYAML e)
           | Inr cfg \<Rightarrow> (case valid cfg of Some e \<Rightarrow> Inl e | None \<Rightarrow> Inr cfg)))"

definition LoadNodeConfig :: "NodeConfig yaml \<Rightarrow> os_files \<Rightarrow> string \<Rightarrow> config_err + NodeConfig" where
  "LoadNodeConfig = load_config node_config_valid"

definition LoadTrackerConfig :: "TrackerConfig yaml \<Rightarrow> os_files \<Rightarrow> string \<Rightarrow> config_err + TrackerConfig" where
  "LoadTrackerConfig = load_config tracker_config_valid"

definition LoadClientConfig :: "ClientConfig yaml \<Rightarrow> os_files \<Rightarrow> string \<Rightarrow> config_err + ClientConfig" where
  "LoadClientConfig = load_config client_config_valid"

definition saveYAML :: "'c yaml \<Rightarrow> os_files \<Rightarrow> string \<Rightarrow> 'c \<Rightarrow> string + os_files" where
  "saveYAML y w path v =
     (case os_mkdir w path of
        Some e \<Rightarrow> Inl e
      | None \<Rightarrow> (case yaml_enc y v of Inl e \<Rightarrow> Inl e | Inr data \<Rightarrow> os_write w path data))"

section \<open>New configurations\<close>

text \<open>\<open>rand.Read\<close> fills a buffer of \<open>n\<close> bytes.\<close>

definition generateRandomKey :: "(nat \<Rightarrow> bytes) \<Rightarrow> nat \<Rightarrow> string" where
  "generateRandomKey rnd n = hex_encode (rnd n)"

definition generateRandomSalt :: "(nat \<Rightarrow> bytes) \<Rightarrow> nat \<Rightarrow> string" where
  "generateRandomSalt rnd n = b64_encode StdEncoding (rnd n)"

definition default_to :: "string \<Rightarrow> string \<Rightarrow> string" where
  "default_to d s = (if s = '''' then d else s)"

definition save_new :: "'c yaml \<Rightarrow> os_files \<Rightarrow> string \<Rightarrow> 'c \<Rightarrow> config_err + 'c \<times> os_files" where
  "save_new y w path cfg =
     (case saveYAML y w path cfg of Inl e \<Rightarrow> Inl (ErrSavingConfig e) | Inr w' \<Rightarrow> Inr (cfg, w'))"

definition InitNodeConfig ::
    "NodeConfig yaml \<Rightarrow> (nat \<Rightarrow> bytes) \<Rightarrow> os_files \<Rightarrow> string \<Rightarrow> string \<Rightarrow> string \<Rightarrow> string \<Rightarrow> string \<Rightarrow> int \<Rightarrow> string
      \<Rightarrow> config_err + NodeConfig \<times> os_files" where
  "InitNodeConfig y rnd w targetPath nodeID listenAddr dataDir trackerAddr allocBytes networkKey =
     save_new y w targetPath
       \<lparr>nc_NodeID = default_to (''node-'' @ generateRandomKey rnd 4) nodeID,
        nc_ListenAddr = default_to ''0.0.0.0:9001'' listenAddr,
        nc_DataDir = default_to ''./data'' dataDir,
        nc_StorageAllocated = (if allocBytes \<le> 0 then 10 * 1024 * 1024 * 1024 else allocBytes),
        nc_NetworkKey = default_to (generateRandomKey rnd 16) networkKey,
        nc_TrackerAddr = trackerAddr\<rparr>"

definition InitTrackerConfig ::
    "TrackerConfig yaml \<Rightarrow> (nat \<Rightarrow> bytes) \<Rightarrow> os_files \<Rightarrow> string \<Rightarrow> string \<Rightarrow> string \<Rightarrow> string
      \<Rightarrow> config_err + TrackerConfig \<times> os_files" where
  "InitTrackerConfig y rnd w targetPath listenAddr dbPath networkKey =
     save_new y w targetPath
       \<lparr>tc_ListenAddr = default_to ''0.0.0.0:9090'' listenAddr,
        tc_DBPath = default_to ''./tracker.db'' dbPath,
        tc_NetworkKey = default_to (generateRandomKey rnd 16) networkKey\<rparr>"

definition InitClientConfig ::
    "ClientConfig yaml \<Rightarrow> (nat \<Rightarrow> bytes) \<Rightarrow> (nat \<Rightarrow> bytes) \<Rightarrow> os_files \<Rightarrow> string \<Rightarrow> string \<Rightarrow> string \<Rightarrow> string
      \<Rightarrow> config_err + ClientConfig \<times> os_files" where
  "InitClientConfig y rnd rndSalt w targetPath trackerAddr networkKey salt =
     save_new y w targetPath
       \<lparr>cc_TrackerAddr = default_to ''127.0.0.1:9090'' trackerAddr,
        cc_NetworkKey = default_to (generateRandomKey rnd 16) networkKey,
        cc_Salt = default_to (generateRandomSalt rndSalt 16) salt\<rparr>"

text \<open>The \<open>init\<close> command: its flags, and the file it writes.\<close>

record init_flags =
  if_role :: string
  if_tracker :: string
  if_key :: string
  if_listen :: string
  if_dataDir :: string
  if_out :: string
  if_allocGB :: int

definition default_flags :: init_flags where
  "default_flags = \<lparr>if_role = ''client'', if_tracker = ''127.0.0.1:9090'', if_key = '''', if_listen = ''0.0.0.0:9001'',
     if_dataDir = ''./data'', if_out = '''', if_allocGB = 10\<rparr>"

definition run_init ::
    "NodeConfig yaml \<Rightarrow> TrackerConfig yaml \<Rightarrow> ClientConfig yaml \<Rightarrow> (nat \<Rightarrow> bytes) \<Rightarrow> (nat \<Rightarrow> bytes) \<Rightarrow> string \<Rightarrow> init_flags \<Rightarrow> os_files
      \<Rightarrow> config_err + os_files" where
  "run_init yn yt yc rnd rndSalt cfgPath fl w =
     (let allocBytes = wrap64 (if_allocGB fl * 1024 * 1024 * 1024)
      in if if_role fl = ''node'' then
           map_sum id snd (InitNodeConfig yn rnd w (default_to ''node.yaml'' (if_out fl)) '''' (if_listen fl)
             (if_dataDir fl) (if_tracker fl) allocBytes (if_key fl))
         else if if_role fl = ''tracker'' then
           map_sum id snd (InitTrackerConfig yt rnd w (default_to ''tracker.yaml'' (if_out fl)) (if_listen fl)
             ''./tracker.db'' (if_key fl))
         else if if_role fl = ''client'' then
           map_sum id snd (InitClientConfig yc rnd rndSalt w (default_to cfgPath (if_out fl)) (if_tracker fl) (if_key fl) '''')
         else Inl (ErrInvalidRole (if_role fl)))"

section \<open>What is written can be loaded\<close>

lemma load_saved:
  assumes "yaml_ok y" "save_new y w path cfg = Inr (cfg', w')" "valid cfg = None"
  shows "load_config valid y w' path = Inr cfg"
proof -
  from assms(1) obtain t where "yaml_enc y cfg = Inr t" "yaml_dec y t = Inr cfg" unfolding yaml_ok_def by blast
  with assms(2,3) show ?thesis
    by (auto simp: save_new_def saveYAML_def os_write_def load_config_def split: option.splits sum.splits)
qed

lemma save_new_same: "save_new y w path cfg = Inr (cfg', w') \<Longrightarrow> cfg' = cfg"
  by (simp add: save_new_def split: sum.splits)

lemma save_new_Inr: "save_new y w path cfg = Inr (cfg', w') \<longleftrightarrow> cfg' = cfg \<and> saveYAML y w path cfg = Inr w'"
  by (auto simp: save_new_def split: sum.splits)

lemma default_to_nonempty [simp]: "d \<noteq> '''' \<Longrightarrow> default_to d s \<noteq> ''''"
  by (simp add: default_to_def)

lemma random_key_nonempty [simp]: "length (rnd n) = n \<Longrightarrow> 0 < n \<Longrightarrow> generateRandomKey rnd n \<noteq> ''''"
  by (metis generateRandomKey_def length_hex_encode list.size(3) mult_eq_0_iff not_gr_zero zero_neq_numeral)

lemma b64_encode_nonempty [simp]: "b64_encode e bs = '''' \<longleftrightarrow> bs = []"
  by (induction e bs rule: b64_encode.induct) (simp_all add: Let_def)

lemma random_salt_nonempty [simp]: "length (rnd n) = n \<Longrightarrow> 0 < n \<Longrightarrow> generateRandomSalt rnd n \<noteq> ''''"
  by (auto simp: generateRandomSalt_def)

lemma new_client_loads:
  assumes "yaml_ok yc" "\<And>n. length (rnd n) = n" "\<And>n. length (rndSalt n) = n" "InitClientConfig yc rnd rndSalt w path ta key '''' = Inr (cc, w')"
  shows "LoadClientConfig yc w' path = Inr cc" and "DecodedSalt cc = Inr (rndSalt 16)"
proof -
  note new = save_new_same [OF assms(4) [unfolded InitClientConfig_def]]
  then have "client_config_valid cc = None" by (simp add: client_config_valid_def assms(2,3))
  with load_saved [OF assms(1) assms(4) [unfolded InitClientConfig_def]] new
  show "LoadClientConfig yc w' path = Inr cc" by (simp add: LoadClientConfig_def)
  show "DecodedSalt cc = Inr (rndSalt 16)" using new by (simp add: DecodedSalt_def default_to_def generateRandomSalt_def)
qed

text \<open>
  C28: a configuration that one of the \<open>Init\<close> functions reports written passes validation and is
  loaded back as it was returned, whatever arguments were left out; a node gets a positive
  storage quota, and a client without a salt a salt of 16 bytes, which \<open>DecodedSalt\<close> gives back.
\<close>
theorem Init_Load:
  assumes "yaml_ok yn" "yaml_ok yt" "yaml_ok yc" "\<And>n. length (rnd n) = n" "\<And>n. length (rndSalt n) = n"
  shows "(InitNodeConfig yn rnd w path i addr dir ta alloc key = Inr (nc, w1) \<longrightarrow>
            LoadNodeConfig yn w1 path = Inr nc \<and> 0 < nc_StorageAllocated nc)
       \<and> (InitTrackerConfig yt rnd w path addr db key = Inr (tc, w2) \<longrightarrow> LoadTrackerConfig yt w2 path = Inr tc)
       \<and> (InitClientConfig yc rnd rndSalt w path ta key '''' = Inr (cc, w3) \<longrightarrow>
            LoadClientConfig yc w3 path = Inr cc \<and> DecodedSalt cc = Inr (rndSalt 16))"
proof (intro conjI impI)
  assume run: "InitNodeConfig yn rnd w path i addr dir ta alloc key = Inr (nc, w1)"
  from save_new_same [OF run [unfolded InitNodeConfig_def]] have valid: "node_config_valid nc = None"
    by (simp add: node_config_valid_def assms(4))
  with load_saved [OF assms(1) run [unfolded InitNodeConfig_def]] save_new_same [OF run [unfolded InitNodeConfig_def]]
  show "LoadNodeConfig yn w1 path = Inr nc" by (simp add: LoadNodeConfig_def)
  show "0 < nc_StorageAllocated nc" using save_new_same [OF run [unfolded InitNodeConfig_def]] by simp
next
  assume run: "InitTrackerConfig yt rnd w path addr db key = Inr (tc, w2)"
  from save_new_same [OF run [unfolded InitTrackerConfig_def]] have "tracker_config_valid tc = None"
    by (simp add: tracker_config_valid_def assms(4))
  with load_saved [OF assms(2) run [unfolded InitTrackerConfig_def]] save_new_same [OF run [unfolded InitTrackerConfig_def]]
  show "LoadTrackerConfig yt w2 path = Inr tc" by (simp add: LoadTrackerConfig_def)
next
  assume run: "InitClientConfig yc rnd rndSalt w path ta key '''' = Inr (cc, w3)"
  from new_client_loads [OF assms(3,4,5) run]
  show "LoadClientConfig yc w3 path = Inr cc" "DecodedSalt cc = Inr (rndSalt 16)" .
qed

text \<open>Concrete YAML for the witnesses: the fields in a list.\<close>

definition list_yaml :: "('c \<Rightarrow> json) \<Rightarrow> (json \<Rightarrow> 'c option) \<Rightarrow> 'c yaml" where
  "list_yaml to_json of_json =
     \<lparr>yaml_dec = (\<lambda>t. case Option.bind (par_whole t) of_json of None \<Rightarrow> Inl ''bad yaml'' | Some c \<Rightarrow> Inr c),
      yaml_enc = (\<lambda>c. Inr (ser (to_json c)))\<rparr>"

lemma list_yaml_ok: "(\<And>c. of_json (to_json c) = Some c) \<Longrightarrow> yaml_ok (list_yaml to_json of_json)"
  using par_ser [of _ _ "[]"] by (simp add: yaml_ok_def list_yaml_def par_whole_def)

definition node_yaml :: "NodeConfig yaml" where
  "node_yaml = list_yaml
     (\<lambda>c. JArr [JStr (nc_NodeID c), JStr (nc_ListenAddr c), JStr (nc_DataDir c), JInt (nc_StorageAllocated c),
        JStr (nc_NetworkKey c), JStr (nc_TrackerAddr c)])
     (\<lambda>v. case v of JArr [JStr a, JStr b, JStr d, JInt i, JStr k, JStr t] \<Rightarrow>
          Some \<lparr>nc_NodeID = a, nc_ListenAddr = b, nc_DataDir = d, nc_StorageAllocated = i, nc_NetworkKey = k, nc_TrackerAddr = t\<rparr>
        | _ \<Rightarrow> None)"

definition tracker_yaml :: "TrackerConfig yaml" where
  "tracker_yaml = list_yaml (\<lambda>c. JArr [JStr (tc_ListenAddr c), JStr (tc_DBPath c), JStr (tc_NetworkKey c)])
     (\<lambda>v. case v of JArr [JStr a, JStr b, JStr d] \<Rightarrow> Some \<lparr>tc_ListenAddr = a, tc_DBPath = b, tc_NetworkKey = d\<rparr>
        | _ \<Rightarrow> None)"

definition client_yaml :: "ClientConfig yaml" where
  "client_yaml = list_yaml (\<lambda>c. JArr [JStr (cc_TrackerAddr c), JStr (cc_NetworkKey c), JStr (cc_Salt c)])
     (\<lambda>v. case v of JArr [JStr a, JStr b, JStr d] \<Rightarrow> Some \<lparr>cc_TrackerAddr = a, cc_NetworkKey = b, cc_Salt = d\<rparr>
        | _ \<Rightarrow> None)"

lemma demo_yaml_ok: "yaml_ok node_yaml" "yaml_ok tracker_yaml" "yaml_ok client_yaml"
  unfolding node_yaml_def tracker_yaml_def client_yaml_def by (rule list_yaml_ok, simp)+

definition no_files :: os_files where
  "no_files = \<lparr>os_read = (\<lambda>_. Inl ''no such file''), os_mkdir = (\<lambda>_. None), os_write_err = (\<lambda>_. None)\<rparr>"

lemma save_new_no_files: "yaml_ok y \<Longrightarrow> \<exists>w. save_new y no_files path cfg = Inr (cfg, w)"
  by (auto simp: save_new_def saveYAML_def os_write_def no_files_def yaml_ok_def split: sum.splits) (metis sum.distinct(1))+

lemma Init_Load_witness:
  "\<exists>cfg w. InitClientConfig client_yaml (\<lambda>n. replicate n 7) (\<lambda>n. replicate n 8) no_files ''aldea.yaml'' ''http://t'' ''k'' '''' = Inr (cfg, w)
     \<and> LoadClientConfig client_yaml w ''aldea.yaml'' = Inr cfg \<and> DecodedSalt cfg = Inr (replicate 16 8)"
proof -
  obtain cfg w where run: "InitClientConfig client_yaml (\<lambda>n. replicate n 7) (\<lambda>n. replicate n 8) no_files ''aldea.yaml'' ''http://t'' ''k'' '''' = Inr (cfg, w)"
    using save_new_no_files [OF demo_yaml_ok(3)] unfolding InitClientConfig_def by blast
  with Init_Load [OF demo_yaml_ok, where rnd = "\<lambda>n. replicate n 7" and rndSalt = "\<lambda>n. replicate n 8" and w = no_files and path = "''aldea.yaml''" and ta = "''http://t''"
      and key = "''k''" and cc = cfg and ?w3.0 = w] show ?thesis by simp
qed

text \<open>
  The quota given to \<open>aldea init\<close> in gigabytes is multiplied in 64 bits: \<open>2^33\<close> gigabytes
  and every multiple of them wrap to a number that is not positive, and a node configuration with
  the default quota of 10 GiB is written instead of an error.
\<close>
theorem init_quota_wraps:
  assumes "yaml_ok yn" "if_role fl = ''node''" "if_allocGB fl = 2 ^ 33"
    and "run_init yn yt yc rnd rndSalt cfgPath fl w = Inr w'"
  shows "\<exists>nc. yaml_dec yn (projr (os_read w' (default_to ''node.yaml'' (if_out fl)))) = Inr nc
    \<and> nc_StorageAllocated nc = 10 * 1024 * 1024 * 1024"
proof -
  have wrap: "wrap64 (2 ^ 33 * 1024 * 1024 * 1024) \<le> 0" by (simp add: wrap64_def)
  from assms(2-4) obtain nc where run: "InitNodeConfig yn rnd w (default_to ''node.yaml'' (if_out fl)) '''' (if_listen fl)
      (if_dataDir fl) (if_tracker fl) (wrap64 (2 ^ 33 * 1024 * 1024 * 1024)) (if_key fl) = Inr (nc, w')"
    by (auto simp: run_init_def Let_def map_sum_def split: sum.splits)
  note same = save_new_same [OF run [unfolded InitNodeConfig_def]]
  from assms(1) obtain t where t: "yaml_enc yn nc = Inr t" "yaml_dec yn t = Inr nc" unfolding yaml_ok_def by blast
  from run have "saveYAML yn w (default_to ''node.yaml'' (if_out fl)) nc = Inr w'"
    unfolding InitNodeConfig_def save_new_Inr by (elim conjE) (hypsubst, assumption)
  with t have "os_read w' (default_to ''node.yaml'' (if_out fl)) = Inr t"
    by (auto simp: saveYAML_def os_write_def split: option.splits)
  moreover have "nc_StorageAllocated nc = 10 * 1024 * 1024 * 1024" using same wrap by simp
  ultimately show ?thesis using t(2) by simp
qed

lemma init_quota_wraps_witness:
  "\<exists>w nc. run_init node_yaml tracker_yaml client_yaml (\<lambda>n. replicate n 7) (\<lambda>n. replicate n 8) ''aldea.yaml''
       (default_flags\<lparr>if_role := ''node'', if_allocGB := 2 ^ 33\<rparr>) no_files = Inr w
     \<and> yaml_dec node_yaml (projr (os_read w ''node.yaml'')) = Inr nc \<and> nc_StorageAllocated nc = 10737418240"
proof -
  let ?fl = "default_flags\<lparr>if_role := ''node'', if_allocGB := 2 ^ 33\<rparr>"
  have new: "\<exists>cfg w. InitNodeConfig node_yaml rnd no_files path i addr dir ta alloc key = Inr (cfg, w)" for rnd path i addr dir ta alloc key
    using save_new_no_files [OF demo_yaml_ok(1)] unfolding InitNodeConfig_def by blast
  obtain cfg w where "InitNodeConfig node_yaml (\<lambda>n. replicate n 7) no_files (default_to ''node.yaml'' (if_out ?fl)) ''''
      (if_listen ?fl) (if_dataDir ?fl) (if_tracker ?fl) (wrap64 (if_allocGB ?fl * 1024 * 1024 * 1024)) (if_key ?fl) = Inr (cfg, w)"
    using new by blast
  then have "\<exists>w. run_init node_yaml tracker_yaml client_yaml (\<lambda>n. replicate n 7) (\<lambda>n. replicate n 8) ''aldea.yaml'' ?fl no_files = Inr w"
    by (simp add: run_init_def Let_def)
  then obtain w where run: "run_init node_yaml tracker_yaml client_yaml (\<lambda>n. replicate n 7) (\<lambda>n. replicate n 8) ''aldea.yaml'' ?fl no_files = Inr w"
    by blast
  have "if_out ?fl = ''''" by (simp add: default_flags_def)
  with init_quota_wraps [OF demo_yaml_ok(1) _ _ run] run show ?thesis by (auto simp: default_to_def)
qed

end
