(* ===== verification/Http.thy ===== *)
theory Http
  imports Prelude
begin

text \<open>
  What the servers and clients use of \<open>net/http\<close>: an answer is a status and a body, and
  \<open>http.Error\<close> answers with a line of text. A request body is \<^const>\<open>None\<close> where \<open>io.ReadAll\<close> fails on it.
\<close>

record response =
  rs_status :: int
  rs_body :: bytes

definition StatusOK :: int where "StatusOK = 200"
definition StatusBadRequest :: int where "StatusBadRequest = 400"
definition StatusUnauthorized :: int where "StatusUnauthorized = 401"
definition StatusNotFound :: int where "StatusNotFound = 404"
definition StatusConflict :: int where "StatusConflict = 409"
definition StatusInternalServerError :: int where "StatusInternalServerError = 500"
definition StatusInsufficientStorage :: int where "StatusInsufficientStorage = 507"

lemmas http_status =
  StatusOK_def StatusBadRequest_def StatusUnauthorized_def StatusNotFound_def StatusConflict_def
  StatusInternalServerError_def StatusInsufficientStorage_def

definition http_error :: "string \<Rightarrow> int \<Rightarrow> response" where
  "http_error msg status = \<lparr>rs_status = status, rs_body = bytes_of_string msg @ [10]\<rparr>"

definition http_ok :: "bytes \<Rightarrow> response" where
  "http_ok body = \<lparr>rs_status = StatusOK, rs_body = body\<rparr>"

lemma rs_simps [simp]:
  "rs_status (http_error msg c) = c" "rs_status (http_ok b) = StatusOK" "rs_body (http_ok b) = b"
  by (simp_all add: http_error_def http_ok_def)

end
