(* ===== verification/Noded.thy ===== *)
theory Noded
  imports Protocol Bolt Http Config
begin

text \<open>
  \<open>cmd/noded/server.go\<close>: the storage node. It keeps shards in one bucket of its database, within
  a quota, and answers signed requests to store and to return one, and unsigned health requests.
  A handler takes the request's body and returns the answer and the server after it. Where requests
  are served at once, storing is two steps, the check of the quota and the write (\<open>put_step\<close>), and
  \<open>serving\<close> is what a node goes through with up to \<open>K\<close> requests under way.
\<close>

record 'd shardServer =
  sv_cfg :: NodeConfig
  sv_db :: "'d DB"

definition bucketShards :: string where "bucketShards = ''shards''"

datatype node_err = ErrOpeningDatabase string | ErrInitializingBucket string

definition newShardServer :: "'d bolt \<Rightarrow> NodeConfig \<Rightarrow> node_err + 'd shardServer" where
  "newShardServer B cfg =
     (case bb_open B (nc_DataDir cfg @ ''/shards.db'') of
        Inl e \<Rightarrow> Inl (ErrOpeningDatabase e)
      | Inr d \<Rightarrow>
          (case bb_create B d [bucketShards] of
             Inl e \<Rightarrow> Inl (ErrInitializingBucket e)
           | Inr d' \<Rightarrow> Inr \<lparr>sv_cfg = cfg, sv_db = \<lparr>db_ops = B, db_file = d'\<rparr>\<rparr>))"

abbreviation node_key :: "'d shardServer \<Rightarrow> bytes" where
  "node_key s \<equiv> bytes_of_string (nc_NetworkKey (sv_cfg s))"

text \<open>An error of \<open>View\<close> is ignored and leaves the sum at 0.\<close>

definition storageUsed :: "'d shardServer \<Rightarrow> int" where
  "storageUsed s =
     (case bb_view (db_ops (sv_db s)) (db_file (sv_db s)) of
        Some _ \<Rightarrow> 0
      | None \<Rightarrow> foldl (\<lambda>used kv. wrap64 (used + int (length (snd kv)))) 0
                  (bb_entries (db_ops (sv_db s)) (db_file (sv_db s)) bucketShards))"

definition writeResponse :: "json_codec \<Rightarrow> int \<Rightarrow> 'd shardServer \<Rightarrow> int \<Rightarrow> string \<Rightarrow> json \<Rightarrow> response" where
  "writeResponse jc now s msgType nodeID body =
     (case Encode jc now msgType nodeID body (node_key s) of
        Inl _ \<Rightarrow> http_error ''encoding error'' StatusInternalServerError
      | Inr encoded \<Rightarrow> http_ok encoded)"

definition handlePut ::
    "json_codec \<Rightarrow> int \<Rightarrow> bytes option \<Rightarrow> 'd shardServer \<Rightarrow> response \<times> 'd shardServer" where
  "handlePut jc now rbody s =
     (case rbody of
        None \<Rightarrow> (http_error ''failed to read body'' StatusBadRequest, s)
      | Some body \<Rightarrow>
          (case Decode jc body (node_key s) of
             Inl _ \<Rightarrow> (http_error ''authentication failed'' StatusUnauthorized, s)
           | Inr env \<Rightarrow>
               (case UnmarshalBody jc put_PutShardRequest zero_PutShardRequest env of
                  Inl _ \<Rightarrow> (http_error ''malformed request'' StatusBadRequest, s)
                | Inr req \<Rightarrow>
                    if nc_StorageAllocated (sv_cfg s) < wrap64 (storageUsed s + int (length (psq_Data req)))
                    then (http_error ''storage quota exceeded'' StatusInsufficientStorage, s)
                    else
                      (case bb_update (db_ops (sv_db s)) (db_file (sv_db s))
                              [(bucketShards, psq_ShardID req, psq_Data req)] of
                         Inl _ \<Rightarrow> (http_error ''storage error'' StatusInternalServerError, s)
                       | Inr d \<Rightarrow>
                           (writeResponse jc now s TypePutShardResponse (env_NodeID env)
                              (json_PutShardResponse \<lparr>psr_ShardID = psq_ShardID req, psr_Success = True, psr_Error = ''''\<rparr>),
                            s\<lparr>sv_db := (sv_db s)\<lparr>db_file := d\<rparr>\<rparr>)))))"

definition read_shard :: "'d shardServer \<Rightarrow> string \<Rightarrow> bytes option" where
  "read_shard s i =
     (case bb_view (db_ops (sv_db s)) (db_file (sv_db s)) of
        Some _ \<Rightarrow> None
      | None \<Rightarrow> bb_get (db_ops (sv_db s)) (db_file (sv_db s)) bucketShards i)"

definition handleGet :: "json_codec \<Rightarrow> int \<Rightarrow> bytes option \<Rightarrow> 'd shardServer \<Rightarrow> response" where
  "handleGet jc now rbody s =
     (case rbody of
        None \<Rightarrow> http_error ''failed to read body'' StatusBadRequest
      | Some body \<Rightarrow>
          (case Decode jc body (node_key s) of
             Inl _ \<Rightarrow> http_error ''authentication failed'' StatusUnauthorized
           | Inr env \<Rightarrow>
               (case UnmarshalBody jc put_GetShardRequest zero_GetShardRequest env of
                  Inl _ \<Rightarrow> http_error ''malformed request'' StatusBadRequest
                | Inr req \<Rightarrow>
                    let data = read_shard s (gsq_ShardID req)
                    in writeResponse jc now s TypeGetShardResponse (nc_NodeID (sv_cfg s))
                         (json_GetShardResponse
                           \<lparr>gsr_ShardID = gsq_ShardID req,
                            gsr_Data = (case data of None \<Rightarrow> [] | Some v \<Rightarrow> v),
                            gsr_Found = (data \<noteq> None)\<rparr>))))"

definition handleHealth :: "json_codec \<Rightarrow> 'd shardServer \<Rightarrow> response" where
  "handleHealth jc s =
     http_ok (json_marshal jc (json_HealthReportResponse
       \<lparr>hrr_NodeID = nc_NodeID (sv_cfg s), hrr_StorageUsed = storageUsed s,
        hrr_StorageAllocated = nc_StorageAllocated (sv_cfg s), hrr_IsHealthy = True\<rparr>))"

text \<open>The routes; a request for another method or path is answered by the mux itself.\<close>

definition node_routes ::
    "json_codec \<Rightarrow> int \<Rightarrow> string \<Rightarrow> string \<Rightarrow> bytes option \<Rightarrow> 'd shardServer \<Rightarrow> (response \<times> 'd shardServer) option" where
  "node_routes jc now httpMethod path rbody s =
     (if httpMethod = ''POST'' \<and> path = ''/shards'' then Some (handlePut jc now rbody s)
      else if httpMethod = ''POST'' \<and> path = ''/shards/get'' then Some (handleGet jc now rbody s, s)
      else if httpMethod = ''GET'' \<and> path = ''/health'' then Some (handleHealth jc s, s)
      else None)"

section \<open>The shards a node holds\<close>

definition server_ok :: "'d shardServer \<Rightarrow> bool" where
  "server_ok s \<longleftrightarrow> bolt_ok (db_ops (sv_db s)) \<and> utf8_valid (nc_NodeID (sv_cfg s))
     \<and> (\<forall>d. bb_view (db_ops (sv_db s)) d = None)"

definition holds :: "'d shardServer \<Rightarrow> string \<Rightarrow> bytes option" where
  "holds s = bb_get (db_ops (sv_db s)) (db_file (sv_db s)) bucketShards"

lemma read_shard_holds [simp]: "server_ok s \<Longrightarrow> read_shard s = holds s"
  by (simp add: fun_eq_iff read_shard_def holds_def server_ok_def)

lemma writeResponse_ok:
  assumes "TypePutShardRequest \<le> t" "t \<le> TypeHealthReportResponse"
  shows "\<exists>m. writeResponse jc now s t n b = http_ok m \<and> Encode jc now t n b (node_key s) = Inr m"
  using assms by (simp add: writeResponse_def Encode_def Let_def not_less [symmetric])

text \<open>A request to store, sorted by what the handler does with it.\<close>

lemma handlePut_cases:
  assumes "server_ok s" "handlePut jc now (Some body) s = (r, s')"
  shows "server_ok s' \<and> sv_cfg s' = sv_cfg s \<and>
     (if rs_status r = StatusOK
      then \<exists>env q. Decode jc body (node_key s) = Inr env
         \<and> UnmarshalBody jc put_PutShardRequest zero_PutShardRequest env = Inr q
         \<and> wrap64 (storageUsed s + int (length (psq_Data q))) \<le> nc_StorageAllocated (sv_cfg s)
         \<and> holds s' = (holds s)(psq_ShardID q \<mapsto> psq_Data q)
      else s' = s)"
proof (cases "Decode jc body (node_key s)")
  case (Inl e)
  with assms show ?thesis by (auto simp: handlePut_def http_status)
next
  case (Inr env)
  show ?thesis
  proof (cases "UnmarshalBody jc put_PutShardRequest zero_PutShardRequest env")
    case (Inl e)
    with Inr assms show ?thesis by (auto simp: handlePut_def http_status)
  next
    case (Inr q)
    let ?upd = "bb_update (db_ops (sv_db s)) (db_file (sv_db s)) [(bucketShards, psq_ShardID q, psq_Data q)]"
    show ?thesis
    proof (cases ?upd)
      case Inl: (Inl e)
      with Inr \<open>Decode jc body (node_key s) = Inr env\<close> assms show ?thesis
        by (auto simp: handlePut_def http_status split: if_splits)
    next
      case upd: (Inr d)
      obtain m where resp: "writeResponse jc now s TypePutShardResponse (env_NodeID env)
          (json_PutShardResponse \<lparr>psr_ShardID = psq_ShardID q, psr_Success = True, psr_Error = ''''\<rparr>) = http_ok m"
        using writeResponse_ok [of TypePutShardResponse jc now s "env_NodeID env"] by (auto simp: message_types)
      have "bb_get (db_ops (sv_db s)) d bucketShards = (holds s)(psq_ShardID q \<mapsto> psq_Data q)"
        using bolt_update [OF _ upd] assms(1) by (simp add: server_ok_def holds_def)
      moreover have "handlePut jc now (Some body) s =
          (if nc_StorageAllocated (sv_cfg s) < wrap64 (storageUsed s + int (length (psq_Data q)))
           then (http_error ''storage quota exceeded'' StatusInsufficientStorage, s)
           else (http_ok m, s\<lparr>sv_db := (sv_db s)\<lparr>db_file := d\<rparr>\<rparr>))"
        using upd Inr \<open>Decode jc body (node_key s) = Inr env\<close> resp by (simp add: handlePut_def)
      ultimately show ?thesis
        using Inr \<open>Decode jc body (node_key s) = Inr env\<close> assms
        by (auto simp: http_status server_ok_def holds_def split: if_splits)
    qed
  qed
qed

lemma storageUsed_int64 [simp]: "in_int64 (storageUsed s)"
proof -
  have "in_int64 (foldl (\<lambda>used kv. wrap64 (used + int (length (snd kv)))) a kvs)" if "in_int64 a" for a and kvs :: "(string \<times> bytes) list"
    using that by (induction kvs arbitrary: a) simp_all
  moreover have "in_int64 0" by (simp add: in_int64_def)
  ultimately show ?thesis by (simp add: storageUsed_def split: option.split)
qed

text \<open>What the check of the quota lets through, and a request that is let through and written.\<close>

definition quota_allows :: "'d shardServer \<Rightarrow> PutShardRequest \<Rightarrow> bool" where
  "quota_allows s q \<longleftrightarrow> wrap64 (storageUsed s + int (length (psq_Data q))) \<le> nc_StorageAllocated (sv_cfg s)"

lemma handlePut_accepts:
  assumes "server_ok s" "Decode jc body (node_key s) = Inr env"
    "UnmarshalBody jc put_PutShardRequest zero_PutShardRequest env = Inr q" "quota_allows s q"
    "bb_update (db_ops (sv_db s)) (db_file (sv_db s)) [(bucketShards, psq_ShardID q, psq_Data q)] = Inr d"
  shows "\<exists>m s'. handlePut jc now (Some body) s = (http_ok m, s') \<and> holds s' = (holds s)(psq_ShardID q \<mapsto> psq_Data q)"
proof -
  obtain m where "writeResponse jc now s TypePutShardResponse (env_NodeID env)
      (json_PutShardResponse \<lparr>psr_ShardID = psq_ShardID q, psr_Success = True, psr_Error = ''''\<rparr>) = http_ok m"
    using writeResponse_ok [of TypePutShardResponse jc now s "env_NodeID env"] by (auto simp: message_types)
  with assms(2-5) have "handlePut jc now (Some body) s = (http_ok m, s\<lparr>sv_db := (sv_db s)\<lparr>db_file := d\<rparr>\<rparr>)"
    by (simp add: handlePut_def quota_allows_def not_less [symmetric])
  moreover have "bb_get (db_ops (sv_db s)) d bucketShards = (holds s)(psq_ShardID q \<mapsto> psq_Data q)"
    using bolt_update [OF _ assms(5)] assms(1) by (simp add: server_ok_def holds_def)
  ultimately show ?thesis
    by (intro exI [of _ m] exI [of _ "s\<lparr>sv_db := (sv_db s)\<lparr>db_file := d\<rparr>\<rparr>"]) (simp add: holds_def)
qed

section \<open>The quota\<close>

text \<open>The bytes a node holds, over its keys.\<close>

definition held_bytes :: "(string \<Rightarrow> bytes option) \<Rightarrow> int" where
  "held_bytes g = (\<Sum>i \<in> dom g. int (length (the (g i))))"

lemma held_bytes_nonneg [simp]: "0 \<le> held_bytes g"
  by (simp add: held_bytes_def sum_nonneg)

lemma held_bytes_entries:
  assumes "distinct (map fst kvs)" "map_of kvs = g"
  shows "held_bytes g = (\<Sum>kv \<leftarrow> kvs. int (length (snd kv)))"
proof -
  have "held_bytes (map_of kvs) = (\<Sum>kv \<leftarrow> kvs. int (length (snd kv)))"
    using assms(1)
  proof (induction kvs)
    case (Cons kv kvs)
    obtain k v where kv: "kv = (k, v)" by (cases kv)
    with Cons.prems have new: "k \<notin> dom (map_of kvs)" by (simp add: dom_map_of_conv_image_fst)
    have "(\<Sum>i \<in> dom (map_of kvs). int (length (the (((map_of kvs)(k \<mapsto> v)) i)))) = held_bytes (map_of kvs)"
      unfolding held_bytes_def using new by (intro sum.cong) auto
    then have "held_bytes ((map_of kvs)(k \<mapsto> v)) = int (length v) + held_bytes (map_of kvs)"
      using new finite_dom_map_of [of kvs] unfolding held_bytes_def by simp
    moreover have "held_bytes (map_of (kv # kvs)) = held_bytes ((map_of kvs)(k \<mapsto> v))"
      by (rule arg_cong [where f = held_bytes]) (simp add: kv)
    ultimately show ?case using Cons by (simp only: kv) simp
  qed (simp add: held_bytes_def)
  with assms(2) show ?thesis by simp
qed

lemma held_bytes_update:
  assumes "finite (dom g)"
  shows "held_bytes (g(i \<mapsto> d)) = held_bytes g - (case g i of None \<Rightarrow> 0 | Some v \<Rightarrow> int (length v)) + int (length d)"
proof -
  let ?w = "\<lambda>g i. int (length (the (g i)))"
  have "held_bytes (g(i \<mapsto> d)) = (\<Sum>j \<in> insert i (dom g - {i}). ?w (g(i \<mapsto> d)) j)"
    by (simp add: held_bytes_def insert_Diff_single)
  also have "\<dots> = int (length d) + (\<Sum>j \<in> dom g - {i}. ?w (g(i \<mapsto> d)) j)"
    using assms by (subst sum.insert) auto
  also have "(\<Sum>j \<in> dom g - {i}. ?w (g(i \<mapsto> d)) j) = (\<Sum>j \<in> dom g - {i}. ?w g j)"
    by (intro sum.cong) auto
  also have "\<dots> = held_bytes g - (case g i of None \<Rightarrow> 0 | Some v \<Rightarrow> int (length v))"
    using assms by (auto simp: held_bytes_def sum_diff1 domIff split: option.splits)
  finally show ?thesis by linarith
qed

lemma wrap_sum:
  assumes "0 \<le> a" "a + (\<Sum>kv \<leftarrow> kvs. int (length (snd kv))) < 2 ^ 63"
  shows "foldl (\<lambda>used kv. wrap64 (used + int (length (snd kv)))) a kvs = a + (\<Sum>kv \<leftarrow> kvs. int (length (snd kv)))"
  using assms
proof (induction kvs arbitrary: a)
  case (Cons kv kvs)
  have "0 \<le> (\<Sum>kv \<leftarrow> kvs. int (length (snd kv)))" by (intro sum_list_nonneg) auto
  with Cons.prems have "in_int64 (a + int (length (snd kv)))" by (simp add: in_int64_def)
  with Cons.IH [of "a + int (length (snd kv))"] Cons.prems show ?case by (simp add: algebra_simps)
qed simp

lemma storageUsed_held:
  assumes "server_ok s" "held_bytes (holds s) < 2 ^ 63"
  shows "storageUsed s = held_bytes (holds s)"
proof -
  let ?kvs = "bb_entries (db_ops (sv_db s)) (db_file (sv_db s)) bucketShards"
  from assms(1) have "held_bytes (holds s) = (\<Sum>kv \<leftarrow> ?kvs. int (length (snd kv)))"
    by (intro held_bytes_entries) (simp_all add: server_ok_def bolt_ok_def holds_def)
  with wrap_sum [of 0 ?kvs] assms show ?thesis by (simp add: storageUsed_def server_ok_def)
qed

lemma finite_holds: "server_ok s \<Longrightarrow> finite (dom (holds s))"
  by (simp add: server_ok_def holds_def bolt_entries_finite)

text \<open>The bytes held fit the quota, and the quota fits an \<open>int64\<close> with room for one body.\<close>

definition within_quota :: "'d shardServer \<Rightarrow> bool" where
  "within_quota s \<longleftrightarrow> server_ok s \<and> nc_StorageAllocated (sv_cfg s) < 2 ^ 62
     \<and> held_bytes (holds s) \<le> nc_StorageAllocated (sv_cfg s)"

text \<open>
  A request that passes the check leaves room for its data, and writing it adds no more than them,
  as long as no sum wraps.
\<close>

lemma quota_allows_held:
  assumes "server_ok s" "held_bytes (holds s) + int (length (psq_Data q)) < 2 ^ 63"
  shows "quota_allows s q \<longleftrightarrow> held_bytes (holds s) + int (length (psq_Data q)) \<le> nc_StorageAllocated (sv_cfg s)"
proof -
  have "storageUsed s = held_bytes (holds s)" using assms by (intro storageUsed_held) auto
  moreover have "in_int64 (held_bytes (holds s) + int (length (psq_Data q)))"
    using assms(2) held_bytes_nonneg [of "holds s"] by (simp add: in_int64_def del: held_bytes_nonneg)
  ultimately show ?thesis by (simp add: quota_allows_def)
qed

lemma held_bytes_write:
  assumes "server_ok s" "holds s' = (holds s)(psq_ShardID q \<mapsto> psq_Data q)"
  shows "held_bytes (holds s') \<le> held_bytes (holds s) + int (length (psq_Data q))"
  unfolding assms(2) held_bytes_update [OF finite_holds [OF assms(1)]] by (auto split: option.splits)

section \<open>Concurrent requests\<close>

text \<open>
  Requests are served in goroutines of their own, and nothing is locked between the check of the
  quota and the write: a request to store is two steps, and other requests may come between them.
  The state is the server and the requests that have passed the check.
\<close>

definition write_shard :: "'d shardServer \<Rightarrow> PutShardRequest \<Rightarrow> string + 'd shardServer" where
  "write_shard s q =
     (case bb_update (db_ops (sv_db s)) (db_file (sv_db s)) [(bucketShards, psq_ShardID q, psq_Data q)] of
        Inl e \<Rightarrow> Inl e
      | Inr d \<Rightarrow> Inr (s\<lparr>sv_db := (sv_db s)\<lparr>db_file := d\<rparr>\<rparr>))"

inductive put_step ::
    "json_codec \<Rightarrow> 'd shardServer \<times> PutShardRequest list \<Rightarrow> 'd shardServer \<times> PutShardRequest list \<Rightarrow> bool" for jc where
  check: "Decode jc body (node_key s) = Inr env \<Longrightarrow>
    UnmarshalBody jc put_PutShardRequest zero_PutShardRequest env = Inr q \<Longrightarrow> quota_allows s q \<Longrightarrow>
    put_step jc (s, ps) (s, q # ps)"
| store: "q \<in> set ps \<Longrightarrow> write_shard s q = Inr s' \<Longrightarrow> put_step jc (s, ps) (s', remove1 q ps)"
| store_fails: "q \<in> set ps \<Longrightarrow> write_shard s q = Inl e \<Longrightarrow> put_step jc (s, ps) (s, remove1 q ps)"

text \<open>The handler is a check and a write with nothing between them.\<close>

lemma handlePut_steps:
  assumes "server_ok s" "handlePut jc now (Some body) s = (r, s')" "rs_status r = StatusOK"
  shows "\<exists>q. put_step jc (s, ps) (s, q # ps) \<and> put_step jc (s, q # ps) (s', ps)"
proof -
  from assms(2,3) obtain env q where q: "Decode jc body (node_key s) = Inr env"
    "UnmarshalBody jc put_PutShardRequest zero_PutShardRequest env = Inr q" "quota_allows s q" "write_shard s q = Inr s'"
    by (auto simp: handlePut_def http_status quota_allows_def write_shard_def not_less split: option.splits sum.splits if_splits)
  have "put_step jc (s, q # ps) (s', remove1 q (q # ps))" by (rule put_step.store [OF _ q(4)]) simp
  with put_step.check [OF q(1-3)] show ?thesis by auto
qed

lemma write_shard_holds:
  assumes "server_ok s" "write_shard s q = Inr s'"
  shows "server_ok s' \<and> sv_cfg s' = sv_cfg s \<and> holds s' = (holds s)(psq_ShardID q \<mapsto> psq_Data q)"
  using assms by (auto simp: write_shard_def server_ok_def holds_def bolt_update split: sum.splits)

text \<open>
  What a node that started as \<open>s0\<close> goes through while it serves requests: some from their check
  to their write without another in between, others step by step; never more than \<open>K\<close> at once,
  none with more than \<open>M\<close> bytes of data.
\<close>

inductive serving ::
    "json_codec \<Rightarrow> nat \<Rightarrow> nat \<Rightarrow> 'd shardServer \<Rightarrow> 'd shardServer \<times> PutShardRequest list \<Rightarrow> bool" for jc K M s0 where
  start: "serving jc K M s0 (s0, [])"
| alone: "serving jc K M s0 (s, ps) \<Longrightarrow> length ps < K \<Longrightarrow>
    node_routes jc now httpMethod path (Some body) s = Some (r, s') \<Longrightarrow>
    (\<And>env q. Decode jc body (node_key s) = Inr env \<Longrightarrow>
       UnmarshalBody jc put_PutShardRequest zero_PutShardRequest env = Inr q \<Longrightarrow> length (psq_Data q) \<le> M) \<Longrightarrow>
    serving jc K M s0 (s', ps)"
| interleaved: "serving jc K M s0 c \<Longrightarrow> put_step jc c (s', ps') \<Longrightarrow> length ps' \<le> K \<Longrightarrow>
    (\<And>q. q \<in> set ps' \<Longrightarrow> length (psq_Data q) \<le> M) \<Longrightarrow> serving jc K M s0 (s', ps')"

abbreviation pending_bytes :: "PutShardRequest list \<Rightarrow> int" where
  "pending_bytes ps \<equiv> (\<Sum>q \<leftarrow> ps. int (length (psq_Data q)))"

lemma pending_bytes_remove1:
  "q \<in> set ps \<Longrightarrow> pending_bytes (remove1 q ps) = pending_bytes ps - int (length (psq_Data q))"
  by (simp add: sum_list_map_remove1)

lemma pending_bytes_le:
  "(\<And>q. q \<in> set ps \<Longrightarrow> length (psq_Data q) \<le> M) \<Longrightarrow> pending_bytes ps \<le> int (length ps) * int M"
  by (induction ps) (auto simp: algebra_simps intro!: add_mono)

text \<open>
  What is held and what may still be written by requests that passed the check fit the quota,
  but for the data of the requests that were under way when the last of them was checked.
\<close>

definition serving_ok :: "nat \<Rightarrow> nat \<Rightarrow> 'd shardServer \<Rightarrow> 'd shardServer \<times> PutShardRequest list \<Rightarrow> bool" where
  "serving_ok K M s0 c \<longleftrightarrow> (case c of (s, ps) \<Rightarrow> server_ok s \<and> sv_cfg s = sv_cfg s0
     \<and> length ps \<le> K \<and> (\<forall>q \<in> set ps. length (psq_Data q) \<le> M)
     \<and> held_bytes (holds s) + pending_bytes ps \<le> nc_StorageAllocated (sv_cfg s0) + (int K - 1) * int M)"

lemma pending_bytes_nonneg [simp]: "0 \<le> pending_bytes ps"
  by (intro sum_list_nonneg) auto

lemma serving_ok_check:
  assumes "serving_ok K M s0 (s, ps)" "length ps < K" "length (psq_Data q) \<le> M" "quota_allows s q"
    and "nc_StorageAllocated (sv_cfg s0) + int K * int M < 2 ^ 63"
  shows "held_bytes (holds s) + int (length (psq_Data q)) + pending_bytes ps
    \<le> nc_StorageAllocated (sv_cfg s0) + (int K - 1) * int M"
proof -
  from assms(1) have s: "server_ok s" "sv_cfg s = sv_cfg s0" "\<And>p. p \<in> set ps \<Longrightarrow> length (psq_Data p) \<le> M"
    and le: "held_bytes (holds s) + pending_bytes ps \<le> nc_StorageAllocated (sv_cfg s0) + (int K - 1) * int M"
    by (simp_all add: serving_ok_def)
  have "held_bytes (holds s) + int (length (psq_Data q)) < 2 ^ 63"
    using le assms(3,5) pending_bytes_nonneg [of ps] by (simp add: algebra_simps del: pending_bytes_nonneg)
  with assms(4) s have "held_bytes (holds s) + int (length (psq_Data q)) \<le> nc_StorageAllocated (sv_cfg s0)"
    by (simp add: quota_allows_held)
  moreover have "pending_bytes ps \<le> int (length ps) * int M" by (rule pending_bytes_le) (rule s(3))
  moreover have "int (length ps) * int M \<le> (int K - 1) * int M" using assms(2) by (intro mult_right_mono) auto
  ultimately show ?thesis by linarith
qed

lemma serving_serving_ok:
  assumes "serving jc K M s0 c" "within_quota s0" "1 \<le> K" "nc_StorageAllocated (sv_cfg s0) + int K * int M < 2 ^ 63"
  shows "serving_ok K M s0 c"
  using assms(1)
proof (induction rule: serving.induct)
  case start
  have "0 \<le> (int K - 1) * int M" using assms(3) by simp
  with assms(2) show ?case by (simp add: serving_ok_def within_quota_def)
next
  case (alone s ps now httpMethod path body r s')
  then have ok: "server_ok s" by (simp add: serving_ok_def)
  show ?case
  proof (cases "s' = s")
    case False
    with alone.hyps have put: "handlePut jc now (Some body) s = (r, s')" by (auto simp: node_routes_def split: if_splits)
    from handlePut_cases [OF ok put] False obtain env q where q: "Decode jc body (node_key s) = Inr env"
      "UnmarshalBody jc put_PutShardRequest zero_PutShardRequest env = Inr q" "quota_allows s q"
      and s': "server_ok s'" "sv_cfg s' = sv_cfg s" "holds s' = (holds s)(psq_ShardID q \<mapsto> psq_Data q)"
      by (auto simp: quota_allows_def split: if_splits)
    from alone.hyps q(1,2) have "length (psq_Data q) \<le> M" by blast
    from serving_ok_check [OF alone.IH alone.hyps(2) this q(3) assms(4)] held_bytes_write [OF ok s'(3)] s'(1,2) alone.IH
    show ?thesis by (simp add: serving_ok_def)
  qed (use alone.IH in simp)
next
  case (interleaved c s' ps')
  obtain s ps where c: "c = (s, ps)" by (cases c)
  from interleaved.IH have ok: "server_ok s" by (simp add: c serving_ok_def)
  from interleaved.hyps(2) show ?case unfolding c
  proof (cases rule: put_step.cases)
    case (check body env q)
    from serving_ok_check [OF interleaved.IH [unfolded c] _ _ check(5) assms(4)] interleaved check
    show ?thesis by (simp add: serving_ok_def c algebra_simps)
  next
    case (store q)
    from write_shard_holds [OF ok store(3)] interleaved held_bytes_write [OF ok] store
    show ?thesis by (fastforce simp: serving_ok_def c pending_bytes_remove1)
  next
    case (store_fails q)
    with interleaved show ?thesis by (simp add: serving_ok_def c pending_bytes_remove1)
  qed
qed

section \<open>Properties\<close>

lemma Encode_get_ok: "\<exists>m. Encode jc now TypeGetShardRequest n b key = Inr m"
  by (simp add: Encode_def Let_def message_types)

text \<open>A concrete node for the witnesses.\<close>

definition demo_server :: "int \<Rightarrow> (string \<Rightarrow> (string \<times> bytes) list) shardServer" where
  "demo_server quota =
     \<lparr>sv_cfg = \<lparr>nc_NodeID = ''n1'', nc_ListenAddr = ''10.0.0.1:9001'', nc_DataDir = ''./data'',
        nc_StorageAllocated = quota, nc_NetworkKey = ''k'', nc_TrackerAddr = ''''\<rparr>,
      sv_db = \<lparr>db_ops = alist_bolt, db_file = (\<lambda>_. [])\<rparr>\<rparr>"

lemma demo_server_ok [simp]: "server_ok (demo_server quota)"
  by (simp add: server_ok_def demo_server_def alist_bolt_ok utf8_valid_ascii) (simp add: alist_bolt_def)

lemma demo_server_holds: "holds (demo_server quota) = Map.empty"
  by (simp add: holds_def demo_server_def alist_bolt_def fun_eq_iff)

lemma demo_server_used: "storageUsed (demo_server quota) = 0"
  by (simp add: storageUsed_def demo_server_def alist_bolt_def)

text \<open>Two signed requests that the demo node serves at once.\<close>

lemma demo_sealed:
  assumes "utf8_valid i"
  shows "\<exists>msg env. Encode ser_codec 5 TypePutShardRequest ''cli'' (json_PutShardRequest \<lparr>psq_ShardID = i, psq_Data = d\<rparr>) (node_key (demo_server quota)) = Inr msg
     \<and> Decode ser_codec msg (node_key (demo_server quota)) = Inr env
     \<and> UnmarshalBody ser_codec put_PutShardRequest zero_PutShardRequest env = Inr \<lparr>psq_ShardID = i, psq_Data = d\<rparr>"
proof -
  let ?q = "\<lparr>psq_ShardID = i, psq_Data = d\<rparr>" and ?key = "node_key (demo_server quota)"
  have pre: "in_int64 5" "utf8_valid ''cli''" by (simp_all add: in_int64_def utf8_valid_ascii)
  have "UnmarshalBody ser_codec put_PutShardRequest zero_PutShardRequest
      (sealed_env ser_codec 5 TypePutShardRequest ''cli'' (json_PutShardRequest ?q) ?key) = Inr ?q"
    using assms by (intro UnmarshalBody_sealed [OF ser_codec_ok codec_PutShardRequest]) simp
  with Encode_Decode_env [OF ser_codec_ok pre, of TypePutShardRequest "json_PutShardRequest ?q" ?key]
  show ?thesis by (auto simp: message_types)
qed

text \<open>
  Only the check and the write together keep the quota. Two concurrent requests may both pass
  the check before either writes, and the node then holds twice its quota.
\<close>
theorem concurrent_puts_exceed_quota:
  "\<exists>s'. serving ser_codec 2 6 (demo_server 6) (s', [])
     \<and> held_bytes (holds s') = 12 \<and> nc_StorageAllocated (sv_cfg s') = 6 \<and> within_quota (demo_server 6)"
proof -
  let ?a = "\<lparr>psq_ShardID = ''a'', psq_Data = replicate 6 1\<rparr>" and ?b = "\<lparr>psq_ShardID = ''b'', psq_Data = replicate 6 2\<rparr>"
  let ?s = "demo_server 6"
  have allowed: "quota_allows ?s ?a" "quota_allows ?s ?b"
    by (simp_all add: quota_allows_def demo_server_used in_int64_def) (simp_all add: demo_server_def)
  have check: "put_step ser_codec (?s, ps) (?s, q # ps)" if "q = ?a \<or> q = ?b" for q ps
    using demo_sealed [of "psq_ShardID q" "psq_Data q" 6] that allowed
    by (auto intro: put_step.check simp: utf8_valid_ascii)
  obtain s1 where s1: "write_shard ?s ?a = Inr s1"
    by (simp add: write_shard_def demo_server_def alist_bolt_def)
  then obtain s2 where s2: "write_shard s1 ?b = Inr s2"
    by (auto simp: write_shard_def demo_server_def alist_bolt_def)
  have run: "serving ser_codec 2 6 ?s (?s, [?a])"
    by (rule serving.interleaved [OF serving.start check]) simp_all
  have run: "serving ser_codec 2 6 ?s (?s, [?b, ?a])"
    by (rule serving.interleaved [OF run check]) auto
  have "put_step ser_codec (?s, [?b, ?a]) (s1, remove1 ?a [?b, ?a])" by (rule put_step.store [OF _ s1]) simp
  with run have run: "serving ser_codec 2 6 ?s (s1, [?b])" by (intro serving.interleaved [OF run]) auto
  have "put_step ser_codec (s1, [?b]) (s2, remove1 ?b [?b])" by (rule put_step.store [OF _ s2]) simp
  with run have run: "serving ser_codec 2 6 ?s (s2, [])" by (intro serving.interleaved [OF run]) auto
  have s2': "holds s2 = [''a'' \<mapsto> replicate 6 1, ''b'' \<mapsto> replicate 6 2]" "sv_cfg s2 = sv_cfg ?s"
    using s1 s2 by (auto simp: write_shard_def holds_def demo_server_def alist_bolt_def update_conv' fun_eq_iff)
  have "within_quota ?s"
    by (simp add: within_quota_def demo_server_holds held_bytes_def) (simp add: demo_server_def)
  moreover have "nc_StorageAllocated (sv_cfg ?s) = 6" by (simp add: demo_server_def)
  ultimately show ?thesis using run s2' by (intro exI [of _ s2]) (simp add: held_bytes_def)
qed

text \<open>
  C10: the quota, with requests served at once. Nothing is locked between the check of the quota
  and the write, so a node may hold more than its quota; but it never holds more than its quota
  and the largest data of the other requests that were under way: if never more than \<open>K\<close> requests
  are served at once and none has more than \<open>M\<close> bytes of data, the node holds at most its quota
  and \<open>(K - 1) * M\<close> bytes, in whatever order the checks and writes come and whatever the requests
  are, signed or not, well-formed or not. One request at a time (\<open>K = 1\<close>) keeps the quota itself.
  The sums must stay below \<open>2^63\<close>, where the check's addition wraps.
\<close>
theorem node_within_quota:
  assumes "within_quota s0" "1 \<le> K" "nc_StorageAllocated (sv_cfg s0) + int K * int M < 2 ^ 63"
    and "serving jc K M s0 (s, ps)"
  shows "held_bytes (holds s) \<le> nc_StorageAllocated (sv_cfg s0) + (int K - 1) * int M
    \<and> (K = 1 \<longrightarrow> within_quota s) \<and> sv_cfg s = sv_cfg s0"
proof -
  from serving_serving_ok [OF assms(4,1-3)] have "server_ok s" "sv_cfg s = sv_cfg s0"
    "held_bytes (holds s) + pending_bytes ps \<le> nc_StorageAllocated (sv_cfg s0) + (int K - 1) * int M"
    by (simp_all add: serving_ok_def)
  moreover from this pending_bytes_nonneg [of ps]
  have "held_bytes (holds s) \<le> nc_StorageAllocated (sv_cfg s0) + (int K - 1) * int M" by linarith
  ultimately show ?thesis using assms(1) by (auto simp: within_quota_def)
qed

text \<open>
  Two requests of six bytes at once, on a node whose quota is six: both are let through and both
  are written, and the node holds exactly what the bound admits.
\<close>
lemma node_within_quota_witness:
  "\<exists>s'. serving ser_codec 2 6 (demo_server 6) (s', []) \<and> held_bytes (holds s') = 12
     \<and> held_bytes (holds s') \<le> nc_StorageAllocated (sv_cfg (demo_server 6)) + (int 2 - 1) * int 6"
proof -
  obtain s' where run: "serving ser_codec 2 6 (demo_server 6) (s', [])" "held_bytes (holds s') = 12"
    and q: "within_quota (demo_server 6)"
    using concurrent_puts_exceed_quota by blast
  have "nc_StorageAllocated (sv_cfg (demo_server 6)) = 6" by (simp add: demo_server_def)
  with node_within_quota [OF q _ _ run(1)] run show ?thesis by auto
qed

text \<open>A signed request for a shard is answered with what the node holds.\<close>

lemma handleGet_answers:
  assumes "json_codec_ok jc" "server_ok s" "in_int64 now" "in_int64 t" "utf8_valid client" "utf8_valid j"
    and "Encode jc t TypeGetShardRequest client (json_GetShardRequest \<lparr>gsq_ShardID = j\<rparr>) (node_key s) = Inr msg"
  shows "\<exists>env ans. handleGet jc now (Some msg) s = http_ok ans
    \<and> receive jc put_GetShardResponse zero_GetShardResponse ans (node_key s) =
        Inr (env, \<lparr>gsr_ShardID = j, gsr_Data = (case holds s j of None \<Rightarrow> [] | Some v \<Rightarrow> v), gsr_Found = (holds s j \<noteq> None)\<rparr>)
    \<and> env_NodeID env = nc_NodeID (sv_cfg s)"
proof -
  have get: "receive jc put_GetShardRequest zero_GetShardRequest msg (node_key s) =
      Inr (sealed_env jc t TypeGetShardRequest client (json_GetShardRequest \<lparr>gsq_ShardID = j\<rparr>) (node_key s), \<lparr>gsq_ShardID = j\<rparr>)"
    using receive_sealed [OF assms(1,4,5) _ _ codec_GetShardRequest, of TypeGetShardRequest "\<lparr>gsq_ShardID = j\<rparr>" "node_key s"]
      assms(6,7) by (auto simp: message_types)
  let ?ans = "\<lparr>gsr_ShardID = j, gsr_Data = (case holds s j of None \<Rightarrow> [] | Some v \<Rightarrow> v), gsr_Found = (holds s j \<noteq> None)\<rparr>"
  have answer: "handleGet jc now (Some msg) s =
      writeResponse jc now s TypeGetShardResponse (nc_NodeID (sv_cfg s)) (json_GetShardResponse ?ans)"
    using get assms(2) by (auto simp: handleGet_def receive_def Let_def split: sum.splits)
  have "utf8_valid (nc_NodeID (sv_cfg s))" using assms(2) by (simp add: server_ok_def)
  from sealed_arrives [OF assms(1,3) this codec_GetShardResponse, of ?ans TypeGetShardResponse "node_key s"] assms(6)
  obtain m env where enc: "Encode jc now TypeGetShardResponse (nc_NodeID (sv_cfg s)) (json_GetShardResponse ?ans) (node_key s) = Inr m"
    and rcv: "receive jc put_GetShardResponse zero_GetShardResponse m (node_key s) = Inr (env, ?ans)"
    "env_NodeID env = nc_NodeID (sv_cfg s)"
    by (auto simp: message_types arrives_def)
  have "handleGet jc now (Some msg) s = http_ok m"
    unfolding answer writeResponse_def by (simp only: enc sum.case)
  with rcv show ?thesis by blast
qed

text \<open>
  C15: a shard stored is the shard returned. A signed request to store that is answered with 200
  makes the node hold exactly these data under this identifier and nothing else different; any
  other answer leaves the node as it was; and a signed request for a shard is answered with 200
  and a signed message with the data held, or with the mark that there are none.
\<close>
theorem node_stores_and_returns:
  assumes "json_codec_ok jc" "server_ok s" "in_int64 now" "in_int64 t1" "in_int64 t2"
    and "utf8_valid client" "utf8_valid i" "utf8_valid j"
    and "Encode jc t1 TypePutShardRequest client (json_PutShardRequest \<lparr>psq_ShardID = i, psq_Data = d\<rparr>) (node_key s) = Inr put_msg"
    and "Encode jc t2 TypeGetShardRequest client (json_GetShardRequest \<lparr>gsq_ShardID = j\<rparr>) (node_key s) = Inr get_msg"
    and "handlePut jc now (Some put_msg) s = (r, s')"
  shows "holds s' = (if rs_status r = StatusOK then (holds s)(i \<mapsto> d) else holds s)
    \<and> (\<exists>env ans. handleGet jc now (Some get_msg) s' = http_ok ans
         \<and> receive jc put_GetShardResponse zero_GetShardResponse ans (node_key s) =
             Inr (env, \<lparr>gsr_ShardID = j, gsr_Data = (case holds s' j of None \<Rightarrow> [] | Some v \<Rightarrow> v), gsr_Found = (holds s' j \<noteq> None)\<rparr>)
         \<and> env_NodeID env = nc_NodeID (sv_cfg s))"
proof -
  have put: "receive jc put_PutShardRequest zero_PutShardRequest put_msg (node_key s) =
      Inr (sealed_env jc t1 TypePutShardRequest client (json_PutShardRequest \<lparr>psq_ShardID = i, psq_Data = d\<rparr>) (node_key s),
           \<lparr>psq_ShardID = i, psq_Data = d\<rparr>)"
    using receive_sealed [OF assms(1,4,6) _ _ codec_PutShardRequest, of TypePutShardRequest "\<lparr>psq_ShardID = i, psq_Data = d\<rparr>" "node_key s"]
      assms(7,9) by (auto simp: message_types)
  note after = handlePut_cases [OF assms(2,11)]
  have h: "holds s' = (if rs_status r = StatusOK then (holds s)(i \<mapsto> d) else holds s)"
    using after put by (auto simp: receive_def split: sum.splits)
  have same: "server_ok s'" "node_key s' = node_key s" "sv_cfg s' = sv_cfg s" using after by simp_all
  have "Encode jc t2 TypeGetShardRequest client (json_GetShardRequest \<lparr>gsq_ShardID = j\<rparr>) (node_key s') = Inr get_msg"
    using assms(10) same(2) by simp
  from handleGet_answers [OF assms(1) same(1) assms(3,5,6,8) this] h show ?thesis
    unfolding same(2,3) by blast
qed

lemma demo_put:
  assumes "in_int64 (int (length d))" "int (length d) \<le> quota" "i \<noteq> ''''" "utf8_valid i"
  shows "\<exists>msg r s'. Encode ser_codec 5 TypePutShardRequest ''cli'' (json_PutShardRequest \<lparr>psq_ShardID = i, psq_Data = d\<rparr>) (node_key (demo_server quota)) = Inr msg
     \<and> handlePut ser_codec 5 (Some msg) (demo_server quota) = (http_ok r, s') \<and> holds s' = [i \<mapsto> d]"
proof -
  let ?q = "\<lparr>psq_ShardID = i, psq_Data = d\<rparr>" and ?s = "demo_server quota"
  obtain msg env where msg: "Encode ser_codec 5 TypePutShardRequest ''cli'' (json_PutShardRequest ?q) (node_key ?s) = Inr msg"
    "Decode ser_codec msg (node_key ?s) = Inr env" "UnmarshalBody ser_codec put_PutShardRequest zero_PutShardRequest env = Inr ?q"
    using demo_sealed [OF assms(4)] by blast
  have "quota_allows ?s ?q"
    using assms(1,2) by (simp add: quota_allows_def demo_server_used) (simp add: demo_server_def)
  moreover obtain db where "bb_update (db_ops (sv_db ?s)) (db_file (sv_db ?s)) [(bucketShards, i, d)] = Inr db"
    using assms(3) by (simp add: demo_server_def alist_bolt_def)
  ultimately show ?thesis
    using handlePut_accepts [OF demo_server_ok msg(2,3), of db 5] msg(1) by (auto simp: demo_server_holds)
qed

lemma node_stores_and_returns_witness:
  "\<exists>get_msg put_msg ans r s' env. handlePut ser_codec 5 (Some put_msg) (demo_server 10) = (http_ok r, s')
     \<and> handleGet ser_codec 5 (Some get_msg) s' = http_ok ans
     \<and> receive ser_codec put_GetShardResponse zero_GetShardResponse ans (bytes_of_string ''k'')
         = Inr (env, \<lparr>gsr_ShardID = ''a'', gsr_Data = [1, 2], gsr_Found = True\<rparr>)"
proof -
  obtain put_msg r s' where put: "Encode ser_codec 5 TypePutShardRequest ''cli'' (json_PutShardRequest \<lparr>psq_ShardID = ''a'', psq_Data = [1, 2]\<rparr>)
       (node_key (demo_server 10)) = Inr put_msg"
    "handlePut ser_codec 5 (Some put_msg) (demo_server 10) = (http_ok r, s')" "holds s' = [''a'' \<mapsto> [1, 2]]"
    using demo_put [of "[1, 2]" 10 "''a''"] by (auto simp: in_int64_def utf8_valid_ascii)
  obtain get_msg where get: "Encode ser_codec 5 TypeGetShardRequest ''cli'' (json_GetShardRequest \<lparr>gsq_ShardID = ''a''\<rparr>)
      (node_key (demo_server 10)) = Inr get_msg"
    using Encode_get_ok by blast
  have pre: "in_int64 5" "utf8_valid ''cli''" "utf8_valid ''a''" by (simp_all add: in_int64_def utf8_valid_ascii)
  have key: "node_key (demo_server 10) = bytes_of_string ''k''" by (simp add: demo_server_def)
  from node_stores_and_returns [OF ser_codec_ok demo_server_ok pre(1,1,1) pre(2,3,3) put(1) get put(2)] put(2,3) show ?thesis
    by (simp add: key) blast
qed

text \<open>
  C35: without the key nothing happens. If no envelope that can be read from a request's body
  carries the HMAC of its fields under the node's key, both shard routes answer 401 and the node
  stays as it was, whatever the body asks for.
\<close>
theorem node_needs_key:
  assumes "path \<in> {''/shards'', ''/shards/get''}"
    and "\<And>v env. json_unmarshal jc body = Some v \<Longrightarrow> dec_struct put_MessageEnvelope zero_MessageEnvelope v = Some env \<Longrightarrow>
           env_MAC env \<noteq> calculateMAC (env_Type env) (env_NodeID env) (env_Timestamp env) (env_Payload env) (node_key s)"
  shows "node_routes jc now ''POST'' path (Some body) s = Some (http_error ''authentication failed'' StatusUnauthorized, s)"
proof -
  obtain e where "Decode jc body (node_key s) = Inl e"
    using assms(2) by (fastforce simp: Decode_def split: option.splits)
  with assms(1) show ?thesis by (auto simp: node_routes_def handlePut_def handleGet_def)
qed

text \<open>
  A well-formed request to store two bytes that the node has room for, with a MAC that is the right
  one in all bits but those of its first byte: it is refused, and sealed properly it is accepted.
\<close>
lemma node_needs_key_witness:
  "\<exists>env msg r s'. node_routes ser_codec 5 ''POST'' ''/shards'' (Some (json_marshal ser_codec (json_MessageEnvelope
         (env\<lparr>env_MAC := (hd (env_MAC env) + 1) # tl (env_MAC env)\<rparr>)))) (demo_server 10)
       = Some (http_error ''authentication failed'' StatusUnauthorized, demo_server 10)
     \<and> Decode ser_codec msg (node_key (demo_server 10)) = Inr env
     \<and> node_routes ser_codec 5 ''POST'' ''/shards'' (Some msg) (demo_server 10) = Some (http_ok r, s')
     \<and> holds s' = [''a'' \<mapsto> [1, 2]]"
proof -
  let ?s = "demo_server 10"
  let ?body = "json_PutShardRequest \<lparr>psq_ShardID = ''a'', psq_Data = [1, 2]\<rparr>"
  let ?env = "sealed_env ser_codec 5 TypePutShardRequest ''cli'' ?body (node_key ?s)"
  let ?bad = "?env\<lparr>env_MAC := (hd (env_MAC ?env) + 1) # tl (env_MAC ?env)\<rparr>"
  have pre: "in_int64 5" "utf8_valid ''cli''" by (simp_all add: in_int64_def utf8_valid_ascii)
  obtain msg r s' where put: "Encode ser_codec 5 TypePutShardRequest ''cli'' ?body (node_key ?s) = Inr msg"
    "handlePut ser_codec 5 (Some msg) ?s = (http_ok r, s')" "holds s' = [''a'' \<mapsto> [1, 2]]"
    using demo_put [of "[1, 2]" 10 "''a''"] by (auto simp: in_int64_def utf8_valid_ascii)
  from Encode_Decode_env [OF ser_codec_ok pre, of TypePutShardRequest ?body "node_key ?s"] put(1)
  have opens: "Decode ser_codec msg (node_key ?s) = Inr ?env" by (auto simp: message_types)
  have fields: "0 \<le> env_Type ?env \<and> env_Type ?env < 256" "env_NodeID ?env = ''cli''" "env_Timestamp ?env = 5"
    "length (env_MAC ?env) = 32"
    by (simp_all add: sealed_env_def message_types)
  have mac: "env_MAC ?env = calculateMAC (env_Type ?env) (env_NodeID ?env) (env_Timestamp ?env) (env_Payload ?env) (node_key ?s)"
    by (rule Decode_MAC [OF opens])
  have wrong: "x \<noteq> (hd x + 1) # tl x" for x :: bytes by (cases x) simp_all
  have "json_unmarshal ser_codec (json_marshal ser_codec (json_MessageEnvelope ?bad)) = Some (json_MessageEnvelope ?bad)"
    by (intro json_codec_okD(1) [OF ser_codec_ok] json_ok_MessageEnvelope) (simp add: fields(2) utf8_valid_ascii)
  moreover have "dec_struct put_MessageEnvelope zero_MessageEnvelope (json_MessageEnvelope ?bad) = Some ?bad"
    by (intro dec_MessageEnvelope) (simp_all add: fields in_int64_def utf8_valid_ascii)
  moreover have "env_MAC ?bad \<noteq> calculateMAC (env_Type ?bad) (env_NodeID ?bad) (env_Timestamp ?bad) (env_Payload ?bad) (node_key ?s)"
    using wrong [of "env_MAC ?env"] mac by simp
  ultimately have "node_routes ser_codec 5 ''POST'' ''/shards'' (Some (json_marshal ser_codec (json_MessageEnvelope ?bad))) ?s
      = Some (http_error ''authentication failed'' StatusUnauthorized, ?s)"
    by (intro node_needs_key) auto
  moreover have "node_routes ser_codec 5 ''POST'' ''/shards'' (Some msg) ?s = Some (http_ok r, s')"
    by (simp add: node_routes_def put(2))
  ultimately show ?thesis using opens put(3) by blast
qed

text \<open>
  C39: the type of a message is signed but never looked at. A signed request for a shard that is
  sent to the route that stores is taken for a request to store no bytes: the node answers 200
  and the shard is gone.
\<close>
theorem get_request_erases_shard:
  assumes "json_codec_ok jc" "server_ok s" "in_int64 t" "utf8_valid client" "utf8_valid i"
    and "Encode jc t TypeGetShardRequest client (json_GetShardRequest \<lparr>gsq_ShardID = i\<rparr>) (node_key s) = Inr msg"
    and "storageUsed s \<le> nc_StorageAllocated (sv_cfg s)"
    and "\<exists>d. bb_update (db_ops (sv_db s)) (db_file (sv_db s)) [(bucketShards, i, [])] = Inr d"
  shows "\<exists>r s'. handlePut jc now (Some msg) s = (r, s') \<and> rs_status r = StatusOK \<and> holds s' = (holds s)(i \<mapsto> [])"
proof -
  let ?env = "sealed_env jc t TypeGetShardRequest client (json_GetShardRequest \<lparr>gsq_ShardID = i\<rparr>) (node_key s)"
  have "Decode jc msg (node_key s) = Inr ?env"
    using Encode_Decode_env [OF assms(1,3,4), of TypeGetShardRequest "json_GetShardRequest \<lparr>gsq_ShardID = i\<rparr>" "node_key s"] assms(6)
    by (auto simp: message_types)
  moreover have "json_unmarshal jc (json_marshal jc (json_GetShardRequest \<lparr>gsq_ShardID = i\<rparr>)) = Some (json_GetShardRequest \<lparr>gsq_ShardID = i\<rparr>)"
    using assms(5) by (intro json_codec_okD(1) [OF assms(1)] struct_codec_json_ok [OF codec_GetShardRequest]) simp
  then have "UnmarshalBody jc put_PutShardRequest zero_PutShardRequest ?env = Inr \<lparr>psq_ShardID = i, psq_Data = []\<rparr>"
    by (simp add: UnmarshalBody_def sealed_env_def json_GetShardRequest_def put_PutShardRequest_def
        zero_PutShardRequest_def dec_struct_def)
  moreover have "quota_allows s \<lparr>psq_ShardID = i, psq_Data = []\<rparr>"
    using assms(7) by (simp add: quota_allows_def)
  ultimately show ?thesis
    using handlePut_accepts [OF assms(2), of jc msg ?env "\<lparr>psq_ShardID = i, psq_Data = []\<rparr>" _ now] assms(8) by fastforce
qed

lemma get_request_erases_shard_witness:
  "\<exists>msg r s'. Encode ser_codec 5 TypeGetShardRequest ''cli'' (json_GetShardRequest \<lparr>gsq_ShardID = ''a''\<rparr>) (bytes_of_string ''k'') = Inr msg
     \<and> handlePut ser_codec 5 (Some msg) (demo_server 10) = (r, s') \<and> holds s' ''a'' = Some []"
proof -
  obtain msg where msg: "Encode ser_codec 5 TypeGetShardRequest ''cli'' (json_GetShardRequest \<lparr>gsq_ShardID = ''a''\<rparr>) (node_key (demo_server 10)) = Inr msg"
    using Encode_get_ok by blast
  have "\<exists>d. bb_update (db_ops (sv_db (demo_server 10))) (db_file (sv_db (demo_server 10))) [(bucketShards, ''a'', [])] = Inr d"
    by (simp add: demo_server_def alist_bolt_def)
  from get_request_erases_shard [OF ser_codec_ok demo_server_ok _ _ _ msg _ this, of 5] msg show ?thesis
    by (auto simp: in_int64_def utf8_valid_ascii demo_server_used) (auto simp: demo_server_def)
qed

text \<open>
  A shard that is written again counts twice against the quota: a node whose quota is used up
  refuses to store the very bytes it already holds.
\<close>
theorem rewrite_counts_twice:
  assumes "json_codec_ok jc" "within_quota s" "in_int64 t" "utf8_valid client" "utf8_valid i"
    and "Encode jc t TypePutShardRequest client (json_PutShardRequest \<lparr>psq_ShardID = i, psq_Data = d\<rparr>) (node_key s) = Inr msg"
    and "holds s i = Some d" "d \<noteq> []" "held_bytes (holds s) = nc_StorageAllocated (sv_cfg s)"
  shows "handlePut jc now (Some msg) s = (http_error ''storage quota exceeded'' StatusInsufficientStorage, s)
    \<and> held_bytes ((holds s)(i \<mapsto> d)) = nc_StorageAllocated (sv_cfg s)"
proof -
  from assms(2) have ok: "server_ok s" and small: "nc_StorageAllocated (sv_cfg s) < 2 ^ 62" by (simp_all add: within_quota_def)
  have "receive jc put_PutShardRequest zero_PutShardRequest msg (node_key s) =
      Inr (sealed_env jc t TypePutShardRequest client (json_PutShardRequest \<lparr>psq_ShardID = i, psq_Data = d\<rparr>) (node_key s),
           \<lparr>psq_ShardID = i, psq_Data = d\<rparr>)"
    using receive_sealed [OF assms(1,3,4) _ _ codec_PutShardRequest, of TypePutShardRequest "\<lparr>psq_ShardID = i, psq_Data = d\<rparr>" "node_key s"]
      assms(5,6) by (auto simp: message_types)
  moreover have used: "storageUsed s = nc_StorageAllocated (sv_cfg s)"
    using storageUsed_held [OF ok] assms(9) small by simp
  have "int (length d) \<le> held_bytes (holds s)"
  proof -
    have "int (length (the (holds s i))) \<le> held_bytes (holds s)"
      unfolding held_bytes_def using assms(7) finite_holds [OF ok] by (intro member_le_sum) auto
    then show ?thesis by (simp add: assms(7))
  qed
  then have "in_int64 (storageUsed s + int (length d))"
    using assms(9) small used by (simp add: in_int64_def)
  then have "nc_StorageAllocated (sv_cfg s) < wrap64 (storageUsed s + int (length d))"
    using used assms(8) by simp
  ultimately have "handlePut jc now (Some msg) s = (http_error ''storage quota exceeded'' StatusInsufficientStorage, s)"
    by (auto simp: handlePut_def receive_def split: sum.splits)
  moreover have "(holds s)(i \<mapsto> d) = holds s" using assms(7) by auto
  ultimately show ?thesis using assms(9) by simp
qed

lemma rewrite_counts_twice_witness:
  "\<exists>msg r s'. handlePut ser_codec 5 (Some msg) (demo_server 2) = (http_ok r, s')
     \<and> handlePut ser_codec 5 (Some msg) s' = (http_error ''storage quota exceeded'' StatusInsufficientStorage, s')"
proof -
  obtain msg r s' where put: "Encode ser_codec 5 TypePutShardRequest ''cli'' (json_PutShardRequest \<lparr>psq_ShardID = ''a'', psq_Data = [1, 2]\<rparr>)
       (node_key (demo_server 2)) = Inr msg"
    "handlePut ser_codec 5 (Some msg) (demo_server 2) = (http_ok r, s')" "holds s' = [''a'' \<mapsto> [1, 2]]"
    using demo_put [of "[1, 2]" 2 "''a''"] by (auto simp: in_int64_def utf8_valid_ascii)
  have pre: "in_int64 5" "utf8_valid ''cli''" "utf8_valid ''a''" by (simp_all add: in_int64_def utf8_valid_ascii)
  from handlePut_cases [OF demo_server_ok put(2)] have s': "server_ok s'" "sv_cfg s' = sv_cfg (demo_server 2)" by simp_all
  have quota: "nc_StorageAllocated (sv_cfg s') = 2" by (simp add: s'(2)) (simp add: demo_server_def)
  have held: "held_bytes (holds s') = 2" by (simp add: put(3) held_bytes_def)
  have "within_quota s'" using s'(1) by (simp add: within_quota_def quota held)
  with rewrite_counts_twice [OF ser_codec_ok _ pre, of s' "[1, 2]" msg 5] put(1,3) quota held s'(2)
  have "handlePut ser_codec 5 (Some msg) s' = (http_error ''storage quota exceeded'' StatusInsufficientStorage, s')" by simp
  with put(2) show ?thesis by blast
qed

end
