(* ===== verification/Trackerd.thy ===== *)
theory Trackerd
  imports Liveness Http Config
begin

text \<open>
  \<open>cmd/trackerd/server.go\<close>: the tracker's HTTP server over its store. A handler takes the value of
  the header \<open>X-Aldea-Key\<close> (empty when it is absent) and the body, and returns the answer and the
  server after it. The answer is \<^const>\<open>None\<close> where the handler panics.
\<close>

record 'd trackerServer =
  ts_cfg :: TrackerConfig
  ts_store :: "'d Store"

definition newTrackerServer :: "'d bolt \<Rightarrow> TrackerConfig \<Rightarrow> tracker_err + 'd trackerServer" where
  "newTrackerServer B cfg =
     (case NewStore B (tc_DBPath cfg) of
        Inl e \<Rightarrow> Inl e
      | Inr st \<Rightarrow> Inr \<lparr>ts_cfg = cfg, ts_store = st\<rparr>)"

definition authenticated :: "string \<Rightarrow> 'd trackerServer \<Rightarrow> bool" where
  "authenticated key s \<longleftrightarrow> key = tc_NetworkKey (ts_cfg s)"

definition unauthorized :: response where
  "unauthorized = http_error ''unauthorized'' StatusUnauthorized"

definition writeJSON :: "json_codec \<Rightarrow> json \<Rightarrow> response" where
  "writeJSON jc v = http_ok (json_encode jc v)"

text \<open>\<open>err.Error()\<close>; the wording of an error of \<open>encoding/json\<close> is not modelled.\<close>

definition err_text :: "tracker_err \<Rightarrow> string" where
  "err_text e = (case e of
     ErrInsufficientNodes \<Rightarrow> ''insufficient healthy storage nodes available''
   | ErrFileNotFound \<Rightarrow> ''file placement metadata not found''
   | ErrDatabase t \<Rightarrow> t
   | ErrStoredJSON \<Rightarrow> ''invalid stored value'')"

definition handleRegisterNode ::
    "json_codec \<Rightarrow> string \<Rightarrow> bytes option \<Rightarrow> 'd trackerServer \<Rightarrow> response \<times> 'd trackerServer" where
  "handleRegisterNode jc key rbody s =
     (if \<not> authenticated key s then (unauthorized, s)
      else case rbody of
             None \<Rightarrow> (http_error ''failed to read body'' StatusBadRequest, s)
           | Some body \<Rightarrow>
               (case unmarshal_struct jc put_NodeMetadata zero_NodeMetadata body of
                  None \<Rightarrow> (http_error ''malformed node metadata'' StatusBadRequest, s)
                | Some node \<Rightarrow>
                    (case RegisterNode jc (ts_store s) node of
                       (Some _, st) \<Rightarrow> (http_error ''failed to register node'' StatusInternalServerError, s\<lparr>ts_store := st\<rparr>)
                     | (None, st) \<Rightarrow> (http_ok [], s\<lparr>ts_store := st\<rparr>))))"

definition handleListNodes :: "json_codec \<Rightarrow> string \<Rightarrow> 'd trackerServer \<Rightarrow> response" where
  "handleListNodes jc key s =
     (if \<not> authenticated key s then unauthorized
      else case ListNodes jc (ts_store s) of
             Inl _ \<Rightarrow> http_error ''failed to list nodes'' StatusInternalServerError
           | Inr nodes \<Rightarrow> writeJSON jc (enc_structs json_NodeMetadata nodes))"

record PlacementRequest =
  pr_Count :: int
  pr_RequiredSpace :: int

definition put_PlacementRequest :: "string \<Rightarrow> json \<Rightarrow> PlacementRequest \<Rightarrow> PlacementRequest option" where
  "put_PlacementRequest k v r =
     (if field_is ''count'' k then map_option (\<lambda>i. r\<lparr>pr_Count := i\<rparr>) (dec_int64 v (pr_Count r))
      else if field_is ''required_space'' k then map_option (\<lambda>i. r\<lparr>pr_RequiredSpace := i\<rparr>) (dec_int64 v (pr_RequiredSpace r))
      else Some r)"

definition zero_PlacementRequest :: PlacementRequest where
  "zero_PlacementRequest = \<lparr>pr_Count = 0, pr_RequiredSpace = 0\<rparr>"

definition handleSelectPlacement ::
    "((NodeMetadata \<Rightarrow> NodeMetadata \<Rightarrow> bool) \<Rightarrow> NodeMetadata list \<Rightarrow> NodeMetadata list) \<Rightarrow> json_codec \<Rightarrow> string
      \<Rightarrow> bytes \<Rightarrow> 'd trackerServer \<Rightarrow> response option" where
  "handleSelectPlacement sort_slice jc key body s =
     (if \<not> authenticated key s then Some unauthorized
      else case Option.bind (json_decode jc body) (dec_struct put_PlacementRequest zero_PlacementRequest) of
             None \<Rightarrow> Some (http_error ''malformed request'' StatusBadRequest)
           | Some req \<Rightarrow>
               (case SelectPlacementNodes sort_slice jc (ts_store s) (pr_Count req) (pr_RequiredSpace req) of
                  None \<Rightarrow> None
                | Some (Inl e) \<Rightarrow> Some (http_error (err_text e) StatusConflict)
                | Some (Inr nodes) \<Rightarrow> Some (writeJSON jc (enc_structs json_NodeMetadata nodes))))"

text \<open>The file and placements, as \<open>POST /files\<close> takes them and \<open>GET /files/{id}\<close> gives them.\<close>

definition put_file_entry :: "string \<Rightarrow> json \<Rightarrow> file_entry \<Rightarrow> file_entry option" where
  "put_file_entry k v r =
     (if field_is ''file'' k then map_option (\<lambda>f. (f, snd r)) (dec_struct put_FileMetadata (fst r) v)
      else if field_is ''placements'' k
        then map_option (\<lambda>ps. (fst r, ps)) (dec_structs put_ShardPlacement zero_ShardPlacement v)
      else Some r)"

definition zero_file_entry :: file_entry where
  "zero_file_entry = (zero_FileMetadata, [])"

definition json_file_entry :: "file_entry \<Rightarrow> json" where
  "json_file_entry e =
     JObj [(''file'', json_FileMetadata (fst e)), (''placements'', enc_structs json_ShardPlacement (snd e))]"

definition handleSaveFilePlacement ::
    "json_codec \<Rightarrow> string \<Rightarrow> bytes \<Rightarrow> 'd trackerServer \<Rightarrow> response \<times> 'd trackerServer" where
  "handleSaveFilePlacement jc key body s =
     (if \<not> authenticated key s then (unauthorized, s)
      else case Option.bind (json_decode jc body) (dec_struct put_file_entry zero_file_entry) of
             None \<Rightarrow> (http_error ''malformed request'' StatusBadRequest, s)
           | Some (f, placements) \<Rightarrow>
               (case SaveFilePlacement jc (ts_store s) f placements of
                  (Some _, st) \<Rightarrow> (http_error ''failed to save placement'' StatusInternalServerError, s\<lparr>ts_store := st\<rparr>)
                | (None, st) \<Rightarrow> (http_ok [], s\<lparr>ts_store := st\<rparr>)))"

definition handleGetFilePlacement :: "json_codec \<Rightarrow> string \<Rightarrow> string \<Rightarrow> 'd trackerServer \<Rightarrow> response" where
  "handleGetFilePlacement jc key fileID s =
     (if \<not> authenticated key s then unauthorized
      else case GetFilePlacement jc (ts_store s) fileID of
             Inl e \<Rightarrow> http_error (err_text e) StatusNotFound
           | Inr entry \<Rightarrow> writeJSON jc (json_file_entry entry))"

text \<open>The requests the mux dispatches, and what each does.\<close>

datatype tracker_request =
    PostNodes "bytes option"
  | GetNodes
  | PostPlacement bytes
  | PostFiles bytes
  | GetFile string

definition tracker_routes ::
    "((NodeMetadata \<Rightarrow> NodeMetadata \<Rightarrow> bool) \<Rightarrow> NodeMetadata list \<Rightarrow> NodeMetadata list) \<Rightarrow> json_codec \<Rightarrow> string
      \<Rightarrow> tracker_request \<Rightarrow> 'd trackerServer \<Rightarrow> response option \<times> 'd trackerServer" where
  "tracker_routes sort_slice jc key req s =
     (case req of
        PostNodes b \<Rightarrow> map_prod Some id (handleRegisterNode jc key b s)
      | GetNodes \<Rightarrow> (Some (handleListNodes jc key s), s)
      | PostPlacement b \<Rightarrow> (handleSelectPlacement sort_slice jc key b s, s)
      | PostFiles b \<Rightarrow> map_prod Some id (handleSaveFilePlacement jc key b s)
      | GetFile i \<Rightarrow> (Some (handleGetFilePlacement jc key i s), s))"

section \<open>What is read from a request is well-formed\<close>

lemma dec_string_utf8: "dec_string v old = Some s \<Longrightarrow> json_utf8 v \<Longrightarrow> utf8_valid old \<Longrightarrow> utf8_valid s"
  by (auto simp: dec_string_def split: json.splits)

lemma dec_int64_int64: "dec_int64 v old = Some i \<Longrightarrow> in_int64 old \<Longrightarrow> in_int64 i"
  by (auto simp: dec_int64_def split: json.splits if_splits)

lemma put_NodeMetadata_ok:
  "node_ok n \<Longrightarrow> json_utf8 v \<Longrightarrow> put_NodeMetadata k v n = Some n' \<Longrightarrow> node_ok n'"
  by (auto simp: put_NodeMetadata_def node_ok_def intro: dec_string_utf8 dec_int64_int64 split: if_splits)

lemma put_FileMetadata_ok:
  "file_ok f \<Longrightarrow> json_utf8 v \<Longrightarrow> put_FileMetadata k v f = Some f' \<Longrightarrow> file_ok f'"
  by (auto simp: put_FileMetadata_def file_ok_def intro: dec_string_utf8 dec_int64_int64 split: if_splits)

lemma put_ShardPlacement_ok:
  "placement_ok p \<Longrightarrow> json_utf8 v \<Longrightarrow> put_ShardPlacement k v p = Some p' \<Longrightarrow> placement_ok p'"
  by (auto simp: put_ShardPlacement_def placement_ok_def intro: dec_string_utf8 dec_int64_int64 split: if_splits)

lemma zero_ok [simp]: "node_ok zero_NodeMetadata" "file_ok zero_FileMetadata" "placement_ok zero_ShardPlacement"
  by (simp_all add: node_ok_def file_ok_def placement_ok_def zero_NodeMetadata_def zero_FileMetadata_def
      zero_ShardPlacement_def in_int64_def utf8_valid_ascii)

lemma dec_list_all: "dec_list f vs = Some rs \<Longrightarrow> (\<And>v r. v \<in> set vs \<Longrightarrow> f v = Some r \<Longrightarrow> P r) \<Longrightarrow> list_all P rs"
proof (induction vs arbitrary: rs)
  case (Cons v vs)
  from Cons.prems(1) obtain r rs' where "f v = Some r" "dec_list f vs = Some rs'" "rs = r # rs'"
    by (auto split: option.splits)
  moreover from this have "P r" by (intro Cons.prems(2) [of v]) simp_all
  moreover have "list_all P rs'" if "dec_list f vs = Some rs'"
    by (rule Cons.IH [OF that]) (auto intro: Cons.prems(2))
  ultimately show ?case by simp
qed simp

lemma dec_placements_ok:
  "dec_structs put_ShardPlacement zero_ShardPlacement v = Some ps \<Longrightarrow> json_utf8 v \<Longrightarrow> list_all placement_ok ps"
  by (auto simp: dec_structs_def list_all_iff split: json.splits
      elim!: dec_list_all [where P = placement_ok, THEN list_all_iff [THEN iffD1], THEN bspec]
      intro: dec_struct_keeps [where P = placement_ok, OF _ _ zero_ok(3) put_ShardPlacement_ok])

lemma put_file_entry_ok:
  "entry_ok e \<Longrightarrow> json_utf8 v \<Longrightarrow> put_file_entry k v e = Some e' \<Longrightarrow> entry_ok e'"
  by (auto simp: put_file_entry_def entry_ok_def split: if_splits
      intro: dec_struct_keeps [where P = file_ok, OF _ _ _ put_FileMetadata_ok] dec_placements_ok)

lemma entry_ok_zero [simp]: "entry_ok zero_file_entry"
  by (simp add: entry_ok_def zero_file_entry_def)

lemma node_read_ok:
  assumes "json_codec_ok jc" "unmarshal_struct jc put_NodeMetadata zero_NodeMetadata b = Some n"
  shows "node_ok n"
proof -
  from assms(2) obtain v where v: "json_unmarshal jc b = Some v" "dec_struct put_NodeMetadata zero_NodeMetadata v = Some n"
    by (auto simp: unmarshal_struct_def bind_eq_Some_conv)
  show ?thesis
    by (rule dec_struct_keeps [where P = node_ok, OF v(2) json_codec_utf8(1) [OF assms(1) v(1)] zero_ok(1)])
      (rule put_NodeMetadata_ok)
qed

lemma entry_read_ok:
  assumes "json_codec_ok jc" "Option.bind (json_decode jc b) (dec_struct put_file_entry zero_file_entry) = Some e"
  shows "entry_ok e"
proof -
  from assms(2) obtain v where v: "json_decode jc b = Some v" "dec_struct put_file_entry zero_file_entry v = Some e"
    by (auto simp: bind_eq_Some_conv)
  show ?thesis
    by (rule dec_struct_keeps [where P = entry_ok, OF v(2) json_codec_utf8(2) [OF assms(1) v(1)] entry_ok_zero])
      (rule put_file_entry_ok)
qed

section \<open>The handlers and the store\<close>

text \<open>A handler leaves the store as it was, or as one store operation leaves it.\<close>

lemma handleRegisterNode_store:
  "snd (handleRegisterNode jc key b s) = s
   \<or> (\<exists>body n. unmarshal_struct jc put_NodeMetadata zero_NodeMetadata body = Some n
        \<and> snd (handleRegisterNode jc key b s) = s\<lparr>ts_store := snd (RegisterNode jc (ts_store s) n)\<rparr>)"
proof (cases "authenticated key s \<and> b \<noteq> None \<and> unmarshal_struct jc put_NodeMetadata zero_NodeMetadata (the b) \<noteq> None")
  case True
  then obtain body n where b: "authenticated key s" "b = Some body"
    "unmarshal_struct jc put_NodeMetadata zero_NodeMetadata body = Some n" by auto
  then have "snd (handleRegisterNode jc key b s) = s\<lparr>ts_store := snd (RegisterNode jc (ts_store s) n)\<rparr>"
    by (cases "RegisterNode jc (ts_store s) n"; cases "fst (RegisterNode jc (ts_store s) n)")
      (simp_all add: handleRegisterNode_def)
  with b(3) show ?thesis by blast
next
  case False
  then have "snd (handleRegisterNode jc key b s) = s"
    by (cases b) (auto simp: handleRegisterNode_def)
  then show ?thesis ..
qed

lemma handleSaveFilePlacement_store:
  "snd (handleSaveFilePlacement jc key b s) = s
   \<or> (\<exists>e. Option.bind (json_decode jc b) (dec_struct put_file_entry zero_file_entry) = Some e
        \<and> snd (handleSaveFilePlacement jc key b s) = s\<lparr>ts_store := snd (save_entry jc (ts_store s) e)\<rparr>)"
proof (cases "authenticated key s \<and> Option.bind (json_decode jc b) (dec_struct put_file_entry zero_file_entry) \<noteq> None")
  case True
  then obtain f ps where b: "authenticated key s"
    "Option.bind (json_decode jc b) (dec_struct put_file_entry zero_file_entry) = Some (f, ps)" by auto
  then have "snd (handleSaveFilePlacement jc key b s) = s\<lparr>ts_store := snd (save_entry jc (ts_store s) (f, ps))\<rparr>"
    by (cases "SaveFilePlacement jc (ts_store s) f ps"; cases "fst (SaveFilePlacement jc (ts_store s) f ps)")
      (simp_all add: handleSaveFilePlacement_def save_entry_def)
  with b(2) show ?thesis by blast
next
  case False
  then have "snd (handleSaveFilePlacement jc key b s) = s"
    by (cases "Option.bind (json_decode jc b) (dec_struct put_file_entry zero_file_entry)")
      (auto simp: handleSaveFilePlacement_def)
  then show ?thesis ..
qed

lemma tracker_routes_keeps:
  assumes "store_ok jc (ts_store s)" "tracker_routes srt jc key req s = (r, s')"
  shows "store_ok jc (ts_store s') \<and> ts_cfg s' = ts_cfg s"
proof (cases req)
  case (PostNodes b)
  then have "s' = snd (handleRegisterNode jc key b s)"
    using assms(2) by (cases "handleRegisterNode jc key b s") (simp add: tracker_routes_def)
  with handleRegisterNode_store [of jc key b s]
  consider "s' = s" | body n where "unmarshal_struct jc put_NodeMetadata zero_NodeMetadata body = Some n"
    "s' = s\<lparr>ts_store := snd (RegisterNode jc (ts_store s) n)\<rparr>" by auto
  then show ?thesis
    using assms(1) tracker.register_keeps [OF assms(1)] node_read_ok [OF store_okD(1) [OF assms(1)]]
    by cases auto
next
  case (PostFiles b)
  then have "s' = snd (handleSaveFilePlacement jc key b s)"
    using assms(2) by (cases "handleSaveFilePlacement jc key b s") (simp add: tracker_routes_def)
  with handleSaveFilePlacement_store [of jc key b s]
  consider "s' = s" | e where "Option.bind (json_decode jc b) (dec_struct put_file_entry zero_file_entry) = Some e"
    "s' = s\<lparr>ts_store := snd (save_entry jc (ts_store s) e)\<rparr>" by blast
  then show ?thesis
  proof cases
    case (2 e)
    with tracker.save_keeps [OF assms(1) entry_read_ok [OF store_okD(1) [OF assms(1)] 2(1)]] show ?thesis by simp
  qed (use assms(1) in simp)
qed (use assms in \<open>simp_all add: tracker_routes_def\<close>)

section \<open>Requests in sequence\<close>

primrec tracker_serve ::
    "((NodeMetadata \<Rightarrow> NodeMetadata \<Rightarrow> bool) \<Rightarrow> NodeMetadata list \<Rightarrow> NodeMetadata list) \<Rightarrow> json_codec
      \<Rightarrow> (string \<times> tracker_request) list \<Rightarrow> 'd trackerServer \<Rightarrow> response option list \<times> 'd trackerServer" where
  "tracker_serve srt jc [] s = ([], s)"
| "tracker_serve srt jc (q # qs) s =
     (case tracker_routes srt jc (fst q) (snd q) s of
        (r, s1) \<Rightarrow> (case tracker_serve srt jc qs s1 of (rs, s2) \<Rightarrow> (r # rs, s2)))"

lemma tracker_serve_induct:
  assumes "tracker_serve srt jc qs s = (rs, s')" "P s"
    and "\<And>q s r s'. q \<in> set qs \<Longrightarrow> P s \<Longrightarrow> tracker_routes srt jc (fst q) (snd q) s = (r, s') \<Longrightarrow> P s'"
  shows "P s'"
  using assms
proof (induction qs arbitrary: s rs)
  case (Cons q qs)
  obtain r s1 where one: "tracker_routes srt jc (fst q) (snd q) s = (r, s1)" by fastforce
  with Cons.prems(1) obtain rs1 where rest: "tracker_serve srt jc qs s1 = (rs1, s')"
    by (cases "tracker_serve srt jc qs s1") auto
  show ?case
  proof (rule Cons.IH [OF rest])
    show "P s1" by (rule Cons.prems(3) [OF _ Cons.prems(2) one]) simp
    show "P s'" if "q' \<in> set qs" "P s" "tracker_routes srt jc (fst q') (snd q') s = (r, s')" for q' s r s'
      by (rule Cons.prems(3) [OF _ that(2,3)]) (use that(1) in simp)
  qed
qed simp

lemma tracker_serve_keeps:
  assumes "store_ok jc (ts_store s)" "tracker_serve srt jc qs s = (rs, s')"
  shows "store_ok jc (ts_store s') \<and> ts_cfg s' = ts_cfg s"
  by (rule tracker_serve_induct [OF assms(2)]) (use assms(1) tracker_routes_keeps in fastforce)+

text \<open>Whether a request would save a file under this identifier.\<close>

definition saves_file :: "json_codec \<Rightarrow> string \<Rightarrow> tracker_request \<Rightarrow> bool" where
  "saves_file jc i req =
     (case req of
        PostFiles b \<Rightarrow>
          (case Option.bind (json_decode jc b) (dec_struct put_file_entry zero_file_entry) of
             None \<Rightarrow> False | Some e \<Rightarrow> entry_id e = i)
      | _ \<Rightarrow> False)"

lemma tracker_routes_file:
  assumes "store_ok jc (ts_store s)" "tracker_routes srt jc key req s = (r, s')" "\<not> saves_file jc i req"
  shows "file_at jc (ts_store s') i = file_at jc (ts_store s) i"
proof (cases req)
  case (PostNodes b)
  then have s': "s' = snd (handleRegisterNode jc key b s)"
    using assms(2) by (cases "handleRegisterNode jc key b s") (simp add: tracker_routes_def)
  from handleRegisterNode_store [of jc key b s] show ?thesis
  proof
    assume "\<exists>body n. unmarshal_struct jc put_NodeMetadata zero_NodeMetadata body = Some n
      \<and> snd (handleRegisterNode jc key b s) = s\<lparr>ts_store := snd (RegisterNode jc (ts_store s) n)\<rparr>"
    then obtain n st e where n: "node_ok n" "RegisterNode jc (ts_store s) n = (e, st)" "s' = s\<lparr>ts_store := st\<rparr>"
      using node_read_ok [OF store_okD(1) [OF assms(1)]] s' by (metis surjective_pairing)
    with RegisterNode_law [OF assms(1) n(1,2)] show ?thesis by simp
  qed (use s' in simp)
next
  case (PostFiles b)
  then have s': "s' = snd (handleSaveFilePlacement jc key b s)"
    using assms(2) by (cases "handleSaveFilePlacement jc key b s") (simp add: tracker_routes_def)
  from handleSaveFilePlacement_store [of jc key b s] show ?thesis
  proof
    assume "\<exists>e. Option.bind (json_decode jc b) (dec_struct put_file_entry zero_file_entry) = Some e
      \<and> snd (handleSaveFilePlacement jc key b s) = s\<lparr>ts_store := snd (save_entry jc (ts_store s) e)\<rparr>"
    then obtain e st x where e: "Option.bind (json_decode jc b) (dec_struct put_file_entry zero_file_entry) = Some e"
      "save_entry jc (ts_store s) e = (x, st)" "s' = s\<lparr>ts_store := st\<rparr>"
      using s' by (metis surjective_pairing)
    with assms(3) PostFiles have "entry_id e \<noteq> i" by (simp add: saves_file_def)
    with save_entry_law [OF assms(1) entry_read_ok [OF store_okD(1) [OF assms(1)] e(1)] e(2)] e(3)
    show ?thesis by auto
  qed (use s' in simp)
qed (use assms in \<open>simp_all add: tracker_routes_def\<close>)

lemma field_is_file [simp]:
  "field_is tag ''file'' \<longleftrightarrow> tag = ''file''" "field_is tag ''placements'' \<longleftrightarrow> tag = ''placements''"
  by (auto simp: field_is_def lower_def to_lower_def)

lemma file_entry_read:
  assumes "json_codec_ok jc" "entry_ok e"
  shows "Option.bind (json_decode jc (json_marshal jc (json_file_entry e))) (dec_struct put_file_entry zero_file_entry) = Some e"
    and "Option.bind (json_decode jc (json_encode jc (json_file_entry e))) (dec_struct put_file_entry zero_file_entry) = Some e"
proof -
  obtain f ps where e: "e = (f, ps)" by fastforce
  have f: "struct_codec json_FileMetadata put_FileMetadata zero_FileMetadata f"
    using assms(2) codec_FileMetadata by (simp add: e entry_ok_def)
  have ps: "struct_codec json_ShardPlacement put_ShardPlacement zero_ShardPlacement p" if "p \<in> set ps" for p
    using assms(2) that codec_ShardPlacement by (auto simp: e entry_ok_def list_all_iff)
  have "utf8_valid ''file''" "utf8_valid ''placements''" by (simp_all add: utf8_valid_ascii)
  with f enc_structs_json [of ps, OF ps] have "json_ok (json_file_entry e)"
    by (simp add: e json_file_entry_def json_ok_def struct_codec_def)
  moreover have "dec_struct put_file_entry zero_file_entry (json_file_entry e) = Some e"
    using struct_codec_dec [OF f] dec_structs_enc [of ps, OF ps]
    by (simp add: dec_struct_def [of put_file_entry] json_file_entry_def put_file_entry_def zero_file_entry_def e)
  ultimately show
    "Option.bind (json_decode jc (json_marshal jc (json_file_entry e))) (dec_struct put_file_entry zero_file_entry) = Some e"
    "Option.bind (json_decode jc (json_encode jc (json_file_entry e))) (dec_struct put_file_entry zero_file_entry) = Some e"
    using json_codec_okD(2,3) [OF assms(1)] by simp_all
qed

section \<open>Properties\<close>

text \<open>
  C11: the tracker's store stays consistent under any sequence of requests, whoever sends them and
  whatever their bodies: every record in it reads back under its own identifier, so the listing of
  the nodes is still answered, with every node once.
\<close>

theorem tracker_serves_consistently:
  assumes "store_ok jc (ts_store s)" "tracker_serve srt jc reqs s = (answers, s')"
    and "bb_view (db_ops (ts_store s')) (db_file (ts_store s')) = None"
  shows "store_ok jc (ts_store s')
    \<and> (\<exists>ns. tracker_routes srt jc (tc_NetworkKey (ts_cfg s)) GetNodes s'
              = (Some (writeJSON jc (enc_structs json_NodeMetadata ns)), s')
          \<and> distinct (map nm_NodeID ns)
          \<and> (\<forall>n. n \<in> set ns \<longleftrightarrow> node_at jc (ts_store s') (nm_NodeID n) = Some n))"
proof -
  note keeps = tracker_serve_keeps [OF assms(1,2)]
  then obtain ns where ns: "ListNodes jc (ts_store s') = Inr ns" using ListNodes_ok assms(3) by blast
  with keeps have "tracker_routes srt jc (tc_NetworkKey (ts_cfg s)) GetNodes s'
      = (Some (writeJSON jc (enc_structs json_NodeMetadata ns)), s')"
    by (simp add: tracker_routes_def handleListNodes_def authenticated_def)
  with keeps ListNodes_law [OF _ ns] show ?thesis by blast
qed

text \<open>
  A file posted is the file served: after \<open>POST /files\<close> was answered with 200, and after any
  further requests that do not save a file under the same identifier, \<open>GET /files/{id}\<close> answers
  200 with a body that reads back as exactly the metadata and placements that were posted.
\<close>

theorem PostFiles_GetFile:
  assumes "store_ok jc (ts_store s)" "entry_ok e"
    and "tracker_routes srt jc key (PostFiles (json_marshal jc (json_file_entry e))) s = (Some r, s1)" "rs_status r = StatusOK"
    and "tracker_serve srt jc reqs s1 = (answers, s2)" "list_all (\<lambda>q. \<not> saves_file jc (entry_id e) (snd q)) reqs"
    and "bb_view (db_ops (ts_store s2)) (db_file (ts_store s2)) = None"
  shows "\<exists>r'. tracker_routes srt jc key (GetFile (entry_id e)) s2 = (Some r', s2) \<and> rs_status r' = StatusOK
     \<and> Option.bind (json_decode jc (rs_body r')) (dec_struct put_file_entry zero_file_entry) = Some e"
proof -
  note codec = store_okD(1) [OF assms(1)]
  obtain x st where save: "SaveFilePlacement jc (ts_store s) (fst e) (snd e) = (x, st)" by fastforce
  have "handleSaveFilePlacement jc key (json_marshal jc (json_file_entry e)) s = (r, s1)"
    using assms(3) by (simp add: tracker_routes_def map_prod_def split: prod.splits)
  then have posted: "authenticated key s" "x = None" "s1 = s\<lparr>ts_store := st\<rparr>"
    using assms(4) save file_entry_read(1) [OF codec assms(2)]
    by (auto simp: handleSaveFilePlacement_def unauthorized_def http_status split: if_splits option.splits prod.splits)
  have s1: "store_ok jc (ts_store s1)" "file_at jc (ts_store s1) (entry_id e) = Some e" "ts_cfg s1 = ts_cfg s"
    using save_entry_law [OF assms(1,2), of x st] save posted(2,3) by (simp_all add: save_entry_def)
  have "store_ok jc (ts_store s2) \<and> ts_cfg s2 = ts_cfg s1 \<and> file_at jc (ts_store s2) (entry_id e) = Some e"
  proof (rule tracker_serve_induct [OF assms(5)])
    fix q s r s'
    assume q: "q \<in> set reqs"
      and IH: "store_ok jc (ts_store s) \<and> ts_cfg s = ts_cfg s1 \<and> file_at jc (ts_store s) (entry_id e) = Some e"
      and step: "tracker_routes srt jc (fst q) (snd q) s = (r, s')"
    from q assms(6) have "\<not> saves_file jc (entry_id e) (snd q)" by (simp add: list_all_iff)
    with IH tracker_routes_keeps [OF _ step] tracker_routes_file [OF _ step]
    show "store_ok jc (ts_store s') \<and> ts_cfg s' = ts_cfg s1 \<and> file_at jc (ts_store s') (entry_id e) = Some e" by simp
  qed (use s1 in simp)
  then have s2: "store_ok jc (ts_store s2)" "ts_cfg s2 = ts_cfg s" "file_at jc (ts_store s2) (entry_id e) = Some e"
    using s1(3) by simp_all
  have "tracker_routes srt jc key (GetFile (entry_id e)) s2 = (Some (writeJSON jc (json_file_entry e)), s2)"
    using posted(1) s2(2,3) GetFilePlacement_law(2) [OF s2(1) assms(7)]
    by (simp add: tracker_routes_def handleGetFilePlacement_def authenticated_def)
  with file_entry_read(2) [OF codec assms(2)] show ?thesis by (auto simp: writeJSON_def)
qed

text \<open>
  C36: without the network key nothing is read and nothing is changed: a request whose key is not
  the tracker's is answered 401 with the same text whatever it asks, and the server stays as it was.
\<close>

theorem tracker_needs_key:
  assumes "key \<noteq> tc_NetworkKey (ts_cfg s)"
  shows "tracker_routes srt jc key req s = (Some unauthorized, s) \<and> rs_status unauthorized = 401"
  using assms
  by (cases req) (simp_all add: tracker_routes_def authenticated_def handleRegisterNode_def handleListNodes_def
      handleSelectPlacement_def handleSaveFilePlacement_def handleGetFilePlacement_def unauthorized_def http_status)

section \<open>Witnesses\<close>

text \<open>The database's operations stay what they are.\<close>

lemma store_update_ops: "db_ops (snd (store_update s puts)) = db_ops s"
  by (simp add: store_update_def split: sum.split)

lemma tracker_serve_ops:
  assumes "tracker_serve srt jc qs s = (rs, s')"
  shows "db_ops (ts_store s') = db_ops (ts_store s)"
proof (rule tracker_serve_induct [OF assms])
  fix q s1 r s2
  assume "db_ops (ts_store s1) = db_ops (ts_store s)" and step: "tracker_routes srt jc (fst q) (snd q) s1 = (r, s2)"
  moreover have "db_ops (ts_store s2) = db_ops (ts_store s1)"
  proof (cases "snd q")
    case (PostNodes b)
    with step have "s2 = snd (handleRegisterNode jc (fst q) b s1)" by (auto simp: tracker_routes_def map_prod_def split: prod.splits)
    with handleRegisterNode_store [of jc "fst q" b s1] show ?thesis
      by (auto simp: RegisterNode_def store_update_ops)
  next
    case (PostFiles b)
    with step have "s2 = snd (handleSaveFilePlacement jc (fst q) b s1)" by (auto simp: tracker_routes_def map_prod_def split: prod.splits)
    with handleSaveFilePlacement_store [of jc "fst q" b s1] show ?thesis
      by (auto simp: save_entry_def SaveFilePlacement_def store_update_ops)
  qed (use step in \<open>simp_all add: tracker_routes_def\<close>)
  ultimately show "db_ops (ts_store s2) = db_ops (ts_store s)" by simp
qed simp

definition demo_tracker :: "(string \<Rightarrow> (string \<times> bytes) list) trackerServer" where
  "demo_tracker = \<lparr>ts_cfg = \<lparr>tc_ListenAddr = ''a'', tc_DBPath = ''p'', tc_NetworkKey = ''k''\<rparr>, ts_store = demo_store\<rparr>"

lemma demo_tracker_simps [simp]:
  "ts_store demo_tracker = demo_store" "tc_NetworkKey (ts_cfg demo_tracker) = ''k''"
  by (simp_all add: demo_tracker_def)

theorem tracker_serves_consistently_witness:
  "let s' = snd (tracker_serve sort_by ser_codec
       [(''k'', PostNodes (Some (json_marshal ser_codec (json_NodeMetadata (demo_node ''c'' 7))))), (''x'', PostNodes None)]
       demo_tracker)
   in store_ok ser_codec (ts_store s')
     \<and> (\<exists>ns. tracker_routes sort_by ser_codec ''k'' GetNodes s'
              = (Some (writeJSON ser_codec (enc_structs json_NodeMetadata ns)), s'))"
proof -
  let ?reqs = "[(''k'', PostNodes (Some (json_marshal ser_codec (json_NodeMetadata (demo_node ''c'' 7))))), (''x'', PostNodes None)]"
  obtain answers s' where run: "tracker_serve sort_by ser_codec ?reqs demo_tracker = (answers, s')" by fastforce
  have "bb_view (db_ops (ts_store s')) (db_file (ts_store s')) = None"
    using tracker_serve_ops [OF run] by (simp add: demo_ops)
  with tracker_serves_consistently [OF _ run] demo_store_ok run show ?thesis by auto
qed

theorem PostFiles_GetFile_witness:
  "\<exists>s2 r'. tracker_serve sort_by ser_codec
       [(''k'', PostFiles (json_marshal ser_codec (json_file_entry (zero_FileMetadata\<lparr>fm_FileID := ''f''\<rparr>, [zero_ShardPlacement])))),
        (''k'', GetNodes)] demo_tracker
         = ([Some (http_ok []), Some (handleListNodes ser_codec ''k'' s2)], s2)
     \<and> tracker_routes sort_by ser_codec ''k'' (GetFile ''f'') s2 = (Some r', s2) \<and> rs_status r' = StatusOK"
proof -
  let ?e = "(zero_FileMetadata\<lparr>fm_FileID := ''f''\<rparr>, [zero_ShardPlacement]) :: file_entry"
  let ?req = "PostFiles (json_marshal ser_codec (json_file_entry ?e))"
  obtain st where save: "SaveFilePlacement ser_codec demo_store (fst ?e) (snd ?e) = (None, st)"
    by (simp add: demo_store_def RegisterNode_def SaveFilePlacement_def store_update_def empty_store_def
        alist_bolt_def demo_node_def)
  have e: "entry_ok ?e" "entry_id ?e = ''f''"
    by (simp_all add: entry_ok_def entry_id_def file_ok_def placement_ok_def zero_FileMetadata_def
        zero_ShardPlacement_def in_int64_def utf8_valid_ascii)
  define s1 where "s1 = demo_tracker\<lparr>ts_store := st\<rparr>"
  have post: "tracker_routes sort_by ser_codec ''k'' ?req demo_tracker = (Some (http_ok []), s1)"
    using save file_entry_read(1) [OF ser_codec_ok e(1)]
    by (simp add: tracker_routes_def handleSaveFilePlacement_def authenticated_def s1_def)
  have get: "tracker_serve sort_by ser_codec [(''k'', GetNodes)] s1 = ([Some (handleListNodes ser_codec ''k'' s1)], s1)"
    by (simp add: tracker_routes_def)
  have run: "tracker_serve sort_by ser_codec [(''k'', ?req), (''k'', GetNodes)] demo_tracker
      = ([Some (http_ok []), Some (handleListNodes ser_codec ''k'' s1)], s1)"
    using post get by simp
  have "bb_view (db_ops (ts_store s1)) (db_file (ts_store s1)) = None"
    using tracker_serve_ops [OF run] by (simp add: demo_ops)
  with PostFiles_GetFile [OF _ e(1) post _ get] demo_store_ok e(2) have
    "\<exists>r'. tracker_routes sort_by ser_codec ''k'' (GetFile ''f'') s1 = (Some r', s1) \<and> rs_status r' = StatusOK"
    by (auto simp: saves_file_def)
  with run show ?thesis by blast
qed

theorem tracker_needs_key_witness:
  "tracker_routes sort_by ser_codec ''guess'' GetNodes demo_tracker = (Some unauthorized, demo_tracker)"
  using tracker_needs_key [of "''guess''" demo_tracker sort_by ser_codec GetNodes] by simp

end
