(* ===== verification/Invite.thy ===== *)
theory Invite
  imports JsonText Sha256
begin

text \<open>
  \<open>internal/invite/invite.go\<close>: invite tokens. A manager signs tokens with its key, and accepts a
  token when the signature fits, the token has not expired and it has uses left; it counts the
  uses by token identifier. The lock is held from the look at the counter to its increment, and
  nothing before it touches the counters, so a call is one step here. Times are nanoseconds.
\<close>

section \<open>Tokens\<close>

datatype invite_err =
    ErrTokenExpired
  | ErrTokenMaxUsesExceeded
  | ErrInvalidTokenSignature
  | ErrMalformedToken
  | ErrGeneratingTokenID

record InviteToken =
  it_TokenID :: string
  it_TrackerAddr :: string
  it_NetworkKey :: bytes
  it_ExpiresAt :: int
  it_MaxUses :: int
  it_MAC :: bytes

definition json_InviteToken :: "InviteToken \<Rightarrow> json" where
  "json_InviteToken t =
     JObj [(''token_id'', JStr (it_TokenID t)), (''tracker_addr'', JStr (it_TrackerAddr t)),
           (''network_key'', enc_bytes (it_NetworkKey t)), (''expires_at'', JInt (it_ExpiresAt t)),
           (''max_uses'', JInt (it_MaxUses t)), (''mac'', enc_bytes (it_MAC t))]"

definition put_InviteToken :: "string \<Rightarrow> json \<Rightarrow> InviteToken \<Rightarrow> InviteToken option" where
  "put_InviteToken k v t =
     (if field_is ''token_id'' k then map_option (\<lambda>s. t\<lparr>it_TokenID := s\<rparr>) (dec_string v (it_TokenID t))
      else if field_is ''tracker_addr'' k then map_option (\<lambda>s. t\<lparr>it_TrackerAddr := s\<rparr>) (dec_string v (it_TrackerAddr t))
      else if field_is ''network_key'' k then map_option (\<lambda>b. t\<lparr>it_NetworkKey := b\<rparr>) (dec_bytes v)
      else if field_is ''expires_at'' k then map_option (\<lambda>i. t\<lparr>it_ExpiresAt := i\<rparr>) (dec_int64 v (it_ExpiresAt t))
      else if field_is ''max_uses'' k then map_option (\<lambda>i. t\<lparr>it_MaxUses := i\<rparr>) (dec_int64 v (it_MaxUses t))
      else if field_is ''mac'' k then map_option (\<lambda>b. t\<lparr>it_MAC := b\<rparr>) (dec_bytes v)
      else Some t)"

definition zero_InviteToken :: InviteToken where
  "zero_InviteToken = \<lparr>it_TokenID = '''', it_TrackerAddr = '''', it_NetworkKey = [], it_ExpiresAt = 0,
     it_MaxUses = 0, it_MAC = []\<rparr>"

section \<open>The manager\<close>

record TokenManager =
  tm_signingKey :: bytes
  tm_usage :: "string \<Rightarrow> int option"

definition NewTokenManager :: "bytes \<Rightarrow> TokenManager" where
  "NewTokenManager signingKey = \<lparr>tm_signingKey = signingKey, tm_usage = Map.empty\<rparr>"

text \<open>What is hashed: \<open>"%s:%s:%d:%d:"\<close> and the network key.\<close>

definition token_text :: "InviteToken \<Rightarrow> bytes" where
  "token_text t =
     bytes_of_string (it_TokenID t @ '':'' @ it_TrackerAddr t @ '':'' @ show_int (it_ExpiresAt t) @ '':''
       @ show_int (it_MaxUses t) @ '':'') @ it_NetworkKey t"

definition computeMAC :: "TokenManager \<Rightarrow> InviteToken \<Rightarrow> bytes" where
  "computeMAC m t = hmac_sha256 (tm_signingKey m) (token_text t)"

definition unix :: "int \<Rightarrow> int" where
  "unix ns = ns div 1000000000"

text \<open>\<open>rnd\<close> is what \<open>rand.Read\<close> yields for the 16 bytes of an identifier, \<^const>\<open>None\<close> where it fails.\<close>

definition CreateToken ::
    "json_codec \<Rightarrow> bytes option \<Rightarrow> int \<Rightarrow> TokenManager \<Rightarrow> string \<Rightarrow> bytes \<Rightarrow> int \<Rightarrow> int \<Rightarrow> invite_err + string" where
  "CreateToken jc rnd now m trackerAddr networkKey ttl maxUses =
     (case rnd of
        None \<Rightarrow> Inl ErrGeneratingTokenID
      | Some idBytes \<Rightarrow>
          let expiresAt = (if ttl \<le> 0 then unix (now + ttl) else unix (now + ttl));
              tok = \<lparr>it_TokenID = hex_encode idBytes, it_TrackerAddr = trackerAddr, it_NetworkKey = networkKey,
                     it_ExpiresAt = expiresAt, it_MaxUses = maxUses, it_MAC = []\<rparr>;
              tok' = tok\<lparr>it_MAC := computeMAC m tok\<rparr>
          in Inr (''aldea1_'' @ b64_encode URLEncoding (json_marshal jc (json_InviteToken tok'))))"

text \<open>The counter of an identifier is made before the limit is checked.\<close>

definition use_token :: "TokenManager \<Rightarrow> InviteToken \<Rightarrow> (invite_err + InviteToken) \<times> TokenManager" where
  "use_token m tok =
     (let u = (case tm_usage m (it_TokenID tok) of None \<Rightarrow> 0 | Some u \<Rightarrow> u);
          m' = m\<lparr>tm_usage := (tm_usage m)(it_TokenID tok \<mapsto> u)\<rparr>
      in if 0 < it_MaxUses tok \<and> it_MaxUses tok \<le> u then (Inl ErrTokenMaxUsesExceeded, m')
         else (Inr tok, m'\<lparr>tm_usage := (tm_usage m')(it_TokenID tok \<mapsto> wrap64 (u + 1))\<rparr>))"

definition ValidateAndUse ::
    "json_codec \<Rightarrow> int \<Rightarrow> string \<Rightarrow> TokenManager \<Rightarrow> (invite_err + InviteToken) \<times> TokenManager" where
  "ValidateAndUse jc now tokenStr m =
     (if length tokenStr < 7 \<or> take 7 tokenStr \<noteq> ''aldea1_'' then (Inl ErrMalformedToken, m)
      else case b64_decode URLEncoding (drop 7 tokenStr) of
             None \<Rightarrow> (Inl ErrMalformedToken, m)
           | Some data \<Rightarrow>
               (case unmarshal_struct jc put_InviteToken zero_InviteToken data of
                  None \<Rightarrow> (Inl ErrMalformedToken, m)
                | Some tok \<Rightarrow>
                    if it_MAC tok \<noteq> computeMAC m tok then (Inl ErrInvalidTokenSignature, m)
                    else if it_ExpiresAt tok < unix now then (Inl ErrTokenExpired, m)
                    else use_token m tok))"

section \<open>Reading a token back\<close>

lemma invite_tags [simp]:
  "field_is tag ''token_id'' \<longleftrightarrow> tag = ''token_id''" "field_is tag ''tracker_addr'' \<longleftrightarrow> tag = ''tracker_addr''"
  "field_is tag ''network_key'' \<longleftrightarrow> tag = ''network_key''" "field_is tag ''expires_at'' \<longleftrightarrow> tag = ''expires_at''"
  "field_is tag ''max_uses'' \<longleftrightarrow> tag = ''max_uses''" "field_is tag ''mac'' \<longleftrightarrow> tag = ''mac''"
  by (auto simp: field_is_def lower_def to_lower_def)

lemma invite_tags_utf8 [simp]:
  "utf8_valid ''token_id''" "utf8_valid ''tracker_addr''" "utf8_valid ''network_key''" "utf8_valid ''expires_at''"
  "utf8_valid ''max_uses''" "utf8_valid ''mac''"
  by (simp_all add: utf8_valid_ascii)

definition token_ok :: "InviteToken \<Rightarrow> bool" where
  "token_ok t \<longleftrightarrow> utf8_valid (it_TokenID t) \<and> utf8_valid (it_TrackerAddr t)
     \<and> in_int64 (it_ExpiresAt t) \<and> in_int64 (it_MaxUses t)"

lemma codec_InviteToken: "token_ok t \<Longrightarrow> struct_codec json_InviteToken put_InviteToken zero_InviteToken t"
  by (simp add: struct_codec_def json_InviteToken_def put_InviteToken_def zero_InviteToken_def dec_struct_def token_ok_def)

text \<open>The text of a token, as anyone can write it.\<close>

definition encode_token :: "json_codec \<Rightarrow> InviteToken \<Rightarrow> string" where
  "encode_token jc t = ''aldea1_'' @ b64_encode URLEncoding (json_marshal jc (json_InviteToken t))"

lemma ValidateAndUse_encoded:
  assumes "json_codec_ok jc" "token_ok t"
  shows "ValidateAndUse jc now (encode_token jc t) m =
    (if it_MAC t \<noteq> computeMAC m t then (Inl ErrInvalidTokenSignature, m)
     else if it_ExpiresAt t < unix now then (Inl ErrTokenExpired, m)
     else use_token m t)"
  using unmarshal_marshal [OF assms(1) codec_InviteToken [OF assms(2)]]
  by (simp add: ValidateAndUse_def encode_token_def)

lemma computeMAC_MAC [simp]: "computeMAC m (t\<lparr>it_MAC := x\<rparr>) = computeMAC m t"
  by (simp add: computeMAC_def token_text_def)

lemma computeMAC_usage [simp]: "computeMAC (m\<lparr>tm_usage := u\<rparr>) t = computeMAC m t"
  by (simp add: computeMAC_def)

section \<open>Counting uses\<close>

definition uses :: "TokenManager \<Rightarrow> string \<Rightarrow> int" where
  "uses m i = (case tm_usage m i of None \<Rightarrow> 0 | Some u \<Rightarrow> u)"

lemma use_token_cases:
  "use_token m t = (r, m') \<Longrightarrow> tm_signingKey m' = tm_signingKey m \<and>
     (case r of
        Inl e \<Rightarrow> e = ErrTokenMaxUsesExceeded \<and> 0 < it_MaxUses t \<and> it_MaxUses t \<le> uses m (it_TokenID t) \<and> uses m' = uses m
      | Inr t' \<Rightarrow> t' = t \<and> (0 < it_MaxUses t \<longrightarrow> uses m (it_TokenID t) < it_MaxUses t)
          \<and> uses m' = (uses m)(it_TokenID t := wrap64 (uses m (it_TokenID t) + 1)))"
  by (auto simp: use_token_def uses_def fun_eq_iff Let_def split: if_splits option.splits)

lemma ValidateAndUse_cases:
  assumes "ValidateAndUse jc now str m = (r, m')"
  shows "tm_signingKey m' = tm_signingKey m \<and>
     (case r of
        Inl e \<Rightarrow> uses m' = uses m
      | Inr t \<Rightarrow> it_MAC t = computeMAC m t \<and> unix now \<le> it_ExpiresAt t
          \<and> (0 < it_MaxUses t \<longrightarrow> uses m (it_TokenID t) < it_MaxUses t)
          \<and> uses m' = (uses m)(it_TokenID t := wrap64 (uses m (it_TokenID t) + 1)))"
proof (cases "\<exists>tok. use_token m tok = (r, m') \<and> it_MAC tok = computeMAC m tok \<and> unix now \<le> it_ExpiresAt tok")
  case True
  then obtain tok where "use_token m tok = (r, m')" "it_MAC tok = computeMAC m tok" "unix now \<le> it_ExpiresAt tok" by blast
  with use_token_cases [OF this(1)] show ?thesis by (auto split: sum.splits)
next
  case False
  with assms have "m' = m \<and> \<not> is_ok r"
    by (auto simp: ValidateAndUse_def split: if_splits option.splits)
  then show ?thesis by (cases r) auto
qed

section \<open>What a token is good for\<close>

lemma bytes_of_string_utf8_hex [simp]: "utf8_valid (hex_encode bs)"
  using hex_encode_chars [of _ bs]
  by (intro utf8_valid_ascii) (fastforce simp: list_all_iff)

lemma CreateToken_encoded:
  "CreateToken jc (Some rnd) now m addr nk ttl k =
     Inr (encode_token jc ((\<lambda>t. t\<lparr>it_MAC := computeMAC m t\<rparr>)
       \<lparr>it_TokenID = hex_encode rnd, it_TrackerAddr = addr, it_NetworkKey = nk, it_ExpiresAt = unix (now + ttl),
        it_MaxUses = k, it_MAC = []\<rparr>))"
  by (simp add: CreateToken_def encode_token_def Let_def)

text \<open>
  C27: a token that \<open>CreateToken\<close> made is accepted by the manager that made it until it expires, as
  long as it has uses left: \<open>ValidateAndUse\<close> gives back the tracker address and the network key it
  was made with, and counts one use more of its identifier and of no other.
\<close>

theorem CreateToken_ValidateAndUse:
  assumes "json_codec_ok jc"
    and "utf8_valid addr" "in_int64 (unix (now + ttl))" "in_int64 k"
    and "CreateToken jc (Some rnd) now m addr nk ttl k = Inr str"
    and "tm_signingKey m' = tm_signingKey m"
    and "unix later \<le> unix (now + ttl)" "0 < k \<longrightarrow> uses m' (hex_encode rnd) < k"
  shows "\<exists>t m''. ValidateAndUse jc later str m' = (Inr t, m'') \<and> it_TrackerAddr t = addr \<and> it_NetworkKey t = nk
     \<and> uses m'' = (uses m')(hex_encode rnd := wrap64 (uses m' (hex_encode rnd) + 1))"
proof -
  define t where "t = (\<lambda>t. t\<lparr>it_MAC := computeMAC m t\<rparr>)
    \<lparr>it_TokenID = hex_encode rnd, it_TrackerAddr = addr, it_NetworkKey = nk, it_ExpiresAt = unix (now + ttl),
     it_MaxUses = k, it_MAC = []\<rparr>"
  have t: "token_ok t" "it_MAC t = computeMAC m' t" "it_TokenID t = hex_encode rnd" "it_ExpiresAt t = unix (now + ttl)"
    "it_MaxUses t = k"
    using assms(2-4,6) by (simp_all add: t_def token_ok_def computeMAC_def token_text_def)
  have str: "str = encode_token jc t" using assms(5) by (simp add: CreateToken_encoded t_def)
  obtain r m'' where "use_token m' t = (r, m'')" by fastforce
  moreover have "is_ok r"
    using assms(8) t(3,5) \<open>use_token m' t = (r, m'')\<close> by (auto simp: use_token_def uses_def Let_def split: if_splits)
  ultimately have run: "use_token m' t = (Inr t, m'')" "uses m'' = (uses m')(it_TokenID t := wrap64 (uses m' (it_TokenID t) + 1))"
    using use_token_cases [of m' t r m''] by (auto elim: is_okE)
  have "ValidateAndUse jc later str m' = (Inr t, m'')"
    using ValidateAndUse_encoded [OF assms(1) t(1), of later m'] t(2,4) assms(7) run(1) by (simp add: str)
  moreover have "it_TrackerAddr t = addr" "it_NetworkKey t = nk" by (simp_all add: t_def)
  ultimately show ?thesis using run(2) t(3) by auto
qed

theorem CreateToken_ValidateAndUse_witness:
  "\<exists>str t m''. CreateToken ser_codec (Some [1, 2]) 0 (NewTokenManager [9]) ''tracker'' [7] 5000000000 1 = Inr str
     \<and> ValidateAndUse ser_codec 4000000000 str (NewTokenManager [9]) = (Inr t, m'') \<and> it_NetworkKey t = [7]"
proof -
  let ?m = "NewTokenManager [9]"
  obtain str where str: "CreateToken ser_codec (Some [1, 2]) 0 ?m ''tracker'' [7] 5000000000 1 = Inr str"
    by (simp add: CreateToken_encoded)
  have "\<exists>t m''. ValidateAndUse ser_codec 4000000000 str ?m = (Inr t, m'') \<and> it_TrackerAddr t = ''tracker''
     \<and> it_NetworkKey t = [7] \<and> uses m'' = (uses ?m)(hex_encode [1, 2] := wrap64 (uses ?m (hex_encode [1, 2]) + 1))"
    by (rule CreateToken_ValidateAndUse [OF ser_codec_ok _ _ _ str])
      (simp_all add: utf8_valid_ascii unix_def in_int64_def uses_def NewTokenManager_def)
  with str show ?thesis by blast
qed

text \<open>A run of calls, each with its time and the text it is given; what each returned.\<close>

primrec validate_run ::
    "json_codec \<Rightarrow> (int \<times> string) list \<Rightarrow> TokenManager \<Rightarrow> (invite_err + InviteToken) list \<times> TokenManager" where
  "validate_run jc [] m = ([], m)"
| "validate_run jc (c # cs) m =
     (case ValidateAndUse jc (fst c) (snd c) m of
        (r, m1) \<Rightarrow> (case validate_run jc cs m1 of (rs, m2) \<Rightarrow> (r # rs, m2)))"

definition accepted :: "string \<Rightarrow> (invite_err + InviteToken) list \<Rightarrow> nat" where
  "accepted i rs = length (filter (\<lambda>r. case r of Inl _ \<Rightarrow> False | Inr t \<Rightarrow> it_TokenID t = i) rs)"

lemma accepted_simps [simp]:
  "accepted i [] = 0"
  "accepted i (Inl e # rs) = accepted i rs"
  "accepted i (Inr t # rs) = (if it_TokenID t = i then Suc (accepted i rs) else accepted i rs)"
  by (simp_all add: accepted_def)

text \<open>The counter never runs behind the calls that were accepted.\<close>

lemma validate_run_bound:
  assumes "fst (validate_run jc cs m) = pre @ Inr t # post"
    and "0 \<le> uses m (it_TokenID t)" "uses m (it_TokenID t) + int (length cs) < 2 ^ 63" "0 < it_MaxUses t"
  shows "uses m (it_TokenID t) + int (accepted (it_TokenID t) pre) < it_MaxUses t"
  using assms
proof (induction cs arbitrary: m pre)
  case (Cons c cs)
  obtain r m1 where r: "ValidateAndUse jc (fst c) (snd c) m = (r, m1)" by fastforce
  obtain rs m2 where rs: "validate_run jc cs m1 = (rs, m2)" by fastforce
  have whole: "r # rs = pre @ Inr t # post" using Cons.prems(1) by (simp add: r rs)
  note step = ValidateAndUse_cases [OF r]
  show ?case
  proof (cases pre)
    case Nil
    with whole step Cons.prems(4) show ?thesis by auto
  next
    case (Cons r' pre')
    then have pre: "pre = r # pre'" "rs = pre' @ Inr t # post" using whole by auto
    let ?i = "it_TokenID t"
    have one: "uses m1 ?i = uses m ?i + (case r of Inl _ \<Rightarrow> 0 | Inr t' \<Rightarrow> if it_TokenID t' = ?i then 1 else 0)"
      using step Cons.prems(2,3) by (auto simp: in_int64_def split: sum.splits)
    have "uses m1 ?i + int (accepted ?i pre') < it_MaxUses t"
      by (rule Cons.IH) (use Cons.prems one pre(2) rs in \<open>auto split: sum.splits if_splits\<close>)
    with one show ?thesis by (auto simp: pre(1) split: sum.splits if_splits)
  qed
qed simp

text \<open>
  C19: a token with a limit is not used more often than its limit: in any sequence of fewer than
  \<open>2^63\<close> calls of \<open>ValidateAndUse\<close>, of any texts and at any times, when a token with \<open>MaxUses > 0\<close> is
  accepted, fewer than \<open>MaxUses\<close> tokens with its identifier were accepted before.
\<close>

theorem ValidateAndUse_max_uses:
  assumes "fst (validate_run jc calls (NewTokenManager key)) = pre @ Inr t # post"
    and "length calls < 2 ^ 63" "0 < it_MaxUses t"
  shows "int (accepted (it_TokenID t) pre) < it_MaxUses t"
  using validate_run_bound [OF assms(1)] assms(2,3) by (simp add: uses_def NewTokenManager_def)

text \<open>A signed token that expires at second 10 and may be used \<open>k\<close> times.\<close>

definition demo_token :: "string \<Rightarrow> int \<Rightarrow> InviteToken" where
  "demo_token addr k = (\<lambda>t. t\<lparr>it_MAC := computeMAC (NewTokenManager [9]) t\<rparr>)
     \<lparr>it_TokenID = ''ab'', it_TrackerAddr = addr, it_NetworkKey = [7], it_ExpiresAt = 10, it_MaxUses = k, it_MAC = []\<rparr>"

lemma demo_token_ok:
  "list_all (\<lambda>c. (of_char c :: nat) < 128) addr \<Longrightarrow> in_int64 k \<Longrightarrow> token_ok (demo_token addr k)"
  by (simp add: demo_token_def token_ok_def utf8_valid_ascii in_int64_def)

lemma demo_token_fields [simp]:
  "it_TokenID (demo_token addr k) = ''ab''" "it_TrackerAddr (demo_token addr k) = addr"
  "it_ExpiresAt (demo_token addr k) = 10" "it_MaxUses (demo_token addr k) = k"
  by (simp_all add: demo_token_def)

lemma demo_token_use:
  assumes "list_all (\<lambda>c. (of_char c :: nat) < 128) addr" "in_int64 k" "tm_signingKey m = [9]"
  shows "ValidateAndUse ser_codec 0 (encode_token ser_codec (demo_token addr k)) m = use_token m (demo_token addr k)"
proof -
  have "it_MAC (demo_token addr k) = computeMAC m (demo_token addr k)"
    using assms(3) by (simp add: demo_token_def computeMAC_def token_text_def NewTokenManager_def)
  with ValidateAndUse_encoded [OF ser_codec_ok demo_token_ok [OF assms(1,2)], of 0 m] show ?thesis
    by (simp add: unix_def)
qed

theorem ValidateAndUse_max_uses_witness:
  "\<exists>rs. fst (validate_run ser_codec (replicate 3 (0, encode_token ser_codec (demo_token ''t'' 2))) (NewTokenManager [9])) = rs
     \<and> rs = [Inr (demo_token ''t'' 2)] @ Inr (demo_token ''t'' 2) # [Inl ErrTokenMaxUsesExceeded]
     \<and> int (accepted ''ab'' [Inr (demo_token ''t'' 2)]) < 2"
proof -
  have three: "replicate 3 c = [c, c, c]" for c :: "int \<times> string" by (simp add: numeral_3_eq_3)
  have run: "fst (validate_run ser_codec (replicate 3 (0, encode_token ser_codec (demo_token ''t'' 2))) (NewTokenManager [9]))
    = [Inr (demo_token ''t'' 2)] @ Inr (demo_token ''t'' 2) # [Inl ErrTokenMaxUsesExceeded]"
    unfolding three
    by (simp add: demo_token_use NewTokenManager_def use_token_def Let_def in_int64_def)
  have "int (accepted (it_TokenID (demo_token ''t'' 2)) [Inr (demo_token ''t'' 2)]) < it_MaxUses (demo_token ''t'' 2)"
    by (rule ValidateAndUse_max_uses [OF run]) simp_all
  with run show ?thesis by simp
qed

text \<open>
  C38: the limit is per identifier, and the signed text does not say where the identifier ends:
  moving the part of the tracker address before a colon into the identifier keeps the signature,
  so the holder of a used-up token whose address has a port makes an unused one of it.
\<close>

theorem moved_colon_restores_uses:
  assumes "json_codec_ok jc" "token_ok t" "it_MAC t = computeMAC m t" "unix now \<le> it_ExpiresAt t"
    and "it_TrackerAddr t = host @ '':'' @ port" "utf8_valid (it_TokenID t @ '':'' @ host)" "utf8_valid port"
    and "0 < it_MaxUses t" "it_MaxUses t \<le> uses m (it_TokenID t)" "uses m (it_TokenID t @ '':'' @ host) = 0"
  defines "t' \<equiv> t\<lparr>it_TokenID := it_TokenID t @ '':'' @ host, it_TrackerAddr := port\<rparr>"
  shows "fst (ValidateAndUse jc now (encode_token jc t) m) = Inl ErrTokenMaxUsesExceeded
     \<and> fst (ValidateAndUse jc now (encode_token jc t') m) = Inr t'"
proof -
  have "token_text t' = token_text t" using assms(5) by (simp add: t'_def token_text_def)
  then have mac: "it_MAC t' = computeMAC m t'" using assms(3) by (simp add: t'_def computeMAC_def)
  have "token_ok t'" using assms(2,6,7) by (simp add: t'_def token_ok_def)
  from ValidateAndUse_encoded [OF assms(1) this, of now m] mac assms(4)
  have second: "ValidateAndUse jc now (encode_token jc t') m = use_token m t'" by (simp add: t'_def)
  have first: "ValidateAndUse jc now (encode_token jc t) m = use_token m t"
    using ValidateAndUse_encoded [OF assms(1,2), of now m] assms(3,4) by simp
  have "fst (use_token m t) = Inl ErrTokenMaxUsesExceeded"
    using assms(8,9) by (simp add: use_token_def uses_def Let_def)
  moreover have "fst (use_token m t') = Inr t'"
    using assms(8,10) by (auto simp: use_token_def uses_def Let_def t'_def)
  ultimately show ?thesis by (simp add: first second)
qed

theorem moved_colon_restores_uses_witness:
  "let m = \<lparr>tm_signingKey = [9], tm_usage = [''ab'' \<mapsto> 1]\<rparr>; t = demo_token ''10.0.0.1:9090'' 1;
       t' = t\<lparr>it_TokenID := ''ab:10.0.0.1'', it_TrackerAddr := ''9090''\<rparr>
   in fst (ValidateAndUse ser_codec 0 (encode_token ser_codec t) m) = Inl ErrTokenMaxUsesExceeded
     \<and> fst (ValidateAndUse ser_codec 0 (encode_token ser_codec t') m) = Inr t'"
proof -
  let ?m = "\<lparr>tm_signingKey = [9], tm_usage = [''ab'' \<mapsto> 1]\<rparr>" and ?t = "demo_token ''10.0.0.1:9090'' 1"
  have "token_ok ?t" by (rule demo_token_ok) (simp_all add: in_int64_def)
  moreover have "it_MAC ?t = computeMAC ?m ?t"
    by (simp add: demo_token_def computeMAC_def token_text_def NewTokenManager_def)
  ultimately show ?thesis
    using moved_colon_restores_uses [OF ser_codec_ok, of ?t ?m 0 "''10.0.0.1''" "''9090''"]
    by (simp add: unix_def uses_def utf8_valid_ascii Let_def)
qed

end
