(* ===== verification/Network.thy ===== *)
theory Network
  imports Noded Trackerd Erasure Crypto Chunker
begin

text \<open>
  The clients' side of the network: the storage nodes and the tracker a client can reach, the
  exchange of a request for an answer (\<open>http.Client\<close>), and the calls the clients make,
  \<open>cmd/aldea/put.go\<close>, \<open>cmd/aldea/get.go\<close>, \<open>registerWithTracker\<close> of \<open>cmd/noded/main.go\<close> and the
  calls of \<open>internal/repair/repair.go\<close>. An exchange can fail before the request arrives or after
  it was served; what fails when, the clocks and the codec are parameters.
\<close>

section \<open>Exchanges\<close>

datatype fate = Delivered | Unreachable | ReplyLost

record network =
  net_json :: json_codec
  net_fate :: "nat \<Rightarrow> fate"                \<comment> \<open>of each exchange, in their order\<close>
  net_clientTime :: "nat \<Rightarrow> int"           \<comment> \<open>\<open>time.Now().Unix()\<close> of the client then\<close>
  net_serverTime :: "nat \<Rightarrow> int"           \<comment> \<open>\<open>time.Now().Unix()\<close> of the server then\<close>
  net_sort :: "(NodeMetadata \<Rightarrow> NodeMetadata \<Rightarrow> bool) \<Rightarrow> NodeMetadata list \<Rightarrow> NodeMetadata list"
                                            \<comment> \<open>\<open>sort.Slice\<close>\<close>
  net_urlParses :: "string \<Rightarrow> bool"         \<comment> \<open>what \<open>url.Parse\<close> looks at after the scheme\<close>
  net_header :: "string \<Rightarrow> string option"   \<comment> \<open>what arrives of a header value that is not plain\<close>
  net_segment :: "string \<Rightarrow> string option"  \<comment> \<open>what the mux takes from a path segment that is not plain\<close>

record 'd world =
  wd_nodes :: "string \<Rightarrow> 'd shardServer option"      \<comment> \<open>the node that answers under \<open>"http://"\<close> and this address\<close>
  wd_trackers :: "string \<Rightarrow> 'd trackerServer option" \<comment> \<open>the tracker that answers under this URL\<close>
  wd_calls :: nat                                     \<comment> \<open>exchanges so far\<close>

definition plain_text :: "string \<Rightarrow> bool" where
  "plain_text s \<longleftrightarrow> list_all (\<lambda>c. let n = of_char c :: nat in 48 \<le> n \<and> n \<le> 57 \<or> 65 \<le> n \<and> n \<le> 90 \<or> 97 \<le> n \<and> n \<le> 122) s"

definition header_value :: "network \<Rightarrow> string \<Rightarrow> string option" where
  "header_value N v = (if plain_text v then Some v else net_header N v)"

definition path_segment :: "network \<Rightarrow> string \<Rightarrow> string option" where
  "path_segment N s = (if plain_text s \<and> s \<noteq> '''' then Some s else net_segment N s)"

text \<open>
  \<open>http.NewRequest\<close> fails where \<open>url.Parse\<close> does. Without a scheme (letters, then a colon) the
  first segment of a relative reference must not contain a colon.
\<close>

definition is_letter :: "char \<Rightarrow> bool" where
  "is_letter c \<longleftrightarrow> (let n = of_char c :: nat in 65 \<le> n \<and> n \<le> 90 \<or> 97 \<le> n \<and> n \<le> 122)"

definition scheme_char :: "char \<Rightarrow> bool" where
  "scheme_char c \<longleftrightarrow> is_letter c \<or> (let n = of_char c :: nat in 48 \<le> n \<and> n \<le> 57) \<or> c \<in> set ''+-.''"

definition has_scheme :: "string \<Rightarrow> bool" where
  "has_scheme u \<longleftrightarrow> (case u of [] \<Rightarrow> False
     | c # cs \<Rightarrow> is_letter c \<and> (case dropWhile scheme_char cs of [] \<Rightarrow> False | d # _ \<Rightarrow> d = CHR '':''))"

definition colon_in_first_segment :: "string \<Rightarrow> bool" where
  "colon_in_first_segment u \<longleftrightarrow> CHR '':'' \<in> set (takeWhile (\<lambda>c. c \<noteq> CHR ''/'') u)"

definition new_request_ok :: "network \<Rightarrow> string \<Rightarrow> bool" where
  "new_request_ok N u \<longleftrightarrow> (has_scheme u \<or> \<not> colon_in_first_segment u) \<and> net_urlParses N u"

text \<open>What a call of a client ends with; the program panics where it uses the request that failed to be made.\<close>

datatype client_err =
    ErrConfig config_err
  | ErrCrypto crypto_err
  | ErrErasure erasure_err
  | ErrChunk chunk_err
  | ErrFile string
  | ErrMessage protocol_err
  | ErrConnection
  | ErrStatus int bytes
  | ErrReply
  | ErrNoShard
  | ErrStore tracker_err

datatype 'a outcome = Done 'a | Failed client_err | Panicked

definition to_outcome :: "('e \<Rightarrow> client_err) \<Rightarrow> 'e + 'a \<Rightarrow> 'a outcome" where
  "to_outcome f r = (case r of Inl e \<Rightarrow> Failed (f e) | Inr x \<Rightarrow> Done x)"

definition next_call :: "'d world \<Rightarrow> 'd world" where
  "next_call w = w\<lparr>wd_calls := Suc (wd_calls w)\<rparr>"

text \<open>A \<open>POST\<close> to a node.\<close>

definition node_post :: "network \<Rightarrow> string \<Rightarrow> string \<Rightarrow> bytes \<Rightarrow> 'd world \<Rightarrow> response option \<times> 'd world" where
  "node_post N addr path body w =
     (let n = wd_calls w
      in if net_fate N n = Unreachable then (None, next_call w)
         else case wd_nodes w addr of
                None \<Rightarrow> (None, next_call w)
              | Some s \<Rightarrow>
                  (case node_routes (net_json N) (net_serverTime N n) ''POST'' path (Some body) s of
                     None \<Rightarrow> (Some (http_error ''404 page not found'' StatusNotFound), next_call w)
                   | Some (r, s') \<Rightarrow>
                       (if net_fate N n = ReplyLost then None else Some r,
                        next_call (w\<lparr>wd_nodes := (wd_nodes w)(addr \<mapsto> s')\<rparr>))))"

text \<open>A request to the tracker with the key in its header. A handler that panics drops the connection.\<close>

definition tracker_do :: "network \<Rightarrow> string \<Rightarrow> string \<Rightarrow> tracker_request \<Rightarrow> 'd world \<Rightarrow> response option \<times> 'd world" where
  "tracker_do N base key req w =
     (let n = wd_calls w
      in case header_value N key of
           None \<Rightarrow> (None, next_call w)
         | Some k \<Rightarrow>
             if net_fate N n = Unreachable then (None, next_call w)
             else case wd_trackers w base of
                    None \<Rightarrow> (None, next_call w)
                  | Some t \<Rightarrow>
                      (case tracker_routes (net_sort N) (net_json N) k req t of
                         (r, t') \<Rightarrow> (if net_fate N n = ReplyLost then None else r,
                                      next_call (w\<lparr>wd_trackers := (wd_trackers w)(base \<mapsto> t')\<rparr>))))"

section \<open>Calls to a node\<close>

text \<open>\<open>putShard\<close> and \<open>uploadShard\<close> are the same but for the sender's name; so are the two that fetch,
  but that \<open>getShard\<close> takes a node without the shard for one with an empty shard.\<close>

definition send_shard :: "network \<Rightarrow> string \<Rightarrow> bytes \<Rightarrow> NodeMetadata \<Rightarrow> string \<Rightarrow> bytes \<Rightarrow> 'd world
    \<Rightarrow> client_err option \<times> 'd world" where
  "send_shard N sender key node shardID data w =
     (case Protocol.Encode (net_json N) (net_clientTime N (wd_calls w)) TypePutShardRequest sender
             (json_PutShardRequest \<lparr>psq_ShardID = shardID, psq_Data = data\<rparr>) key of
        Inl e \<Rightarrow> (Some (ErrMessage e), w)
      | Inr encoded \<Rightarrow>
          (case node_post N (nm_Address node) ''/shards'' encoded w of
             (None, w') \<Rightarrow> (Some ErrConnection, w')
           | (Some r, w') \<Rightarrow>
               (if rs_status r \<noteq> StatusOK then Some (ErrStatus (rs_status r) (rs_body r)) else None, w')))"

definition putShard :: "network \<Rightarrow> ClientConfig \<Rightarrow> NodeMetadata \<Rightarrow> string \<Rightarrow> bytes \<Rightarrow> 'd world
    \<Rightarrow> client_err option \<times> 'd world" where
  "putShard N cfg = send_shard N ''aldea-cli'' (bytes_of_string (cc_NetworkKey cfg))"

definition uploadShard :: "network \<Rightarrow> bytes \<Rightarrow> NodeMetadata \<Rightarrow> string \<Rightarrow> bytes \<Rightarrow> 'd world
    \<Rightarrow> client_err option \<times> 'd world" where
  "uploadShard N networkKey = send_shard N ''repairer'' networkKey"

text \<open>The message that came back, opened and read.\<close>

definition open_reply :: "json_codec \<Rightarrow> bytes \<Rightarrow> bytes \<Rightarrow> client_err + GetShardResponse" where
  "open_reply jc key body =
     (case Protocol.Decode jc body key of
        Inl e \<Rightarrow> Inl (ErrMessage e)
      | Inr env \<Rightarrow>
          (case UnmarshalBody jc put_GetShardResponse zero_GetShardResponse env of
             Inl e \<Rightarrow> Inl (ErrMessage e)
           | Inr r \<Rightarrow> Inr r))"

definition request_shard :: "network \<Rightarrow> string \<Rightarrow> bytes \<Rightarrow> NodeMetadata \<Rightarrow> string \<Rightarrow> 'd world
    \<Rightarrow> (client_err + response) \<times> 'd world" where
  "request_shard N sender key node shardID w =
     (case Protocol.Encode (net_json N) (net_clientTime N (wd_calls w)) TypeGetShardRequest sender
             (json_GetShardRequest \<lparr>gsq_ShardID = shardID\<rparr>) key of
        Inl e \<Rightarrow> (Inl (ErrMessage e), w)
      | Inr encoded \<Rightarrow>
          (case node_post N (nm_Address node) ''/shards/get'' encoded w of
             (None, w') \<Rightarrow> (Inl ErrConnection, w')
           | (Some r, w') \<Rightarrow> (Inr r, w')))"

definition getShard :: "network \<Rightarrow> ClientConfig \<Rightarrow> NodeMetadata \<Rightarrow> string \<Rightarrow> 'd world
    \<Rightarrow> (client_err + bytes) \<times> 'd world" where
  "getShard N cfg node shardID w =
     (let key = bytes_of_string (cc_NetworkKey cfg)
      in case request_shard N ''aldea-cli'' key node shardID w of
           (Inl e, w') \<Rightarrow> (Inl e, w')
         | (Inr r, w') \<Rightarrow>
             (if rs_status r \<noteq> StatusOK then Inr []
              else case open_reply (net_json N) key (rs_body r) of
                     Inl e \<Rightarrow> Inl e
                   | Inr g \<Rightarrow> Inr (if gsr_Found g then gsr_Data g else []),
              w'))"

definition fetchShard :: "network \<Rightarrow> bytes \<Rightarrow> NodeMetadata \<Rightarrow> string \<Rightarrow> 'd world
    \<Rightarrow> (client_err + bytes) \<times> 'd world" where
  "fetchShard N networkKey node shardID w =
     (case request_shard N ''repairer'' networkKey node shardID w of
        (Inl e, w') \<Rightarrow> (Inl e, w')
      | (Inr r, w') \<Rightarrow>
          (if rs_status r \<noteq> StatusOK then Inl (ErrStatus (rs_status r) (rs_body r))
           else case open_reply (net_json N) networkKey (rs_body r) of
                  Inl e \<Rightarrow> Inl e
                | Inr g \<Rightarrow> if gsr_Found g then Inr (gsr_Data g) else Inl ErrNoShard,
           w'))"

section \<open>Calls to the tracker\<close>

definition tracker_send :: "network \<Rightarrow> string \<Rightarrow> string \<Rightarrow> string \<Rightarrow> tracker_request \<Rightarrow> 'd world
    \<Rightarrow> response outcome \<times> 'd world" where
  "tracker_send N base path key req w =
     (if \<not> new_request_ok N (base @ path) then (Panicked, w)
      else case tracker_do N base key req w of
             (None, w') \<Rightarrow> (Failed ErrConnection, w')
           | (Some r, w') \<Rightarrow> (Done r, w'))"

definition read_nodes :: "json_codec \<Rightarrow> bytes \<Rightarrow> NodeMetadata list outcome" where
  "read_nodes jc body =
     (case Option.bind (json_decode jc body) (dec_structs put_NodeMetadata zero_NodeMetadata) of
        None \<Rightarrow> Failed ErrReply | Some nodes \<Rightarrow> Done nodes)"

definition if_ok :: "response \<Rightarrow> 'a outcome \<Rightarrow> 'a outcome" where
  "if_ok r x = (if rs_status r \<noteq> StatusOK then Failed (ErrStatus (rs_status r) (rs_body r)) else x)"

definition map_reply :: "(response \<Rightarrow> 'a outcome) \<Rightarrow> response outcome \<times> 'd world \<Rightarrow> 'a outcome \<times> 'd world" where
  "map_reply f x = (case fst x of Done r \<Rightarrow> f r | Failed e \<Rightarrow> Failed e | Panicked \<Rightarrow> Panicked, snd x)"

definition json_PlacementRequest :: "int \<Rightarrow> int \<Rightarrow> json" where
  "json_PlacementRequest cnt space = JObj [(''count'', JInt cnt), (''required_space'', JInt space)]"

definition selectNodes :: "network \<Rightarrow> ClientConfig \<Rightarrow> int \<Rightarrow> 'd world \<Rightarrow> NodeMetadata list outcome \<times> 'd world" where
  "selectNodes N cfg cnt w =
     map_reply (\<lambda>r. if_ok r (read_nodes (net_json N) (rs_body r)))
       (tracker_send N (cc_TrackerAddr cfg) ''/placement'' (cc_NetworkKey cfg)
          (PostPlacement (json_marshal (net_json N) (json_PlacementRequest cnt 0))) w)"

definition saveFilePlacement :: "network \<Rightarrow> ClientConfig \<Rightarrow> FileMetadata \<Rightarrow> ShardPlacement list \<Rightarrow> 'd world
    \<Rightarrow> unit outcome \<times> 'd world" where
  "saveFilePlacement N cfg f placements w =
     map_reply (\<lambda>r. if_ok r (Done ()))
       (tracker_send N (cc_TrackerAddr cfg) ''/files'' (cc_NetworkKey cfg)
          (PostFiles (json_marshal (net_json N) (json_file_entry (f, placements)))) w)"

text \<open>The status of the answer to \<open>GET /nodes\<close> is not looked at.\<close>

definition listNodes :: "network \<Rightarrow> ClientConfig \<Rightarrow> 'd world \<Rightarrow> NodeMetadata list outcome \<times> 'd world" where
  "listNodes N cfg w =
     map_reply (\<lambda>r. read_nodes (net_json N) (rs_body r))
       (tracker_send N (cc_TrackerAddr cfg) ''/nodes'' (cc_NetworkKey cfg) GetNodes w)"

definition getFilePlacement :: "network \<Rightarrow> ClientConfig \<Rightarrow> string \<Rightarrow> 'd world \<Rightarrow> file_entry outcome \<times> 'd world" where
  "getFilePlacement N cfg fileID w =
     (if \<not> new_request_ok N (cc_TrackerAddr cfg @ ''/files/'' @ fileID) then (Panicked, w)
      else case path_segment N fileID of
             None \<Rightarrow> (Failed (ErrStatus StatusNotFound (bytes_of_string ''404 page not found'')), next_call w)
           | Some i \<Rightarrow>
               map_reply
                 (\<lambda>r. if_ok r
                   (case Option.bind (json_decode (net_json N) (rs_body r)) (dec_struct put_file_entry zero_file_entry) of
                      None \<Rightarrow> Failed ErrReply | Some e \<Rightarrow> Done e))
                 (tracker_send N (cc_TrackerAddr cfg) (''/files/'' @ fileID) (cc_NetworkKey cfg) (GetFile i) w))"

text \<open>The node's registration with the tracker when it starts; whatever goes wrong is only logged.\<close>

definition registerWithTracker :: "network \<Rightarrow> NodeConfig \<Rightarrow> 'd world \<Rightarrow> 'd world" where
  "registerWithTracker N cfg w =
     (let node = \<lparr>nm_NodeID = nc_NodeID cfg, nm_Address = nc_ListenAddr cfg,
                  nm_StorageAllocated = nc_StorageAllocated cfg, nm_StorageUsed = 0,
                  nm_LastSeen = net_clientTime N (wd_calls w), nm_IsHealthy = True\<rparr>;
          data = json_marshal (net_json N) (json_NodeMetadata node)
      in if \<not> new_request_ok N (nc_TrackerAddr cfg @ ''/nodes'') then w
         else snd (tracker_do N (nc_TrackerAddr cfg) (nc_NetworkKey cfg) (PostNodes (Some data)) w))"

section \<open>The contract of the calls to a node\<close>

text \<open>
  What the uploader, the downloader and the repairer rely on. Over the shards held at each
  address: a call to store stores exactly this or nothing, and has stored it when it reports no
  error; a call to fetch changes nothing and returns, if anything, what is held there; it does
  return it when the address is live.
\<close>

locale shard_rpc =
  fixes rpc_ok :: "'x \<Rightarrow> 'w \<Rightarrow> bool"
    and id_ok :: "string \<Rightarrow> bool"
    and held :: "'w \<Rightarrow> string \<Rightarrow> string \<Rightarrow> bytes option"
    and others :: "'w \<Rightarrow> 'o"
    and live :: "'x \<Rightarrow> 'w \<Rightarrow> string \<Rightarrow> bool"
    and send :: "'x \<Rightarrow> NodeMetadata \<Rightarrow> string \<Rightarrow> bytes \<Rightarrow> 'w \<Rightarrow> 'e option \<times> 'w"
    and fetch :: "'x \<Rightarrow> NodeMetadata \<Rightarrow> string \<Rightarrow> 'w \<Rightarrow> ('e + bytes) \<times> 'w"
  assumes send_law: "rpc_ok x w \<Longrightarrow> id_ok i \<Longrightarrow> send x n i d w = (e, w') \<Longrightarrow>
        rpc_ok x w' \<and> others w' = others w \<and> live x w' = live x w
        \<and> (held w' = held w \<or> held w' = (held w)(nm_Address n := (held w (nm_Address n))(i \<mapsto> d)))
        \<and> (e = None \<longrightarrow> held w' (nm_Address n) i = Some d)"
    and fetch_law: "rpc_ok x w \<Longrightarrow> id_ok i \<Longrightarrow> fetch x n i w = (r, w') \<Longrightarrow>
        rpc_ok x w' \<and> others w' = others w \<and> live x w' = live x w \<and> held w' = held w
        \<and> (\<forall>d. r = Inr d \<longrightarrow> d = [] \<or> held w (nm_Address n) i = Some d)"
    and fetch_live: "rpc_ok x w \<Longrightarrow> id_ok i \<Longrightarrow> live x w (nm_Address n) \<Longrightarrow> held w (nm_Address n) i = Some d \<Longrightarrow>
        fst (fetch x n i w) = Inr d"
begin

lemma send_keeps:
  assumes "rpc_ok x w" "id_ok i" "send x n i d w = (e, w')"
  shows "rpc_ok x w'" "others w' = others w" "live x w' = live x w"
    and "held w a j = Some c \<Longrightarrow> i \<noteq> j \<or> c = d \<Longrightarrow> held w' a j = Some c"
    and "e = None \<Longrightarrow> held w' (nm_Address n) i = Some d"
  using send_law [OF assms] by (auto simp: fun_upd_def)

text \<open>A fetch that gives something gives what is held; from a live address it gives it.\<close>

lemma fetch_result:
  assumes "rpc_ok x w" "id_ok i" "fetch x n i w = (r, w')"
  shows "r = Inr d \<Longrightarrow> d \<noteq> [] \<Longrightarrow> held w (nm_Address n) i = Some d"
    and "live x w (nm_Address n) \<Longrightarrow> held w (nm_Address n) i = Some d \<Longrightarrow> r = Inr d"
  using fetch_law [OF assms] fetch_live [OF assms(1,2), of n d] assms(3) by auto

end

text \<open>A message opens as what was sealed in it, whatever key it is opened with.\<close>

lemma Decode_Encode_any:
  assumes "json_codec_ok jc" "in_int64 now" "utf8_valid n"
    and "Protocol.Encode jc now t n body key = Inr msg" "Protocol.Decode jc msg key' = Inr env"
  shows "env = sealed_env jc now t n body key"
proof -
  have t: "TypePutShardRequest \<le> t" "t \<le> TypeHealthReportResponse"
    using assms(4) by (simp_all add: Protocol.Encode_def Let_def split: if_splits)
  from Encode_Decode_env [OF assms(1-3) t, of body key] assms(4)
  have "Protocol.Decode jc msg key = Inr (sealed_env jc now t n body key)" by auto
  with assms(5) show ?thesis
    by (auto simp: Protocol.Decode_def split: option.splits if_splits)
qed

definition network_ok :: "network \<Rightarrow> bool" where
  "network_ok N \<longleftrightarrow> json_codec_ok (net_json N) \<and> (\<forall>n. in_int64 (net_clientTime N n) \<and> in_int64 (net_serverTime N n))
     \<and> sort_slice_ok more_space (net_sort N more_space)"

definition rpc_ok :: "network \<times> bytes \<Rightarrow> 'd world \<Rightarrow> bool" where
  "rpc_ok x w \<longleftrightarrow> network_ok (fst x) \<and> (\<forall>a s. wd_nodes w a = Some s \<longrightarrow> server_ok s)"

definition held_at :: "'d world \<Rightarrow> string \<Rightarrow> string \<Rightarrow> bytes option" where
  "held_at w a = (case wd_nodes w a of None \<Rightarrow> Map.empty | Some s \<Rightarrow> holds s)"

text \<open>An address is live for a client when a node with its key is there and every exchange is delivered.\<close>

definition live_at :: "network \<times> bytes \<Rightarrow> 'd world \<Rightarrow> string \<Rightarrow> bool" where
  "live_at x w a \<longleftrightarrow> (\<forall>n. net_fate (fst x) n = Delivered)
     \<and> (case wd_nodes w a of None \<Rightarrow> False | Some s \<Rightarrow> node_key s = snd x)"

lemma held_at_upd:
  "held_at (w\<lparr>wd_nodes := (wd_nodes w)(a \<mapsto> s)\<rparr>) = (held_at w)(a := holds s)"
  "held_at (next_call w) = held_at w"
  by (auto simp: held_at_def next_call_def)

lemma next_call_simps [simp]:
  "wd_nodes (next_call w) = wd_nodes w" "wd_trackers (next_call w) = wd_trackers w"
  "rpc_ok x (next_call w) = rpc_ok x w" "live_at x (next_call w) = live_at x w" "held_at (next_call w) = held_at w"
  by (auto simp: next_call_def rpc_ok_def live_at_def held_at_def fun_eq_iff)

text \<open>A node served by one of its two handlers.\<close>

lemma served_keeps:
  assumes "rpc_ok x w" "wd_nodes w a = Some s" "server_ok s'" "sv_cfg s' = sv_cfg s"
  shows "rpc_ok x (w\<lparr>wd_nodes := (wd_nodes w)(a \<mapsto> s')\<rparr>)"
    and "live_at x (w\<lparr>wd_nodes := (wd_nodes w)(a \<mapsto> s')\<rparr>) = live_at x w"
    and "held_at (w\<lparr>wd_nodes := (wd_nodes w)(a \<mapsto> s')\<rparr>) = (held_at w)(a := holds s')"
  using assms by (auto simp: rpc_ok_def live_at_def held_at_def fun_eq_iff)

lemma node_post_dropped:
  "net_fate N (wd_calls w) = Unreachable \<or> wd_nodes w a = None \<Longrightarrow> node_post N a path body w = (None, next_call w)"
  by (auto simp: node_post_def Let_def)

lemma node_post_served:
  assumes "net_fate N (wd_calls w) \<noteq> Unreachable" "wd_nodes w a = Some s"
  shows "node_post N a ''/shards'' body w =
      (case handlePut (net_json N) (net_serverTime N (wd_calls w)) (Some body) s of
         (r, s') \<Rightarrow> (if net_fate N (wd_calls w) = ReplyLost then None else Some r,
                      next_call (w\<lparr>wd_nodes := (wd_nodes w)(a \<mapsto> s')\<rparr>)))"
    and "node_post N a ''/shards/get'' body w =
      (if net_fate N (wd_calls w) = ReplyLost then None
       else Some (handleGet (net_json N) (net_serverTime N (wd_calls w)) (Some body) s),
       next_call (w\<lparr>wd_nodes := (wd_nodes w)(a \<mapsto> s)\<rparr>))"
  using assms by (simp_all add: node_post_def node_routes_def Let_def)

text \<open>What a post of a sealed message does to the world.\<close>

lemma put_post:
  assumes "rpc_ok (N, key) w" "utf8_valid i" "utf8_valid sender"
    and "Protocol.Encode (net_json N) (net_clientTime N k) TypePutShardRequest sender
           (json_PutShardRequest \<lparr>psq_ShardID = i, psq_Data = d\<rparr>) key = Inr msg"
    and "node_post N a ''/shards'' msg w = (r, w')"
  shows "rpc_ok (N, key) w' \<and> wd_trackers w' = wd_trackers w \<and> live_at (N, key) w' = live_at (N, key) w
    \<and> (held_at w' = held_at w \<or> held_at w' = (held_at w)(a := (held_at w a)(i \<mapsto> d)))
    \<and> (\<forall>x. r = Some x \<and> rs_status x = StatusOK \<longrightarrow> held_at w' a i = Some d)"
proof (cases "net_fate N (wd_calls w) = Unreachable \<or> wd_nodes w a = None")
  case True
  with assms(5) have "w' = next_call w" "r = None" by (simp_all add: node_post_dropped)
  with assms(1) show ?thesis by simp
next
  case False
  then obtain s where s: "wd_nodes w a = Some s" by blast
  let ?jc = "net_json N" and ?q = "\<lparr>psq_ShardID = i, psq_Data = d\<rparr>"
  have net: "json_codec_ok ?jc" "in_int64 (net_clientTime N k)" "server_ok s"
    using assms(1) s by (auto simp: rpc_ok_def network_ok_def)
  obtain x s' where put: "handlePut ?jc (net_serverTime N (wd_calls w)) (Some msg) s = (x, s')" by fastforce
  have w': "w' = next_call (w\<lparr>wd_nodes := (wd_nodes w)(a \<mapsto> s')\<rparr>)" "\<And>y. r = Some y \<Longrightarrow> y = x"
    using assms(5) node_post_served(1) [OF _ s] False put by (auto split: if_splits)
  note cases = handlePut_cases [OF net(3) put]
  have stored: "holds s' = (holds s)(i \<mapsto> d)" if ok: "rs_status x = StatusOK"
  proof -
    from cases ok obtain env q where q: "Decode ?jc msg (node_key s) = Inr env"
      "UnmarshalBody ?jc put_PutShardRequest zero_PutShardRequest env = Inr q" "holds s' = (holds s)(psq_ShardID q \<mapsto> psq_Data q)"
      by auto
    from Decode_Encode_any [OF net(1,2) assms(3,4) q(1)]
      UnmarshalBody_sealed [OF net(1) codec_PutShardRequest, of ?q] q(2) assms(2)
    have "q = ?q" by simp
    with q(3) show ?thesis by simp
  qed
  have unstored: "holds s' = holds s" if "rs_status x \<noteq> StatusOK" using cases that by simp
  have after: "rpc_ok (N, key) w'" "live_at (N, key) w' = live_at (N, key) w" "wd_trackers w' = wd_trackers w"
    "held_at w' = (held_at w)(a := holds s')"
    using served_keeps [OF assms(1) s, of s'] cases by (simp_all add: w'(1))
  have held: "held_at w a = holds s" using s by (simp add: held_at_def)
  then have same: "(held_at w)(a := holds s) = held_at w" by (simp add: fun_upd_idem_iff)
  have "held_at w' = held_at w \<or> held_at w' = (held_at w)(a := (held_at w a)(i \<mapsto> d))"
    by (cases "rs_status x = StatusOK") (simp_all add: after(4) stored unstored held same)
  moreover have "held_at w' a i = Some d" if "r = Some y" "rs_status y = StatusOK" for y
    using w'(2) [OF that(1)] that(2) by (simp add: after(4) stored)
  ultimately show ?thesis using after(1-3) by blast
qed

lemma get_post:
  assumes "rpc_ok (N, key) w" "utf8_valid i" "utf8_valid sender"
    and "Protocol.Encode (net_json N) (net_clientTime N k) TypeGetShardRequest sender
           (json_GetShardRequest \<lparr>gsq_ShardID = i\<rparr>) key = Inr msg"
    and "node_post N a ''/shards/get'' msg w = (r, w')"
  shows "rpc_ok (N, key) w' \<and> wd_trackers w' = wd_trackers w \<and> live_at (N, key) w' = live_at (N, key) w
    \<and> held_at w' = held_at w
    \<and> (\<forall>x g. r = Some x \<and> rs_status x = StatusOK \<and> open_reply (net_json N) key (rs_body x) = Inr g \<and> gsr_Found g
         \<longrightarrow> held_at w a i = Some (gsr_Data g))
    \<and> (live_at (N, key) w a \<longrightarrow> (\<exists>x. r = Some x \<and> rs_status x = StatusOK
         \<and> open_reply (net_json N) key (rs_body x) = Inr \<lparr>gsr_ShardID = i,
             gsr_Data = (case held_at w a i of None \<Rightarrow> [] | Some v \<Rightarrow> v), gsr_Found = (held_at w a i \<noteq> None)\<rparr>))"
proof (cases "net_fate N (wd_calls w) = Unreachable \<or> wd_nodes w a = None")
  case True
  with assms(5) have "w' = next_call w" "r = None" "\<not> live_at (N, key) w a"
    by (auto simp: node_post_dropped live_at_def)
  with assms(1) show ?thesis by simp
next
  case False
  then obtain s where s: "wd_nodes w a = Some s" by blast
  let ?jc = "net_json N" and ?q = "\<lparr>gsq_ShardID = i\<rparr>" and ?now = "net_serverTime N (wd_calls w)"
  let ?ans = "\<lparr>gsr_ShardID = i, gsr_Data = (case holds s i of None \<Rightarrow> [] | Some v \<Rightarrow> v), gsr_Found = (holds s i \<noteq> None)\<rparr>"
  have net: "json_codec_ok ?jc" "in_int64 (net_clientTime N k)" "server_ok s" "in_int64 ?now"
    using assms(1) s by (auto simp: rpc_ok_def network_ok_def)
  define x where "x = handleGet ?jc ?now (Some msg) s"
  have w': "w' = next_call (w\<lparr>wd_nodes := (wd_nodes w)(a \<mapsto> s)\<rparr>)"
    and r: "\<And>y. r = Some y \<Longrightarrow> y = x" "live_at (N, key) w a \<Longrightarrow> r = Some x"
    using assms(5) node_post_served(2) [OF _ s] False by (auto simp: x_def live_at_def split: if_splits)
  have held: "held_at w a = holds s" using s by (simp add: held_at_def)
  have answer: "x = writeResponse ?jc ?now s TypeGetShardResponse (nc_NodeID (sv_cfg s)) (json_GetShardResponse ?ans)"
    if "Decode ?jc msg (node_key s) = Inr env" for env
  proof -
    from Decode_Encode_any [OF net(1,2) assms(3,4) that] UnmarshalBody_sealed [OF net(1) codec_GetShardRequest, of ?q] assms(2)
    have "UnmarshalBody ?jc put_GetShardRequest zero_GetShardRequest env = Inr ?q" by simp
    with that net(3) show ?thesis by (simp add: x_def handleGet_def Let_def)
  qed
  have "utf8_valid (nc_NodeID (sv_cfg s))" using net(3) by (simp add: server_ok_def)
  from writeResponse_ok [of TypeGetShardResponse ?jc ?now s "nc_NodeID (sv_cfg s)" "json_GetShardResponse ?ans"]
  obtain m where m: "writeResponse ?jc ?now s TypeGetShardResponse (nc_NodeID (sv_cfg s)) (json_GetShardResponse ?ans) = http_ok m"
    "Protocol.Encode ?jc ?now TypeGetShardResponse (nc_NodeID (sv_cfg s)) (json_GetShardResponse ?ans) (node_key s) = Inr m"
    by (auto simp: message_types)
  have opened: "g = ?ans" if "open_reply ?jc key m = Inr g" for g
  proof -
    from that obtain env where env: "Decode ?jc m key = Inr env"
      "UnmarshalBody ?jc put_GetShardResponse zero_GetShardResponse env = Inr g"
      by (auto simp: open_reply_def split: sum.splits)
    from Decode_Encode_any [OF net(1,4) \<open>utf8_valid (nc_NodeID (sv_cfg s))\<close> m(2) env(1)] env(2)
      UnmarshalBody_sealed [OF net(1) codec_GetShardResponse, of ?ans] assms(2)
    show ?thesis by simp
  qed
  have refused: "rs_status x \<noteq> StatusOK" if "\<not> is_ok (Decode ?jc msg (node_key s))"
    using that by (cases "Decode ?jc msg (node_key s)") (simp_all add: x_def handleGet_def http_status)
  have "held_at w a i = Some (gsr_Data g)"
    if "rs_status x = StatusOK" "open_reply ?jc key (rs_body x) = Inr g" "gsr_Found g" for g
  proof -
    from refused that(1) obtain env where "Decode ?jc msg (node_key s) = Inr env" by (auto elim: is_okE)
    from answer [OF this] m(1) that(2) opened have "g = ?ans" by simp
    with that(3) held show ?thesis by auto
  qed
  moreover have "rs_status x = StatusOK \<and> open_reply ?jc key (rs_body x) = Inr ?ans" if live: "live_at (N, key) w a"
  proof -
    have key: "node_key s = key" using live s by (simp add: live_at_def)
    have t: "TypePutShardRequest \<le> TypeGetShardRequest" "TypeGetShardRequest \<le> TypeHealthReportResponse"
      by (simp_all add: message_types)
    from Encode_Decode_env [OF net(1,2) assms(3) t, of "json_GetShardRequest ?q" key] assms(4) key
    have "x = http_ok m" using answer m(1) by auto
    moreover have "open_reply ?jc key m = Inr ?ans"
      using receive_sealed [OF net(1,4) \<open>utf8_valid (nc_NodeID (sv_cfg s))\<close> _ _ codec_GetShardResponse, of TypeGetShardResponse ?ans key]
        m(2) key assms(2) by (auto simp: receive_def open_reply_def message_types split: sum.splits)
    ultimately show ?thesis by simp
  qed
  moreover have "rpc_ok (N, key) w'" "live_at (N, key) w' = live_at (N, key) w" "wd_trackers w' = wd_trackers w"
    "held_at w' = held_at w"
    using served_keeps [OF assms(1) s net(3)] held by (simp_all add: w' fun_upd_idem_iff)
  ultimately show ?thesis
    using r held by (metis (no_types, lifting))
qed

lemma Encode_requests:
  "\<exists>m. Protocol.Encode jc now TypePutShardRequest n b key = Inr m"
  "\<exists>m. Protocol.Encode jc now TypeGetShardRequest n b key = Inr m"
  by (simp_all add: Protocol.Encode_def Let_def message_types)

lemma senders_utf8: "utf8_valid ''aldea-cli''" "utf8_valid ''repairer''"
  by (simp_all add: utf8_valid_ascii)

lemma send_shard_law:
  assumes "rpc_ok (N, key) w" "utf8_valid i" "utf8_valid sender" "send_shard N sender key n i d w = (e, w')"
  shows "rpc_ok (N, key) w' \<and> wd_trackers w' = wd_trackers w \<and> live_at (N, key) w' = live_at (N, key) w
    \<and> (held_at w' = held_at w \<or> held_at w' = (held_at w)(nm_Address n := (held_at w (nm_Address n))(i \<mapsto> d)))
    \<and> (e = None \<longrightarrow> held_at w' (nm_Address n) i = Some d)"
proof -
  obtain msg where msg: "Protocol.Encode (net_json N) (net_clientTime N (wd_calls w)) TypePutShardRequest sender
      (json_PutShardRequest \<lparr>psq_ShardID = i, psq_Data = d\<rparr>) key = Inr msg"
    using Encode_requests by blast
  obtain r w1 where post: "node_post N (nm_Address n) ''/shards'' msg w = (r, w1)" by fastforce
  have "w' = w1" "e = None \<Longrightarrow> \<exists>x. r = Some x \<and> rs_status x = StatusOK"
    using assms(4) msg post by (auto simp: send_shard_def split: option.splits if_splits)
  with put_post [OF assms(1-3) msg post] show ?thesis by blast
qed

lemma request_shard_law:
  assumes "rpc_ok (N, key) w" "utf8_valid i" "utf8_valid sender" "request_shard N sender key n i w = (res, w')"
  shows "rpc_ok (N, key) w' \<and> wd_trackers w' = wd_trackers w \<and> live_at (N, key) w' = live_at (N, key) w
    \<and> held_at w' = held_at w"
    and "res = Inr x \<Longrightarrow> rs_status x = StatusOK \<Longrightarrow> open_reply (net_json N) key (rs_body x) = Inr g \<Longrightarrow> gsr_Found g
      \<Longrightarrow> held_at w (nm_Address n) i = Some (gsr_Data g)"
    and "live_at (N, key) w (nm_Address n) \<Longrightarrow> held_at w (nm_Address n) i = Some d \<Longrightarrow>
      \<exists>x. res = Inr x \<and> rs_status x = StatusOK
        \<and> open_reply (net_json N) key (rs_body x) = Inr \<lparr>gsr_ShardID = i, gsr_Data = d, gsr_Found = True\<rparr>"
proof -
  obtain msg where msg: "Protocol.Encode (net_json N) (net_clientTime N (wd_calls w)) TypeGetShardRequest sender
      (json_GetShardRequest \<lparr>gsq_ShardID = i\<rparr>) key = Inr msg"
    using Encode_requests by blast
  obtain r w1 where post: "node_post N (nm_Address n) ''/shards/get'' msg w = (r, w1)" by fastforce
  have run: "w' = w1" "res = (case r of None \<Rightarrow> Inl ErrConnection | Some x \<Rightarrow> Inr x)"
    using assms(4) msg post by (auto simp: request_shard_def split: option.splits)
  note law = get_post [OF assms(1-3) msg post]
  show "rpc_ok (N, key) w' \<and> wd_trackers w' = wd_trackers w \<and> live_at (N, key) w' = live_at (N, key) w
    \<and> held_at w' = held_at w" using law run(1) by blast
  show "held_at w (nm_Address n) i = Some (gsr_Data g)"
    if "res = Inr x" "rs_status x = StatusOK" "open_reply (net_json N) key (rs_body x) = Inr g" "gsr_Found g"
    using law that run(2) by (auto split: option.splits)
  show "\<exists>x. res = Inr x \<and> rs_status x = StatusOK
      \<and> open_reply (net_json N) key (rs_body x) = Inr \<lparr>gsr_ShardID = i, gsr_Data = d, gsr_Found = True\<rparr>"
    if "live_at (N, key) w (nm_Address n)" "held_at w (nm_Address n) i = Some d"
    using law that run(2) by auto
qed

text \<open>A client of the command line is a network and a configuration, a repairer a network and a key.\<close>

definition with_key :: "network \<times> ClientConfig \<Rightarrow> network \<times> bytes" where
  "with_key x = (fst x, bytes_of_string (cc_NetworkKey (snd x)))"

interpretation cli: shard_rpc "\<lambda>x. rpc_ok (with_key x)" utf8_valid held_at wd_trackers "\<lambda>x. live_at (with_key x)"
  "\<lambda>x. putShard (fst x) (snd x)" "\<lambda>x. getShard (fst x) (snd x)"
proof (unfold_locales, goal_cases)
  case (1 x w i n d e w')
  then show ?case
    using send_shard_law [OF _ _ senders_utf8(1), of "fst x" _ w i n d e w'] by (simp add: with_key_def putShard_def)
next
  case (2 x w i n r w')
  obtain res w1 where req: "request_shard (fst x) ''aldea-cli'' (snd (with_key x)) n i w = (res, w1)" by fastforce
  have run: "w' = w1" "\<And>d. r = Inr d \<Longrightarrow> d \<noteq> [] \<Longrightarrow> \<exists>y g. res = Inr y \<and> rs_status y = StatusOK
      \<and> open_reply (net_json (fst x)) (snd (with_key x)) (rs_body y) = Inr g \<and> gsr_Found g \<and> d = gsr_Data g"
    using 2(3) req by (auto simp: getShard_def with_key_def Let_def split: sum.splits if_splits)
  have "rpc_ok (fst x, snd (with_key x)) w" using 2(1) by (simp add: with_key_def)
  note law = request_shard_law [OF this 2(2) senders_utf8(1) req]
  have "(fst x, snd (with_key x)) = with_key x" by (simp add: with_key_def)
  moreover have "\<forall>d. r = Inr d \<longrightarrow> d = [] \<or> held_at w (nm_Address n) i = Some d"
  proof (intro allI impI)
    fix d assume "r = Inr d"
    show "d = [] \<or> held_at w (nm_Address n) i = Some d"
    proof (cases "d = []")
      case False
      with run(2) [OF \<open>r = Inr d\<close>] law(2) show ?thesis by auto
    qed simp
  qed
  ultimately show ?case using law(1) run(1) by simp
next
  case (3 x w i n d)
  obtain res w1 where req: "request_shard (fst x) ''aldea-cli'' (snd (with_key x)) n i w = (res, w1)" by fastforce
  have eq: "(fst x, snd (with_key x)) = with_key x" by (simp add: with_key_def)
  from request_shard_law(3) [OF _ 3(2) senders_utf8(1) req, unfolded eq, OF 3(1,3,4)] req
  show ?case by (auto simp: getShard_def with_key_def Let_def)
qed

interpretation repairer: shard_rpc rpc_ok utf8_valid held_at wd_trackers live_at
  "\<lambda>x. uploadShard (fst x) (snd x)" "\<lambda>x. fetchShard (fst x) (snd x)"
proof (unfold_locales, goal_cases)
  case (1 x w i n d e w')
  then show ?case
    using send_shard_law [OF _ _ senders_utf8(2), of "fst x" "snd x" w i n d e w'] by (simp add: uploadShard_def)
next
  case (2 x w i n r w')
  obtain res w1 where req: "request_shard (fst x) ''repairer'' (snd x) n i w = (res, w1)" by fastforce
  have run: "w' = w1" "\<And>d. r = Inr d \<Longrightarrow> \<exists>y g. res = Inr y \<and> rs_status y = StatusOK
      \<and> open_reply (net_json (fst x)) (snd x) (rs_body y) = Inr g \<and> gsr_Found g \<and> d = gsr_Data g"
    using 2(3) req by (auto simp: fetchShard_def split: sum.splits if_splits)
  have "rpc_ok (fst x, snd x) w" using 2(1) by simp
  note law = request_shard_law [OF this 2(2) senders_utf8(2) req]
  have "\<forall>d. r = Inr d \<longrightarrow> d = [] \<or> held_at w (nm_Address n) i = Some d"
    using run(2) law(2) by fastforce
  with law(1) run(1) show ?case by simp
next
  case (3 x w i n d)
  obtain res w1 where req: "request_shard (fst x) ''repairer'' (snd x) n i w = (res, w1)" by fastforce
  from request_shard_law(3) [OF _ 3(2) senders_utf8(2) req] 3 req show ?case by (auto simp: fetchShard_def)
qed

end
