(* ===== verification/Calls.thy ===== *)
theory Calls
  imports Network
begin

text \<open>
  What the clients' calls to the tracker do, from what its handlers and its store do: a call
  changes nothing but the tracker's store, and an answer taken as good says what is in the store.
\<close>

text \<open>The tracker under a URL, with a consistent store.\<close>

definition tracker_at :: "network \<Rightarrow> string \<Rightarrow> 'd world \<Rightarrow> 'd trackerServer \<Rightarrow> bool" where
  "tracker_at N base w t \<longleftrightarrow> network_ok N \<and> wd_trackers w base = Some t \<and> store_ok (net_json N) (ts_store t)"

lemma tracker_do_cases:
  assumes "tracker_at N base w t" "tracker_do N base key req w = (r, w')"
  shows "w' = next_call w \<and> r = None
    \<or> (\<exists>k a t'. header_value N key = Some k \<and> tracker_routes (net_sort N) (net_json N) k req t = (a, t')
         \<and> w' = next_call (w\<lparr>wd_trackers := (wd_trackers w)(base \<mapsto> t')\<rparr>) \<and> (r = None \<or> r = a))"
  using assms
  by (auto simp: tracker_do_def tracker_at_def Let_def split: option.splits if_splits prod.splits)

lemma tracker_send_Done:
  "tracker_send N base path key req w = (Done r, w') \<Longrightarrow> tracker_do N base key req w = (Some r, w')"
  by (auto simp: tracker_send_def split: if_splits option.splits prod.splits)

text \<open>A request that leaves the tracker as it is leaves the world as it is, but for the count of calls.\<close>

definition same_world :: "'d world \<Rightarrow> 'd world \<Rightarrow> bool" where
  "same_world w w' \<longleftrightarrow> wd_nodes w' = wd_nodes w \<and> wd_trackers w' = wd_trackers w"

lemma same_world_next: "same_world w (next_call w)"
  by (simp add: same_world_def)

fun read_only :: "tracker_request \<Rightarrow> bool" where
  "read_only (PostNodes b) = False"
| "read_only GetNodes = True"
| "read_only (PostPlacement b) = True"
| "read_only (PostFiles b) = False"
| "read_only (GetFile i) = True"

lemma read_only_routes: "read_only req \<Longrightarrow> tracker_routes srt jc k req t = (a, t') \<Longrightarrow> t' = t"
  by (cases req) (simp_all add: tracker_routes_def)

lemma read_only_request:
  assumes "tracker_at N base w t" "tracker_send N base path key req w = (out, w')"
    and "read_only req"
  shows "same_world w w'"
    and "out = Done r \<Longrightarrow> \<exists>k. header_value N key = Some k \<and> fst (tracker_routes (net_sort N) (net_json N) k req t) = Some r"
proof -
  have t: "wd_trackers w base = Some t" using assms(1) by (simp add: tracker_at_def)
  then have upd: "(wd_trackers w)(base \<mapsto> t) = wd_trackers w" by (simp add: fun_upd_idem)
  show "same_world w w'"
  proof (cases "new_request_ok N (base @ path)")
    case True
    obtain r1 w1 where d: "tracker_do N base key req w = (r1, w1)" by fastforce
    with assms(2) True have "w' = w1" by (auto simp: tracker_send_def split: option.splits)
    from tracker_do_cases [OF assms(1) d] consider "w1 = next_call w"
      | k a t' where "tracker_routes (net_sort N) (net_json N) k req t = (a, t')"
        "w1 = next_call (w\<lparr>wd_trackers := (wd_trackers w)(base \<mapsto> t')\<rparr>)" by blast
    then show ?thesis
    proof cases
      case (2 k a t')
      have "t' = t" by (rule read_only_routes) fact+
      with 2(2) \<open>w' = w1\<close> upd show ?thesis by (simp add: same_world_def)
    qed (use \<open>w' = w1\<close> in \<open>simp add: same_world_def\<close>)
  qed (use assms(2) in \<open>simp add: tracker_send_def same_world_def\<close>)
  assume "out = Done r"
  from tracker_do_cases [OF assms(1) tracker_send_Done [OF assms(2) [unfolded this]]]
  show "\<exists>k. header_value N key = Some k \<and> fst (tracker_routes (net_sort N) (net_json N) k req t) = Some r" by auto
qed

text \<open>An exchange that is delivered, to a tracker that is there.\<close>

lemma tracker_send_delivered:
  assumes "tracker_at N base w t" "\<And>n. net_fate N n = Delivered" "new_request_ok N (base @ path)" "header_value N key = Some k"
    and "tracker_routes (net_sort N) (net_json N) k req t = (Some r, t')"
  shows "\<exists>w'. tracker_send N base path key req w = (Done r, w')"
  using assms by (simp add: tracker_send_def tracker_do_def tracker_at_def Let_def)

section \<open>The calls\<close>

lemma read_nodes_written:
  assumes "json_codec_ok jc" "\<And>n. n \<in> set ns \<Longrightarrow> node_ok n"
  shows "read_nodes jc (rs_body (writeJSON jc (enc_structs json_NodeMetadata ns))) = Done ns"
proof -
  have codec: "struct_codec json_NodeMetadata put_NodeMetadata zero_NodeMetadata n" if "n \<in> set ns" for n
    using assms(2) [OF that] by (rule codec_NodeMetadata)
  have "json_ok (enc_structs json_NodeMetadata ns)"
    using enc_structs_json [of ns, OF codec] by (simp add: json_ok_def)
  then show ?thesis
    using dec_structs_enc [of ns, OF codec] json_codec_okD(3) [OF assms(1)]
    by (simp add: read_nodes_def writeJSON_def)
qed

text \<open>Answers with an error read back as nothing.\<close>

lemma status_not_ok: "rs_status unauthorized \<noteq> StatusOK" "StatusInternalServerError \<noteq> StatusOK"
  "StatusBadRequest \<noteq> StatusOK" "StatusConflict \<noteq> StatusOK" "StatusNotFound \<noteq> StatusOK"
  by (simp_all add: unauthorized_def http_status)

lemma listed_nodes_ok:
  assumes "store_ok jc s" "ListNodes jc s = Inr ns" "n \<in> set ns"
  shows "node_ok n" "node_at jc s (nm_NodeID n) = Some n"
  using ListNodes_law [OF assms(1,2)] store_okD(3) [OF assms(1)] assms(3) by blast+

lemma map_reply_Done: "map_reply f x = (out, w') \<Longrightarrow> snd x = w' \<and> (out = Done y \<longrightarrow> (\<exists>r. fst x = Done r \<and> f r = Done y))"
  by (auto simp: map_reply_def split: outcome.splits)

lemma if_ok_Done: "if_ok r x = Done y \<Longrightarrow> rs_status r = StatusOK \<and> x = Done y"
  by (simp add: if_ok_def split: if_splits)

lemma placement_request_read:
  assumes "json_codec_ok jc" "in_int64 cnt"
  shows "Option.bind (json_decode jc (json_marshal jc (json_PlacementRequest cnt 0))) (dec_struct put_PlacementRequest zero_PlacementRequest)
      = Some \<lparr>pr_Count = cnt, pr_RequiredSpace = 0\<rparr>"
proof -
  have "utf8_valid ''count''" "utf8_valid ''required_space''" by (simp_all add: utf8_valid_ascii)
  then have "json_ok (json_PlacementRequest cnt 0)" by (simp add: json_PlacementRequest_def json_ok_def)
  moreover have "dec_struct put_PlacementRequest zero_PlacementRequest (json_PlacementRequest cnt 0) = Some \<lparr>pr_Count = cnt, pr_RequiredSpace = 0\<rparr>"
    using assms(2) by (simp add: dec_struct_def json_PlacementRequest_def put_PlacementRequest_def zero_PlacementRequest_def
        field_is_def lower_def to_lower_def in_int64_def [of 0])
  ultimately show ?thesis using json_codec_okD(2) [OF assms(1)] by simp
qed

text \<open>\<open>selectNodes\<close>: as many nodes as asked for, all registered.\<close>

lemma selectNodes_law:
  assumes "tracker_at N (cc_TrackerAddr cfg) w t" "in_int64 cnt" "selectNodes N cfg cnt w = (out, w')"
  shows "same_world w w'"
    and "out = Done nodes \<Longrightarrow> int (length nodes) = cnt \<and> distinct (map nm_NodeID nodes)
      \<and> (\<forall>n \<in> set nodes. node_at (net_json N) (ts_store t) (nm_NodeID n) = Some n)"
proof -
  let ?jc = "net_json N" and ?req = "PostPlacement (json_marshal (net_json N) (json_PlacementRequest cnt 0))"
  obtain o1 w1 where send: "tracker_send N (cc_TrackerAddr cfg) ''/placement'' (cc_NetworkKey cfg) ?req w = (o1, w1)" by fastforce
  note reply = map_reply_Done [OF assms(3) [unfolded selectNodes_def send]]
  note ro = read_only_request [OF assms(1) send read_only.simps(3) [THEN iffD2, OF TrueI]]
  show "same_world w w'" using ro(1) reply by simp
  assume "out = Done nodes"
  with reply [of nodes] obtain r where r: "o1 = Done r" "rs_status r = StatusOK" "read_nodes ?jc (rs_body r) = Done nodes"
    by (auto dest: if_ok_Done)
  from ro(2) [OF r(1)] obtain k where route: "handleSelectPlacement (net_sort N) ?jc k (json_marshal ?jc (json_PlacementRequest cnt 0)) t = Some r"
    by (auto simp: tracker_routes_def)
  have codec: "json_codec_ok ?jc" "store_ok ?jc (ts_store t)" "sort_slice_ok more_space (net_sort N more_space)"
    using assms(1) by (simp_all add: tracker_at_def network_ok_def)
  note placement_request_read [OF codec(1) assms(2)]
  with route r(2) obtain res where res: "SelectPlacementNodes (net_sort N) ?jc (ts_store t) cnt 0 = Some (Inr res)"
    "r = writeJSON ?jc (enc_structs json_NodeMetadata res)"
    by (auto simp: handleSelectPlacement_def status_not_ok split: if_splits option.splits sum.splits)
  note chosen = SelectPlacementNodes_nodes [OF codec(2,3) res(1)]
  have registered: "node_at ?jc (ts_store t) (nm_NodeID n) = Some n" if "n \<in> set res" for n
    using chosen(3) that by blast
  then have "nodes = res"
    using read_nodes_written [OF codec(1), of res] store_okD(3) [OF codec(2)] r(3) res(2) by fastforce
  with chosen(1,2) registered
  show "int (length nodes) = cnt \<and> distinct (map nm_NodeID nodes)
      \<and> (\<forall>n \<in> set nodes. node_at (net_json N) (ts_store t) (nm_NodeID n) = Some n)" by simp
qed

text \<open>\<open>listNodes\<close>: the registered nodes, each once.\<close>

lemma handleListNodes_ok:
  assumes "store_ok jc (ts_store t)" "handleListNodes jc k t = r" "read_nodes jc (rs_body r) = Done ns" "rs_status r = StatusOK"
  shows "distinct (map nm_NodeID ns) \<and> (\<forall>n. n \<in> set ns \<longleftrightarrow> node_at jc (ts_store t) (nm_NodeID n) = Some n)"
proof -
  from assms(2,4) obtain ns' where ns': "ListNodes jc (ts_store t) = Inr ns'" "r = writeJSON jc (enc_structs json_NodeMetadata ns')"
    by (auto simp: handleListNodes_def status_not_ok split: if_splits sum.splits)
  with read_nodes_written [OF store_okD(1) [OF assms(1)]] listed_nodes_ok(1) [OF assms(1) ns'(1)] assms(3) have "ns' = ns" by simp
  with ListNodes_law [OF assms(1) ns'(1)] show ?thesis by simp
qed

lemma listNodes_world:
  assumes "tracker_at N (cc_TrackerAddr cfg) w t" "listNodes N cfg w = (out, w')"
  shows "same_world w w'"
proof -
  obtain o1 w1 where send: "tracker_send N (cc_TrackerAddr cfg) ''/nodes'' (cc_NetworkKey cfg) GetNodes w = (o1, w1)" by fastforce
  from read_only_request(1) [OF assms(1) send] map_reply_Done [OF assms(2) [unfolded listNodes_def send]]
  show ?thesis by simp
qed

lemma listNodes_delivered:
  assumes "tracker_at N (cc_TrackerAddr cfg) w t" "\<And>n. net_fate N n = Delivered"
    and "new_request_ok N (cc_TrackerAddr cfg @ ''/nodes'')" "header_value N (cc_NetworkKey cfg) = Some k" "authenticated k t"
    and "bb_view (db_ops (ts_store t)) (db_file (ts_store t)) = None"
  shows "\<exists>ns w'. listNodes N cfg w = (Done ns, w') \<and> distinct (map nm_NodeID ns)
    \<and> (\<forall>n. n \<in> set ns \<longleftrightarrow> node_at (net_json N) (ts_store t) (nm_NodeID n) = Some n)"
proof -
  let ?jc = "net_json N"
  have ok: "store_ok ?jc (ts_store t)" using assms(1) by (simp add: tracker_at_def)
  from ListNodes_ok [OF ok assms(6)] obtain ns where ns: "ListNodes ?jc (ts_store t) = Inr ns" ..
  have "tracker_routes (net_sort N) ?jc k GetNodes t = (Some (writeJSON ?jc (enc_structs json_NodeMetadata ns)), t)"
    using assms(5) ns by (simp add: tracker_routes_def handleListNodes_def)
  from tracker_send_delivered [OF assms(1-4) this] obtain w' where
    "tracker_send N (cc_TrackerAddr cfg) ''/nodes'' (cc_NetworkKey cfg) GetNodes w
       = (Done (writeJSON ?jc (enc_structs json_NodeMetadata ns)), w')" ..
  then have "listNodes N cfg w = (Done ns, w')"
    using read_nodes_written [OF store_okD(1) [OF ok]] listed_nodes_ok(1) [OF ok ns] by (simp add: listNodes_def map_reply_def)
  with ListNodes_law [OF ok ns] show ?thesis by blast
qed

text \<open>\<open>saveFilePlacement\<close>: when it reports success, the file is in the store.\<close>

lemma saveFilePlacement_law:
  assumes "tracker_at N (cc_TrackerAddr cfg) w t" "entry_ok (f, ps)" "saveFilePlacement N cfg f ps w = (Done (), w')"
  shows "\<exists>t' k. tracker_at N (cc_TrackerAddr cfg) w' t' \<and> wd_nodes w' = wd_nodes w \<and> ts_cfg t' = ts_cfg t
    \<and> db_ops (ts_store t') = db_ops (ts_store t)
    \<and> header_value N (cc_NetworkKey cfg) = Some k \<and> authenticated k t'
    \<and> node_at (net_json N) (ts_store t') = node_at (net_json N) (ts_store t)
    \<and> file_at (net_json N) (ts_store t') = (file_at (net_json N) (ts_store t))(fm_FileID f \<mapsto> (f, ps))"
proof -
  let ?jc = "net_json N" and ?base = "cc_TrackerAddr cfg"
  let ?req = "PostFiles (json_marshal ?jc (json_file_entry (f, ps)))"
  have ok: "store_ok ?jc (ts_store t)" and net: "network_ok N" using assms(1) by (simp_all add: tracker_at_def)
  obtain o1 w1 where send: "tracker_send N ?base ''/files'' (cc_NetworkKey cfg) ?req w = (o1, w1)" by fastforce
  from map_reply_Done [OF assms(3) [unfolded saveFilePlacement_def send], of "()"]
  obtain r where r: "o1 = Done r" "rs_status r = StatusOK" "w' = w1" by (auto dest: if_ok_Done)
  then have "tracker_do N ?base (cc_NetworkKey cfg) ?req w = (Some r, w')"
    using send by (intro tracker_send_Done) simp
  from tracker_do_cases [OF assms(1) this] obtain k t' where k: "header_value N (cc_NetworkKey cfg) = Some k"
    and route: "tracker_routes (net_sort N) ?jc k ?req t = (Some r, t')"
    and w': "w' = next_call (w\<lparr>wd_trackers := (wd_trackers w)(?base \<mapsto> t')\<rparr>)" by auto
  obtain x st where save: "SaveFilePlacement ?jc (ts_store t) f ps = (x, st)" by fastforce
  from route have "handleSaveFilePlacement ?jc k (json_marshal ?jc (json_file_entry (f, ps))) t = (r, t')"
    by (simp add: tracker_routes_def map_prod_def split: prod.splits)
  then have saved: "authenticated k t" "x = None" "t' = t\<lparr>ts_store := st\<rparr>"
    using r(2) save file_entry_read(1) [OF store_okD(1) [OF ok] assms(2)]
    by (auto simp: handleSaveFilePlacement_def status_not_ok split: if_splits option.splits prod.splits)
  have "save_entry ?jc (ts_store t) (f, ps) = (None, st)" using save saved(2) by (simp add: save_entry_def)
  from save_entry_law [OF ok assms(2) this] saved(3) w' net k saved(1)
  have "tracker_at N ?base w' t'" "node_at ?jc (ts_store t') = node_at ?jc (ts_store t)"
    "file_at ?jc (ts_store t') = (file_at ?jc (ts_store t))(fm_FileID f \<mapsto> (f, ps))"
    by (simp_all add: tracker_at_def entry_id_def)
  moreover have "db_ops (ts_store t') = db_ops (ts_store t)"
    using store_update_ops save saved(3) by (metis SaveFilePlacement_def snd_conv trackerServer.select_convs(2) trackerServer.surjective trackerServer.update_convs(2))
  ultimately show ?thesis using k saved(1,3) w' by (auto simp: authenticated_def)
qed

text \<open>\<open>getFilePlacement\<close>: the file as it is in the store.\<close>

lemma getFilePlacement_delivered:
  assumes "tracker_at N (cc_TrackerAddr cfg) w t" "\<And>n. net_fate N n = Delivered"
    and "new_request_ok N (cc_TrackerAddr cfg @ ''/files/'' @ i)" "header_value N (cc_NetworkKey cfg) = Some k" "authenticated k t"
    and "bb_view (db_ops (ts_store t)) (db_file (ts_store t)) = None" "path_segment N i = Some i"
    and "file_at (net_json N) (ts_store t) i = Some e"
  shows "\<exists>w'. getFilePlacement N cfg i w = (Done e, w') \<and> same_world w w'"
proof -
  let ?jc = "net_json N"
  have ok: "store_ok ?jc (ts_store t)" using assms(1) by (simp add: tracker_at_def)
  have "tracker_routes (net_sort N) ?jc k (GetFile i) t = (Some (writeJSON ?jc (json_file_entry e)), t)"
    using assms(5,8) GetFilePlacement_law(2) [OF ok assms(6)] by (simp add: tracker_routes_def handleGetFilePlacement_def)
  from tracker_send_delivered [OF assms(1-4) this] obtain w' where
    send: "tracker_send N (cc_TrackerAddr cfg) (''/files/'' @ i) (cc_NetworkKey cfg) (GetFile i) w
       = (Done (writeJSON ?jc (json_file_entry e)), w')" by auto
  have "entry_ok e" using store_okD(4) [OF ok assms(8)] by simp
  with send assms(3,7) file_entry_read(2) [OF store_okD(1) [OF ok]]
  have "getFilePlacement N cfg i w = (Done e, w')"
    by (simp add: getFilePlacement_def map_reply_def if_ok_def writeJSON_def)
  with read_only_request(1) [OF assms(1) send] show ?thesis by simp
qed

lemma getFilePlacement_law:
  assumes "tracker_at N (cc_TrackerAddr cfg) w t" "path_segment N i = Some i" "getFilePlacement N cfg i w = (Done e, w')"
  shows "same_world w w' \<and> file_at (net_json N) (ts_store t) i = Some e
    \<and> (\<exists>k. header_value N (cc_NetworkKey cfg) = Some k \<and> authenticated k t)"
proof -
  let ?jc = "net_json N"
  have ok: "store_ok ?jc (ts_store t)" using assms(1) by (simp add: tracker_at_def)
  obtain o1 w1 where send: "tracker_send N (cc_TrackerAddr cfg) (''/files/'' @ i) (cc_NetworkKey cfg) (GetFile i) w = (o1, w1)" by fastforce
  from assms(2,3) send obtain r where r: "o1 = Done r" "w' = w1" "rs_status r = StatusOK"
    "Option.bind (json_decode ?jc (rs_body r)) (dec_struct put_file_entry zero_file_entry) = Some e"
    by (auto simp: getFilePlacement_def map_reply_def split: if_splits outcome.splits option.splits dest!: if_ok_Done)
  from read_only_request [OF assms(1) send] r(1,2) obtain k where k: "header_value N (cc_NetworkKey cfg) = Some k"
    "handleGetFilePlacement ?jc k i t = r" and same: "same_world w w'"
    by (auto simp: tracker_routes_def)
  from k(2) r(3) obtain e' where e': "GetFilePlacement ?jc (ts_store t) i = Inr e'" "r = writeJSON ?jc (json_file_entry e')" "authenticated k t"
    by (auto simp: handleGetFilePlacement_def status_not_ok split: if_splits sum.splits)
  note at = GetFilePlacement_law(1) [OF ok e'(1)]
  then have "entry_ok e'" using store_okD(4) [OF ok] by blast
  from file_entry_read(2) [OF store_okD(1) [OF ok] this] r(4) e'(2) have "e' = e" by (simp add: writeJSON_def)
  with at same k(1) e'(3) show ?thesis by blast
qed

lemma listNodes_law:
  assumes "tracker_at N (cc_TrackerAddr cfg) w t" "header_value N (cc_NetworkKey cfg) = Some k" "authenticated k t"
    and "bb_view (db_ops (ts_store t)) (db_file (ts_store t)) = None" "listNodes N cfg w = (Done ns, w')"
  shows "same_world w w' \<and> distinct (map nm_NodeID ns)
    \<and> (\<forall>n. n \<in> set ns \<longleftrightarrow> node_at (net_json N) (ts_store t) (nm_NodeID n) = Some n)"
proof -
  let ?jc = "net_json N"
  have ok: "store_ok ?jc (ts_store t)" using assms(1) by (simp add: tracker_at_def)
  obtain o1 w1 where send: "tracker_send N (cc_TrackerAddr cfg) ''/nodes'' (cc_NetworkKey cfg) GetNodes w = (o1, w1)" by fastforce
  from map_reply_Done [OF assms(5) [unfolded listNodes_def send], of ns] obtain r where
    r: "o1 = Done r" "read_nodes ?jc (rs_body r) = Done ns" by auto
  from read_only_request(2) [OF assms(1) send _ r(1)] assms(2) have route: "handleListNodes ?jc k t = r"
    by (auto simp: tracker_routes_def)
  from ListNodes_ok [OF ok assms(4)] assms(3) route have "rs_status r = StatusOK"
    by (auto simp: handleListNodes_def writeJSON_def)
  with handleListNodes_ok [OF ok route r(2)] listNodes_world [OF assms(1,5)] show ?thesis by blast
qed

end
