(* ===== verification/PutCmd.thy ===== *)
theory PutCmd
  imports Calls
begin

text \<open>
  \<open>cmd/aldea/put.go\<close>: a file is split into chunks, each chunk is encoded into shards, each shard is
  encrypted and sent to a node of the tracker's choice, and the placement of all of them is saved
  with the tracker. The first error ends the command; what was sent before stays where it is.
\<close>

section \<open>The command\<close>

text \<open>The third-party primitives, and the random bytes each use of \<open>crypto/rand\<close> draws.\<close>

record primitives =
  pm_idkey :: idkey_fun
  pm_newx :: newx_fun
  pm_rsNew :: "int \<Rightarrow> int \<Rightarrow> string + RSEncoder"

record randomness =
  rn_fileID :: rand_fun
  rn_nonce :: "nat \<Rightarrow> nat \<Rightarrow> rand_fun"   \<comment> \<open>by chunk and shard\<close>

record opened_file =
  of_reader :: reader
  of_info :: "(string \<times> int) option"      \<comment> \<open>name and size; \<open>f.Stat()\<close>'s error is ignored\<close>

definition randomHex :: "rand_fun \<Rightarrow> nat \<Rightarrow> string" where
  "randomHex rnd n = hex_encode (case rnd n of None \<Rightarrow> replicate n 0 | Some b \<Rightarrow> b)"

definition shard_id :: "string \<Rightarrow> int \<Rightarrow> int \<Rightarrow> string" where
  "shard_id fileID ci i = fileID @ ''-c'' @ show_int ci @ ''-s'' @ show_int i"

fun encrypt_shards :: "newx_fun \<Rightarrow> (nat \<Rightarrow> rand_fun) \<Rightarrow> bytes \<Rightarrow> nat \<Rightarrow> Shard list \<Rightarrow> crypto_err + bytes list" where
  "encrypt_shards newx rnd key i [] = Inr []"
| "encrypt_shards newx rnd key i (s # ss) =
     (case Encrypt newx (rnd i) (sh_Data s) key of
        Inl e \<Rightarrow> Inl e
      | Inr ct \<Rightarrow>
          (case encrypt_shards newx rnd key (Suc i) ss of Inl e \<Rightarrow> Inl e | Inr cts \<Rightarrow> Inr (ct # cts)))"

definition placement :: "string \<Rightarrow> Chunk \<Rightarrow> int \<Rightarrow> NodeMetadata \<Rightarrow> ShardPlacement" where
  "placement fileID c i node =
     \<lparr>sp_ShardID = shard_id fileID (ch_Index c) i, sp_FileID = fileID, sp_ChunkIndex = ch_Index c, sp_ShardIndex = i,
      sp_NodeID = nm_NodeID node, sp_OriginalChunkSize = int (length (ch_Data c))\<rparr>"

fun put_shards ::
    "network \<Rightarrow> ClientConfig \<Rightarrow> string \<Rightarrow> Chunk \<Rightarrow> bytes list \<Rightarrow> int \<Rightarrow> NodeMetadata list \<Rightarrow> ShardPlacement list \<Rightarrow> 'd world
      \<Rightarrow> ShardPlacement list outcome \<times> 'd world" where
  "put_shards N cfg fileID c encrypted i [] acc w = (Done acc, w)"
| "put_shards N cfg fileID c encrypted i (node # nodes) acc w =
     (case get_at encrypted i of
        None \<Rightarrow> (Panicked, w)
      | Some ct \<Rightarrow>
          (case putShard N cfg node (shard_id fileID (ch_Index c) i) ct w of
             (Some e, w') \<Rightarrow> (Failed e, w')
           | (None, w') \<Rightarrow>
               put_shards N cfg fileID c encrypted (i + 1) nodes (acc @ [placement fileID c i node]) w'))"

fun put_chunks ::
    "network \<Rightarrow> primitives \<Rightarrow> (nat \<Rightarrow> nat \<Rightarrow> rand_fun) \<Rightarrow> ClientConfig \<Rightarrow> bytes \<Rightarrow> Encoder \<Rightarrow> string \<Rightarrow> Chunk list
      \<Rightarrow> ShardPlacement list \<Rightarrow> 'd world \<Rightarrow> ShardPlacement list outcome \<times> 'd world" where
  "put_chunks N pm rnd cfg key enc fileID [] acc w = (Done acc, w)"
| "put_chunks N pm rnd cfg key enc fileID (c # cs) acc w =
     (case Erasure.Encode enc (ch_Data c) of
        Inl e \<Rightarrow> (Failed (ErrErasure e), w)
      | Inr shards \<Rightarrow>
          (case encrypt_shards (pm_newx pm) (rnd (nat (ch_Index c))) key 0 shards of
             Inl e \<Rightarrow> (Failed (ErrCrypto e), w)
           | Inr encrypted \<Rightarrow>
               (case selectNodes N cfg (int (length shards)) w of
                  (Panicked, w1) \<Rightarrow> (Panicked, w1)
                | (Failed e, w1) \<Rightarrow> (Failed e, w1)
                | (Done nodes, w1) \<Rightarrow>
                    (case put_shards N cfg fileID c encrypted 0 nodes acc w1 of
                       (Panicked, w2) \<Rightarrow> (Panicked, w2)
                     | (Failed e, w2) \<Rightarrow> (Failed e, w2)
                     | (Done acc', w2) \<Rightarrow> put_chunks N pm rnd cfg key enc fileID cs acc' w2))))"

text \<open>
  The key both commands derive from the configuration, with the errors in the code's order.
  \<open>Split\<close> always returns, so its \<^const>\<open>None\<close> is never taken. A missing \<open>info\<close> is used, and panics,
  only after all the uploads.
\<close>

definition client_key :: "primitives \<Rightarrow> ClientConfig \<Rightarrow> client_err + bytes" where
  "client_key pm cfg =
     (case DecodedSalt cfg of
        Inl e \<Rightarrow> Inl (ErrConfig e)
      | Inr salt \<Rightarrow>
          (case DeriveKey (pm_idkey pm) (bytes_of_string (cc_NetworkKey cfg)) salt of
             Inl e \<Rightarrow> Inl (ErrCrypto e) | Inr key \<Rightarrow> Inr key))"

definition save_uploaded ::
    "network \<Rightarrow> ClientConfig \<Rightarrow> string \<Rightarrow> (string \<times> int) option \<Rightarrow> int \<Rightarrow> ShardPlacement list \<Rightarrow> 'd world \<Rightarrow> string outcome \<times> 'd world" where
  "save_uploaded N cfg fileID info nchunks placements w =
     (case info of
        None \<Rightarrow> (Panicked, w)
      | Some (name, sz) \<Rightarrow>
          (case saveFilePlacement N cfg
                  \<lparr>fm_FileID = fileID, fm_FileName = name, fm_Size = sz, fm_ChunkCount = nchunks,
                   fm_CreatedAt = net_clientTime N (wd_calls w)\<rparr> placements w of
             (Panicked, w') \<Rightarrow> (Panicked, w')
           | (Failed e, w') \<Rightarrow> (Failed e, w')
           | (Done _, w') \<Rightarrow> (Done fileID, w')))"

definition runPut ::
    "network \<Rightarrow> primitives \<Rightarrow> randomness \<Rightarrow> config_err + ClientConfig \<Rightarrow> string + opened_file \<Rightarrow> 'd world
      \<Rightarrow> string outcome \<times> 'd world" where
  "runPut N pm rn config file w =
     (case config of
        Inl e \<Rightarrow> (Failed (ErrConfig e), w)
      | Inr cfg \<Rightarrow>
          (case client_key pm cfg of
             Inl e \<Rightarrow> (Failed e, w)
           | Inr key \<Rightarrow>
               (case file of
                  Inl e \<Rightarrow> (Failed (ErrFile e), w)
                | Inr f \<Rightarrow>
                    (case Split (of_reader f) 0 of
                       None \<Rightarrow> (Panicked, w)
                     | Some (Inl e) \<Rightarrow> (Failed (ErrChunk e), w)
                     | Some (Inr chunks) \<Rightarrow>
                         (case NewEncoder (pm_rsNew pm) DefaultDataShards DefaultParityShards of
                            Inl e \<Rightarrow> (Failed (ErrErasure e), w)
                          | Inr enc \<Rightarrow>
                              let fileID = randomHex (rn_fileID rn) 16
                              in case put_chunks N pm (rn_nonce rn) cfg key enc fileID chunks [] w of
                                   (Panicked, w') \<Rightarrow> (Panicked, w')
                                 | (Failed e, w') \<Rightarrow> (Failed e, w')
                                 | (Done placements, w') \<Rightarrow>
                                     save_uploaded N cfg fileID (of_info f) (int (length chunks)) placements w')))))"

section \<open>What an upload leaves behind\<close>

lemma shard_id_inject: "shard_id f c i = shard_id f c' i' \<longleftrightarrow> c = c' \<and> i = i'"
proof -
  have "CHR ''s'' \<notin> set (show_int k)" for k by (auto simp: show_int_def dest: show_nat_digits)
  then have "(show_int c @ ''-'') @ CHR ''s'' # show_int i = (show_int c' @ ''-'') @ CHR ''s'' # show_int i'
      \<longleftrightarrow> show_int c @ ''-'' = show_int c' @ ''-'' \<and> show_int i = show_int i'"
    by (intro cut_at_separator) simp_all
  then show ?thesis by (simp add: shard_id_def)
qed

lemma utf8_shard_id:
  assumes "list_all (\<lambda>c. (of_char c :: nat) < 128) f"
  shows "utf8_valid (shard_id f c i)"
proof -
  have "(of_char x :: nat) < 128" if "x \<in> set (show_int k)" for x k
    using that by (auto simp: show_int_def split: if_splits dest!: show_nat_digits)
  with assms show ?thesis by (intro utf8_valid_ascii) (auto simp: shard_id_def list_all_iff)
qed

lemma randomHex_plain: "plain_text (randomHex rnd n)" "list_all (\<lambda>c. (of_char c :: nat) < 128) (randomHex rnd n)"
  using hex_encode_chars by (fastforce simp: randomHex_def plain_text_def list_all_iff Let_def)+

lemma randomHex_nonempty: "rand_ok rnd \<Longrightarrow> randomHex rnd 16 \<noteq> ''''"
proof
  assume "rand_ok rnd" "randomHex rnd 16 = ''''"
  moreover obtain b where "rnd 16 = Some b" "length b = 16" using \<open>rand_ok rnd\<close> by (auto simp: rand_ok_def)
  ultimately have "length (hex_encode b) = 0" by (simp add: randomHex_def)
  with \<open>length b = 16\<close> show False by simp
qed

lemma encrypt_shards_law:
  assumes "newx_ok newx key" "\<And>j. rand_ok (rnd j)" "encrypt_shards newx rnd key i ss = Inr cts"
  shows "length cts = length ss \<and> (\<forall>k < length ss. cts ! k \<noteq> [] \<and> Decrypt newx (cts ! k) key = Inr (sh_Data (ss ! k)))"
  using assms(3)
proof (induction ss arbitrary: i cts)
  case (Cons s ss)
  then obtain ct cts' where e: "Encrypt newx (rnd i) (sh_Data s) key = Inr ct" "encrypt_shards newx rnd key (Suc i) ss = Inr cts'"
    "cts = ct # cts'" by (auto split: sum.splits)
  from cipher.dec_enc [OF assms(1,2) e(1)] Cons.IH [OF e(2)] e(3) show ?case
    by (auto simp: nth_Cons split: nat.split)
qed simp

text \<open>One shard after the other, each where its placement says; the other shards of the network stay.\<close>

lemma put_shards_law:
  assumes "rpc_ok (with_key (N, cfg)) w" "put_shards N cfg f c cts i nodes acc w = (Done ps, w')"
    and "list_all (\<lambda>c. (of_char c :: nat) < 128) f" "0 \<le> i"
  shows "rpc_ok (with_key (N, cfg)) w' \<and> wd_trackers w' = wd_trackers w
    \<and> (\<exists>new. ps = acc @ new \<and> length new = length nodes \<and> i + int (length nodes) \<le> int (length cts) + (if nodes = [] then i else 0)
        \<and> (\<forall>k < length nodes. new ! k = placement f c (i + int k) (nodes ! k)
             \<and> held_at w' (nm_Address (nodes ! k)) (shard_id f (ch_Index c) (i + int k)) = Some (cts ! nat (i + int k))))
    \<and> (\<forall>a j x. held_at w a j = Some x \<longrightarrow> (\<forall>k \<ge> i. j \<noteq> shard_id f (ch_Index c) k) \<longrightarrow> held_at w' a j = Some x)"
  using assms
proof (induction nodes arbitrary: i acc w)
  case (Cons n ns)
  let ?x = "(N, cfg)" and ?id = "\<lambda>k. shard_id f (ch_Index c) k"
  from Cons.prems(2) obtain ct where ct: "get_at cts i = Some ct" by (auto split: option.splits)
  obtain e w1 where put: "putShard N cfg n (?id i) ct w = (e, w1)" by fastforce
  with Cons.prems(2) ct have e: "e = None"
    and rest: "put_shards N cfg f c cts (i + 1) ns (acc @ [placement f c i n]) w1 = (Done ps, w')"
    by (auto split: option.splits)
  have send: "(\<lambda>x. putShard (fst x) (snd x)) ?x n (?id i) ct w = (e, w1)" using put by simp
  note law = cli.send_keeps [OF Cons.prems(1) utf8_shard_id [OF Cons.prems(3)] send]
  have i: "0 \<le> i" "i < int (length cts)" "ct = cts ! nat i" using ct by (auto simp: get_at_def split: if_splits)
  have "0 \<le> i + 1" using i(1) by simp
  note ih = Cons.IH [OF law(1) rest Cons.prems(3) this]
  from ih obtain new where new: "ps = acc @ [placement f c i n] @ new" "length new = length ns"
    "\<And>k. k < length ns \<Longrightarrow> new ! k = placement f c (i + 1 + int k) (ns ! k)
       \<and> held_at w' (nm_Address (ns ! k)) (?id (i + 1 + int k)) = Some (cts ! nat (i + 1 + int k))" by auto
  have len: "i + int (length (n # ns)) \<le> int (length cts)"
    using ih i(2) by (cases ns) auto
  have keep: "held_at w' a j = Some x" if "held_at w1 a j = Some x" "\<forall>k \<ge> i + 1. j \<noteq> ?id k" for a j x
    using ih that by blast
  have first: "held_at w' (nm_Address n) (?id i) = Some (cts ! nat i)"
    using keep [OF law(5) [OF e]] i(3) by (simp add: shard_id_inject)
  have "held_at w' a j = Some x" if "held_at w a j = Some x" "\<forall>k \<ge> i. j \<noteq> ?id k" for a j x
  proof (rule keep)
    have "?id i \<noteq> j" using that(2) by auto
    with law(4) [OF that(1)] show "held_at w1 a j = Some x" by simp
  qed (use that(2) in simp)
  moreover have "(placement f c i n # new) ! k = placement f c (i + int k) ((n # ns) ! k)
      \<and> held_at w' (nm_Address ((n # ns) ! k)) (?id (i + int k)) = Some (cts ! nat (i + int k))"
    if "k < length (n # ns)" for k
    using that first new(3) [of "k - 1"] by (cases k) (simp_all add: algebra_simps)
  ultimately show ?case
    using ih law(2) new(1,2) len by (intro conjI exI [of _ "placement f c i n # new"]) auto
qed simp

text \<open>
  A chunk is placed by its placements: they name its shards in order, each on another registered
  node that holds, under the shard's identifier, a text that decrypts to the shard.
\<close>

definition placed ::
    "newx_fun \<Rightarrow> bytes \<Rightarrow> Encoder \<Rightarrow> (string \<Rightarrow> NodeMetadata option) \<Rightarrow> string \<Rightarrow> 'd world \<Rightarrow> Chunk \<Rightarrow> ShardPlacement list \<Rightarrow> bool" where
  "placed newx key enc nodes f w c ps \<longleftrightarrow>
     (\<exists>shards ns. Erasure.Encode enc (ch_Data c) = Inr shards \<and> length ps = length shards \<and> length ns = length shards
        \<and> distinct (map nm_NodeID ns)
        \<and> (\<forall>k < length shards. ps ! k = placement f c (int k) (ns ! k) \<and> nodes (nm_NodeID (ns ! k)) = Some (ns ! k)
             \<and> (\<exists>ct. held_at w (nm_Address (ns ! k)) (shard_id f (ch_Index c) (int k)) = Some ct \<and> ct \<noteq> []
                  \<and> Decrypt newx ct key = Inr (sh_Data (shards ! k)))))"

lemma placed_mono:
  assumes "placed newx key enc nodes f w c ps"
    and "\<And>a k x. held_at w a (shard_id f (ch_Index c) k) = Some x \<Longrightarrow> held_at w' a (shard_id f (ch_Index c) k) = Some x"
  shows "placed newx key enc nodes f w' c ps"
  using assms unfolding placed_def by meson

lemma tracker_at_same: "tracker_at N base w t \<Longrightarrow> wd_trackers w' = wd_trackers w \<Longrightarrow> tracker_at N base w' t"
  by (simp add: tracker_at_def)

lemma same_world_keeps:
  assumes "same_world w w'"
  shows "rpc_ok x w' = rpc_ok x w" "held_at w' = held_at w" "live_at x w' = live_at x w" "wd_trackers w' = wd_trackers w"
  using assms by (auto simp: same_world_def rpc_ok_def held_at_def live_at_def fun_eq_iff)

lemma put_chunks_law:
  assumes "newx_ok (pm_newx pm) key" "\<And>c j. rand_ok (rnd c j)" "encoder_ok enc" "totalShards enc = 8"
    and "list_all (\<lambda>c. (of_char c :: nat) < 128) f" "distinct (map ch_Index cs)"
    and "rpc_ok (with_key (N, cfg)) w" "tracker_at N (cc_TrackerAddr cfg) w t"
    and "put_chunks N pm rnd cfg key enc f cs acc w = (Done ps, w')"
  shows "rpc_ok (with_key (N, cfg)) w' \<and> wd_trackers w' = wd_trackers w
    \<and> (\<exists>pss. ps = acc @ concat pss
        \<and> list_all2 (placed (pm_newx pm) key enc (node_at (net_json N) (ts_store t)) f w') cs pss)
    \<and> (\<forall>a j x. held_at w a j = Some x \<longrightarrow> (\<forall>c \<in> set cs. \<forall>k. j \<noteq> shard_id f (ch_Index c) k) \<longrightarrow> held_at w' a j = Some x)"
  using assms(6-)
proof (induction cs arbitrary: acc w)
  case (Cons c cs)
  let ?placed = "placed (pm_newx pm) key enc (node_at (net_json N) (ts_store t)) f"
  obtain shards where shards: "Erasure.Encode enc (ch_Data c) = Inr shards" "length shards = 8"
    using rs_code.encode_ok [OF assms(3), of "ch_Data c"] assms(4) by auto
  from Cons.prems(4) shards obtain cts where cts: "encrypt_shards (pm_newx pm) (rnd (nat (ch_Index c))) key 0 shards = Inr cts"
    by (auto split: sum.splits)
  obtain out w1 where sel: "selectNodes N cfg (int (length shards)) w = (out, w1)" by fastforce
  with Cons.prems(4) shards cts obtain nodes where nodes: "out = Done nodes" by (cases out) auto
  note picked = selectNodes_law [OF Cons.prems(3) _ sel]
  have eight: "in_int64 (int (length shards))" using shards(2) by (simp add: in_int64_def)
  obtain out2 w2 where put: "put_shards N cfg f c cts 0 nodes acc w1 = (out2, w2)" by fastforce
  with Cons.prems(4) shards cts sel nodes obtain acc2 where acc2: "out2 = Done acc2"
    and rest: "put_chunks N pm rnd cfg key enc f cs acc2 w2 = (Done ps, w')" by (cases out2) auto
  note w1 = same_world_keeps [OF picked(1) [OF eight]]
  have "rpc_ok (with_key (N, cfg)) w1" using Cons.prems(2) w1(1) by blast
  note sent = put_shards_law [OF this put [unfolded acc2] assms(5) order_refl]
  from sent obtain new where new: "acc2 = acc @ new" "length new = length nodes"
    "\<And>k. k < length nodes \<Longrightarrow> new ! k = placement f c (int k) (nodes ! k)
       \<and> held_at w2 (nm_Address (nodes ! k)) (shard_id f (ch_Index c) (int k)) = Some (cts ! k)" by auto
  have n8: "length nodes = 8" using picked(2) [OF eight nodes] shards(2) by simp
  note cts_law = encrypt_shards_law [OF assms(1,2) cts]
  have "?placed w2 c new"
    unfolding placed_def
  proof (intro exI conjI allI impI)
    fix k assume k: "k < length shards"
    then have "nodes ! k \<in> set nodes" using n8 shards(2) by simp
    with picked(2) [OF eight nodes] show "node_at (net_json N) (ts_store t) (nm_NodeID (nodes ! k)) = Some (nodes ! k)" by blast
    show "new ! k = placement f c (int k) (nodes ! k)"
      "held_at w2 (nm_Address (nodes ! k)) (shard_id f (ch_Index c) (int k)) = Some (cts ! k)"
      using new(3) k n8 shards(2) by simp_all
    show "cts ! k \<noteq> []" "Decrypt (pm_newx pm) (cts ! k) key = Inr (sh_Data (shards ! k))" using cts_law k by blast+
  qed (use shards new(2) n8 picked(2) [OF eight nodes] in simp_all)
  moreover
  have trackers: "wd_trackers w2 = wd_trackers w" and rpc2: "rpc_ok (with_key (N, cfg)) w2" using sent w1(4) by simp_all
  have "distinct (map ch_Index cs)" using Cons.prems(1) by simp
  note ih = Cons.IH [OF this rpc2 tracker_at_same [OF Cons.prems(3) trackers] rest]
  from ih obtain pss where pss: "ps = acc2 @ concat pss" "list_all2 (?placed w') cs pss" by blast
  have keep: "held_at w' a j = Some x" if "held_at w2 a j = Some x" "\<forall>d \<in> set cs. \<forall>k. j \<noteq> shard_id f (ch_Index d) k" for a j x
    using ih that by blast
  have other: "ch_Index c \<noteq> ch_Index d" if "d \<in> set cs" for d using Cons.prems(1) that by (auto simp: image_iff)
  ultimately have "?placed w' c new"
    by (elim placed_mono) (rule keep, simp_all add: shard_id_inject other)
  moreover have "held_at w' a j = Some x"
    if "held_at w a j = Some x" "\<forall>d \<in> set (c # cs). \<forall>k. j \<noteq> shard_id f (ch_Index d) k" for a j x
  proof (rule keep)
    have "held_at w1 a j = Some x" using that(1) w1(2) by simp
    with sent that(2) show "held_at w2 a j = Some x" by simp
  qed (use that(2) in simp)
  ultimately show ?case
    using ih pss new(1) trackers by (intro conjI exI [of _ "new # pss"]) auto
qed simp

text \<open>The documented behaviour of the primitives: key sizes, the cipher and the code.\<close>

definition primitives_ok :: "primitives \<Rightarrow> bool" where
  "primitives_ok pm \<longleftrightarrow> (\<forall>p s t m th n. length (pm_idkey pm p s t m th n) = n)
     \<and> (\<forall>k. length k = 32 \<longrightarrow> newx_ok (pm_newx pm) k)
     \<and> (\<exists>rs. pm_rsNew pm 4 4 = Inr rs \<and> rs_ok 4 4 rs)"

definition randomness_ok :: "randomness \<Rightarrow> bool" where
  "randomness_ok rn \<longleftrightarrow> rand_ok (rn_fileID rn) \<and> (\<forall>c j. rand_ok (rn_nonce rn c j))"

lemma client_key_ok:
  assumes "primitives_ok pm" "client_key pm cfg = Inr key"
  shows "newx_ok (pm_newx pm) key"
proof -
  have "length key = 32"
    using assms by (auto simp: client_key_def DeriveKey_def primitives_ok_def keySize_def split: sum.splits if_splits)
  with assms(1) show ?thesis by (simp add: primitives_ok_def)
qed

lemma default_encoder:
  assumes "primitives_ok pm"
  obtains enc where "NewEncoder (pm_rsNew pm) DefaultDataShards DefaultParityShards = Inr enc" "encoder_ok enc"
    "dataShards enc = 4" "totalShards enc = 8"
proof -
  from assms obtain rs where rs: "pm_rsNew pm 4 4 = Inr rs" "rs_ok 4 4 rs" by (auto simp: primitives_ok_def)
  let ?enc = "\<lparr>dataShards = 4, parityShards = 4, enc_rs = rs\<rparr>"
  have "NewEncoder (pm_rsNew pm) DefaultDataShards DefaultParityShards = Inr ?enc"
    using rs(1) by (simp add: NewEncoder_def DefaultDataShards_def DefaultParityShards_def)
  moreover have "encoder_ok ?enc" using rs(2) by (simp add: encoder_ok_def)
  ultimately show thesis using that by (simp add: totalShards_def)
qed

definition file_chunks :: "bytes \<Rightarrow> Chunk list" where
  "file_chunks content = number_chunks 0 (chunks_of (chunk_size 0) content)"

lemma file_chunks_Split: "rd_end r = EOF \<Longrightarrow> Split r 0 = Some (Inr (file_chunks (rd_content r)))"
  by (simp add: Split_eq split_result_def file_chunks_def)

lemma file_chunks_simps:
  "map ch_Data (file_chunks content) = chunks_of (chunk_size 0) content"
  "concat (map ch_Data (file_chunks content)) = content"
  "k < length (file_chunks content) \<Longrightarrow> ch_Index (file_chunks content ! k) = int k
     \<and> ch_Hash (file_chunks content ! k) = sha256 (ch_Data (file_chunks content ! k))"
  by (simp_all add: file_chunks_def concat_chunks_of nth_number_chunks)

lemma file_chunks_bounds:
  assumes "in_int64 (int (length content))" "c \<in> set (file_chunks content)"
  shows "in_int64 (ch_Index c)" "length (ch_Data c) \<le> 1024 * 1024"
proof -
  from assms(2) obtain k where k: "k < length (file_chunks content)" "c = file_chunks content ! k"
    by (auto simp: in_set_conv_nth)
  have "ch_Data c \<in> set (chunks_of (chunk_size 0) content)"
    using assms(2) by (metis file_chunks_simps(1) image_eqI list.set_map)
  from chunks_of_sizes [OF chunk_size_pos this] show "length (ch_Data c) \<le> 1024 * 1024"
    by (simp add: chunk_size_def DefaultChunkSize_def)
  have "length (file_chunks content) = (length content + chunk_size 0 - 1) div chunk_size 0"
    by (simp add: file_chunks_def length_chunks_of)
  also have "\<dots> \<le> length content"
    by (cases "length content") (simp_all add: chunk_size_def DefaultChunkSize_def)
  finally have "int k < int (length content)" using k(1) by simp
  with assms(1) k show "in_int64 (ch_Index c)" by (simp add: in_int64_def file_chunks_simps(3))
qed

lemma distinct_file_chunks: "distinct (map ch_Index (file_chunks content))"
  by (auto simp: distinct_conv_nth file_chunks_simps(3))

lemma placed_ok:
  assumes "placed newx key enc nodes f w c ps" "in_int64 (ch_Index c)" "length (ch_Data c) \<le> 1024 * 1024"
    and "totalShards enc = 8" "encoder_ok enc" "list_all (\<lambda>c. (of_char c :: nat) < 128) f"
    and "\<forall>i n. nodes i = Some n \<longrightarrow> node_ok n"
  shows "list_all placement_ok ps" "length ps = 8" "p \<in> set ps \<Longrightarrow> sp_ChunkIndex p = ch_Index c"
    and "distinct (map sp_NodeID ps)" "p \<in> set ps \<Longrightarrow> \<exists>n. nodes (sp_NodeID p) = Some n"
proof -
  from assms(1) obtain shards ns where s: "Erasure.Encode enc (ch_Data c) = Inr shards" "length ps = length shards"
    "\<And>k. k < length shards \<Longrightarrow> ps ! k = placement f c (int k) (ns ! k) \<and> nodes (nm_NodeID (ns ! k)) = Some (ns ! k)"
    and ns: "length ns = length shards" "distinct (map nm_NodeID ns)"
    unfolding placed_def by blast
  have eight: "length shards = 8" using rs_code.encode_ok [OF assms(5), of "ch_Data c"] s(1) assms(4) by auto
  then show "length ps = 8" using s(2) by simp
  have "utf8_valid f" using assms(6) by (rule utf8_valid_ascii)
  then have "placement_ok (ps ! k)" if "k < length ps" for k
    using s(2) s(3) [of k] that eight assms(2,3) assms(7) utf8_shard_id [OF assms(6)]
    by (auto simp: placement_ok_def placement_def node_ok_def in_int64_def)
  then show "list_all placement_ok ps" by (auto simp: list_all_length)
  show "sp_ChunkIndex p = ch_Index c" if "p \<in> set ps"
    using that s(2,3) by (auto simp: in_set_conv_nth placement_def)
  have "map sp_NodeID ps = map nm_NodeID ns"
    using s(2,3) ns(1) by (intro nth_equalityI) (simp_all add: placement_def)
  then show "distinct (map sp_NodeID ps)" using ns(2) by simp
  show "\<exists>n. nodes (sp_NodeID p) = Some n" if "p \<in> set ps"
    using that s(2,3) by (fastforce simp: in_set_conv_nth placement_def)
qed

text \<open>
  A file is uploaded when the tracker lists its placements and they place each of its chunks.
\<close>

definition uploaded ::
    "network \<Rightarrow> primitives \<Rightarrow> ClientConfig \<Rightarrow> bytes \<Rightarrow> Encoder \<Rightarrow> string \<Rightarrow> bytes \<Rightarrow> 'd world \<Rightarrow> 'd trackerServer \<Rightarrow> bool" where
  "uploaded N pm cfg key enc fileID content w t \<longleftrightarrow>
     tracker_at N (cc_TrackerAddr cfg) w t \<and> rpc_ok (with_key (N, cfg)) w
     \<and> (\<exists>k. header_value N (cc_NetworkKey cfg) = Some k \<and> authenticated k t)
     \<and> (\<exists>meta pss. file_at (net_json N) (ts_store t) fileID = Some (meta, concat pss)
          \<and> list_all2 (placed (pm_newx pm) key enc (node_at (net_json N) (ts_store t)) fileID w) (file_chunks content) pss)"

lemma saved_entry_ok:
  assumes "in_int64 (int (length content))" "utf8_valid name" "in_int64 sz" "tracker_at N base w0 t"
    and "encoder_ok enc" "totalShards enc = 8"
    and "\<exists>pss. ps = [] @ concat pss \<and> list_all2 (placed newx key enc (node_at (net_json N) (ts_store t)) (randomHex rnd n) w) (file_chunks content) pss"
  shows "entry_ok (\<lparr>fm_FileID = randomHex rnd n, fm_FileName = name, fm_Size = sz,
    fm_ChunkCount = int (length (file_chunks content)), fm_CreatedAt = net_clientTime N k\<rparr>, ps)"
proof -
  let ?cs = "file_chunks content"
  from assms(7) obtain pss where pss: "ps = concat pss"
    "list_all2 (placed newx key enc (node_at (net_json N) (ts_store t)) (randomHex rnd n) w) ?cs pss" by auto
  have t: "store_ok (net_json N) (ts_store t)" "network_ok N" using assms(4) by (simp_all add: tracker_at_def)
  have nodes: "\<forall>i n. node_at (net_json N) (ts_store t) i = Some n \<longrightarrow> node_ok n" using store_okD(3) [OF t(1)] by simp
  have "list_all placement_ok qs" if qs: "qs \<in> set pss" for qs
  proof -
    from qs pss(2) obtain c where c: "c \<in> set ?cs" "placed newx key enc (node_at (net_json N) (ts_store t)) (randomHex rnd n) w c qs"
      by (metis in_set_conv_nth list_all2_conv_all_nth)
    show ?thesis
      by (rule placed_ok(1) [OF c(2) file_chunks_bounds [OF assms(1) c(1)] assms(6,5) randomHex_plain(2) nodes])
  qed
  then have "list_all placement_ok ps" by (auto simp: list_all_iff pss(1))
  moreover have "length ?cs \<le> length content"
    by (cases "length content") (simp_all add: file_chunks_def length_chunks_of chunk_size_def DefaultChunkSize_def)
  ultimately show ?thesis
    using assms(1-3) t(2) utf8_valid_ascii [OF randomHex_plain(2)]
    by (simp add: entry_ok_def file_ok_def network_ok_def in_int64_def)
qed

lemma runPut_law:
  assumes "primitives_ok pm" "randomness_ok rn" "rd_end (of_reader f) = EOF"
    and "in_int64 (int (length (rd_content (of_reader f))))" "of_info f = Some (name, sz)" "utf8_valid name" "in_int64 sz"
    and "rpc_ok (with_key (N, cfg)) w" "tracker_at N (cc_TrackerAddr cfg) w t"
    and "runPut N pm rn (Inr cfg) (Inr f) w = (Done fid, w')"
  shows "\<exists>key enc t'. client_key pm cfg = Inr key
    \<and> NewEncoder (pm_rsNew pm) DefaultDataShards DefaultParityShards = Inr enc
    \<and> uploaded N pm cfg key enc fid (rd_content (of_reader f)) w' t' \<and> db_ops (ts_store t') = db_ops (ts_store t)
    \<and> fid = randomHex (rn_fileID rn) 16 \<and> node_at (net_json N) (ts_store t') = node_at (net_json N) (ts_store t)"
proof -
  let ?content = "rd_content (of_reader f)" and ?base = "cc_TrackerAddr cfg"
  let ?cs = "file_chunks ?content" and ?fid = "randomHex (rn_fileID rn) 16"
  obtain enc where enc: "NewEncoder (pm_rsNew pm) DefaultDataShards DefaultParityShards = Inr enc" "encoder_ok enc"
    "totalShards enc = 8" by (rule default_encoder [OF assms(1)])
  from assms(10) obtain key where key: "client_key pm cfg = Inr key" by (auto simp: runPut_def split: sum.splits)
  obtain out w1 where put: "put_chunks N pm (rn_nonce rn) cfg key enc ?fid ?cs [] w = (out, w1)" by fastforce
  with assms(10) key enc(1) file_chunks_Split [OF assms(3)] obtain ps where ps: "out = Done ps"
    and save: "save_uploaded N cfg ?fid (of_info f) (int (length ?cs)) ps w1 = (Done fid, w')"
    by (cases out) (auto simp: runPut_def Let_def)
  note law = put_chunks_law [OF client_key_ok [OF assms(1) key] _ enc(2,3) randomHex_plain(2) distinct_file_chunks assms(8,9) put [unfolded ps]]
  have rnd: "rand_ok (rn_nonce rn c j)" for c j using assms(2) by (simp add: randomness_ok_def)
  from law [OF rnd] obtain pss where w1: "rpc_ok (with_key (N, cfg)) w1" "wd_trackers w1 = wd_trackers w"
    and pss: "ps = concat pss" "list_all2 (placed (pm_newx pm) key enc (node_at (net_json N) (ts_store t)) ?fid w1) ?cs pss"
    by auto
  let ?meta = "\<lparr>fm_FileID = ?fid, fm_FileName = name, fm_Size = sz, fm_ChunkCount = int (length ?cs),
    fm_CreatedAt = net_clientTime N (wd_calls w1)\<rparr>"
  obtain o2 w2 where saved: "saveFilePlacement N cfg ?meta ps w1 = (o2, w2)" by fastforce
  with save assms(5) have fin: "o2 = Done ()" "w2 = w'" "fid = ?fid"
    by (cases o2; auto simp: save_uploaded_def)+
  have entry: "entry_ok (?meta, ps)"
    by (rule saved_entry_ok [OF assms(4,6,7,9) enc(2,3)]) (use pss in blast)
  note saved_law = saveFilePlacement_law [OF tracker_at_same [OF assms(9) w1(2)] entry saved [unfolded fin(1,2)]]
  then obtain t' k where t': "tracker_at N ?base w' t'" "wd_nodes w' = wd_nodes w1" "db_ops (ts_store t') = db_ops (ts_store t)"
    "header_value N (cc_NetworkKey cfg) = Some k" "authenticated k t'"
    "node_at (net_json N) (ts_store t') = node_at (net_json N) (ts_store t)"
    "file_at (net_json N) (ts_store t') = (file_at (net_json N) (ts_store t))(?fid \<mapsto> (?meta, ps))" by auto
  have held: "held_at w' = held_at w1" using t'(2) by (simp add: held_at_def fun_eq_iff)
  have "rpc_ok (with_key (N, cfg)) w'" using w1(1) t'(2) by (simp add: rpc_ok_def)
  moreover have "list_all2 (placed (pm_newx pm) key enc (node_at (net_json N) (ts_store t')) ?fid w') ?cs pss"
    using pss(2) by (rule list_all2_mono) (simp add: placed_def held t'(6))
  moreover have "file_at (net_json N) (ts_store t') fid = Some (?meta, concat pss)"
    using t'(7) fin(3) pss(1) by simp
  ultimately have "uploaded N pm cfg key enc fid ?content w' t'"
    unfolding uploaded_def fin(3) using t'(1,4,5) by blast
  with key enc(1) t'(3,6) fin(3) show ?thesis by blast
qed

lemma runPut_tracker:
  assumes "primitives_ok pm" "randomness_ok rn" "rd_end (of_reader f) = EOF"
    and "in_int64 (int (length (rd_content (of_reader f))))" "of_info f = Some (name, sz)" "utf8_valid name" "in_int64 sz"
    and "rpc_ok (with_key (N, cfg)) w" "tracker_at N (cc_TrackerAddr cfg) w t"
    and "runPut N pm rn (Inr cfg) (Inr f) w = (Done fid, w')"
  shows "\<exists>t'. wd_trackers w' (cc_TrackerAddr cfg) = Some t' \<and> node_at (net_json N) (ts_store t') = node_at (net_json N) (ts_store t)"
  using runPut_law [OF assms] by (auto simp: uploaded_def tracker_at_def)

end
