(* ===== verification/GetCmd.thy ===== *)
theory GetCmd
  imports PutCmd
begin

text \<open>
  \<open>cmd/aldea/get.go\<close>: the placements of a file are taken from the tracker and grouped by chunk; for
  each chunk the shards that can be fetched and decrypted are collected, the chunk is rebuilt, and
  the chunks are written out in order. The loop that collects the shards is the repairer's, too.
\<close>

section \<open>Collecting shards\<close>

text \<open>
  \<open>skip\<close> is the test at the head of the loop, \<open>node_of\<close> the lookup of the node. A shard that cannot
  be had is passed over; storing one outside the row of slots panics (\<^const>\<open>None\<close>).
\<close>

fun collect_shards ::
    "(ShardPlacement \<Rightarrow> bool) \<Rightarrow> (string \<Rightarrow> NodeMetadata option) \<Rightarrow> (NodeMetadata \<Rightarrow> string \<Rightarrow> 'w \<Rightarrow> ('e + bytes) \<times> 'w)
      \<Rightarrow> (bytes \<Rightarrow> crypto_err + bytes) \<Rightarrow> ShardPlacement list \<Rightarrow> Shard list \<Rightarrow> int \<Rightarrow> 'w \<Rightarrow> (Shard list \<times> int) option \<times> 'w" where
  "collect_shards skip node_of fetch dec [] raw sz w = (Some (raw, sz), w)"
| "collect_shards skip node_of fetch dec (p # ps) raw sz w =
     (if skip p then collect_shards skip node_of fetch dec ps raw sz w
      else let sz' = sp_OriginalChunkSize p
           in case node_of (sp_NodeID p) of
                None \<Rightarrow> collect_shards skip node_of fetch dec ps raw sz' w
              | Some node \<Rightarrow>
                  (case fetch node (sp_ShardID p) w of
                     (Inl _, w') \<Rightarrow> collect_shards skip node_of fetch dec ps raw sz' w'
                   | (Inr data, w') \<Rightarrow>
                       if data = [] then collect_shards skip node_of fetch dec ps raw sz' w'
                       else case dec data of
                              Inl _ \<Rightarrow> collect_shards skip node_of fetch dec ps raw sz' w'
                            | Inr plaintext \<Rightarrow>
                                (case Option.bind (get_at raw (sp_ShardIndex p))
                                        (\<lambda>s. upd_at raw (sp_ShardIndex p) (s\<lparr>sh_Data := plaintext\<rparr>)) of
                                   None \<Rightarrow> (None, w')
                                 | Some raw' \<Rightarrow> collect_shards skip node_of fetch dec ps raw' sz' w')))"

definition empty_slots :: "int \<Rightarrow> Shard list" where
  "empty_slots n = map (\<lambda>i. \<lparr>sh_Index = int i, sh_Data = []\<rparr>) [0..<nat n]"

lemma empty_slots_simps [simp]:
  "length (empty_slots n) = nat n" "i < nat n \<Longrightarrow> empty_slots n ! i = \<lparr>sh_Index = int i, sh_Data = []\<rparr>"
  by (simp_all add: empty_slots_def)

context shard_rpc
begin

text \<open>
  When every text held for a placement decrypts to its shard or not at all, every slot ends up
  empty or with its own shard, and with its shard when the placement's node is live.
\<close>

lemma collect_law:
  assumes "rpc_ok x w" "\<And>p. p \<in> set ps \<Longrightarrow> \<not> skip p \<Longrightarrow> id_ok (sp_ShardID p) \<and> 0 \<le> sp_ShardIndex p \<and> sp_ShardIndex p < int (length raw)"
    and "\<And>p n d y. p \<in> set ps \<Longrightarrow> \<not> skip p \<Longrightarrow> node_of (sp_NodeID p) = Some n \<Longrightarrow>
      held w (nm_Address n) (sp_ShardID p) = Some d \<Longrightarrow> d \<noteq> [] \<Longrightarrow> dec d = Inr y \<Longrightarrow> y = data (nat (sp_ShardIndex p))"
    and "collect_shards skip node_of (\<lambda>n i. fetch x n i) dec ps raw sz w = (out, w')"
  shows "rpc_ok x w' \<and> held w' = held w \<and> others w' = others w \<and> live x w' = live x w
    \<and> (\<exists>raw'. out = Some (raw', foldl (\<lambda>s p. if skip p then s else sp_OriginalChunkSize p) sz ps)
        \<and> length raw' = length raw
        \<and> (\<forall>i < length raw. sh_Index (raw' ! i) = sh_Index (raw ! i)
             \<and> (sh_Data (raw' ! i) = sh_Data (raw ! i) \<or> sh_Data (raw' ! i) = data i))
        \<and> (\<forall>p \<in> set ps. \<forall>n d. \<not> skip p \<longrightarrow> node_of (sp_NodeID p) = Some n \<longrightarrow> live x w (nm_Address n)
             \<longrightarrow> held w (nm_Address n) (sp_ShardID p) = Some d \<longrightarrow> d \<noteq> [] \<longrightarrow> is_ok (dec d)
             \<longrightarrow> sh_Data (raw' ! nat (sp_ShardIndex p)) = data (nat (sp_ShardIndex p))))"
  using assms
proof (induction ps arbitrary: raw sz w)
  case (Cons p ps)
  show ?case
  proof (cases "skip p")
    case True
    with Cons.prems Cons.IH [of w raw sz] show ?thesis by simp
  next
    case False
    let ?sz = "sp_OriginalChunkSize p" and ?i = "nat (sp_ShardIndex p)"
    note rest = Cons.prems(2,3)
    have p: "id_ok (sp_ShardID p)" "0 \<le> sp_ShardIndex p" "?i < length raw"
      using Cons.prems(2) [of p] False by auto
    show ?thesis
    proof (cases "node_of (sp_NodeID p)")
      case None
      with False Cons.prems Cons.IH [of w raw ?sz] show ?thesis by (simp add: Let_def)
    next
      case (Some n)
      obtain r w1 where f: "fetch x n (sp_ShardID p) w = (r, w1)" by fastforce
      note law = fetch_law [OF Cons.prems(1) p(1) f] and res = fetch_result [OF Cons.prems(1) p(1) f]
      have w1: "rpc_ok x w1" "held w1 = held w" "others w1 = others w" "live x w1 = live x w" using law by blast+
      define raw1 where "raw1 = (case r of Inl _ \<Rightarrow> raw | Inr d \<Rightarrow>
        if d = [] then raw else case dec d of Inl _ \<Rightarrow> raw | Inr y \<Rightarrow> raw[?i := (raw ! ?i)\<lparr>sh_Data := y\<rparr>])"
      have run: "collect_shards skip node_of (\<lambda>n i. fetch x n i) dec ps raw1 ?sz w1 = (out, w')"
        using Cons.prems(4) False Some f p(2,3)
        by (auto simp: raw1_def Let_def get_at_def upd_at_def split: sum.splits if_splits)
      have len: "length raw1 = length raw" by (simp add: raw1_def split: sum.split)
      have slots: "sh_Index (raw1 ! j) = sh_Index (raw ! j) \<and> (sh_Data (raw1 ! j) = sh_Data (raw ! j) \<or> sh_Data (raw1 ! j) = data j)"
        if "j < length raw" for j
        using Cons.prems(3) [of p n] False Some res(1) that p(3)
        by (auto simp: raw1_def nth_list_update split: sum.split)
      have hit: "sh_Data (raw1 ! ?i) = data ?i"
        if "live x w (nm_Address n)" "held w (nm_Address n) (sp_ShardID p) = Some d" "d \<noteq> []" "is_ok (dec d)" for d
        using Cons.prems(3) [of p n d] False Some res(2) [OF that(1,2)] that(2-4) p(3)
        by (auto simp: raw1_def elim!: is_okE)
      have "rpc_ok x w' \<and> held w' = held w1 \<and> others w' = others w1 \<and> live x w' = live x w1
        \<and> (\<exists>raw'. out = Some (raw', foldl (\<lambda>s p. if skip p then s else sp_OriginalChunkSize p) ?sz ps)
            \<and> length raw' = length raw1
            \<and> (\<forall>i < length raw1. sh_Index (raw' ! i) = sh_Index (raw1 ! i)
                 \<and> (sh_Data (raw' ! i) = sh_Data (raw1 ! i) \<or> sh_Data (raw' ! i) = data i))
            \<and> (\<forall>p \<in> set ps. \<forall>n d. \<not> skip p \<longrightarrow> node_of (sp_NodeID p) = Some n \<longrightarrow> live x w1 (nm_Address n)
                 \<longrightarrow> held w1 (nm_Address n) (sp_ShardID p) = Some d \<longrightarrow> d \<noteq> [] \<longrightarrow> is_ok (dec d)
                 \<longrightarrow> sh_Data (raw' ! nat (sp_ShardIndex p)) = data (nat (sp_ShardIndex p))))"
        by (rule Cons.IH [OF w1(1) _ _ run]) (use rest w1(2) len in auto)
      then obtain raw' where ih: "rpc_ok x w'" "held w' = held w" "others w' = others w" "live x w' = live x w"
        "out = Some (raw', foldl (\<lambda>s p. if skip p then s else sp_OriginalChunkSize p) ?sz ps)" "length raw' = length raw"
        "\<And>i. i < length raw \<Longrightarrow> sh_Index (raw' ! i) = sh_Index (raw1 ! i)
           \<and> (sh_Data (raw' ! i) = sh_Data (raw1 ! i) \<or> sh_Data (raw' ! i) = data i)"
        "\<forall>p \<in> set ps. \<forall>n d. \<not> skip p \<longrightarrow> node_of (sp_NodeID p) = Some n \<longrightarrow> live x w (nm_Address n)
           \<longrightarrow> held w (nm_Address n) (sp_ShardID p) = Some d \<longrightarrow> d \<noteq> [] \<longrightarrow> is_ok (dec d)
           \<longrightarrow> sh_Data (raw' ! nat (sp_ShardIndex p)) = data (nat (sp_ShardIndex p))"
        unfolding w1(2-4) len by blast
      have "sh_Data (raw' ! ?i) = data ?i"
        if "live x w (nm_Address n)" "held w (nm_Address n) (sp_ShardID p) = Some d" "d \<noteq> []" "is_ok (dec d)" for d
        using hit [OF that] ih(7) [OF p(3)] by auto
      moreover have "sh_Index (raw' ! i) = sh_Index (raw ! i)
          \<and> (sh_Data (raw' ! i) = sh_Data (raw ! i) \<or> sh_Data (raw' ! i) = data i)" if "i < length raw" for i
        using ih(7) [OF that] slots [OF that] by auto
      ultimately show ?thesis
        using ih(1-6,8) False Some by (intro conjI exI [of _ raw']) auto
    qed
  qed
qed auto

end

section \<open>The command\<close>

definition totalDefault :: int where
  "totalDefault = DefaultDataShards + DefaultParityShards"

definition node_index :: "NodeMetadata list \<Rightarrow> string \<Rightarrow> NodeMetadata option" where
  "node_index nodes = foldl (\<lambda>m n. m(nm_NodeID n \<mapsto> n)) Map.empty nodes"

definition chunk_group :: "int \<Rightarrow> ShardPlacement list \<Rightarrow> ShardPlacement list" where
  "chunk_group ci placements = filter (\<lambda>p. sp_ChunkIndex p = ci) placements"

definition chunk_indices :: "ShardPlacement list \<Rightarrow> int list" where
  "chunk_indices placements = sorted_list_of_set (sp_ChunkIndex ` set placements)"

text \<open>One chunk, fetched and rebuilt.\<close>

definition get_chunk ::
    "network \<Rightarrow> primitives \<Rightarrow> ClientConfig \<Rightarrow> bytes \<Rightarrow> Encoder \<Rightarrow> (string \<Rightarrow> NodeMetadata option) \<Rightarrow> ShardPlacement list
      \<Rightarrow> int \<Rightarrow> 'd world \<Rightarrow> Chunk outcome \<times> 'd world" where
  "get_chunk N pm cfg key enc nodeByID placements ci w =
     (case collect_shards (\<lambda>p. totalDefault \<le> sp_ShardIndex p) nodeByID (getShard N cfg) (\<lambda>d. Decrypt (pm_newx pm) d key)
             (chunk_group ci placements) (empty_slots totalDefault) 0 w of
        (None, w') \<Rightarrow> (Panicked, w')
      | (Some (rawShards, originalChunkSize), w') \<Rightarrow>
          (case Reconstruct enc rawShards originalChunkSize of
             Inl e \<Rightarrow> (Failed (ErrErasure e), w')
           | Inr d \<Rightarrow> (Done \<lparr>ch_Index = ci, ch_Data = d, ch_Hash = sha256 d\<rparr>, w')))"

fun get_chunks ::
    "network \<Rightarrow> primitives \<Rightarrow> ClientConfig \<Rightarrow> bytes \<Rightarrow> Encoder \<Rightarrow> (string \<Rightarrow> NodeMetadata option) \<Rightarrow> ShardPlacement list
      \<Rightarrow> int list \<Rightarrow> Chunk list \<Rightarrow> 'd world \<Rightarrow> Chunk list outcome \<times> 'd world" where
  "get_chunks N pm cfg key enc nodeByID placements [] acc w = (Done acc, w)"
| "get_chunks N pm cfg key enc nodeByID placements (ci # cis) acc w =
     (case get_chunk N pm cfg key enc nodeByID placements ci w of
        (Panicked, w') \<Rightarrow> (Panicked, w')
      | (Failed e, w') \<Rightarrow> (Failed e, w')
      | (Done c, w') \<Rightarrow> get_chunks N pm cfg key enc nodeByID placements cis (acc @ [c]) w')"

text \<open>
  The command; \<open>create\<close> is what \<open>os.Create\<close> gives, and the second result is the output file, which
  is made only when every chunk has been rebuilt.
\<close>

definition runGet ::
    "network \<Rightarrow> primitives \<Rightarrow> config_err + ClientConfig \<Rightarrow> (bytes \<Rightarrow> 'o \<Rightarrow> io_err option \<times> 'o) \<Rightarrow> string + 'o \<Rightarrow> string \<Rightarrow> 'd world
      \<Rightarrow> unit outcome \<times> 'o option \<times> 'd world" where
  "runGet N pm config wr create fileID w =
     (case config of
        Inl e \<Rightarrow> (Failed (ErrConfig e), None, w)
      | Inr cfg \<Rightarrow>
          (case client_key pm cfg of
             Inl e \<Rightarrow> (Failed e, None, w)
           | Inr key \<Rightarrow>
               (case getFilePlacement N cfg fileID w of
                  (Panicked, w1) \<Rightarrow> (Panicked, None, w1)
                | (Failed e, w1) \<Rightarrow> (Failed e, None, w1)
                | (Done (file, placements), w1) \<Rightarrow>
                    (case listNodes N cfg w1 of
                       (Panicked, w2) \<Rightarrow> (Panicked, None, w2)
                     | (Failed e, w2) \<Rightarrow> (Failed e, None, w2)
                     | (Done nodes, w2) \<Rightarrow>
                         (case NewEncoder (pm_rsNew pm) DefaultDataShards DefaultParityShards of
                            Inl e \<Rightarrow> (Failed (ErrErasure e), None, w2)
                          | Inr enc \<Rightarrow>
                              (case get_chunks N pm cfg key enc (node_index nodes) placements (chunk_indices placements) [] w2 of
                                 (Panicked, w3) \<Rightarrow> (Panicked, None, w3)
                               | (Failed e, w3) \<Rightarrow> (Failed e, None, w3)
                               | (Done chunks, w3) \<Rightarrow>
                                   (case create of
                                      Inl e \<Rightarrow> (Failed (ErrFile e), None, w3)
                                    | Inr out \<Rightarrow>
                                        (case Reassemble wr chunks out of
                                           (Some e, out') \<Rightarrow> (Failed (ErrChunk e), Some out', w3)
                                         | (None, out') \<Rightarrow> (Done (), Some out', w3)))))))))"

section \<open>What a download gives\<close>

lemma node_index_iff:
  assumes "distinct (map nm_NodeID nodes)"
  shows "node_index nodes i = Some n \<longleftrightarrow> n \<in> set nodes \<and> nm_NodeID n = i"
proof -
  have "foldl (\<lambda>m n. m(nm_NodeID n \<mapsto> n)) g nodes i = Some n \<longleftrightarrow>
      (n \<in> set nodes \<and> nm_NodeID n = i) \<or> (i \<notin> nm_NodeID ` set nodes \<and> g i = Some n)" for g
    using assms by (induction nodes arbitrary: g) auto
  then show ?thesis by (simp add: node_index_def)
qed

text \<open>Whether the node a placement names can be reached.\<close>

definition survives :: "network \<Rightarrow> ClientConfig \<Rightarrow> 'd trackerServer \<Rightarrow> 'd world \<Rightarrow> ShardPlacement \<Rightarrow> bool" where
  "survives N cfg t w p \<longleftrightarrow>
     (case node_at (net_json N) (ts_store t) (sp_NodeID p) of
        None \<Rightarrow> False | Some n \<Rightarrow> live_at (with_key (N, cfg)) w (nm_Address n))"

text \<open>
  The world after some nodes, for good or for the moment, are gone; what this means for a client.
\<close>

definition nodes_lost :: "'d world \<Rightarrow> 'd world \<Rightarrow> bool" where
  "nodes_lost w w' \<longleftrightarrow> wd_trackers w' = wd_trackers w \<and> (\<forall>a. wd_nodes w' a = wd_nodes w a \<or> wd_nodes w' a = None)"

definition degraded :: "network \<times> bytes \<Rightarrow> 'd world \<Rightarrow> 'd world \<Rightarrow> bool" where
  "degraded x w w' \<longleftrightarrow> wd_trackers w' = wd_trackers w
     \<and> (\<forall>a. held_at w' a = held_at w a \<or> held_at w' a = Map.empty \<and> \<not> live_at x w' a)"

lemma nodes_lost_degraded:
  assumes "nodes_lost w w'"
  shows "degraded x w w'"
proof -
  have "held_at w' a = held_at w a \<or> held_at w' a = Map.empty \<and> \<not> live_at x w' a" for a
    using assms by (cases "wd_nodes w' a = None") (auto simp: nodes_lost_def held_at_def live_at_def dest: spec [of _ a])
  with assms show ?thesis by (simp add: degraded_def nodes_lost_def)
qed

lemma degraded_same:
  "degraded x w w' \<Longrightarrow> held_at w'' = held_at w' \<Longrightarrow> wd_trackers w'' = wd_trackers w' \<Longrightarrow> live_at x w'' = live_at x w' \<Longrightarrow> degraded x w w''"
  by (simp add: degraded_def)

lemma get_chunk_law:
  assumes "encoder_ok enc" "dataShards enc = 4" "totalShards enc = 8" "ch_Data c \<noteq> []"
    and "placed (pm_newx pm) key enc (node_at (net_json N) (ts_store t)) f w1 c (chunk_group (ch_Index c) ps)"
    and "\<And>i n. nodeByID i = Some n \<longleftrightarrow> node_at (net_json N) (ts_store t) i = Some n"
    and "list_all (\<lambda>c. (of_char c :: nat) < 128) f"
    and "rpc_ok (with_key (N, cfg)) w" "degraded (with_key (N, cfg)) w1 w" "get_chunk N pm cfg key enc nodeByID ps (ch_Index c) w = (out, w')"
  shows "rpc_ok (with_key (N, cfg)) w' \<and> held_at w' = held_at w \<and> wd_trackers w' = wd_trackers w
    \<and> live_at (with_key (N, cfg)) w' = live_at (with_key (N, cfg)) w
    \<and> (\<forall>d. out = Done d \<longrightarrow> d = \<lparr>ch_Index = ch_Index c, ch_Data = ch_Data c, ch_Hash = sha256 (ch_Data c)\<rparr>)
    \<and> (4 \<le> length (filter (survives N cfg t w) (chunk_group (ch_Index c) ps)) \<longrightarrow> (\<exists>d. out = Done d))"
proof -
  let ?x = "(N, cfg)" and ?g = "chunk_group (ch_Index c) ps" and ?node = "node_at (net_json N) (ts_store t)"
  let ?dec = "\<lambda>d. Decrypt (pm_newx pm) d key" and ?skip = "\<lambda>p. totalDefault \<le> sp_ShardIndex p"
  have tot: "totalDefault = 8" by (simp add: totalDefault_def DefaultDataShards_def DefaultParityShards_def)
  from assms(5) obtain shards ns where s: "Erasure.Encode enc (ch_Data c) = Inr shards" "length ?g = length shards" "length ns = length shards"
    "\<And>k. k < length shards \<Longrightarrow> ?g ! k = placement f c (int k) (ns ! k) \<and> ?node (nm_NodeID (ns ! k)) = Some (ns ! k)
       \<and> (\<exists>ct. held_at w1 (nm_Address (ns ! k)) (shard_id f (ch_Index c) (int k)) = Some ct \<and> ct \<noteq> []
            \<and> ?dec ct = Inr (sh_Data (shards ! k)))"
    unfolding placed_def by blast
  have eight: "length shards = 8" using rs_code.encode_ok [OF assms(1), of "ch_Data c"] s(1) assms(3) by auto
  have held: "held_at w a j = Some y \<Longrightarrow> held_at w1 a j = Some y" for a j y
    using assms(9) by (auto simp: degraded_def dest: spec [of _ a])
  have place: "\<exists>k < 8. p = placement f c (int k) (ns ! k) \<and> ?node (nm_NodeID (ns ! k)) = Some (ns ! k)
     \<and> (\<exists>ct. held_at w1 (nm_Address (ns ! k)) (sp_ShardID p) = Some ct \<and> ct \<noteq> [] \<and> ?dec ct = Inr (sh_Data (shards ! k)))"
    if "p \<in> set ?g" for p
    using that s(2) s(4) eight by (fastforce simp: in_set_conv_nth placement_def)
  obtain r w2 where col: "collect_shards ?skip nodeByID (\<lambda>n i. getShard (fst ?x) (snd ?x) n i) ?dec ?g (empty_slots totalDefault) 0 w = (r, w2)"
    by fastforce
  let ?raw = "empty_slots totalDefault"
  have raw0: "length ?raw = 8" "\<And>i. i < 8 \<Longrightarrow> ?raw ! i = \<lparr>sh_Index = int i, sh_Data = []\<rparr>" by (simp_all add: tot)
  have slot: "utf8_valid (sp_ShardID p) \<and> 0 \<le> sp_ShardIndex p \<and> sp_ShardIndex p < int (length ?raw)"
    if "p \<in> set ?g" "\<not> ?skip p" for p
    using place [OF that(1)] utf8_shard_id [OF assms(7)] by (auto simp: placement_def tot)
  have genuine: "y = (\<lambda>i. sh_Data (shards ! i)) (nat (sp_ShardIndex p))"
    if "p \<in> set ?g" "\<not> ?skip p" "nodeByID (sp_NodeID p) = Some n" "held_at w (nm_Address n) (sp_ShardID p) = Some d"
      "d \<noteq> []" "?dec d = Inr y" for p n d y
    using place [OF that(1)] that(3,6) held [OF that(4)] assms(6) by (auto simp: placement_def)
  have law: "rpc_ok (with_key ?x) w2 \<and> held_at w2 = held_at w \<and> wd_trackers w2 = wd_trackers w
    \<and> live_at (with_key ?x) w2 = live_at (with_key ?x) w
    \<and> (\<exists>raw. r = Some (raw, foldl (\<lambda>s p. if ?skip p then s else sp_OriginalChunkSize p) 0 ?g)
      \<and> length raw = length ?raw
      \<and> (\<forall>i < length ?raw. sh_Index (raw ! i) = sh_Index (?raw ! i)
           \<and> (sh_Data (raw ! i) = sh_Data (?raw ! i) \<or> sh_Data (raw ! i) = sh_Data (shards ! i)))
      \<and> (\<forall>p \<in> set ?g. \<forall>n d. \<not> ?skip p \<longrightarrow> nodeByID (sp_NodeID p) = Some n \<longrightarrow> live_at (with_key ?x) w (nm_Address n)
           \<longrightarrow> held_at w (nm_Address n) (sp_ShardID p) = Some d \<longrightarrow> d \<noteq> [] \<longrightarrow> is_ok (?dec d)
           \<longrightarrow> sh_Data (raw ! nat (sp_ShardIndex p)) = sh_Data (shards ! nat (sp_ShardIndex p))))"
    by (rule cli.collect_law [OF assms(8) _ _ col]) (rule slot genuine; assumption)+
  then have w2: "rpc_ok (with_key ?x) w2" "held_at w2 = held_at w" "wd_trackers w2 = wd_trackers w"
    "live_at (with_key ?x) w2 = live_at (with_key ?x) w" by blast+
  from law obtain raw where r: "r = Some (raw, foldl (\<lambda>s p. if ?skip p then s else sp_OriginalChunkSize p) 0 ?g)"
    and len: "length raw = length ?raw"
    and slots0: "\<forall>i < length ?raw. sh_Index (raw ! i) = sh_Index (?raw ! i)
      \<and> (sh_Data (raw ! i) = sh_Data (?raw ! i) \<or> sh_Data (raw ! i) = sh_Data (shards ! i))"
    and hit: "\<forall>p \<in> set ?g. \<forall>n d. \<not> ?skip p \<longrightarrow> nodeByID (sp_NodeID p) = Some n \<longrightarrow> live_at (with_key ?x) w (nm_Address n)
       \<longrightarrow> held_at w (nm_Address n) (sp_ShardID p) = Some d \<longrightarrow> d \<noteq> [] \<longrightarrow> is_ok (?dec d)
       \<longrightarrow> sh_Data (raw ! nat (sp_ShardIndex p)) = sh_Data (shards ! nat (sp_ShardIndex p))"
    by blast
  have len: "length raw = 8" using len raw0(1) by simp
  have slots: "sh_Index (raw ! i) = int i \<and> (sh_Data (raw ! i) = [] \<or> sh_Data (raw ! i) = sh_Data (shards ! i))" if "i < 8" for i
    using slots0 that raw0 by auto
  have each: "\<not> ?skip (?g ! k) \<and> sp_OriginalChunkSize (?g ! k) = int (length (ch_Data c)) \<and> sp_ShardIndex (?g ! k) = int k"
    if "k < 8" for k
    using s(4) [of k] that eight by (simp add: placement_def tot)
  have fold: "foldl (\<lambda>s p. if ?skip p then s else sp_OriginalChunkSize p) z qs = (if qs = [] then z else int (length (ch_Data c)))"
    if "\<forall>p \<in> set qs. \<not> ?skip p \<and> sp_OriginalChunkSize p = int (length (ch_Data c))" for z qs
    using that by (induction qs arbitrary: z) auto
  have "?g \<noteq> []" "\<forall>p \<in> set ?g. \<not> ?skip p \<and> sp_OriginalChunkSize p = int (length (ch_Data c))"
    using s(2) eight each by (auto simp: in_set_conv_nth tot)
  with fold [OF this(2), of 0] have size: "foldl (\<lambda>s p. if ?skip p then s else sp_OriginalChunkSize p) 0 ?g = int (length (ch_Data c))" by simp
  have run: "w' = w2" "out = (case Reconstruct enc raw (int (length (ch_Data c))) of
      Inl e \<Rightarrow> Failed (ErrErasure e)
    | Inr d \<Rightarrow> Done \<lparr>ch_Index = ch_Index c, ch_Data = d, ch_Hash = sha256 d\<rparr>)"
    using assms(10) col [unfolded r size] by (auto simp: get_chunk_def split: sum.splits)
  have "genuine (totalShards enc) (map sh_Data shards) raw"
    using slots len eight by (fastforce simp: genuine_def usable_def in_set_conv_nth assms(3))
  note rec = Reconstruct_genuine [OF assms(1,4) s(1) this, unfolded assms(2,3) len]
  have "{k. k < length ?g \<and> survives N cfg t w (?g ! k)} \<subseteq> usable_indices 8 raw"
  proof clarify
    fix k assume k: "k < length ?g" "survives N cfg t w (?g ! k)"
    then have k8: "k < 8" using s(2) eight by simp
    from s(4) [of k] k8 eight obtain ct where n: "?node (sp_NodeID (?g ! k)) = Some (ns ! k)"
      "held_at w1 (nm_Address (ns ! k)) (sp_ShardID (?g ! k)) = Some ct" "ct \<noteq> []" "is_ok (?dec ct)"
      by (auto simp: placement_def)
    have live: "live_at (with_key ?x) w (nm_Address (ns ! k))" using k(2) n(1) by (simp add: survives_def)
    then have "held_at w (nm_Address (ns ! k)) = held_at w1 (nm_Address (ns ! k))"
      using assms(9) by (auto simp: degraded_def)
    with hit n live nth_mem [OF k(1)] each [OF k8] assms(6)
    have "sh_Data (raw ! k) = sh_Data (shards ! k)" by (metis nat_int)
    moreover have "sh_Data (shards ! k) \<noteq> []"
      using rs_code.encode_ok [OF assms(1), of "ch_Data c"] s(1) assms(3,4) k8 by auto
    ultimately show "k \<in> usable_indices 8 raw"
      using slots [OF k8] k8 len by (force simp: usable_indices_def usable_def in_set_conv_nth)
  qed
  from card_mono [OF _ this] have many: "4 \<le> card (usable_indices 8 raw)"
    if "4 \<le> length (filter (survives N cfg t w) ?g)"
    using that by (simp add: length_filter_conv_card)
  have "d = ch_Data c" if "Reconstruct enc raw (int (length (ch_Data c))) = Inr d" for d
    using rec that by (auto split: if_splits)
  then show ?thesis
    using w2 run rec many by (auto split: sum.splits)
qed

text \<open>The chunks of an uploaded file, by their groups.\<close>

lemma placed_index:
  "list_all2 (\<lambda>c ps. \<forall>p \<in> set ps. sp_ChunkIndex p = ch_Index c) cs pss \<Longrightarrow> p \<in> set (concat pss) \<Longrightarrow>
     sp_ChunkIndex p \<in> ch_Index ` set cs"
  by (induction cs pss rule: list_all2_induct) auto

lemma groups_of_placed:
  assumes "list_all2 (\<lambda>c ps. \<forall>p \<in> set ps. sp_ChunkIndex p = ch_Index c) cs pss" "distinct (map ch_Index cs)"
    and "k < length cs"
  shows "chunk_group (ch_Index (cs ! k)) (concat pss) = pss ! k"
  using assms
proof (induction cs pss arbitrary: k rule: list_all2_induct)
  case (Cons c cs ps pss)
  have all: "filter (\<lambda>p. sp_ChunkIndex p = ch_Index c) ps = ps" using Cons.hyps(1) by (simp add: filter_id_conv)
  have none: "filter (\<lambda>p. sp_ChunkIndex p = i) ps = []" if "i \<noteq> ch_Index c" for i
    using Cons.hyps(1) that by (simp add: filter_empty_conv)
  have later: "chunk_group (ch_Index c) (concat pss) = []"
    unfolding chunk_group_def filter_empty_conv
    using placed_index [OF Cons.hyps(2)] Cons.prems(1) by (metis distinct.simps(2) list.set_map list.simps(9))
  show ?case
  proof (cases k)
    case 0
    with all later show ?thesis by (simp add: chunk_group_def)
  next
    case (Suc j)
    with Cons.prems have j: "j < length cs" "distinct (map ch_Index cs)" by simp_all
    then have "ch_Index (cs ! j) \<in> ch_Index ` set cs" by simp
    with Cons.prems(1) have "ch_Index (cs ! j) \<noteq> ch_Index c" by auto
    note j = j this
    from Cons.IH [OF j(2,1)] none [OF j(3)] Suc show ?thesis by (simp add: chunk_group_def)
  qed
qed simp

lemma indices_of_placed:
  assumes "list_all2 (\<lambda>c ps. \<forall>p \<in> set ps. sp_ChunkIndex p = ch_Index c) cs pss" "[] \<notin> set pss"
  shows "sp_ChunkIndex ` set (concat pss) = set (map ch_Index cs)"
  using assms
proof (induction cs pss rule: list_all2_induct)
  case (Cons c cs ps pss)
  then have "sp_ChunkIndex ` set ps = {ch_Index c}" by (cases ps) auto
  with Cons show ?case by (simp add: image_Un)
qed simp

lemma sorted_indices: "sorted_list_of_set (set (map ch_Index (file_chunks content))) = map ch_Index (file_chunks content)"
proof (rule sorted_distinct_set_unique)
  show "sorted (map ch_Index (file_chunks content))"
    by (simp add: sorted_iff_nth_mono file_chunks_simps(3))
qed (simp_all add: distinct_file_chunks del: set_map)

lemma get_chunks_law:
  assumes "encoder_ok enc" "dataShards enc = 4" "totalShards enc = 8"
    and "\<And>c. c \<in> set cs \<Longrightarrow> ch_Data c \<noteq> []
      \<and> placed (pm_newx pm) key enc (node_at (net_json N) (ts_store t)) f w1 c (chunk_group (ch_Index c) ps)"
    and "\<And>i n. nodeByID i = Some n \<longleftrightarrow> node_at (net_json N) (ts_store t) i = Some n"
    and "list_all (\<lambda>c. (of_char c :: nat) < 128) f"
    and "rpc_ok (with_key (N, cfg)) w" "degraded (with_key (N, cfg)) w1 w"
    and "get_chunks N pm cfg key enc nodeByID ps (map ch_Index cs) acc w = (out, w')"
  shows "(\<forall>ds. out = Done ds \<longrightarrow>
       ds = acc @ map (\<lambda>c. \<lparr>ch_Index = ch_Index c, ch_Data = ch_Data c, ch_Hash = sha256 (ch_Data c)\<rparr>) cs)
    \<and> ((\<forall>c \<in> set cs. 4 \<le> length (filter (survives N cfg t w) (chunk_group (ch_Index c) ps))) \<longrightarrow> (\<exists>ds. out = Done ds))"
  using assms(4,7-9)
proof (induction cs arbitrary: acc w)
  case (Cons c cs)
  obtain o1 w2 where one: "get_chunk N pm cfg key enc nodeByID ps (ch_Index c) w = (o1, w2)" by fastforce
  have c: "ch_Data c \<noteq> []"
    "placed (pm_newx pm) key enc (node_at (net_json N) (ts_store t)) f w1 c (chunk_group (ch_Index c) ps)"
    using Cons.prems(1) [of c] by simp_all
  note law = get_chunk_law [OF assms(1-3) c assms(5,6) Cons.prems(2,3) one]
  then have w2: "rpc_ok (with_key (N, cfg)) w2" "held_at w2 = held_at w" "wd_trackers w2 = wd_trackers w"
    "live_at (with_key (N, cfg)) w2 = live_at (with_key (N, cfg)) w" by blast+
  have same: "survives N cfg t w2 = survives N cfg t w"
    by (simp add: survives_def fun_eq_iff w2(4) split: option.split)
  show ?case
  proof (cases o1)
    case (Done d)
    with Cons.prems(4) one have rest: "get_chunks N pm cfg key enc nodeByID ps (map ch_Index cs) (acc @ [d]) w2 = (out, w')" by simp
    have "ch_Data c \<noteq> [] \<and> placed (pm_newx pm) key enc (node_at (net_json N) (ts_store t)) f w1 c (chunk_group (ch_Index c) ps)"
      if "c \<in> set cs" for c using Cons.prems(1) that by simp
    from Cons.IH [OF this w2(1) degraded_same [OF Cons.prems(3) w2(2-4)] rest] law Done
    show ?thesis unfolding same by auto
  next
    case (Failed e)
    with Cons.prems(4) one law show ?thesis by auto
  next
    case Panicked
    with Cons.prems(4) one law show ?thesis by auto
  qed
qed auto

text \<open>A download of an uploaded file, whatever the network does to it.\<close>

definition enough :: "network \<Rightarrow> ClientConfig \<Rightarrow> 'd trackerServer \<Rightarrow> 'd world \<Rightarrow> string \<Rightarrow> bool" where
  "enough N cfg t w fileID \<longleftrightarrow>
     (case file_at (net_json N) (ts_store t) fileID of
        None \<Rightarrow> False
      | Some (_, ps) \<Rightarrow> list_all (\<lambda>ci. 4 \<le> length (filter (survives N cfg t w) (chunk_group ci ps))) (chunk_indices ps))"

lemma reassemble_file_chunks: "Reassemble buffer_write (file_chunks content) out = (None, out @ content)"
  using buffer.reassemble_number_chunks [of 0 "chunks_of (chunk_size 0) content" out]
  by (simp add: Reassemble_def file_chunks_def prod_eq_iff concat_chunks_of)

text \<open>The placements of an uploaded file, group by group.\<close>

lemma uploaded_groups:
  assumes "uploaded N pm cfg key enc fid content w t" "encoder_ok enc" "totalShards enc = 8"
    and "list_all (\<lambda>c. (of_char c :: nat) < 128) fid" "in_int64 (int (length content))"
  shows "\<exists>meta ps. file_at (net_json N) (ts_store t) fid = Some (meta, ps)
    \<and> chunk_indices ps = map ch_Index (file_chunks content)
    \<and> (\<forall>c \<in> set (file_chunks content). ch_Data c \<noteq> []
        \<and> placed (pm_newx pm) key enc (node_at (net_json N) (ts_store t)) fid w c (chunk_group (ch_Index c) ps))"
proof -
  let ?cs = "file_chunks content" and ?node = "node_at (net_json N) (ts_store t)"
  from assms(1) obtain meta pss where found: "file_at (net_json N) (ts_store t) fid = Some (meta, concat pss)"
    and placed: "list_all2 (placed (pm_newx pm) key enc ?node fid w) ?cs pss" and t: "store_ok (net_json N) (ts_store t)"
    by (auto simp: uploaded_def tracker_at_def)
  have group: "length ps = 8" "\<forall>p \<in> set ps. sp_ChunkIndex p = ch_Index c"
    if "c \<in> set ?cs" "placed (pm_newx pm) key enc ?node fid w c ps" for c ps
    using placed_ok [OF that(2) file_chunks_bounds [OF assms(5) that(1)] assms(3,2,4)] store_okD(3) [OF t] by blast+
  have index: "list_all2 (\<lambda>c ps. \<forall>p \<in> set ps. sp_ChunkIndex p = ch_Index c) ?cs pss"
    using placed group(2) by (auto simp: list_all2_conv_all_nth)
  have "[] \<notin> set pss"
  proof
    assume "[] \<in> set pss"
    then obtain j where "j < length ?cs" "pss ! j = []" using placed by (auto simp: in_set_conv_nth list_all2_conv_all_nth)
    with group(1) [of "?cs ! j" "[]"] placed show False by (auto simp: list_all2_conv_all_nth)
  qed
  from indices_of_placed [OF index this] sorted_indices [of content]
  have "chunk_indices (concat pss) = map ch_Index ?cs" by (simp add: chunk_indices_def)
  moreover have "ch_Data c \<noteq> [] \<and> placed (pm_newx pm) key enc ?node fid w c (chunk_group (ch_Index c) (concat pss))"
    if "c \<in> set ?cs" for c
  proof -
    from that obtain j where j: "j < length ?cs" "c = ?cs ! j" by (auto simp: in_set_conv_nth)
    have "ch_Data c \<in> set (chunks_of (chunk_size 0) content)"
      using that by (metis file_chunks_simps(1) image_eqI list.set_map)
    then have "ch_Data c \<noteq> []" using chunks_of_sizes [OF chunk_size_pos] by blast
    with groups_of_placed [OF index distinct_file_chunks j(1)] placed j show ?thesis
      by (simp add: list_all2_conv_all_nth)
  qed
  ultimately show ?thesis using found by blast
qed

lemma runGet_uploaded:
  assumes "primitives_ok pm" "client_key pm cfg = Inr key"
    and "NewEncoder (pm_rsNew pm) DefaultDataShards DefaultParityShards = Inr enc"
    and "uploaded N pm cfg key enc fid content w1 t" "plain_text fid" "fid \<noteq> ''''" "list_all (\<lambda>c. (of_char c :: nat) < 128) fid"
    and "in_int64 (int (length content))" "\<And>d. bb_view (db_ops (ts_store t)) d = None" "nodes_lost w1 w2"
    and "runGet N pm (Inr cfg) buffer_write (Inr out) fid w2 = (res, out', w3)"
  shows "out' = (if res = Done () then Some (out @ content) else None)"
    and "(\<And>n. net_fate N n = Delivered) \<Longrightarrow> new_request_ok N (cc_TrackerAddr cfg @ ''/files/'' @ fid) \<Longrightarrow>
      new_request_ok N (cc_TrackerAddr cfg @ ''/nodes'') \<Longrightarrow> enough N cfg t w2 fid \<Longrightarrow> res = Done ()"
proof -
  let ?cs = "file_chunks content" and ?x = "with_key (N, cfg)" and ?node = "node_at (net_json N) (ts_store t)"
  have enc: "encoder_ok enc" "dataShards enc = 4" "totalShards enc = 8"
    using default_encoder [OF assms(1)] assms(3) by (metis sum.inject(2))+
  obtain meta ps where found: "file_at (net_json N) (ts_store t) fid = Some (meta, ps)"
    and indices: "chunk_indices ps = map ch_Index ?cs"
    and chunk: "\<And>c. c \<in> set ?cs \<Longrightarrow> ch_Data c \<noteq> [] \<and> placed (pm_newx pm) key enc ?node fid w1 c (chunk_group (ch_Index c) ps)"
    using uploaded_groups [OF assms(4) enc(1,3) assms(7,8)] by blast
  have up: "tracker_at N (cc_TrackerAddr cfg) w1 t" "rpc_ok ?x w1" using assms(4) by (simp_all add: uploaded_def)
  have t2: "tracker_at N (cc_TrackerAddr cfg) w2 t"
    using tracker_at_same [OF up(1)] assms(10) by (simp add: nodes_lost_def)
  have rpc2: "rpc_ok ?x w2"
    unfolding rpc_ok_def
  proof (intro conjI allI impI)
    fix a s assume "wd_nodes w2 a = Some s"
    with assms(10) have "wd_nodes w1 a = Some s" by (metis nodes_lost_def option.distinct(1))
    with up(2) show "server_ok s" by (simp add: rpc_ok_def)
  qed (use up(2) in \<open>simp add: rpc_ok_def\<close>)
  obtain k where auth: "header_value N (cc_NetworkKey cfg) = Some k" "authenticated k t"
    using assms(4) by (auto simp: uploaded_def)
  have seg: "path_segment N fid = Some fid" using assms(5,6) by (simp add: path_segment_def)
  have view: "bb_view (db_ops (ts_store t)) (db_file (ts_store t)) = None" by (rule assms(9))
  have whole: "map (\<lambda>c. \<lparr>ch_Index = ch_Index c, ch_Data = ch_Data c, ch_Hash = sha256 (ch_Data c)\<rparr>) ?cs = ?cs"
    by (rule nth_equalityI) (simp_all add: file_chunks_simps(3))
  obtain o1 v1 where o1: "getFilePlacement N cfg fid w2 = (o1, v1)" by fastforce
  obtain o2 v2 where o2: "listNodes N cfg v1 = (o2, v2)" by fastforce
  have tail: "out' = (if res = Done () then Some (out @ content) else None) \<and> (enough N cfg t w2 fid \<longrightarrow> res = Done ())"
    if e: "o1 = Done e" and ns: "o2 = Done ns" for e ns
  proof -
    from getFilePlacement_law [OF t2 seg o1 [unfolded e]] found have v1: "same_world w2 v1" "e = (meta, ps)" by simp_all
    note kv1 = same_world_keeps [OF v1(1)]
    note listed = listNodes_law [OF tracker_at_same [OF t2 kv1(4)] auth view o2 [unfolded ns]]
    then have kv2: "rpc_ok ?x v2" "held_at v2 = held_at w2" "wd_trackers v2 = wd_trackers w2" "live_at ?x v2 = live_at ?x w2"
      using same_world_keeps [of v1 v2] kv1 rpc2 by simp_all
    have lookup: "node_index ns i = Some n \<longleftrightarrow> ?node i = Some n" for i n
      using listed node_index_iff [of ns i n] t2 store_okD(3) by (fastforce simp: tracker_at_def)
    obtain o3 v3 where o3: "get_chunks N pm cfg key enc (node_index ns) ps (map ch_Index ?cs) [] v2 = (o3, v3)" by fastforce
    note law = get_chunks_law [OF enc chunk lookup assms(7) kv2(1) degraded_same [OF nodes_lost_degraded [OF assms(10)] kv2(2-4)] o3,
        unfolded whole append_Nil]
    have "survives N cfg t v2 = survives N cfg t w2" by (simp add: survives_def fun_eq_iff kv2(4) split: option.split)
    then have "enough N cfg t w2 fid \<longrightarrow> (\<exists>ds. o3 = Done ds)"
      using law found indices by (simp add: enough_def list_all_iff)
    moreover have "(res, out') = (case o3 of Done ds \<Rightarrow> (Done (), Some (out @ content)) | Failed e \<Rightarrow> (Failed e, None) | Panicked \<Rightarrow> (Panicked, None))"
      using assms(11) law reassemble_file_chunks [of content out]
      by (cases o3) (simp_all add: runGet_def assms(2,3) o1 e v1(2) o2 ns indices o3)
    ultimately show ?thesis by (cases o3) auto
  qed
  have early: "res \<noteq> Done () \<and> out' = None" if "\<nexists>e ns. o1 = Done e \<and> o2 = Done ns"
    using that assms(11) by (cases o1; cases o2) (auto simp: runGet_def assms(2) o1 o2 split: prod.splits)
  show "out' = (if res = Done () then Some (out @ content) else None)"
  proof (cases "\<exists>e ns. o1 = Done e \<and> o2 = Done ns")
    case True
    then obtain e ns where "o1 = Done e" "o2 = Done ns" by blast
    from tail [OF this] show ?thesis by simp
  qed (use early in simp)
  show "res = Done ()" if "\<And>n. net_fate N n = Delivered" "new_request_ok N (cc_TrackerAddr cfg @ ''/files/'' @ fid)"
    "new_request_ok N (cc_TrackerAddr cfg @ ''/nodes'')" "enough N cfg t w2 fid"
  proof -
    from getFilePlacement_delivered [OF t2 that(1,2) auth view seg found] o1 have "o1 = Done (meta, ps)" "same_world w2 v1" by auto
    moreover from listNodes_delivered [OF tracker_at_same [OF t2 same_world_keeps(4) [OF this(2)]] that(1,3) auth view] o2
    obtain ns where "o2 = Done ns" by auto
    ultimately show ?thesis using tail that(4) by simp
  qed
qed

text \<open>Four nodes may be lost: the eight shards of a chunk are on eight nodes.\<close>

lemma uploaded_enough:
  assumes "primitives_ok pm" "NewEncoder (pm_rsNew pm) DefaultDataShards DefaultParityShards = Inr enc"
    and "uploaded N pm cfg key enc fid content w t"
    and "list_all (\<lambda>c. (of_char c :: nat) < 128) fid" "in_int64 (int (length content))"
    and "finite A" "card A \<le> 4"
    and "\<And>i n. node_at (net_json N) (ts_store t) i = Some n \<Longrightarrow> i \<notin> A \<Longrightarrow> live_at (with_key (N, cfg)) w2 (nm_Address n)"
  shows "enough N cfg t w2 fid"
proof -
  let ?node = "node_at (net_json N) (ts_store t)"
  have enc: "encoder_ok enc" "totalShards enc = 8"
    using default_encoder [OF assms(1)] assms(2) by (metis sum.inject(2))+
  obtain meta ps where found: "file_at (net_json N) (ts_store t) fid = Some (meta, ps)"
    and indices: "chunk_indices ps = map ch_Index (file_chunks content)"
    and chunk: "\<And>c. c \<in> set (file_chunks content) \<Longrightarrow> placed (pm_newx pm) key enc ?node fid w c (chunk_group (ch_Index c) ps)"
    using uploaded_groups [OF assms(3) enc assms(4,5)] by blast
  have t: "store_ok (net_json N) (ts_store t)" using assms(3) by (simp add: uploaded_def tracker_at_def)
  have "4 \<le> length (filter (survives N cfg t w2) (chunk_group (ch_Index c) ps))" if c: "c \<in> set (file_chunks content)" for c
  proof -
    let ?g = "chunk_group (ch_Index c) ps" and ?s = "survives N cfg t w2"
    have ok: "\<forall>i n. ?node i = Some n \<longrightarrow> node_ok n" using store_okD(3) [OF t] by simp
    note g = placed_ok [OF chunk [OF c] file_chunks_bounds [OF assms(5) c] enc(2,1) assms(4) ok]
    let ?dead = "filter (\<lambda>p. \<not> ?s p) ?g"
    have "set (map sp_NodeID ?dead) \<subseteq> A"
    proof
      fix i assume "i \<in> set (map sp_NodeID ?dead)"
      then obtain p where p: "p \<in> set ?g" "\<not> ?s p" "i = sp_NodeID p" by auto
      with g(5) obtain n where "?node i = Some n" by blast
      with p assms(8) show "i \<in> A" by (auto simp: survives_def)
    qed
    moreover have "distinct (map sp_NodeID ?dead)" using g(4) by (rule distinct_map_filter)
    ultimately have "length ?dead \<le> card A"
      using card_mono [OF assms(6)] by (metis distinct_card length_map)
    with assms(7) sum_length_filter_compl [of ?s ?g] g(2) show ?thesis by simp
  qed
  then show ?thesis by (simp add: enough_def found indices list_all_iff)
qed

lemma uploaded_fate [simp]: "uploaded (N\<lparr>net_fate := fate\<rparr>) = uploaded N"
  by (simp add: uploaded_def fun_eq_iff tracker_at_def rpc_ok_def network_ok_def with_key_def header_value_def)

end
