(* ===== verification/PutGet.thy ===== *)
theory PutGet
  imports GetCmd
begin

text \<open>
  Upload and download together: what \<open>put\<close> stored, \<open>get\<close> gives back, whatever the network and the
  nodes do in between; and an upload to nodes that all have room succeeds.
\<close>

section \<open>An upload that nothing hinders\<close>

text \<open>
  A node whose quota is the largest \<open>int64\<close> refuses nothing (the sum it compares is an \<open>int64\<close>,
  too), as long as its database takes every write that has a key.
\<close>

definition roomy :: "bytes \<Rightarrow> 'd shardServer \<Rightarrow> bool" where
  "roomy key s \<longleftrightarrow> server_ok s \<and> node_key s = key \<and> nc_StorageAllocated (sv_cfg s) = 2 ^ 63 - 1
     \<and> (\<forall>d i v. i \<noteq> '''' \<longrightarrow> is_ok (bb_update (db_ops (sv_db s)) d [(bucketShards, i, v)]))"

lemma handlePut_ops: "db_ops (sv_db (snd (handlePut jc now b s))) = db_ops (sv_db s)"
  by (simp add: handlePut_def split: option.split sum.split)

definition roomy_at :: "bytes \<Rightarrow> string set \<Rightarrow> 'd world \<Rightarrow> bool" where
  "roomy_at key A w \<longleftrightarrow> (\<forall>a \<in> A. \<exists>s. wd_nodes w a = Some s \<and> roomy key s)"

lemma send_shard_roomy:
  assumes "network_ok N" "\<And>n. net_fate N n = Delivered" "roomy_at key A w"
    and "nm_Address n \<in> A" "utf8_valid i" "i \<noteq> ''''" "utf8_valid sender"
  shows "\<exists>w'. send_shard N sender key n i d w = (None, w') \<and> roomy_at key A w'"
proof -
  let ?jc = "net_json N" and ?a = "nm_Address n"
  let ?q = "\<lparr>psq_ShardID = i, psq_Data = d\<rparr>" and ?now = "net_serverTime N (wd_calls w)"
  from assms(3,4) obtain s where s: "wd_nodes w ?a = Some s" "roomy key s" by (auto simp: roomy_at_def)
  then have ok: "server_ok s" "node_key s = key" "nc_StorageAllocated (sv_cfg s) = 2 ^ 63 - 1" by (simp_all add: roomy_def)
  have net: "json_codec_ok ?jc" "in_int64 (net_clientTime N (wd_calls w))" using assms(1) by (simp_all add: network_ok_def)
  from Encode_Decode_env [OF net assms(7), of TypePutShardRequest "json_PutShardRequest ?q" key]
  obtain msg where msg: "Protocol.Encode ?jc (net_clientTime N (wd_calls w)) TypePutShardRequest sender (json_PutShardRequest ?q) key = Inr msg"
    "Decode ?jc msg (node_key s) = Inr (sealed_env ?jc (net_clientTime N (wd_calls w)) TypePutShardRequest sender (json_PutShardRequest ?q) key)"
    by (auto simp: message_types ok(2))
  have "quota_allows s ?q"
    using in_int64_wrap64 [of "storageUsed s + int (length d)"] ok(3) by (simp add: quota_allows_def in_int64_def)
  moreover have "is_ok (bb_update (db_ops (sv_db s)) (db_file (sv_db s)) [(bucketShards, i, d)])"
    using s(2) assms(6) by (simp add: roomy_def)
  then obtain db where "bb_update (db_ops (sv_db s)) (db_file (sv_db s)) [(bucketShards, i, d)] = Inr db"
    by (rule is_okE)
  ultimately obtain m s' where put: "handlePut ?jc ?now (Some msg) s = (http_ok m, s')"
    using handlePut_accepts [where now = ?now and q = ?q and d = db, OF ok(1) msg(2)]
      UnmarshalBody_sealed [OF net(1) codec_PutShardRequest [of ?q]] assms(5) by auto
  have "roomy key s'"
    using handlePut_cases [OF ok(1) put] handlePut_ops [of ?jc ?now "Some msg" s] put s(2) by (simp add: roomy_def)
  moreover have "node_post N ?a ''/shards'' msg w = (Some (http_ok m), next_call (w\<lparr>wd_nodes := (wd_nodes w)(?a \<mapsto> s')\<rparr>))"
    using node_post_served(1) [OF _ s(1)] put by (simp add: assms(2))
  ultimately show ?thesis
    using assms(3) msg(1) by (auto simp: send_shard_def roomy_at_def)
qed

lemma putShard_roomy:
  assumes "network_ok N" "\<And>n. net_fate N n = Delivered" "roomy_at (bytes_of_string (cc_NetworkKey cfg)) A w"
    and "nm_Address n \<in> A" "utf8_valid i" "i \<noteq> ''''"
  shows "\<exists>w'. putShard N cfg n i d w = (None, w') \<and> roomy_at (bytes_of_string (cc_NetworkKey cfg)) A w'"
  unfolding putShard_def by (rule send_shard_roomy [OF assms senders_utf8(1)])

lemma shard_id_nonempty: "shard_id f c i \<noteq> ''''"
  by (simp add: shard_id_def)

lemma put_shards_roomy:
  assumes "network_ok N" "\<And>n. net_fate N n = Delivered" "list_all (\<lambda>c. (of_char c :: nat) < 128) f"
    and "roomy_at (bytes_of_string (cc_NetworkKey cfg)) A w" "nm_Address ` set nodes \<subseteq> A"
    and "0 \<le> i" "i + int (length nodes) \<le> int (length cts)"
  shows "\<exists>ps w'. put_shards N cfg f c cts i nodes acc w = (Done ps, w') \<and> roomy_at (bytes_of_string (cc_NetworkKey cfg)) A w'"
  using assms(4-)
proof (induction nodes arbitrary: i acc w)
  case (Cons n ns)
  have at: "get_at cts i = Some (cts ! nat i)" using Cons.prems(3,4) by (simp add: get_at_def)
  obtain w1 where one: "putShard N cfg n (shard_id f (ch_Index c) i) (cts ! nat i) w = (None, w1)"
    and w1: "roomy_at (bytes_of_string (cc_NetworkKey cfg)) A w1"
    using putShard_roomy [OF assms(1,2) Cons.prems(1) _ utf8_shard_id [OF assms(3)] shard_id_nonempty, of n] Cons.prems(2)
    by (metis image_subset_iff list.set_intros(1))
  have "nm_Address ` set ns \<subseteq> A" "0 \<le> i + 1" "i + 1 + int (length ns) \<le> int (length cts)"
    using Cons.prems(2-4) by simp_all
  from Cons.IH [OF w1 this] at one show ?case by simp
qed simp

text \<open>The tracker's choice, when it has one to make.\<close>

lemma selectNodes_delivered:
  assumes "tracker_at N (cc_TrackerAddr cfg) w t" "\<And>n. net_fate N n = Delivered"
    and "new_request_ok N (cc_TrackerAddr cfg @ ''/placement'')" "header_value N (cc_NetworkKey cfg) = Some k" "authenticated k t"
    and "SelectPlacementNodes (net_sort N) (net_json N) (ts_store t) cnt 0 = Some (Inr nodes)" "in_int64 cnt"
  shows "\<exists>w'. selectNodes N cfg cnt w = (Done nodes, w') \<and> same_world w w'"
proof -
  let ?jc = "net_json N" and ?req = "PostPlacement (json_marshal (net_json N) (json_PlacementRequest cnt 0))"
  have ok: "store_ok ?jc (ts_store t)" "json_codec_ok ?jc" "sort_slice_ok more_space (net_sort N more_space)"
    using assms(1) by (simp_all add: tracker_at_def network_ok_def)
  have "tracker_routes (net_sort N) ?jc k ?req t = (Some (writeJSON ?jc (enc_structs json_NodeMetadata nodes)), t)"
    using assms(5,6) placement_request_read [OF ok(2) assms(7)] by (simp add: tracker_routes_def handleSelectPlacement_def)
  from tracker_send_delivered [OF assms(1-4) this] obtain w' where
    send: "tracker_send N (cc_TrackerAddr cfg) ''/placement'' (cc_NetworkKey cfg) ?req w
       = (Done (writeJSON ?jc (enc_structs json_NodeMetadata nodes)), w')" ..
  have "node_ok n" if "n \<in> set nodes" for n
    using SelectPlacementNodes_nodes(3) [OF ok(1,3) assms(6) that] by simp
  with send read_nodes_written [OF ok(2)] have "selectNodes N cfg cnt w = (Done nodes, w')"
    by (simp add: selectNodes_def map_reply_def if_ok_def writeJSON_def)
  with read_only_request(1) [OF assms(1) send] show ?thesis by simp
qed

lemma encrypt_shards_ok:
  assumes "newx_ok newx key" "\<And>j. rand_ok (rnd j)"
  shows "\<exists>cts. encrypt_shards newx rnd key i ss = Inr cts"
proof (induction ss arbitrary: i)
  case (Cons s ss)
  from cipher.enc_dec [OF assms, of i "sh_Data s"] Cons.IH [of "Suc i"] show ?case by auto
qed simp

lemma put_chunks_roomy:
  assumes "newx_ok (pm_newx pm) key" "\<And>c j. rand_ok (rnd c j)" "encoder_ok enc" "totalShards enc = 8"
    and "list_all (\<lambda>c. (of_char c :: nat) < 128) f"
    and "tracker_at N (cc_TrackerAddr cfg) w t" "\<And>n. net_fate N n = Delivered"
    and "new_request_ok N (cc_TrackerAddr cfg @ ''/placement'')" "header_value N (cc_NetworkKey cfg) = Some k" "authenticated k t"
    and "SelectPlacementNodes (net_sort N) (net_json N) (ts_store t) 8 0 = Some (Inr nodes)" "nm_Address ` set nodes \<subseteq> A"
    and "roomy_at (bytes_of_string (cc_NetworkKey cfg)) A w" "rpc_ok (with_key (N, cfg)) w"
  shows "\<exists>ps w'. put_chunks N pm rnd cfg key enc f cs acc w = (Done ps, w') \<and> wd_trackers w' = wd_trackers w
    \<and> roomy_at (bytes_of_string (cc_NetworkKey cfg)) A w'"
  using assms(6,13,14)
proof (induction cs arbitrary: acc w)
  case (Cons c cs)
  have net: "network_ok N" using Cons.prems(1) by (simp add: tracker_at_def)
  obtain shards where shards: "Erasure.Encode enc (ch_Data c) = Inr shards" "length shards = 8"
    using rs_code.encode_ok [OF assms(3), of "ch_Data c"] assms(4) by auto
  obtain cts where cts: "encrypt_shards (pm_newx pm) (rnd (nat (ch_Index c))) key 0 shards = Inr cts"
    using encrypt_shards_ok [where rnd = "rnd (nat (ch_Index c))", OF assms(1,2)] by blast
  have "in_int64 8" by (simp add: in_int64_def)
  from selectNodes_delivered [OF Cons.prems(1) assms(7-11) this] obtain w1 where
    sel: "selectNodes N cfg 8 w = (Done nodes, w1)" "same_world w w1" by blast
  note w1 = same_world_keeps [OF sel(2)]
  have r1: "roomy_at (bytes_of_string (cc_NetworkKey cfg)) A w1"
    using Cons.prems(2) sel(2) by (simp add: roomy_at_def same_world_def)
  have "int (length nodes) = 8"
    using SelectPlacementNodes_nodes(1) [OF _ _ assms(11)] Cons.prems(1) net by (simp add: tracker_at_def network_ok_def)
  then have "0 + int (length nodes) \<le> int (length cts)"
    using encrypt_shards_law [OF assms(1,2) cts] shards(2) by simp
  from put_shards_roomy [OF net assms(7,5) r1 assms(12) order_refl this] obtain ps1 w2 where
    put: "put_shards N cfg f c cts 0 nodes acc w1 = (Done ps1, w2)" "roomy_at (bytes_of_string (cc_NetworkKey cfg)) A w2" by blast
  have "rpc_ok (with_key (N, cfg)) w1" using Cons.prems(3) w1(1) by blast
  from put_shards_law [OF this put(1) assms(5) order_refl] w1(4)
  have w2: "wd_trackers w2 = wd_trackers w" "rpc_ok (with_key (N, cfg)) w2" by simp_all
  from Cons.IH [OF tracker_at_same [OF Cons.prems(1) w2(1)] put(2) w2(2)] obtain ps w' where
    "put_chunks N pm rnd cfg key enc f cs ps1 w2 = (Done ps, w')" "wd_trackers w' = wd_trackers w2"
    "roomy_at (bytes_of_string (cc_NetworkKey cfg)) A w'" by blast
  with shards cts sel(1) put(1) w2(1) show ?case by simp
qed auto

lemma saveFilePlacement_delivered:
  assumes "tracker_at N (cc_TrackerAddr cfg) w t" "\<And>n. net_fate N n = Delivered"
    and "new_request_ok N (cc_TrackerAddr cfg @ ''/files'')" "header_value N (cc_NetworkKey cfg) = Some k" "authenticated k t"
    and "entry_ok (f, ps)" "\<And>d m p. is_ok (bb_update (db_ops (ts_store t)) d [(bucketFiles, fm_FileID f, m), (bucketPlacements, fm_FileID f, p)])"
  shows "\<exists>w'. saveFilePlacement N cfg f ps w = (Done (), w') \<and> wd_nodes w' = wd_nodes w"
proof -
  let ?jc = "net_json N" and ?req = "PostFiles (json_marshal (net_json N) (json_file_entry (f, ps)))"
  have codec: "json_codec_ok ?jc" using assms(1) by (simp add: tracker_at_def network_ok_def)
  obtain d where "bb_update (db_ops (ts_store t)) (db_file (ts_store t))
      [(bucketFiles, fm_FileID f, json_marshal ?jc (json_FileMetadata f)),
       (bucketPlacements, fm_FileID f, json_marshal ?jc (enc_structs json_ShardPlacement ps))] = Inr d"
    by (rule is_okE [OF assms(7)])
  then have "SaveFilePlacement ?jc (ts_store t) f ps = (None, (ts_store t)\<lparr>db_file := d\<rparr>)"
    by (simp add: SaveFilePlacement_def store_update_def)
  then have "tracker_routes (net_sort N) ?jc k ?req t = (Some (http_ok []), t\<lparr>ts_store := (ts_store t)\<lparr>db_file := d\<rparr>\<rparr>)"
    using assms(5) file_entry_read(1) [OF codec assms(6)] by (simp add: tracker_routes_def handleSaveFilePlacement_def)
  from tracker_send_delivered [OF assms(1-4) this] obtain w' where
    send: "tracker_send N (cc_TrackerAddr cfg) ''/files'' (cc_NetworkKey cfg) ?req w = (Done (http_ok []), w')" ..
  then have saved: "saveFilePlacement N cfg f ps w = (Done (), w')"
    by (simp add: saveFilePlacement_def map_reply_def if_ok_def)
  show ?thesis using saved saveFilePlacement_law [OF assms(1,6) saved] by blast
qed

lemma runPut_roomy:
  assumes "primitives_ok pm" "randomness_ok rn" "rd_end (of_reader f) = EOF"
    and "in_int64 (int (length (rd_content (of_reader f))))" "of_info f = Some (name, sz)" "utf8_valid name" "in_int64 sz"
    and "client_key pm cfg = Inr key" "rpc_ok (with_key (N, cfg)) w" "tracker_at N (cc_TrackerAddr cfg) w t"
    and "\<And>n. net_fate N n = Delivered" "new_request_ok N (cc_TrackerAddr cfg @ ''/placement'')"
      "new_request_ok N (cc_TrackerAddr cfg @ ''/files'')"
    and "header_value N (cc_NetworkKey cfg) = Some k" "authenticated k t"
    and "SelectPlacementNodes (net_sort N) (net_json N) (ts_store t) 8 0 = Some (Inr nodes)" "nm_Address ` set nodes \<subseteq> A"
    and "roomy_at (bytes_of_string (cc_NetworkKey cfg)) A w"
    and "\<And>d i m p. i \<noteq> '''' \<Longrightarrow> is_ok (bb_update (db_ops (ts_store t)) d [(bucketFiles, i, m), (bucketPlacements, i, p)])"
  shows "\<exists>fid w'. runPut N pm rn (Inr cfg) (Inr f) w = (Done fid, w') \<and> roomy_at (bytes_of_string (cc_NetworkKey cfg)) A w'"
proof -
  let ?fid = "randomHex (rn_fileID rn) 16" and ?cs = "file_chunks (rd_content (of_reader f))"
  obtain enc where enc: "NewEncoder (pm_rsNew pm) DefaultDataShards DefaultParityShards = Inr enc" "encoder_ok enc"
    "totalShards enc = 8" by (rule default_encoder [OF assms(1)])
  have rnd: "rand_ok (rn_nonce rn c j)" for c j using assms(2) by (simp add: randomness_ok_def)
  from put_chunks_roomy [where rnd = "rn_nonce rn" and f = ?fid and cs = ?cs and acc = "[]",
      OF client_key_ok [OF assms(1,8)] rnd enc(2,3) randomHex_plain(2) assms(10-12,14-18,9)]
  obtain ps w1 where put: "put_chunks N pm (rn_nonce rn) cfg key enc ?fid ?cs [] w = (Done ps, w1)"
    "wd_trackers w1 = wd_trackers w" "roomy_at (bytes_of_string (cc_NetworkKey cfg)) A w1" by blast
  let ?meta = "\<lparr>fm_FileID = ?fid, fm_FileName = name, fm_Size = sz, fm_ChunkCount = int (length ?cs),
    fm_CreatedAt = net_clientTime N (wd_calls w1)\<rparr>"
  note law = put_chunks_law [where rnd = "rn_nonce rn", OF client_key_ok [OF assms(1,8)] rnd enc(2,3) randomHex_plain(2)
      distinct_file_chunks assms(9,10) put(1)]
  have "entry_ok (?meta, ps)"
    by (rule saved_entry_ok [OF assms(4,6,7,10) enc(2,3) law [THEN conjunct2, THEN conjunct2, THEN conjunct1]])
  from saveFilePlacement_delivered [OF tracker_at_same [OF assms(10) put(2)] assms(11,13-15) this]
    assms(19) [of ?fid] randomHex_nonempty assms(2)
  obtain w' where "saveFilePlacement N cfg ?meta ps w1 = (Done (), w')" "wd_nodes w' = wd_nodes w1"
    by (auto simp: randomness_ok_def)
  with put(1,3) assms(5,8) enc(1) file_chunks_Split [OF assms(3)] show ?thesis
    by (auto simp: runPut_def Let_def save_uploaded_def roomy_at_def)
qed

lemma runGet_after_runPut:
  assumes "primitives_ok pm" "randomness_ok rn" "rd_end (of_reader f) = EOF"
    and "in_int64 (int (length (rd_content (of_reader f))))" "of_info f = Some (name, sz)" "utf8_valid name" "in_int64 sz"
    and "rpc_ok (with_key (N, cfg)) w" "tracker_at N (cc_TrackerAddr cfg) w t" "\<forall>d. bb_view (db_ops (ts_store t)) d = None"
    and "runPut N pm rn (Inr cfg) (Inr f) w = (Done fid, w1)" "nodes_lost w1 w2"
    and "N' = N\<lparr>net_fate := \<lambda>_. Delivered\<rparr>" "new_request_ok N' (cc_TrackerAddr cfg @ ''/files/'' @ fid)"
      "new_request_ok N' (cc_TrackerAddr cfg @ ''/nodes'')"
    and "wd_trackers w1 (cc_TrackerAddr cfg) = Some t1" "finite lost" "card lost \<le> 4"
    and "\<forall>i n. node_at (net_json N) (ts_store t1) i = Some n \<longrightarrow> i \<in> lost \<or> live_at (with_key (N', cfg)) w2 (nm_Address n)"
  shows "\<exists>w3. runGet N' pm (Inr cfg) buffer_write (Inr out) fid w2 = (Done (), Some (out @ rd_content (of_reader f)), w3)"
proof -
  from runPut_law [OF assms(1-9,11)] obtain key enc t' where up: "client_key pm cfg = Inr key"
    "NewEncoder (pm_rsNew pm) DefaultDataShards DefaultParityShards = Inr enc"
    "uploaded N pm cfg key enc fid (rd_content (of_reader f)) w1 t'" "db_ops (ts_store t') = db_ops (ts_store t)"
    "fid = randomHex (rn_fileID rn) 16" by blast
  have "t' = t1" using up(3) assms(16) by (simp add: uploaded_def tracker_at_def)
  have fid: "fid \<noteq> ''''" using up(5) assms(2) randomHex_nonempty by (simp add: randomness_ok_def)
  have up': "uploaded N' pm cfg key enc fid (rd_content (of_reader f)) w1 t1"
    using up(3) assms(13) \<open>t' = t1\<close> by simp
  have plain: "plain_text fid" "list_all (\<lambda>c. (of_char c :: nat) < 128) fid" using up(5) randomHex_plain by simp_all
  have en: "enough N' cfg t1 w2 fid"
    by (rule uploaded_enough [OF assms(1) up(2) up' plain(2) assms(4,17,18)]) (use assms(13,19) in auto)
  obtain res out' w3 where run: "runGet N' pm (Inr cfg) buffer_write (Inr out) fid w2 = (res, out', w3)"
    by (metis surj_pair)
  have view: "bb_view (db_ops (ts_store t1)) d = None" for d using assms(10) up(4) \<open>t' = t1\<close> by simp
  note get = runGet_uploaded [OF assms(1) up(1,2) up' plain(1) fid plain(2) assms(4) view assms(12) run]
  have "res = Done ()"
    by (rule get(2) [OF _ assms(14,15) en]) (simp add: assms(13))
  with get(1) run show ?thesis by simp
qed

section \<open>A network for the witnesses\<close>

text \<open>Eight nodes at two addresses, four at each, registered with one tracker.\<close>

definition demo8 :: "NodeMetadata list" where
  "demo8 = map (\<lambda>i. (demo_node [CHR ''n'', char_of (48 + i)] 10)\<lparr>nm_Address := if i < 4 then ''a'' else ''b'', nm_LastSeen := if i < 4 then 100 else 0\<rparr>) [0..<8]"

definition demo8_store :: "(string \<Rightarrow> (string \<times> bytes) list) Store" where
  "demo8_store = foldl (\<lambda>s n. snd (RegisterNode ser_codec s n)) empty_store demo8"

definition demo_net :: network where
  "demo_net = \<lparr>net_json = ser_codec, net_fate = \<lambda>_. Delivered, net_clientTime = \<lambda>_. 5, net_serverTime = \<lambda>_. 5,
     net_sort = sort_by, net_urlParses = \<lambda>_. True, net_header = Some, net_segment = Some\<rparr>"

definition demo_client :: ClientConfig where
  "demo_client = \<lparr>cc_TrackerAddr = ''http://t'', cc_NetworkKey = ''k'', cc_Salt = b64_encode StdEncoding (replicate 16 0)\<rparr>"

definition demo_pm :: primitives where
  "demo_pm = \<lparr>pm_idkey = \<lambda>_ _ _ _ _ n. replicate n 7, pm_newx = xor_newx, pm_rsNew = \<lambda>k m. Inr (copy_rs (nat k) (nat m))\<rparr>"

definition demo_rn :: randomness where
  "demo_rn = \<lparr>rn_fileID = zero_rand, rn_nonce = \<lambda>_ _. zero_rand\<rparr>"

definition demo_file :: opened_file where
  "demo_file = \<lparr>of_reader = \<lparr>rd_pieces = [[1, 2], [3]], rd_end = EOF\<rparr>, of_info = Some (''f'', 3)\<rparr>"

definition demo_world :: "(string \<Rightarrow> (string \<times> bytes) list) world" where
  "demo_world = \<lparr>wd_nodes = [''a'' \<mapsto> demo_server (2 ^ 63 - 1), ''b'' \<mapsto> demo_server (2 ^ 63 - 1)],
     wd_trackers = [''http://t'' \<mapsto> demo_tracker\<lparr>ts_store := demo8_store\<rparr>], wd_calls = 0\<rparr>"

lemma demo_pm_ok: "primitives_ok demo_pm"
  using copy_rs_ok [of 4 4] by (simp add: primitives_ok_def demo_pm_def xor_newx_ok)

lemma demo_rn_ok: "randomness_ok demo_rn"
  by (simp add: randomness_ok_def demo_rn_def zero_rand_ok)

lemma demo_net_ok [simp]: "network_ok demo_net" "net_json demo_net = ser_codec" "net_fate demo_net n = Delivered"
  "net_sort demo_net = sort_by"
  by (simp_all add: network_ok_def demo_net_def ser_codec_ok in_int64_def sort_by_more_space)

lemma demo_url: "new_request_ok demo_net (cc_TrackerAddr demo_client @ ''/'' @ x)"
proof -
  have "has_scheme (''http:'' @ y)" for y
    by (simp add: has_scheme_def is_letter_def scheme_char_def)
  from this [of "''//t/'' @ x"] show ?thesis by (simp add: new_request_ok_def demo_net_def demo_client_def)
qed

lemma demo_key: "header_value demo_net (cc_NetworkKey demo_client) = Some ''k''"
  by (simp add: header_value_def plain_text_def demo_client_def)

lemma demo_client_key: "client_key demo_pm demo_client = Inr (replicate 32 7)"
  by (simp add: client_key_def DecodedSalt_def demo_client_def DeriveKey_def demo_pm_def minSaltSize_def keySize_def)

lemma demo8_fold:
  assumes "store_ok ser_codec s" "db_ops s = alist_bolt" "\<And>n. n \<in> set ns \<Longrightarrow> node_ok n \<and> nm_NodeID n \<noteq> ''''"
  shows "store_ok ser_codec (foldl (\<lambda>s n. snd (RegisterNode ser_codec s n)) s ns)
    \<and> db_ops (foldl (\<lambda>s n. snd (RegisterNode ser_codec s n)) s ns) = alist_bolt
    \<and> node_at ser_codec (foldl (\<lambda>s n. snd (RegisterNode ser_codec s n)) s ns)
        = foldl (\<lambda>m n. m(nm_NodeID n \<mapsto> n)) (node_at ser_codec s) ns"
  using assms
proof (induction ns arbitrary: s)
  case (Cons n ns)
  obtain s1 where s1: "RegisterNode ser_codec s n = (None, s1)" "db_ops s1 = alist_bolt"
    using alist_RegisterNode [OF Cons.prems(2), of n ser_codec] Cons.prems(3) by auto
  have n: "node_ok n" using Cons.prems(3) by simp
  from RegisterNode_law [OF Cons.prems(1) n s1(1)]
  have law: "store_ok ser_codec s1" "node_at ser_codec s1 = (node_at ser_codec s)(nm_NodeID n \<mapsto> n)" by simp_all
  have "store_ok ser_codec (foldl (\<lambda>s n. snd (RegisterNode ser_codec s n)) s1 ns)
    \<and> db_ops (foldl (\<lambda>s n. snd (RegisterNode ser_codec s n)) s1 ns) = alist_bolt
    \<and> node_at ser_codec (foldl (\<lambda>s n. snd (RegisterNode ser_codec s n)) s1 ns)
        = foldl (\<lambda>m n. m(nm_NodeID n \<mapsto> n)) (node_at ser_codec s1) ns"
    by (rule Cons.IH [OF law(1) s1(2)]) (rule Cons.prems(3), simp)
  then show ?case unfolding law(2) foldl_Cons s1(1) snd_conv .
qed simp

lemma demo8_nodes: "n \<in> set demo8 \<Longrightarrow> node_ok n \<and> nm_NodeID n \<noteq> '''' \<and> nm_Address n \<in> {''a'', ''b''} \<and> nm_IsHealthy n \<and> free_space n = 10"
  by (auto simp: demo8_def demo_node_def node_ok_def utf8_valid_ascii in_int64_def free_space_def split: if_splits)

lemma demo8_distinct: "distinct (map nm_NodeID demo8)" "length demo8 = 8"
proof -
  have "i = j" if "char_of (48 + i) = (char_of (48 + j) :: char)" "i < 8" "j < 8" for i j :: nat
    using arg_cong [where f = "of_char :: char \<Rightarrow> nat", OF that(1)] that(2,3) by simp
  then show "distinct (map nm_NodeID demo8)" by (auto simp: demo8_def demo_node_def distinct_map inj_on_def)
qed (simp add: demo8_def)

lemma demo8_store_ok: "store_ok ser_codec demo8_store" "db_ops demo8_store = alist_bolt"
  "node_at ser_codec demo8_store i = Some n \<longleftrightarrow> n \<in> set demo8 \<and> nm_NodeID n = i"
proof -
  have "node_at ser_codec empty_store = Map.empty"
    by (rule ext) (simp add: node_at_def empty_store_def alist_bolt_def)
  moreover have "db_ops empty_store = alist_bolt" by (simp add: empty_store_def)
  ultimately have "store_ok ser_codec demo8_store \<and> db_ops demo8_store = alist_bolt \<and> node_at ser_codec demo8_store = node_index demo8"
    using demo8_fold [OF empty_store_ok, of demo8] demo8_nodes by (simp add: demo8_store_def node_index_def)
  then show "store_ok ser_codec demo8_store" "db_ops demo8_store = alist_bolt"
    "node_at ser_codec demo8_store i = Some n \<longleftrightarrow> n \<in> set demo8 \<and> nm_NodeID n = i"
    by (simp_all add: node_index_iff [OF demo8_distinct(1)])
qed

lemma demo8_select:
  obtains nodes where "SelectPlacementNodes sort_by ser_codec demo8_store 8 0 = Some (Inr nodes)" "set nodes \<subseteq> set demo8"
proof -
  obtain ns where ns: "ListNodes ser_codec demo8_store = Inr ns"
    using ListNodes_ok [OF demo8_store_ok(1)] demo8_store_ok(2) by auto
  from ListNodes_law [OF demo8_store_ok(1) ns] have "set ns = set demo8" "distinct (map nm_NodeID ns)"
    by (auto simp: demo8_store_ok(3))
  moreover from this have "length ns = 8"
    using demo8_distinct by (metis distinct_card distinct_map)
  moreover have "eligible 0 ns = ns" using \<open>set ns = set demo8\<close> demo8_nodes by (simp add: eligible_def)
  ultimately have sel: "SelectPlacementNodes sort_by ser_codec demo8_store 8 0 = Some (Inr (take 8 (sort_by more_space ns)))"
    by (simp add: SelectPlacementNodes_def ns)
  moreover have "set (take 8 (sort_by more_space ns)) \<subseteq> set demo8"
    using set_take_subset [of 8 "sort_by more_space ns"] sort_slice_set [OF sort_by_more_space] \<open>set ns = set demo8\<close> by simp
  ultimately show thesis by (rule that)
qed

lemma demo_world_ok:
  "rpc_ok (with_key (demo_net, demo_client)) demo_world"
  "tracker_at demo_net (cc_TrackerAddr demo_client) demo_world (demo_tracker\<lparr>ts_store := demo8_store\<rparr>)"
  "roomy_at (bytes_of_string (cc_NetworkKey demo_client)) {''a'', ''b''} demo_world"
proof -
  show "rpc_ok (with_key (demo_net, demo_client)) demo_world"
    by (simp add: rpc_ok_def with_key_def demo_world_def)
  show "tracker_at demo_net (cc_TrackerAddr demo_client) demo_world (demo_tracker\<lparr>ts_store := demo8_store\<rparr>)"
    by (simp add: tracker_at_def demo_world_def demo_client_def demo8_store_ok(1))
  have "roomy (bytes_of_string ''k'') (demo_server (2 ^ 63 - 1))"
    by (simp add: roomy_def) (simp add: demo_server_def alist_bolt_def)
  then show "roomy_at (bytes_of_string (cc_NetworkKey demo_client)) {''a'', ''b''} demo_world"
    by (simp add: roomy_at_def demo_world_def demo_client_def)
qed

lemma demo_put_runs:
  "\<exists>fid w1. runPut demo_net demo_pm demo_rn (Inr demo_client) (Inr demo_file) demo_world = (Done fid, w1)
     \<and> roomy_at (bytes_of_string (cc_NetworkKey demo_client)) {''a'', ''b''} w1"
proof -
  obtain nodes where nodes: "SelectPlacementNodes sort_by ser_codec demo8_store 8 0 = Some (Inr nodes)" "set nodes \<subseteq> set demo8"
    by (rule demo8_select)
  let ?t = "demo_tracker\<lparr>ts_store := demo8_store\<rparr>"
  have f: "rd_end (of_reader demo_file) = EOF" "in_int64 (int (length (rd_content (of_reader demo_file))))"
    "of_info demo_file = Some (''f'', 3)" "utf8_valid ''f''" "in_int64 3"
    by (simp_all add: demo_file_def rd_content_def in_int64_def utf8_valid_ascii)
  have urls: "new_request_ok demo_net (cc_TrackerAddr demo_client @ ''/placement'')"
    "new_request_ok demo_net (cc_TrackerAddr demo_client @ ''/files'')"
    using demo_url [of "''placement''"] demo_url [of "''files''"] by simp_all
  have auth: "authenticated ''k'' ?t" by (simp add: authenticated_def demo_tracker_def)
  have sel: "SelectPlacementNodes (net_sort demo_net) (net_json demo_net) (ts_store ?t) 8 0 = Some (Inr nodes)"
    using nodes(1) by simp
  have addr: "nm_Address ` set nodes \<subseteq> {''a'', ''b''}" using nodes(2) demo8_nodes by blast
  have db: "is_ok (bb_update (db_ops (ts_store ?t)) d [(bucketFiles, i, m), (bucketPlacements, i, p)])" if "i \<noteq> ''''" for d i m p
    using that by (simp add: demo8_store_ok(2)) (simp add: alist_bolt_def)
  show ?thesis
    by (rule runPut_roomy [OF demo_pm_ok demo_rn_ok f demo_client_key demo_world_ok(1,2) demo_net_ok(3) urls demo_key auth sel addr demo_world_ok(3) db])
qed

lemma demo_reader: "rd_content (of_reader demo_file) = [1, 2, 3]" "rd_end (of_reader demo_file) = EOF"
  "of_info demo_file = Some (''f'', 3)"
  by (simp_all add: demo_file_def rd_content_def)

lemma demo_small: "in_int64 (int (length (rd_content (of_reader demo_file))))" "utf8_valid ''f''" "in_int64 3"
  by (simp_all add: demo_reader in_int64_def utf8_valid_ascii)

lemma demo_view8: "\<forall>d. bb_view (db_ops (ts_store (demo_tracker\<lparr>ts_store := demo8_store\<rparr>))) d = None"
  by (simp add: demo8_store_ok(2))

text \<open>The nodes at address \<open>b\<close> go away.\<close>

definition without_b :: "'d world \<Rightarrow> 'd world" where
  "without_b w = w\<lparr>wd_nodes := (wd_nodes w)(''b'' := None)\<rparr>"

lemma without_b_lost: "nodes_lost w (without_b w)"
  by (simp add: nodes_lost_def without_b_def)

text \<open>The eight nodes of the witnesses, when those at address \<open>a\<close> are there.\<close>

abbreviation demo_lost :: "string set" where
  "demo_lost \<equiv> nm_NodeID ` {n \<in> set demo8. nm_Address n = ''b''}"

lemma demo_lost: "finite demo_lost" "card demo_lost \<le> 4"
proof -
  have "demo_lost \<subseteq> (\<lambda>i. [CHR ''n'', char_of (48 + i)]) ` {4..<8 :: nat}"
  proof
    fix i assume "i \<in> demo_lost"
    then obtain j :: nat where j: "j < 8" "\<not> j < 4" "i = [CHR ''n'', char_of (48 + j)]"
      by (auto simp: demo8_def demo_node_def split: if_splits)
    show "i \<in> (\<lambda>i. [CHR ''n'', char_of (48 + i)]) ` {4..<8 :: nat}"
      by (rule image_eqI [where x = j]) (use j in simp_all)
  qed
  from card_mono [OF _ this] card_image_le [of "{4..<8 :: nat}" "\<lambda>i. [CHR ''n'', char_of (48 + i)]"]
  show "card demo_lost \<le> 4" by simp
qed simp

lemma demo_put_nodes:
  assumes "runPut demo_net demo_pm demo_rn (Inr demo_client) (Inr demo_file) demo_world = (Done fid, w1)"
  obtains t1 where "wd_trackers w1 (cc_TrackerAddr demo_client) = Some t1" "node_at ser_codec (ts_store t1) = node_at ser_codec demo8_store"
  using runPut_tracker [OF demo_pm_ok demo_rn_ok demo_reader(2) demo_small(1) demo_reader(3) demo_small(2,3) demo_world_ok(1,2) assms]
  by auto

lemma demo_alive:
  assumes "node_at ser_codec s = node_at ser_codec demo8_store" "roomy_at (bytes_of_string (cc_NetworkKey demo_client)) {''a''} w"
    and "node_at ser_codec s i = Some n"
  shows "i \<in> demo_lost \<or> live_at (with_key (demo_net, demo_client)) w (nm_Address n)"
proof -
  from assms(3) have n: "n \<in> set demo8" "nm_NodeID n = i" by (simp_all add: assms(1) demo8_store_ok(3))
  with demo8_nodes consider "nm_Address n = ''b''" | "nm_Address n = ''a''" by blast
  then show ?thesis
  proof cases
    case 2
    with assms(2) obtain s where "wd_nodes w ''a'' = Some s" "node_key s = bytes_of_string (cc_NetworkKey demo_client)"
      by (auto simp: roomy_at_def roomy_def)
    with 2 show ?thesis by (simp add: live_at_def with_key_def)
  qed (use n in auto)
qed

lemma demo_urls:
  "new_request_ok demo_net (cc_TrackerAddr demo_client @ ''/files/'' @ fid)" "new_request_ok demo_net (cc_TrackerAddr demo_client @ ''/nodes'')"
  using demo_url [of "''files/'' @ fid"] demo_url [of "''nodes''"] by simp_all

lemma demo_same_net: "demo_net = demo_net\<lparr>net_fate := \<lambda>_. Delivered\<rparr>"
  by (simp add: demo_net_def)

lemma demo_get_runs:
  assumes put: "runPut demo_net demo_pm demo_rn (Inr demo_client) (Inr demo_file) demo_world = (Done fid, w1)"
    and "nodes_lost w1 w2" "roomy_at (bytes_of_string (cc_NetworkKey demo_client)) {''a''} w2"
  shows "\<exists>w3. runGet demo_net demo_pm (Inr demo_client) buffer_write (Inr out) fid w2 = (Done (), Some (out @ [1, 2, 3]), w3)"
proof -
  obtain t1 where t1: "wd_trackers w1 (cc_TrackerAddr demo_client) = Some t1" "node_at ser_codec (ts_store t1) = node_at ser_codec demo8_store"
    by (rule demo_put_nodes [OF put])
  have "\<exists>w3. runGet demo_net demo_pm (Inr demo_client) buffer_write (Inr out) fid w2
      = (Done (), Some (out @ rd_content (of_reader demo_file)), w3)"
    by (rule runGet_after_runPut [OF demo_pm_ok demo_rn_ok demo_reader(2) demo_small(1) demo_reader(3) demo_small(2,3)
          demo_world_ok(1,2) demo_view8 put assms(2) demo_same_net demo_urls t1(1) demo_lost])
      (use demo_alive [OF t1(2) assms(3)] in simp)
  then show ?thesis by (simp add: demo_reader(1))
qed

section \<open>Properties\<close>

text \<open>
  A download never gives a wrong file. After a successful \<open>put\<close>, and whatever nodes are lost
  since, \<open>get\<close> of the file, with any failures of the network on the way, either ends with success
  and has written exactly the bytes that were uploaded, or ends without success and has not even
  made the output file.
\<close>

theorem get_never_wrong:
  assumes "primitives_ok pm" "randomness_ok rn" "rd_end (of_reader f) = EOF"
    and "in_int64 (int (length (rd_content (of_reader f))))" "of_info f = Some (name, sz)" "utf8_valid name" "in_int64 sz"
    and "rpc_ok (with_key (N, cfg)) w" "tracker_at N (cc_TrackerAddr cfg) w t" "\<forall>d. bb_view (db_ops (ts_store t)) d = None"
    and "runPut N pm rn (Inr cfg) (Inr f) w = (Done fid, w1)" "nodes_lost w1 w2"
    and "runGet (N\<lparr>net_fate := fate\<rparr>) pm (Inr cfg) buffer_write (Inr out) fid w2 = (res, out', w3)"
  shows "out' = (if res = Done () then Some (out @ rd_content (of_reader f)) else None)"
proof -
  from runPut_law [OF assms(1-9,11)] obtain key enc t' where up: "client_key pm cfg = Inr key"
    "NewEncoder (pm_rsNew pm) DefaultDataShards DefaultParityShards = Inr enc"
    "uploaded N pm cfg key enc fid (rd_content (of_reader f)) w1 t'" "db_ops (ts_store t') = db_ops (ts_store t)"
    "fid = randomHex (rn_fileID rn) 16" by blast
  have fid: "fid \<noteq> ''''" using up(5) assms(2) randomHex_nonempty by (simp add: randomness_ok_def)
  have view: "bb_view (db_ops (ts_store t')) d = None" for d using assms(10) up(4) by simp
  have plain: "plain_text fid" "list_all (\<lambda>c. (of_char c :: nat) < 128) fid" using up(5) randomHex_plain by simp_all
  show ?thesis
    by (rule runGet_uploaded(1) [OF assms(1) up(1,2) _ plain(1) fid plain(2) assms(4) view assms(12,13)]) (use up(3) in simp)
qed

theorem get_never_wrong_witness:
  "\<exists>fid w1 res out' w3. runPut demo_net demo_pm demo_rn (Inr demo_client) (Inr demo_file) demo_world = (Done fid, w1)
     \<and> runGet (demo_net\<lparr>net_fate := \<lambda>n. if even n then Delivered else ReplyLost\<rparr>) demo_pm (Inr demo_client) buffer_write (Inr []) fid
          (without_b w1) = (res, out', w3)
     \<and> out' = (if res = Done () then Some [1, 2, 3] else None)"
proof -
  obtain fid w1 where run: "runPut demo_net demo_pm demo_rn (Inr demo_client) (Inr demo_file) demo_world = (Done fid, w1)"
    using demo_put_runs by blast
  let ?fate = "\<lambda>n :: nat. if even n then Delivered else ReplyLost"
  obtain res out' w3 where get: "runGet (demo_net\<lparr>net_fate := ?fate\<rparr>) demo_pm (Inr demo_client) buffer_write (Inr []) fid
      (without_b w1) = (res, out', w3)" by (metis surj_pair)
  have "out' = (if res = Done () then Some ([] @ rd_content (of_reader demo_file)) else None)"
    by (rule get_never_wrong [OF demo_pm_ok demo_rn_ok demo_reader(2) demo_small(1) demo_reader(3) demo_small(2,3)
          demo_world_ok(1,2) demo_view8 run without_b_lost get])
  with run get show ?thesis by (auto simp: demo_reader(1))
qed

text \<open>
  A file survives the loss of any four nodes. After a successful \<open>put\<close>, when all registered
  nodes but at most four can be reached with the network's key and every exchange is delivered,
  \<open>get\<close> of the file succeeds and writes exactly the bytes that were uploaded.
\<close>

theorem get_survives_four_losses:
  assumes "primitives_ok pm" "randomness_ok rn" "rd_end (of_reader f) = EOF"
    and "in_int64 (int (length (rd_content (of_reader f))))" "of_info f = Some (name, sz)" "utf8_valid name" "in_int64 sz"
    and "rpc_ok (with_key (N, cfg)) w" "tracker_at N (cc_TrackerAddr cfg) w t" "\<forall>d. bb_view (db_ops (ts_store t)) d = None"
    and "runPut N pm rn (Inr cfg) (Inr f) w = (Done fid, w1)" "nodes_lost w1 w2"
    and "N' = N\<lparr>net_fate := \<lambda>_. Delivered\<rparr>" "new_request_ok N' (cc_TrackerAddr cfg @ ''/files/'' @ fid)"
      "new_request_ok N' (cc_TrackerAddr cfg @ ''/nodes'')"
    and "wd_trackers w1 (cc_TrackerAddr cfg) = Some t1" "finite lost" "card lost \<le> 4"
    and "\<forall>i n. node_at (net_json N) (ts_store t1) i = Some n \<longrightarrow> i \<in> lost \<or> live_at (with_key (N', cfg)) w2 (nm_Address n)"
  shows "\<exists>w3. runGet N' pm (Inr cfg) buffer_write (Inr out) fid w2 = (Done (), Some (out @ rd_content (of_reader f)), w3)"
  by (rule runGet_after_runPut [OF assms])

theorem get_survives_four_losses_witness:
  "\<exists>fid w1 w3. runPut demo_net demo_pm demo_rn (Inr demo_client) (Inr demo_file) demo_world = (Done fid, w1)
     \<and> runGet demo_net demo_pm (Inr demo_client) buffer_write (Inr [9]) fid (without_b w1) = (Done (), Some [9, 1, 2, 3], w3)"
proof -
  obtain fid w1 where run: "runPut demo_net demo_pm demo_rn (Inr demo_client) (Inr demo_file) demo_world = (Done fid, w1)"
    and room: "roomy_at (bytes_of_string (cc_NetworkKey demo_client)) {''a'', ''b''} w1"
    using demo_put_runs by blast
  obtain t1 where t1: "wd_trackers w1 (cc_TrackerAddr demo_client) = Some t1" "node_at ser_codec (ts_store t1) = node_at ser_codec demo8_store"
    by (rule demo_put_nodes [OF run])
  have room': "roomy_at (bytes_of_string (cc_NetworkKey demo_client)) {''a''} (without_b w1)"
    using room by (simp add: roomy_at_def without_b_def)
  have "\<exists>w3. runGet demo_net demo_pm (Inr demo_client) buffer_write (Inr [9]) fid (without_b w1)
      = (Done (), Some ([9] @ rd_content (of_reader demo_file)), w3)"
    by (rule get_survives_four_losses [OF demo_pm_ok demo_rn_ok demo_reader(2) demo_small(1) demo_reader(3) demo_small(2,3)
          demo_world_ok(1,2) demo_view8 run without_b_lost demo_same_net demo_urls t1(1) demo_lost])
      (use demo_alive [OF t1(2) room'] in simp)
  with run show ?thesis by (simp add: demo_reader(1))
qed

end
