(* ===== verification/Sound.thy ===== *)
theory Sound
  imports PutGet
begin

text \<open>
  What keeps files safe: no node holds, under the identifier of a shard, a text that decrypts to
  anything but the shard. Uploads and repairs keep it, and under it whatever is collected for a
  chunk rebuilds the chunk or nothing, for the downloader and for the repairer.
\<close>

section \<open>Faithful worlds\<close>

text \<open>
  \<open>truth\<close> names the plaintext that belongs to a shard's identifier. A world is faithful when no
  address holds, under such an identifier, a text that decrypts to anything else. It is refreshed
  when what has changed are texts that decrypt to what they should.
\<close>

type_synonym shard_truth = "string \<Rightarrow> bytes option"

definition readable :: "newx_fun \<Rightarrow> bytes \<Rightarrow> 'd world \<Rightarrow> string \<Rightarrow> string \<Rightarrow> bytes \<Rightarrow> bool" where
  "readable newx key w a i t \<longleftrightarrow> (\<exists>ct. held_at w a i = Some ct \<and> ct \<noteq> [] \<and> Decrypt newx ct key = Inr t)"

definition faithful :: "newx_fun \<Rightarrow> bytes \<Rightarrow> shard_truth \<Rightarrow> 'd world \<Rightarrow> bool" where
  "faithful newx key truth w \<longleftrightarrow>
     (\<forall>a i t ct y. truth i = Some t \<longrightarrow> held_at w a i = Some ct \<longrightarrow> ct \<noteq> [] \<longrightarrow> Decrypt newx ct key = Inr y \<longrightarrow> y = t)"

definition refreshed :: "newx_fun \<Rightarrow> bytes \<Rightarrow> shard_truth \<Rightarrow> 'd world \<Rightarrow> 'd world \<Rightarrow> bool" where
  "refreshed newx key truth w w' \<longleftrightarrow>
     (\<forall>a i. held_at w' a i = held_at w a i \<or> (\<exists>t. truth i = Some t \<and> readable newx key w' a i t))"

lemma refreshed_same: "held_at w' = held_at w \<Longrightarrow> refreshed newx key truth w w'"
  by (simp add: refreshed_def)

lemma refreshed_trans [trans]:
  assumes "refreshed newx key truth u v" "refreshed newx key truth v w"
  shows "refreshed newx key truth u w"
  unfolding refreshed_def
proof (intro allI)
  fix a i
  from assms(2) consider "held_at w a i = held_at v a i" | t where "truth i = Some t" "readable newx key w a i t"
    unfolding refreshed_def by blast
  then show "held_at w a i = held_at u a i \<or> (\<exists>t. truth i = Some t \<and> readable newx key w a i t)"
  proof cases
    case 1
    with assms(1) show ?thesis by (fastforce simp: refreshed_def readable_def)
  qed blast
qed

lemma readable_refreshed:
  assumes "refreshed newx key truth w w'" "truth i = Some t" "readable newx key w a i t"
  shows "readable newx key w' a i t"
  using assms unfolding refreshed_def readable_def by (metis option.inject)

lemma faithful_refreshed:
  assumes "refreshed newx key truth w w'" "faithful newx key truth w"
  shows "faithful newx key truth w'"
  unfolding faithful_def
proof (intro allI impI)
  fix a i t ct y
  assume held: "truth i = Some t" "held_at w' a i = Some ct" "ct \<noteq> []" "Decrypt newx ct key = Inr y"
  from assms(1) consider "held_at w' a i = held_at w a i" | "readable newx key w' a i t"
    using held(1) unfolding refreshed_def by (metis option.inject)
  then show "y = t"
  proof cases
    case 1
    with assms(2) held show ?thesis by (simp add: faithful_def)
  qed (use held in \<open>simp add: readable_def\<close>)
qed

text \<open>A placement described by the data of its chunk.\<close>

definition shard_of :: "Encoder \<Rightarrow> bytes \<Rightarrow> int \<Rightarrow> bytes" where
  "shard_of enc d i = (case Erasure.Encode enc d of Inl _ \<Rightarrow> [] | Inr ss \<Rightarrow> sh_Data (ss ! nat i))"

definition described :: "Encoder \<Rightarrow> shard_truth \<Rightarrow> (int \<Rightarrow> bytes) \<Rightarrow> ShardPlacement \<Rightarrow> bool" where
  "described enc truth chunk p \<longleftrightarrow> utf8_valid (sp_ShardID p) \<and> sp_ShardID p \<noteq> ''''
     \<and> 0 \<le> sp_ShardIndex p \<and> sp_ShardIndex p < 8 \<and> chunk (sp_ChunkIndex p) \<noteq> []
     \<and> sp_OriginalChunkSize p = int (length (chunk (sp_ChunkIndex p)))
     \<and> truth (sp_ShardID p) = Some (shard_of enc (chunk (sp_ChunkIndex p)) (sp_ShardIndex p))"

lemma described_moved [simp]: "described enc truth chunk (p\<lparr>sp_NodeID := i\<rparr>) = described enc truth chunk p"
  by (simp add: described_def)

section \<open>Collecting from a faithful world\<close>

context shard_rpc
begin

lemma collected_described:
  assumes "rpc_ok x w" "encoder_ok enc" "dataShards enc = 4" "totalShards enc = 8"
    and "\<forall>a i t ct y. truth i = Some t \<longrightarrow> held w a i = Some ct \<longrightarrow> ct \<noteq> [] \<longrightarrow> dec ct = Inr y \<longrightarrow> y = t"
    and "\<And>p. p \<in> set grp \<Longrightarrow> described enc truth chunk p \<and> sp_ChunkIndex p = ci \<and> \<not> skip p \<and> id_ok (sp_ShardID p)" "grp \<noteq> []"
    and "collect_shards skip node_of (\<lambda>n i. fetch x n i) dec grp (empty_slots totalDefault) 0 w = (res, w')"
  shows "\<exists>raw. res = Some (raw, int (length (chunk ci))) \<and> rpc_ok x w' \<and> held w' = held w
    \<and> others w' = others w \<and> live x w' = live x w
    \<and> (\<forall>d. Reconstruct enc raw (int (length (chunk ci))) = Inr d \<longrightarrow> d = chunk ci)
    \<and> (4 \<le> card (sp_ShardIndex ` {p \<in> set grp. \<exists>n ct. node_of (sp_NodeID p) = Some n \<and> live x w (nm_Address n)
          \<and> held w (nm_Address n) (sp_ShardID p) = Some ct \<and> ct \<noteq> [] \<and> is_ok (dec ct)})
        \<longrightarrow> is_ok (Reconstruct enc raw (int (length (chunk ci)))))"
proof -
  let ?raw = "empty_slots totalDefault" and ?data = "\<lambda>i. shard_of enc (chunk ci) (int i)"
  have tot: "totalDefault = 8" by (simp add: totalDefault_def DefaultDataShards_def DefaultParityShards_def)
  have p: "id_ok (sp_ShardID p)" "0 \<le> sp_ShardIndex p" "sp_ShardIndex p < 8" "sp_OriginalChunkSize p = int (length (chunk ci))"
    "truth (sp_ShardID p) = Some (?data (nat (sp_ShardIndex p)))" "\<not> skip p" if "p \<in> set grp" for p
    using assms(6) [OF that] by (auto simp: described_def)
  have slot: "id_ok (sp_ShardID p) \<and> 0 \<le> sp_ShardIndex p \<and> sp_ShardIndex p < int (length ?raw)" if "p \<in> set grp" "\<not> skip p" for p
    using p [OF that(1)] by (simp add: tot)
  have only: "y = ?data (nat (sp_ShardIndex p))"
    if "p \<in> set grp" "\<not> skip p" "node_of (sp_NodeID p) = Some n" "held w (nm_Address n) (sp_ShardID p) = Some d"
      "d \<noteq> []" "dec d = Inr y" for p n d y
    using assms(5) p(5) [OF that(1)] that(4-6) by blast
  have law: "rpc_ok x w' \<and> held w' = held w \<and> others w' = others w \<and> live x w' = live x w
    \<and> (\<exists>raw'. res = Some (raw', foldl (\<lambda>s p. if skip p then s else sp_OriginalChunkSize p) 0 grp) \<and> length raw' = length ?raw
      \<and> (\<forall>i < length ?raw. sh_Index (raw' ! i) = sh_Index (?raw ! i) \<and> (sh_Data (raw' ! i) = sh_Data (?raw ! i) \<or> sh_Data (raw' ! i) = ?data i))
      \<and> (\<forall>p \<in> set grp. \<forall>n d. \<not> skip p \<longrightarrow> node_of (sp_NodeID p) = Some n \<longrightarrow> live x w (nm_Address n)
           \<longrightarrow> held w (nm_Address n) (sp_ShardID p) = Some d \<longrightarrow> d \<noteq> [] \<longrightarrow> is_ok (dec d)
           \<longrightarrow> sh_Data (raw' ! nat (sp_ShardIndex p)) = ?data (nat (sp_ShardIndex p))))"
    by (rule collect_law [OF assms(1) _ _ assms(8)]) (rule slot only; assumption)+
  then obtain raw where raw: "res = Some (raw, foldl (\<lambda>s p. if skip p then s else sp_OriginalChunkSize p) 0 grp)" "length raw = 8"
    and slots0: "\<forall>i < length ?raw. sh_Index (raw ! i) = sh_Index (?raw ! i) \<and> (sh_Data (raw ! i) = sh_Data (?raw ! i) \<or> sh_Data (raw ! i) = ?data i)"
    and hit: "\<forall>p \<in> set grp. \<forall>n d. \<not> skip p \<longrightarrow> node_of (sp_NodeID p) = Some n \<longrightarrow> live x w (nm_Address n)
       \<longrightarrow> held w (nm_Address n) (sp_ShardID p) = Some d \<longrightarrow> d \<noteq> [] \<longrightarrow> is_ok (dec d)
       \<longrightarrow> sh_Data (raw ! nat (sp_ShardIndex p)) = ?data (nat (sp_ShardIndex p))"
    by (auto simp: tot)
  have slots: "sh_Index (raw ! i) = int i" "sh_Data (raw ! i) = [] \<or> sh_Data (raw ! i) = ?data i" if "i < 8" for i
    using slots0 that by (auto simp: tot)
  have "foldl (\<lambda>s p. if skip p then s else sp_OriginalChunkSize p) z grp = (if grp = [] then z else int (length (chunk ci)))" for z
    using p(4,6) by (induction grp arbitrary: z) auto
  then have size: "foldl (\<lambda>s p. if skip p then s else sp_OriginalChunkSize p) 0 grp = int (length (chunk ci))" using assms(7) by simp
  obtain p0 where "p0 \<in> set grp" using assms(7) by (meson last_in_set)
  then have ne: "chunk ci \<noteq> []" using assms(6) [of p0] by (auto simp: described_def)
  obtain shards where shards: "Erasure.Encode enc (chunk ci) = Inr shards" "length shards = 8"
    "\<And>i. i < 8 \<Longrightarrow> sh_Data (shards ! i) \<noteq> []"
    using rs_code.encode_ok [OF assms(2), of "chunk ci"] assms(4) ne by auto
  have data: "?data i = sh_Data (shards ! i)" for i by (simp add: shard_of_def shards(1))
  have "Erasure.genuine (totalShards enc) (map sh_Data shards) raw"
    using slots raw(2) shards(2) by (fastforce simp: genuine_def usable_def in_set_conv_nth assms(4) data)
  note rec = Reconstruct_genuine [OF assms(2) ne shards(1) this, unfolded assms(3,4) raw(2)]
  let ?got = "{p \<in> set grp. \<exists>n ct. node_of (sp_NodeID p) = Some n \<and> live x w (nm_Address n)
    \<and> held w (nm_Address n) (sp_ShardID p) = Some ct \<and> ct \<noteq> [] \<and> is_ok (dec ct)}"
  have "sp_ShardIndex ` ?got \<subseteq> int ` usable_indices 8 raw"
  proof clarify
    fix q n ct assume q: "q \<in> set grp" "node_of (sp_NodeID q) = Some n" "live x w (nm_Address n)"
      "held w (nm_Address n) (sp_ShardID q) = Some ct" "ct \<noteq> []" "is_ok (dec ct)"
    define i where "i = nat (sp_ShardIndex q)"
    have i: "i < 8" "int i = sp_ShardIndex q" using p [OF q(1)] by (simp_all add: i_def)
    have "sh_Data (raw ! i) = ?data i" using hit q p(6) unfolding i_def by blast
    then have "usable 8 (raw ! i)" "raw ! i \<in> set raw" using slots(1) [OF i(1)] i(1) shards(3) [OF i(1)] raw(2)
      unfolding data by (simp_all add: usable_def)
    then have "i \<in> usable_indices 8 raw" using slots(1) [OF i(1)] by (force simp: usable_indices_def)
    then show "sp_ShardIndex q \<in> int ` usable_indices 8 raw" using i(2) by (metis imageI)
  qed
  from card_mono [OF _ this] card_image_le [of "usable_indices 8 raw" int]
  have many: "4 \<le> card (usable_indices 8 raw)" if "4 \<le> card (sp_ShardIndex ` ?got)" using that by simp
  have "d = chunk ci" if "Reconstruct enc raw (int (length (chunk ci))) = Inr d" for d
    using rec that by (auto split: if_splits)
  moreover have "is_ok (Reconstruct enc raw (int (length (chunk ci))))" if "4 \<le> card (sp_ShardIndex ` ?got)"
    using rec many [OF that] by simp
  moreover have "res = Some (raw, int (length (chunk ci)))" using raw(1) size by simp
  moreover from law have "rpc_ok x w'" "held w' = held w" "others w' = others w" "live x w' = live x w" by blast+
  ultimately show ?thesis by blast
qed

end

end
