(* ===== verification/SoundCmds.thy ===== *)
theory SoundCmds
  imports Sound
begin

text \<open>
  Upload and download over faithful worlds (theory Sound): \<open>put\<close>, however it ends, leaves a faithful
  world faithful, and \<open>get\<close> from a faithful world gives the content of a file or no file.
\<close>

section \<open>Files as they are placed\<close>

text \<open>
  The data of a chunk by its index, and a list of placements that describes the whole content.
\<close>

definition file_data :: "bytes \<Rightarrow> int \<Rightarrow> bytes" where
  "file_data content ci =
     (if 0 \<le> ci \<and> ci < int (length (file_chunks content)) then ch_Data (file_chunks content ! nat ci) else [])"

definition holds_file :: "Encoder \<Rightarrow> shard_truth \<Rightarrow> bytes \<Rightarrow> ShardPlacement list \<Rightarrow> bool" where
  "holds_file enc truth content ps \<longleftrightarrow> chunk_indices ps = map ch_Index (file_chunks content)
     \<and> (\<forall>p \<in> set ps. described enc truth (file_data content) p)"

lemma file_data_chunk:
  assumes "c \<in> set (file_chunks content)"
  shows "file_data content (ch_Index c) = ch_Data c" "ch_Data c \<noteq> []"
proof -
  from assms obtain j where j: "j < length (file_chunks content)" "c = file_chunks content ! j" by (auto simp: in_set_conv_nth)
  then show "file_data content (ch_Index c) = ch_Data c" by (simp add: file_data_def file_chunks_simps(3))
  have "ch_Data c \<in> set (chunks_of (chunk_size 0) content)"
    using assms by (metis file_chunks_simps(1) image_eqI list.set_map)
  then show "ch_Data c \<noteq> []" using chunks_of_sizes [OF chunk_size_pos] by blast
qed

lemma holds_file_mono:
  assumes "holds_file enc truth content ps" "\<And>i t. truth i = Some t \<Longrightarrow> truth' i = Some t"
  shows "holds_file enc truth' content ps"
  using assms by (auto simp: holds_file_def described_def)

lemma holds_file_group:
  assumes "holds_file enc truth content ps" "c \<in> set (file_chunks content)"
  shows "chunk_group (ch_Index c) ps \<noteq> []"
    and "p \<in> set (chunk_group (ch_Index c) ps) \<Longrightarrow> described enc truth (file_data content) p \<and> sp_ChunkIndex p = ch_Index c"
proof -
  have "ch_Index c \<in> set (chunk_indices ps)" using assms by (simp add: holds_file_def)
  then have "ch_Index c \<in> sp_ChunkIndex ` set ps" by (simp add: chunk_indices_def)
  then show "chunk_group (ch_Index c) ps \<noteq> []" by (auto simp: chunk_group_def filter_empty_conv)
  show "described enc truth (file_data content) p \<and> sp_ChunkIndex p = ch_Index c"
    if "p \<in> set (chunk_group (ch_Index c) ps)" using that assms(1) by (auto simp: chunk_group_def holds_file_def)
qed

section \<open>Download\<close>

text \<open>Enough shards of a chunk within reach.\<close>

definition reachable_shards ::
    "network \<times> bytes \<Rightarrow> newx_fun \<Rightarrow> bytes \<Rightarrow> shard_truth \<Rightarrow> (string \<Rightarrow> NodeMetadata option) \<Rightarrow> 'd world \<Rightarrow> ShardPlacement list \<Rightarrow> int set" where
  "reachable_shards x newx key truth nodes w ps = sp_ShardIndex ` {p \<in> set ps. \<exists>n t. nodes (sp_NodeID p) = Some n
     \<and> truth (sp_ShardID p) = Some t \<and> readable newx key w (nm_Address n) (sp_ShardID p) t \<and> live_at x w (nm_Address n)}"

definition retrievable ::
    "network \<times> bytes \<Rightarrow> newx_fun \<Rightarrow> bytes \<Rightarrow> shard_truth \<Rightarrow> (string \<Rightarrow> NodeMetadata option) \<Rightarrow> 'd world \<Rightarrow> ShardPlacement list \<Rightarrow> bool" where
  "retrievable x newx key truth nodes w ps \<longleftrightarrow>
     (\<forall>ci \<in> set (chunk_indices ps). 4 \<le> card (reachable_shards x newx key truth nodes w (chunk_group ci ps)))"

lemma reachable_same:
  assumes "held_at w' = held_at w" "live_at x w' = live_at x w"
  shows "reachable_shards x newx key truth nodes w' = reachable_shards x newx key truth nodes w"
  by (simp add: reachable_shards_def fun_eq_iff readable_def assms)

lemma get_chunk_described:
  assumes "encoder_ok enc" "dataShards enc = 4" "totalShards enc = 8" "rpc_ok (with_key (N, cfg)) w"
    and "faithful (pm_newx pm) key truth w" "holds_file enc truth content ps" "c \<in> set (file_chunks content)"
    and "get_chunk N pm cfg key enc nodeByID ps (ch_Index c) w = (out, w')"
  shows "rpc_ok (with_key (N, cfg)) w' \<and> held_at w' = held_at w \<and> wd_trackers w' = wd_trackers w
    \<and> live_at (with_key (N, cfg)) w' = live_at (with_key (N, cfg)) w
    \<and> (\<forall>d. out = Done d \<longrightarrow> d = \<lparr>ch_Index = ch_Index c, ch_Data = ch_Data c, ch_Hash = sha256 (ch_Data c)\<rparr>)
    \<and> (4 \<le> card (reachable_shards (with_key (N, cfg)) (pm_newx pm) key truth nodeByID w (chunk_group (ch_Index c) ps))
        \<longrightarrow> (\<exists>d. out = Done d))"
proof -
  let ?x = "(N, cfg)" and ?g = "chunk_group (ch_Index c) ps" and ?dec = "\<lambda>d. Decrypt (pm_newx pm) d key"
    and ?skip = "\<lambda>p. totalDefault \<le> sp_ShardIndex p"
  note g = holds_file_group [OF assms(6,7)]
  have data: "file_data content (ch_Index c) = ch_Data c" by (rule file_data_chunk(1) [OF assms(7)])
  have grp: "described enc truth (file_data content) p \<and> sp_ChunkIndex p = ch_Index c \<and> \<not> ?skip p \<and> utf8_valid (sp_ShardID p)"
    if "p \<in> set ?g" for p
    using g(2) [OF that] by (auto simp: described_def totalDefault_def DefaultDataShards_def DefaultParityShards_def)
  obtain res w1 where col: "collect_shards ?skip nodeByID (\<lambda>n i. getShard (fst ?x) (snd ?x) n i) ?dec ?g (empty_slots totalDefault) 0 w = (res, w1)"
    by fastforce
  note law = cli.collected_described [OF assms(4,1-3) assms(5) [unfolded faithful_def] _ g(1) col, of "file_data content" "ch_Index c", unfolded data]
  have "reachable_shards (with_key ?x) (pm_newx pm) key truth nodeByID w ?g \<subseteq> sp_ShardIndex ` {p \<in> set ?g. \<exists>n ct. nodeByID (sp_NodeID p) = Some n
      \<and> live_at (with_key ?x) w (nm_Address n) \<and> held_at w (nm_Address n) (sp_ShardID p) = Some ct \<and> ct \<noteq> [] \<and> is_ok (?dec ct)}"
    unfolding reachable_shards_def readable_def by fastforce
  from card_mono [OF _ this] have many: "4 \<le> card (sp_ShardIndex ` {p \<in> set ?g. \<exists>n ct. nodeByID (sp_NodeID p) = Some n
      \<and> live_at (with_key ?x) w (nm_Address n) \<and> held_at w (nm_Address n) (sp_ShardID p) = Some ct \<and> ct \<noteq> [] \<and> is_ok (?dec ct)})"
    if "4 \<le> card (reachable_shards (with_key ?x) (pm_newx pm) key truth nodeByID w ?g)" using that by simp
  from law grp obtain raw where raw: "res = Some (raw, int (length (ch_Data c)))"
    and w1: "rpc_ok (with_key ?x) w1" "held_at w1 = held_at w" "wd_trackers w1 = wd_trackers w" "live_at (with_key ?x) w1 = live_at (with_key ?x) w"
    and rec: "\<forall>d. Reconstruct enc raw (int (length (ch_Data c))) = Inr d \<longrightarrow> d = ch_Data c"
    and ok: "4 \<le> card (reachable_shards (with_key ?x) (pm_newx pm) key truth nodeByID w ?g) \<longrightarrow> is_ok (Reconstruct enc raw (int (length (ch_Data c))))"
    using many by blast
  have run: "(out, w') = (case Reconstruct enc raw (int (length (ch_Data c))) of Inl e \<Rightarrow> (Failed (ErrErasure e), w1)
      | Inr d \<Rightarrow> (Done \<lparr>ch_Index = ch_Index c, ch_Data = d, ch_Hash = sha256 d\<rparr>, w1))"
    using assms(8) col raw by (simp add: get_chunk_def)
  show ?thesis
  proof (cases "Reconstruct enc raw (int (length (ch_Data c)))")
    case (Inl e)
    with run w1 ok show ?thesis by simp
  next
    case (Inr d)
    with run w1 rec show ?thesis by simp
  qed
qed

lemma get_chunks_described:
  assumes "encoder_ok enc" "dataShards enc = 4" "totalShards enc = 8"
    and "faithful (pm_newx pm) key truth w" "holds_file enc truth content ps" "set cs \<subseteq> set (file_chunks content)"
    and "rpc_ok (with_key (N, cfg)) w" "get_chunks N pm cfg key enc nodeByID ps (map ch_Index cs) acc w = (out, w')"
  shows "rpc_ok (with_key (N, cfg)) w' \<and> held_at w' = held_at w \<and> wd_trackers w' = wd_trackers w
    \<and> (\<forall>ds. out = Done ds \<longrightarrow>
       ds = acc @ map (\<lambda>c. \<lparr>ch_Index = ch_Index c, ch_Data = ch_Data c, ch_Hash = sha256 (ch_Data c)\<rparr>) cs)
    \<and> ((\<forall>c \<in> set cs. 4 \<le> card (reachable_shards (with_key (N, cfg)) (pm_newx pm) key truth nodeByID w (chunk_group (ch_Index c) ps)))
        \<longrightarrow> (\<exists>ds. out = Done ds))"
  using assms(4,6-)
proof (induction cs arbitrary: acc w)
  case (Cons c cs)
  obtain o1 w2 where one: "get_chunk N pm cfg key enc nodeByID ps (ch_Index c) w = (o1, w2)" by fastforce
  have c: "c \<in> set (file_chunks content)" "set cs \<subseteq> set (file_chunks content)" using Cons.prems(2) by simp_all
  note law = get_chunk_described [OF assms(1-3) Cons.prems(3,1) assms(5) c(1) one]
  then have w2: "rpc_ok (with_key (N, cfg)) w2" "held_at w2 = held_at w" "wd_trackers w2 = wd_trackers w"
    "live_at (with_key (N, cfg)) w2 = live_at (with_key (N, cfg)) w" by blast+
  have faith: "faithful (pm_newx pm) key truth w2" using Cons.prems(1) w2(2) by (simp add: faithful_def)
  note same = reachable_same [OF w2(2,4)]
  show ?case
  proof (cases o1)
    case (Done d)
    with Cons.prems(4) one have rest: "get_chunks N pm cfg key enc nodeByID ps (map ch_Index cs) (acc @ [d]) w2 = (out, w')" by simp
    from Cons.IH [OF faith c(2) w2(1) rest] law Done w2(2,3) show ?thesis unfolding same by auto
  next
    case (Failed e)
    with Cons.prems(4) one law show ?thesis by auto
  next
    case Panicked
    with Cons.prems(4) one law show ?thesis by auto
  qed
qed auto

lemma getFilePlacement_world:
  assumes "tracker_at N (cc_TrackerAddr cfg) w t" "path_segment N i = Some i" "getFilePlacement N cfg i w = (out, w')"
  shows "same_world w w'"
proof -
  obtain o1 w1 where send: "tracker_send N (cc_TrackerAddr cfg) (''/files/'' @ i) (cc_NetworkKey cfg) (GetFile i) w = (o1, w1)" by fastforce
  show ?thesis
  proof (cases "new_request_ok N (cc_TrackerAddr cfg @ ''/files/'' @ i)")
    case True
    then have "w' = w1" using assms(2,3) send by (simp add: getFilePlacement_def map_reply_def)
    with read_only_request(1) [OF assms(1) send] show ?thesis by simp
  qed (use assms(3) in \<open>simp add: getFilePlacement_def same_world_def\<close>)
qed

text \<open>
  The whole command, for a file the tracker lists: the content or no file; the content when enough
  of every chunk can be reached. For a file the tracker does not list there is no success.
\<close>

lemma runGet_described:
  assumes "primitives_ok pm" "client_key pm cfg = Inr key"
    and "NewEncoder (pm_rsNew pm) DefaultDataShards DefaultParityShards = Inr enc"
    and "tracker_at N (cc_TrackerAddr cfg) w t" "rpc_ok (with_key (N, cfg)) w" "faithful (pm_newx pm) key truth w"
    and "file_at (net_json N) (ts_store t) fid = Some (meta, ps)" "holds_file enc truth content ps"
    and "path_segment N fid = Some fid" "\<And>d. bb_view (db_ops (ts_store t)) d = None"
    and "runGet N pm (Inr cfg) buffer_write (Inr out) fid w = (res, out', w')"
  shows "out' = (if res = Done () then Some (out @ content) else None)"
    and "(\<And>n. net_fate N n = Delivered) \<Longrightarrow> new_request_ok N (cc_TrackerAddr cfg @ ''/files/'' @ fid) \<Longrightarrow>
      new_request_ok N (cc_TrackerAddr cfg @ ''/nodes'') \<Longrightarrow> header_value N (cc_NetworkKey cfg) = Some k \<Longrightarrow> authenticated k t \<Longrightarrow>
      retrievable (with_key (N, cfg)) (pm_newx pm) key truth (node_at (net_json N) (ts_store t)) w ps \<Longrightarrow> res = Done ()"
    and "wd_trackers w' = wd_trackers w" "rpc_ok (with_key (N, cfg)) w'" "held_at w' = held_at w"
proof -
  let ?cs = "file_chunks content" and ?x = "with_key (N, cfg)" and ?node = "node_at (net_json N) (ts_store t)"
  let ?full = "retrievable ?x (pm_newx pm) key truth ?node w ps"
  have enc: "encoder_ok enc" "dataShards enc = 4" "totalShards enc = 8"
    using default_encoder [OF assms(1)] assms(3) by (metis sum.inject(2))+
  have indices: "chunk_indices ps = map ch_Index ?cs" using assms(8) by (simp add: holds_file_def)
  have whole: "map (\<lambda>c. \<lparr>ch_Index = ch_Index c, ch_Data = ch_Data c, ch_Hash = sha256 (ch_Data c)\<rparr>) ?cs = ?cs"
    by (rule nth_equalityI) (simp_all add: file_chunks_simps(3))
  obtain o1 v1 where o1: "getFilePlacement N cfg fid w = (o1, v1)" by fastforce
  obtain o2 v2 where o2: "listNodes N cfg v1 = (o2, v2)" by fastforce
  have same1: "same_world w v1" by (rule getFilePlacement_world [OF assms(4,9) o1])
  note kv1 = same_world_keeps [OF same1]
  have rpc1: "rpc_ok ?x v1" using kv1(1) assms(5) by blast
  note t1 = tracker_at_same [OF assms(4) kv1(4)]
  note kv2 = same_world_keeps [OF listNodes_world [OF t1 o2]]
  have v2: "rpc_ok ?x v2" "held_at v2 = held_at w" "wd_trackers v2 = wd_trackers w" "live_at ?x v2 = live_at ?x w"
    using kv1 kv2 assms(5) by simp_all
  have tail: "out' = (if res = Done () then Some (out @ content) else None) \<and> (?full \<longrightarrow> res = Done ())
      \<and> wd_trackers w' = wd_trackers w \<and> rpc_ok ?x w' \<and> held_at w' = held_at w"
    if e: "o1 = Done e" and ns: "o2 = Done ns" for e ns
  proof -
    from getFilePlacement_law [OF assms(4,9) o1 [unfolded e]] assms(7) obtain k where
      v1: "e = (meta, ps)" "header_value N (cc_NetworkKey cfg) = Some k" "authenticated k t" by auto
    note listed = listNodes_law [OF t1 v1(2,3) assms(10) o2 [unfolded ns]]
    have lookup: "node_index ns = ?node"
    proof
      fix i
      have "store_ok (net_json N) (ts_store t)" using assms(4) by (simp add: tracker_at_def)
      note id = conjunct2 [OF store_okD(3) [OF this]]
      have "node_index ns i = Some n \<longleftrightarrow> ?node i = Some n" for n
      proof -
        have "node_index ns i = Some n \<longleftrightarrow> ?node (nm_NodeID n) = Some n \<and> nm_NodeID n = i"
          using listed by (simp only: node_index_iff)
        also have "\<dots> \<longleftrightarrow> ?node i = Some n" using id [of i n] by metis
        finally show ?thesis .
      qed
      then show "node_index ns i = ?node i" by (metis not_None_eq)
    qed
    obtain o3 v3 where o3: "get_chunks N pm cfg key enc ?node ps (map ch_Index ?cs) [] v2 = (o3, v3)" by fastforce
    have faith: "faithful (pm_newx pm) key truth v2" using assms(6) v2(2) by (simp add: faithful_def)
    note law = get_chunks_described [OF enc faith assms(8) order_refl v2(1) o3, unfolded whole append_Nil reachable_same [OF v2(2,4)]]
    have run: "(res, out', w') = (case o3 of Done ds \<Rightarrow> (Done (), Some (out @ content), v3) | Failed e \<Rightarrow> (Failed e, None, v3) | Panicked \<Rightarrow> (Panicked, None, v3))"
      using assms(11) law reassemble_file_chunks [of content out]
      by (cases o3) (simp_all add: runGet_def assms(2,3) o1 e v1(1) o2 ns indices o3 lookup)
    have "wd_trackers v3 = wd_trackers w \<and> rpc_ok ?x v3 \<and> held_at v3 = held_at w"
      using law v2(2,3) by simp
    moreover have "?full \<longrightarrow> (\<exists>ds. o3 = Done ds)" using law by (simp add: retrievable_def indices)
    ultimately show ?thesis using run by (cases o3) auto
  qed
  have early: "res \<noteq> Done () \<and> out' = None \<and> (w' = v1 \<or> w' = v2)" if "\<nexists>e ns. o1 = Done e \<and> o2 = Done ns"
    using that assms(11) by (cases o1; cases o2) (auto simp: runGet_def assms(2) o1 o2 split: prod.splits)
  have *: "out' = (if res = Done () then Some (out @ content) else None) \<and> wd_trackers w' = wd_trackers w \<and> rpc_ok ?x w' \<and> held_at w' = held_at w"
  proof (cases "\<exists>e ns. o1 = Done e \<and> o2 = Done ns")
    case True
    then obtain e ns where "o1 = Done e" "o2 = Done ns" by blast
    from tail [OF this] show ?thesis by simp
  next
    case False
    with early kv1(2,4) rpc1 v2 show ?thesis by auto
  qed
  then show "out' = (if res = Done () then Some (out @ content) else None)"
    "wd_trackers w' = wd_trackers w" "rpc_ok ?x w'" "held_at w' = held_at w" by blast+
  show "res = Done ()" if "\<And>n. net_fate N n = Delivered" "new_request_ok N (cc_TrackerAddr cfg @ ''/files/'' @ fid)"
    "new_request_ok N (cc_TrackerAddr cfg @ ''/nodes'')" "header_value N (cc_NetworkKey cfg) = Some k" "authenticated k t" ?full
  proof -
    from getFilePlacement_delivered [OF assms(4) that(1,2,4,5) assms(10,9,7)] o1 have "o1 = Done (meta, ps)" by auto
    moreover from listNodes_delivered [OF t1 that(1,3-5) assms(10)] o2 obtain ns where "o2 = Done ns" by auto
    ultimately show ?thesis using tail that(6) by simp
  qed
qed

lemma runGet_unlisted:
  assumes "tracker_at N (cc_TrackerAddr cfg) w t" "file_at (net_json N) (ts_store t) fid = None" "path_segment N fid = Some fid"
    and "runGet N pm (Inr cfg) wr (Inr out) fid w = (res, out', w')"
  shows "res \<noteq> Done () \<and> out' = None \<and> same_world w w'"
proof (cases "client_key pm cfg")
  case (Inl e)
  with assms(4) show ?thesis by (auto simp: runGet_def same_world_def)
next
  case (Inr key)
  obtain o1 v1 where o1: "getFilePlacement N cfg fid w = (o1, v1)" by fastforce
  have "o1 \<noteq> Done e" for e using getFilePlacement_law [OF assms(1,3)] o1 assms(2) by fastforce
  then have "\<nexists>e. o1 = Done e" by blast
  with o1 Inr assms(4) getFilePlacement_world [OF assms(1,3) o1] show ?thesis
    by (cases o1) (auto simp: runGet_def)
qed

section \<open>Upload\<close>

text \<open>What an upload of a file adds to the truth; of which file a shard's identifier is.\<close>

definition file_truth :: "Encoder \<Rightarrow> string \<Rightarrow> bytes \<Rightarrow> shard_truth" where
  "file_truth enc fid content i =
     map_option (\<lambda>(c, k). shard_of enc (ch_Data c) k)
       (find (\<lambda>(c, k). i = shard_id fid (ch_Index c) k) (List.product (file_chunks content) (map int [0..<8])))"

definition shard_of_file :: "string \<Rightarrow> string \<Rightarrow> bool" where
  "shard_of_file fid i \<longleftrightarrow> (\<exists>c k. i = shard_id fid c k)"

lemma chunk_by_index:
  assumes "c \<in> set (file_chunks content)" "d \<in> set (file_chunks content)" "ch_Index c = ch_Index d"
  shows "c = d"
  using assms distinct_file_chunks [of content] by (auto simp: distinct_map dest: inj_onD)

lemma find_SomeD: "find P xs = Some x \<Longrightarrow> x \<in> set xs \<and> P x"
  by (auto simp: find_Some_iff)

lemma file_truth_shard:
  assumes "c \<in> set (file_chunks content)" "0 \<le> k" "k < 8"
  shows "file_truth enc fid content (shard_id fid (ch_Index c) k) = Some (shard_of enc (ch_Data c) k)"
proof -
  let ?P = "\<lambda>(d, j). shard_id fid (ch_Index c) k = shard_id fid (ch_Index d) j"
  let ?xs = "List.product (file_chunks content) (map int [0..<8])"
  have "nat k < 8" "k = int (nat k)" using assms(2,3) by simp_all
  then have "(c, k) \<in> set ?xs" using assms(1) by (simp only: set_product set_map set_upt) force
  then have "find ?P ?xs \<noteq> None" by (auto simp: find_None_iff)
  then obtain d j where found: "find ?P ?xs = Some (d, j)" by auto
  from find_SomeD [OF this] have "d \<in> set (file_chunks content)" "ch_Index d = ch_Index c" "j = k"
    by (auto simp: shard_id_inject)
  moreover from this have "d = c" using chunk_by_index [OF assms(1), of d] by simp
  ultimately show ?thesis using found by (simp add: file_truth_def)
qed

lemma file_truth_own: "file_truth enc fid content i \<noteq> None \<Longrightarrow> shard_of_file fid i"
  using find_SomeD [of "\<lambda>(c, k). i = shard_id fid (ch_Index c) k"] by (fastforce simp: file_truth_def shard_of_file_def)

text \<open>A text that decrypts to a shard, under the shard's identifier.\<close>

definition texts_of :: "newx_fun \<Rightarrow> bytes \<Rightarrow> shard_truth \<Rightarrow> string \<Rightarrow> int \<Rightarrow> bytes list \<Rightarrow> bool" where
  "texts_of newx key truth f ci cts \<longleftrightarrow> (\<forall>k < length cts. cts ! k \<noteq> []
     \<and> (\<exists>t. truth (shard_id f ci (int k)) = Some t \<and> Decrypt newx (cts ! k) key = Inr t))"

lemma put_shards_refreshed:
  assumes "rpc_ok (with_key (N, cfg)) w" "list_all (\<lambda>c. (of_char c :: nat) < 128) f"
    and "texts_of newx key truth f (ch_Index c) cts" "put_shards N cfg f c cts i nodes acc w = (out, w')"
  shows "rpc_ok (with_key (N, cfg)) w' \<and> wd_trackers w' = wd_trackers w \<and> refreshed newx key truth w w'"
  using assms(1,4)
proof (induction nodes arbitrary: i acc w)
  case Nil
  then show ?case by (simp add: refreshed_same)
next
  case (Cons n ns)
  let ?x = "(N, cfg)" and ?id = "shard_id f (ch_Index c) i"
  show ?case
  proof (cases "get_at cts i")
    case None
    with Cons.prems show ?thesis by (simp add: refreshed_same)
  next
    case (Some ct)
    then have i: "0 \<le> i" "nat i < length cts" "ct = cts ! nat i" by (auto simp: get_at_def split: if_splits)
    obtain t where t: "ct \<noteq> []" "truth ?id = Some t" "Decrypt newx ct key = Inr t"
      using assms(3) i unfolding texts_of_def by fastforce
    obtain e w1 where put: "putShard N cfg n ?id ct w = (e, w1)" by fastforce
    then have send: "(\<lambda>x. putShard (fst x) (snd x)) ?x n ?id ct w = (e, w1)" by simp
    note law = cli.send_law [OF Cons.prems(1) utf8_shard_id [OF assms(2)] send]
    from law have "held_at w1 = held_at w \<or> held_at w1 = (held_at w)(nm_Address n := (held_at w (nm_Address n))(?id \<mapsto> ct))" by blast
    then have one: "refreshed newx key truth w w1"
    proof
      assume "held_at w1 = (held_at w)(nm_Address n := (held_at w (nm_Address n))(?id \<mapsto> ct))"
      with t show ?thesis by (simp add: refreshed_def readable_def)
    qed (rule refreshed_same)
    have w1: "rpc_ok (with_key ?x) w1" "wd_trackers w1 = wd_trackers w" using law by blast+
    show ?thesis
    proof (cases e)
      case None
      with Cons.prems(2) Some put have rest: "put_shards N cfg f c cts (i + 1) ns (acc @ [placement f c i n]) w1 = (out, w')" by simp
      from Cons.IH [OF w1(1) rest] refreshed_trans [OF one] w1(2) show ?thesis by simp
    next
      case (Some e')
      with Cons.prems(2) \<open>get_at cts i = Some ct\<close> put one w1 show ?thesis by simp
    qed
  qed
qed

lemma encrypted_texts:
  assumes "newx_ok newx key" "\<And>j. rand_ok (rnd j)" "encrypt_shards newx rnd key 0 ss = Inr cts"
    and "\<And>k. k < length ss \<Longrightarrow> truth (shard_id f ci (int k)) = Some (sh_Data (ss ! k))"
  shows "texts_of newx key truth f ci cts"
  using encrypt_shards_law [OF assms(1-3)] assms(4) by (auto simp: texts_of_def)

lemma put_chunks_refreshed:
  assumes "newx_ok (pm_newx pm) key" "\<And>c j. rand_ok (rnd c j)" "encoder_ok enc" "totalShards enc = 8"
    and "list_all (\<lambda>c. (of_char c :: nat) < 128) f"
    and "\<And>c k. c \<in> set cs \<Longrightarrow> 0 \<le> k \<Longrightarrow> k < 8 \<Longrightarrow> truth (shard_id f (ch_Index c) k) = Some (shard_of enc (ch_Data c) k)"
    and "rpc_ok (with_key (N, cfg)) w" "tracker_at N (cc_TrackerAddr cfg) w t"
    and "put_chunks N pm rnd cfg key enc f cs acc w = (out, w')"
  shows "rpc_ok (with_key (N, cfg)) w' \<and> wd_trackers w' = wd_trackers w \<and> refreshed (pm_newx pm) key truth w w'"
  using assms(6-)
proof (induction cs arbitrary: acc w)
  case Nil
  then show ?case by (simp add: refreshed_same)
next
  case (Cons c cs)
  obtain shards where shards: "Erasure.Encode enc (ch_Data c) = Inr shards" "length shards = 8"
    using rs_code.encode_ok [OF assms(3), of "ch_Data c"] assms(4) by auto
  obtain cts where cts: "encrypt_shards (pm_newx pm) (rnd (nat (ch_Index c))) key 0 shards = Inr cts"
    using encrypt_shards_ok [where rnd = "rnd (nat (ch_Index c))", OF assms(1,2)] by blast
  have texts: "texts_of (pm_newx pm) key truth f (ch_Index c) cts"
  proof (rule encrypted_texts [OF assms(1,2) cts])
    show "truth (shard_id f (ch_Index c) (int k)) = Some (sh_Data (shards ! k))" if "k < length shards" for k
      using Cons.prems(1) [of c "int k"] that shards by (simp add: shard_of_def)
  qed
  have eight: "in_int64 (int (length shards))" using shards(2) by (simp add: in_int64_def)
  obtain o1 w1 where sel: "selectNodes N cfg (int (length shards)) w = (o1, w1)" by fastforce
  have same: "same_world w w1" by (rule selectNodes_law(1) [OF Cons.prems(3) eight sel])
  note k1 = same_world_keeps [OF same]
  have w1: "rpc_ok (with_key (N, cfg)) w1" "wd_trackers w1 = wd_trackers w" "refreshed (pm_newx pm) key truth w w1"
    using Cons.prems(2) k1(1,4) refreshed_same [OF k1(2)] by blast+
  show ?case
  proof (cases o1)
    case (Done nodes)
    obtain o2 w2 where put: "put_shards N cfg f c cts 0 nodes acc w1 = (o2, w2)" by fastforce
    note two = put_shards_refreshed [OF w1(1) assms(5) texts put]
    have w2: "rpc_ok (with_key (N, cfg)) w2" "wd_trackers w2 = wd_trackers w" "refreshed (pm_newx pm) key truth w w2"
      using two w1(2) refreshed_trans [OF w1(3)] by auto
    show ?thesis
    proof (cases o2)
      case (Done acc2)
      with Cons.prems(4) shards cts sel \<open>o1 = Done nodes\<close> put
      have rest: "put_chunks N pm rnd cfg key enc f cs acc2 w2 = (out, w')" by simp
      have "truth (shard_id f (ch_Index d) k) = Some (shard_of enc (ch_Data d) k)" if "d \<in> set cs" "0 \<le> k" "k < 8" for d k
        using Cons.prems(1) that by simp
      from Cons.IH [OF this w2(1) tracker_at_same [OF Cons.prems(3) w2(2)] rest] w2(2) refreshed_trans [OF w2(3)] show ?thesis by simp
    qed (use Cons.prems(4) shards cts sel Done put w2 in auto)
  qed (use Cons.prems(4) shards cts sel w1 in auto)
qed

text \<open>Saving the placements: whatever is reported, the tracker lists the file as sent or is as it was.\<close>

lemma saveFilePlacement_any:
  assumes "tracker_at N (cc_TrackerAddr cfg) w t" "entry_ok (f, ps)" "saveFilePlacement N cfg f ps w = (out, w')"
  shows "\<exists>t'. tracker_at N (cc_TrackerAddr cfg) w' t' \<and> wd_nodes w' = wd_nodes w
    \<and> wd_trackers w' = (wd_trackers w)(cc_TrackerAddr cfg \<mapsto> t') \<and> ts_cfg t' = ts_cfg t \<and> db_ops (ts_store t') = db_ops (ts_store t)
    \<and> node_at (net_json N) (ts_store t') = node_at (net_json N) (ts_store t)
    \<and> (out \<noteq> Done () \<and> file_at (net_json N) (ts_store t') = file_at (net_json N) (ts_store t)
       \<or> file_at (net_json N) (ts_store t') = (file_at (net_json N) (ts_store t))(fm_FileID f \<mapsto> (f, ps)))"
proof -
  let ?jc = "net_json N" and ?base = "cc_TrackerAddr cfg"
  let ?req = "PostFiles (json_marshal ?jc (json_file_entry (f, ps)))"
  have ok: "store_ok ?jc (ts_store t)" and net: "network_ok N" and at: "wd_trackers w ?base = Some t"
    using assms(1) by (simp_all add: tracker_at_def)
  obtain o1 w1 where send: "tracker_send N ?base ''/files'' (cc_NetworkKey cfg) ?req w = (o1, w1)" by fastforce
  note reply = map_reply_Done [OF assms(3) [unfolded saveFilePlacement_def send], of "()"]
  have w1: "w' = w1" using reply by simp
  have "\<exists>t'. tracker_at N ?base w' t' \<and> wd_nodes w' = wd_nodes w
    \<and> wd_trackers w' = (wd_trackers w)(?base \<mapsto> t') \<and> ts_cfg t' = ts_cfg t \<and> db_ops (ts_store t') = db_ops (ts_store t)
    \<and> node_at ?jc (ts_store t') = node_at ?jc (ts_store t)
    \<and> (file_at ?jc (ts_store t') = file_at ?jc (ts_store t) \<or> file_at ?jc (ts_store t') = (file_at ?jc (ts_store t))(fm_FileID f \<mapsto> (f, ps)))"
  proof (cases "wd_nodes w' = wd_nodes w \<and> wd_trackers w' = wd_trackers w")
    case True
    then have "wd_trackers w' ?base = Some t" using at by simp
    with True ok net show ?thesis by (intro exI [of _ t]) (auto simp: tracker_at_def fun_upd_idem)
  next
    case False
    then have "new_request_ok N (?base @ ''/files'')" using send w1 by (auto simp: tracker_send_def)
    then obtain r where d: "tracker_do N ?base (cc_NetworkKey cfg) ?req w = (r, w')"
      using send w1 by (auto simp: tracker_send_def split: option.splits prod.splits)
    from tracker_do_cases [OF assms(1) d] False obtain k a t' where
      route: "tracker_routes (net_sort N) ?jc k ?req t = (a, t')"
      and w': "w' = next_call (w\<lparr>wd_trackers := (wd_trackers w)(?base \<mapsto> t')\<rparr>)" by auto
    have store': "store_ok ?jc (ts_store t')" "ts_cfg t' = ts_cfg t" using tracker_routes_keeps [OF ok route] by simp_all
    have t': "t' = snd (handleSaveFilePlacement ?jc k (json_marshal ?jc (json_file_entry (f, ps))) t)"
      using route by (auto simp: tracker_routes_def map_prod_def split: prod.splits)
    have "tracker_at N ?base w' t'" "wd_nodes w' = wd_nodes w" "wd_trackers w' = (wd_trackers w)(?base \<mapsto> t')"
      using w' net store' by (simp_all add: tracker_at_def)
    moreover have "t' = t \<or> t' = t\<lparr>ts_store := snd (save_entry ?jc (ts_store t) (f, ps))\<rparr>"
      using handleSaveFilePlacement_store [of ?jc k "json_marshal ?jc (json_file_entry (f, ps))" t]
        file_entry_read(1) [OF store_okD(1) [OF ok] assms(2)] t' by auto
    then have "t' = t\<lparr>ts_store := snd (save_entry ?jc (ts_store t) (f, ps))\<rparr>"
      using False w' at by (auto simp: fun_upd_idem)
    moreover obtain e st where save: "save_entry ?jc (ts_store t) (f, ps) = (e, st)" by fastforce
    moreover note save_entry_law [OF ok assms(2) save]
    moreover have "db_ops st = db_ops (ts_store t)"
      using store_update_ops save by (metis SaveFilePlacement_def save_entry_def snd_conv)
    ultimately show ?thesis by (intro exI [of _ t']) (auto simp: entry_id_def)
  qed
  then obtain t' where t': "tracker_at N ?base w' t'" "wd_nodes w' = wd_nodes w"
    "wd_trackers w' = (wd_trackers w)(?base \<mapsto> t')" "ts_cfg t' = ts_cfg t" "db_ops (ts_store t') = db_ops (ts_store t)"
    "node_at ?jc (ts_store t') = node_at ?jc (ts_store t)"
    "file_at ?jc (ts_store t') = file_at ?jc (ts_store t) \<or> file_at ?jc (ts_store t') = (file_at ?jc (ts_store t))(fm_FileID f \<mapsto> (f, ps))"
    by blast
  moreover have "file_at ?jc (ts_store t') = (file_at ?jc (ts_store t))(fm_FileID f \<mapsto> (f, ps))" if "out = Done ()"
  proof -
    from saveFilePlacement_law [OF assms(1,2) assms(3) [unfolded that]] obtain t2 where "wd_trackers w' ?base = Some t2"
      "file_at ?jc (ts_store t2) = (file_at ?jc (ts_store t))(fm_FileID f \<mapsto> (f, ps))" unfolding tracker_at_def by blast
    with t'(3) show ?thesis by simp
  qed
  ultimately show ?thesis by blast
qed

lemma placed_described:
  assumes "placed newx key enc nodes fid w c ps" "c \<in> set (file_chunks content)" "totalShards enc = 8" "encoder_ok enc"
    and "list_all (\<lambda>c. (of_char c :: nat) < 128) fid" "p \<in> set ps"
  shows "described enc (file_truth enc fid content) (file_data content) p" "sp_ChunkIndex p = ch_Index c"
proof -
  from assms(1) obtain shards ns where s: "Erasure.Encode enc (ch_Data c) = Inr shards" "length ps = length shards"
    "\<And>k. k < length shards \<Longrightarrow> ps ! k = placement fid c (int k) (ns ! k)"
    unfolding placed_def by blast
  have eight: "length shards = 8" using rs_code.encode_ok [OF assms(4), of "ch_Data c"] s(1) assms(3) by auto
  obtain k where k: "k < 8" "p = placement fid c (int k) (ns ! k)"
    using assms(6) s(2,3) eight by (auto simp: in_set_conv_nth)
  note data = file_data_chunk [OF assms(2)]
  show "sp_ChunkIndex p = ch_Index c" using k(2) by (simp add: placement_def)
  show "described enc (file_truth enc fid content) (file_data content) p"
    using k data file_truth_shard [OF assms(2), of "int k"] utf8_shard_id [OF assms(5)] shard_id_nonempty
    by (simp add: described_def placement_def)
qed

lemma placed_holds_file:
  assumes "list_all2 (placed newx key enc nodes fid w) (file_chunks content) pss" "totalShards enc = 8" "encoder_ok enc"
    and "list_all (\<lambda>c. (of_char c :: nat) < 128) fid"
  shows "holds_file enc (file_truth enc fid content) content (concat pss)"
proof -
  let ?cs = "file_chunks content"
  have at: "placed newx key enc nodes fid w (?cs ! j) (pss ! j)" "length pss = length ?cs" if "j < length ?cs" for j
    using assms(1) that by (simp_all add: list_all2_conv_all_nth)
  have index: "list_all2 (\<lambda>c ps. \<forall>p \<in> set ps. sp_ChunkIndex p = ch_Index c) ?cs pss"
    using assms(1) placed_described(2) [OF at(1) nth_mem assms(2-4)] by (auto simp: list_all2_conv_all_nth)
  have "[] \<notin> set pss"
  proof
    assume "[] \<in> set pss"
    then obtain j where j: "j < length ?cs" "pss ! j = []" using assms(1) by (auto simp: in_set_conv_nth list_all2_conv_all_nth)
    from at(1) [OF j(1)] rs_code.encode_ok [OF assms(3), of "ch_Data (?cs ! j)"] assms(2) j(2) show False
      by (auto simp: placed_def)
  qed
  from indices_of_placed [OF index this] sorted_indices [of content]
  have "chunk_indices (concat pss) = map ch_Index ?cs" by (simp add: chunk_indices_def)
  moreover have "described enc (file_truth enc fid content) (file_data content) p" if "p \<in> set (concat pss)" for p
  proof -
    from that obtain qs where "qs \<in> set pss" "p \<in> set qs" by auto
    then obtain j where j: "j < length pss" "p \<in> set (pss ! j)" by (metis in_set_conv_nth)
    then have "j < length ?cs" using assms(1) by (simp add: list_all2_conv_all_nth)
    from placed_described(1) [OF at(1) [OF this] nth_mem [OF this] assms(2-4) j(2)] show ?thesis .
  qed
  ultimately show ?thesis by (simp add: holds_file_def)
qed

text \<open>
  The whole command, however it ends: what changes on nodes are the shards of the new file, and the
  tracker is as it was or lists the file, too. After success it does.
\<close>

definition file_given :: "opened_file \<Rightarrow> bool" where
  "file_given f \<longleftrightarrow> rd_end (of_reader f) = EOF \<and> in_int64 (int (length (rd_content (of_reader f))))
     \<and> (\<forall>name sz. of_info f = Some (name, sz) \<longrightarrow> utf8_valid name \<and> in_int64 sz)"

lemma runPut_any:
  assumes "primitives_ok pm" "randomness_ok rn" "file_given f" "client_key pm cfg = Inr key"
    and "NewEncoder (pm_rsNew pm) DefaultDataShards DefaultParityShards = Inr enc"
    and "rpc_ok (with_key (N, cfg)) w" "tracker_at N (cc_TrackerAddr cfg) w t"
    and "\<And>i x. file_truth enc (randomHex (rn_fileID rn) 16) (rd_content (of_reader f)) i = Some x \<Longrightarrow> truth i = Some x"
    and "runPut N pm rn (Inr cfg) (Inr f) w = (out, w')"
  shows "rpc_ok (with_key (N, cfg)) w' \<and> refreshed (pm_newx pm) key truth w w' \<and> (\<forall>i. out = Done i \<longrightarrow> i = randomHex (rn_fileID rn) 16)
    \<and> (\<exists>t'. tracker_at N (cc_TrackerAddr cfg) w' t' \<and> wd_trackers w' = (wd_trackers w)(cc_TrackerAddr cfg \<mapsto> t') \<and> ts_cfg t' = ts_cfg t
         \<and> db_ops (ts_store t') = db_ops (ts_store t) \<and> node_at (net_json N) (ts_store t') = node_at (net_json N) (ts_store t)
         \<and> ((\<forall>i. out \<noteq> Done i) \<and> file_at (net_json N) (ts_store t') = file_at (net_json N) (ts_store t)
            \<or> (\<exists>meta ps. holds_file enc truth (rd_content (of_reader f)) ps
                 \<and> file_at (net_json N) (ts_store t') = (file_at (net_json N) (ts_store t))(randomHex (rn_fileID rn) 16 \<mapsto> (meta, ps)))))"
proof -
  let ?content = "rd_content (of_reader f)" and ?base = "cc_TrackerAddr cfg" and ?x = "with_key (N, cfg)" and ?jc = "net_json N"
  let ?cs = "file_chunks ?content" and ?fid = "randomHex (rn_fileID rn) 16"
  have f: "rd_end (of_reader f) = EOF" "in_int64 (int (length ?content))" using assms(3) by (simp_all add: file_given_def)
  have enc: "encoder_ok enc" "totalShards enc = 8"
    using default_encoder [OF assms(1)] assms(5) by (metis sum.inject(2))+
  have rnd: "rand_ok (rn_nonce rn c j)" for c j using assms(2) by (simp add: randomness_ok_def)
  have key: "newx_ok (pm_newx pm) key" by (rule client_key_ok [OF assms(1,4)])
  have truth: "truth (shard_id ?fid (ch_Index c) k) = Some (shard_of enc (ch_Data c) k)" if "c \<in> set ?cs" "0 \<le> k" "k < 8" for c k
    by (rule assms(8) [OF file_truth_shard [OF that]])
  obtain o1 w1 where put: "put_chunks N pm (rn_nonce rn) cfg key enc ?fid ?cs [] w = (o1, w1)" by fastforce
  note sent = put_chunks_refreshed [where rnd = "rn_nonce rn", OF key rnd enc randomHex_plain(2) truth assms(6,7) put]
  then have w1: "rpc_ok ?x w1" "refreshed (pm_newx pm) key truth w w1" and t1: "wd_trackers w1 = wd_trackers w" by simp_all
  have at1: "tracker_at N ?base w1 t" by (rule tracker_at_same [OF assms(7) t1])
  have upd: "wd_trackers w1 = (wd_trackers w)(?base \<mapsto> t)" using at1 t1 by (simp add: tracker_at_def fun_upd_idem)
  have run: "(out, w') = (case o1 of Done ps \<Rightarrow> save_uploaded N cfg ?fid (of_info f) (int (length ?cs)) ps w1
      | Failed e \<Rightarrow> (Failed e, w1) | Panicked \<Rightarrow> (Panicked, w1))"
    using assms(9) put assms(4,5) file_chunks_Split [OF f(1)] by (cases o1) (simp_all add: runPut_def Let_def)
  show ?thesis
  proof (cases "\<exists>ps name sz. o1 = Done ps \<and> of_info f = Some (name, sz)")
    case False
    then have "w' = w1" "\<forall>i. out \<noteq> Done i"
      using run by (cases o1; cases "of_info f"; auto simp: save_uploaded_def)+
    with w1 at1 upd show ?thesis by blast
  next
    case True
    then obtain ps name sz where ps: "o1 = Done ps" and info: "of_info f = Some (name, sz)" by blast
    have name: "utf8_valid name" "in_int64 sz" using assms(3) info by (simp_all add: file_given_def)
    from put_chunks_law [where rnd = "rn_nonce rn", OF key rnd enc randomHex_plain(2) distinct_file_chunks assms(6,7) put [unfolded ps]]
    obtain pss where pss: "ps = [] @ concat pss"
      "list_all2 (placed (pm_newx pm) key enc (node_at ?jc (ts_store t)) ?fid w1) ?cs pss" by blast
    then have entries: "\<exists>pss. ps = [] @ concat pss \<and> list_all2 (placed (pm_newx pm) key enc (node_at ?jc (ts_store t)) ?fid w1) ?cs pss" by blast
    have "holds_file enc (file_truth enc ?fid ?content) ?content ps"
      using placed_holds_file [OF pss(2) enc(2,1) randomHex_plain(2)] pss(1) by simp
    then have holds: "holds_file enc truth ?content ps" by (rule holds_file_mono) (rule assms(8))
    let ?meta = "\<lparr>fm_FileID = ?fid, fm_FileName = name, fm_Size = sz, fm_ChunkCount = int (length ?cs),
      fm_CreatedAt = net_clientTime N (wd_calls w1)\<rparr>"
    have entry: "entry_ok (?meta, ps)" by (rule saved_entry_ok [OF f(2) name assms(7) enc entries])
    obtain o2 w2 where save: "saveFilePlacement N cfg ?meta ps w1 = (o2, w2)" by fastforce
    have fin: "w' = w2" "\<And>i. out = Done i \<Longrightarrow> o2 = Done () \<and> i = ?fid"
      using run save by (cases o2; simp add: ps save_uploaded_def info)+
    from saveFilePlacement_any [OF at1 entry save] obtain t' where t': "tracker_at N ?base w2 t'" "wd_nodes w2 = wd_nodes w1"
      "wd_trackers w2 = (wd_trackers w1)(?base \<mapsto> t')" "ts_cfg t' = ts_cfg t" "db_ops (ts_store t') = db_ops (ts_store t)"
      "node_at ?jc (ts_store t') = node_at ?jc (ts_store t)"
      and files: "o2 \<noteq> Done () \<and> file_at ?jc (ts_store t') = file_at ?jc (ts_store t)
        \<or> file_at ?jc (ts_store t') = (file_at ?jc (ts_store t))(?fid \<mapsto> (?meta, ps))"
      unfolding FileMetadata.select_convs by blast
    have "held_at w2 = held_at w1" using t'(2) by (simp add: held_at_def fun_eq_iff)
    from refreshed_trans [OF w1(2) refreshed_same [OF this]] have "refreshed (pm_newx pm) key truth w w2" .
    moreover have "rpc_ok ?x w2" using w1(1) t'(2) by (simp add: rpc_ok_def)
    moreover have "wd_trackers w2 = (wd_trackers w)(?base \<mapsto> t')" using t'(3) t1 by simp
    ultimately show ?thesis using fin t'(1,4-6) files holds by blast
  qed
qed

end
