(* ===== verification/Repair.thy ===== *)
theory Repair
  imports Sound
begin

text \<open>
  \<open>internal/repair/repair.go\<close>: nodes that are silent too long are marked unhealthy in the tracker's
  store; for every file, each chunk with a shard on an unhealthy node is rebuilt from the shards
  that are left, and its missing shards are made again and sent to nodes of the store's choice.
  The range over the map of chunks is in no particular order; the order is a parameter.
\<close>

section \<open>The repairer\<close>

record Repairer =
  rr_networkKey :: bytes
  rr_cryptoKey :: bytes

text \<open>What a pass works on: the store, the network, and the count of repaired shards.\<close>

record 'd repairing =
  rp_store :: "'d Store"
  rp_world :: "'d world"
  rp_count :: nat

text \<open>What does not change in a pass.\<close>

record repair_env =
  re_net :: network
  re_pm :: primitives
  re_rnd :: "nat \<Rightarrow> rand_fun"                \<comment> \<open>for the nonce, by the number of shards repaired so far\<close>
  re_order :: "string \<Rightarrow> int list \<Rightarrow> int list"  \<comment> \<open>of the chunks of a file\<close>
  re_keys :: Repairer

definition node_unhealthy :: "int \<Rightarrow> int \<Rightarrow> NodeMetadata \<Rightarrow> bool" where
  "node_unhealthy now timeoutSeconds n \<longleftrightarrow> \<not> nm_IsHealthy n \<or> timeoutSeconds < wrap64 (now - nm_LastSeen n)"

text \<open>The error of \<open>RegisterNode\<close> is ignored.\<close>

fun mark_unhealthy :: "json_codec \<Rightarrow> int \<Rightarrow> int \<Rightarrow> NodeMetadata list \<Rightarrow> 'd Store \<Rightarrow> 'd Store" where
  "mark_unhealthy jc now timeout [] s = s"
| "mark_unhealthy jc now timeout (n # ns) s =
     mark_unhealthy jc now timeout ns
       (if node_unhealthy now timeout n then snd (RegisterNode jc s (n\<lparr>nm_IsHealthy := False\<rparr>)) else s)"

text \<open>The loop over \<open>updatedPlacements\<close> for one chunk; whether it changed any.\<close>

fun repair_shards ::
    "repair_env \<Rightarrow> (string \<Rightarrow> bool) \<Rightarrow> int \<Rightarrow> Shard list \<Rightarrow> ShardPlacement list \<Rightarrow> 'd repairing
      \<Rightarrow> (ShardPlacement list \<times> bool) outcome \<times> 'd repairing" where
  "repair_shards E unhealthy ci fresh [] st = (Done ([], False), st)"
| "repair_shards E unhealthy ci fresh (p # ps) st =
     (if sp_ChunkIndex p \<noteq> ci \<or> \<not> unhealthy (sp_NodeID p) then
        (case repair_shards E unhealthy ci fresh ps st of
           (Done (ps', b), st') \<Rightarrow> (Done (p # ps', b), st')
         | (Failed e, st') \<Rightarrow> (Failed e, st') | (Panicked, st') \<Rightarrow> (Panicked, st'))
      else case SelectPlacementNodes (net_sort (re_net E)) (net_json (re_net E)) (rp_store st) 1 0 of
             None \<Rightarrow> (Panicked, st)
           | Some (Inl e) \<Rightarrow> (Failed (ErrStore e), st)
           | Some (Inr newNodes) \<Rightarrow>
               (case (newNodes, get_at fresh (sp_ShardIndex p)) of
                  (newNode # _, Some shard) \<Rightarrow>
                    (case Encrypt (pm_newx (re_pm E)) (re_rnd E (rp_count st)) (sh_Data shard) (rr_cryptoKey (re_keys E)) of
                       Inl e \<Rightarrow> (Failed (ErrCrypto e), st)
                     | Inr ct \<Rightarrow>
                         (case uploadShard (re_net E) (rr_networkKey (re_keys E)) newNode (sp_ShardID p) ct (rp_world st) of
                            (Some e, w) \<Rightarrow> (Failed e, st\<lparr>rp_world := w\<rparr>)
                          | (None, w) \<Rightarrow>
                              (case repair_shards E unhealthy ci fresh ps (st\<lparr>rp_world := w, rp_count := Suc (rp_count st)\<rparr>) of
                                 (Done (ps', b), st') \<Rightarrow> (Done (p\<lparr>sp_NodeID := nm_NodeID newNode\<rparr> # ps', True), st')
                               | (Failed e, st') \<Rightarrow> (Failed e, st') | (Panicked, st') \<Rightarrow> (Panicked, st'))))
                | _ \<Rightarrow> (Panicked, st)))"

text \<open>One chunk: its placements are the file's, the shards are replaced in the updated ones.\<close>

definition repair_chunk ::
    "repair_env \<Rightarrow> (string \<Rightarrow> bool) \<Rightarrow> (string \<Rightarrow> NodeMetadata option) \<Rightarrow> Encoder \<Rightarrow> ShardPlacement list \<Rightarrow> int
      \<Rightarrow> ShardPlacement list \<Rightarrow> 'd repairing \<Rightarrow> (ShardPlacement list \<times> bool) outcome \<times> 'd repairing" where
  "repair_chunk E unhealthy healthy enc placements ci updated st =
     (let grp = chunk_group ci placements
      in if \<not> list_ex (\<lambda>p. unhealthy (sp_NodeID p)) grp then (Done (updated, False), st)
         else case collect_shards (\<lambda>_. False) (\<lambda>i. if unhealthy i then None else healthy i)
                     (fetchShard (re_net E) (rr_networkKey (re_keys E)))
                     (\<lambda>d. Decrypt (pm_newx (re_pm E)) d (rr_cryptoKey (re_keys E)))
                     grp (empty_slots totalDefault) 0 (rp_world st) of
                (None, w) \<Rightarrow> (Panicked, st\<lparr>rp_world := w\<rparr>)
              | (Some (rawShards, originalChunkSize), w) \<Rightarrow>
                  (case Reconstruct enc rawShards originalChunkSize of
                     Inl e \<Rightarrow> (Failed (ErrErasure e), st\<lparr>rp_world := w\<rparr>)
                   | Inr reconstructed \<Rightarrow>
                       (case Erasure.Encode enc reconstructed of
                          Inl e \<Rightarrow> (Failed (ErrErasure e), st\<lparr>rp_world := w\<rparr>)
                        | Inr fresh \<Rightarrow> repair_shards E unhealthy ci fresh updated (st\<lparr>rp_world := w\<rparr>))))"

fun repair_chunks ::
    "repair_env \<Rightarrow> (string \<Rightarrow> bool) \<Rightarrow> (string \<Rightarrow> NodeMetadata option) \<Rightarrow> Encoder \<Rightarrow> ShardPlacement list \<Rightarrow> int list
      \<Rightarrow> ShardPlacement list \<Rightarrow> bool \<Rightarrow> 'd repairing \<Rightarrow> (ShardPlacement list \<times> bool) outcome \<times> 'd repairing" where
  "repair_chunks E unhealthy healthy enc placements [] updated changed st = (Done (updated, changed), st)"
| "repair_chunks E unhealthy healthy enc placements (ci # cis) updated changed st =
     (case repair_chunk E unhealthy healthy enc placements ci updated st of
        (Done (updated', b), st') \<Rightarrow> repair_chunks E unhealthy healthy enc placements cis updated' (changed \<or> b) st'
      | (Failed e, st') \<Rightarrow> (Failed e, st')
      | (Panicked, st') \<Rightarrow> (Panicked, st'))"

definition repair_file ::
    "repair_env \<Rightarrow> (string \<Rightarrow> bool) \<Rightarrow> (string \<Rightarrow> NodeMetadata option) \<Rightarrow> Encoder \<Rightarrow> file_entry \<Rightarrow> 'd repairing
      \<Rightarrow> unit outcome \<times> 'd repairing" where
  "repair_file E unhealthy healthy enc entry st =
     (case repair_chunks E unhealthy healthy enc (snd entry) (re_order E (fm_FileID (fst entry)) (chunk_indices (snd entry)))
             (snd entry) False st of
        (Panicked, st') \<Rightarrow> (Panicked, st')
      | (Failed e, st') \<Rightarrow> (Failed e, st')
      | (Done (updated, changed), st') \<Rightarrow>
          if \<not> changed then (Done (), st')
          else (case SaveFilePlacement (net_json (re_net E)) (rp_store st') (fst entry) updated of
                  (Some e, s) \<Rightarrow> (Failed (ErrStore e), st'\<lparr>rp_store := s\<rparr>)
                | (None, s) \<Rightarrow> (Done (), st'\<lparr>rp_store := s\<rparr>)))"

text \<open>\<open>iterateFiles\<close>: a file whose placements cannot be read is passed over.\<close>

fun repair_files ::
    "repair_env \<Rightarrow> (string \<Rightarrow> bool) \<Rightarrow> (string \<Rightarrow> NodeMetadata option) \<Rightarrow> Encoder \<Rightarrow> FileMetadata list \<Rightarrow> 'd repairing
      \<Rightarrow> unit outcome \<times> 'd repairing" where
  "repair_files E unhealthy healthy enc [] st = (Done (), st)"
| "repair_files E unhealthy healthy enc (f # fs) st =
     (case GetFilePlacement (net_json (re_net E)) (rp_store st) (fm_FileID f) of
        Inl _ \<Rightarrow> repair_files E unhealthy healthy enc fs st
      | Inr entry \<Rightarrow>
          (case repair_file E unhealthy healthy enc entry st of
             (Done _, st') \<Rightarrow> repair_files E unhealthy healthy enc fs st'
           | (Failed e, st') \<Rightarrow> (Failed e, st')
           | (Panicked, st') \<Rightarrow> (Panicked, st')))"

text \<open>
  \<open>InspectAndRepair\<close>: the count of repaired shards is returned with the error, too. Later nodes
  of the same identifier would override earlier ones in the two maps; the store lists each once.
\<close>

definition InspectAndRepair ::
    "repair_env \<Rightarrow> int \<Rightarrow> int \<Rightarrow> 'd Store \<Rightarrow> 'd world \<Rightarrow> unit outcome \<times> 'd repairing" where
  "InspectAndRepair E now timeoutSeconds s w =
     (let jc = net_json (re_net E); st = \<lparr>rp_store = s, rp_world = w, rp_count = 0\<rparr>
      in case ListNodes jc s of
           Inl e \<Rightarrow> (Failed (ErrStore e), st)
         | Inr nodes \<Rightarrow>
             let bad = filter (node_unhealthy now timeoutSeconds) nodes;
                 good = filter (\<lambda>n. \<not> node_unhealthy now timeoutSeconds n) nodes;
                 st1 = st\<lparr>rp_store := mark_unhealthy jc now timeoutSeconds nodes s\<rparr>
             in if bad = [] then (Done (), st1)
                else case NewEncoder (pm_rsNew (re_pm E)) DefaultDataShards DefaultParityShards of
                       Inl e \<Rightarrow> (Failed (ErrErasure e), st1)
                     | Inr enc \<Rightarrow>
                         (case ListFiles jc (rp_store st1) of
                            Inl e \<Rightarrow> (Failed (ErrStore e), st1)
                          | Inr files \<Rightarrow>
                              repair_files E (\<lambda>i. i \<in> nm_NodeID ` set bad) (node_index good) enc files st1))"

section \<open>What a pass relies on and keeps\<close>

definition repair_ok :: "repair_env \<Rightarrow> shard_truth \<Rightarrow> 'd Store \<Rightarrow> 'd world \<Rightarrow> bool" where
  "repair_ok E truth s w \<longleftrightarrow> rpc_ok (re_net E, rr_networkKey (re_keys E)) w \<and> store_ok (net_json (re_net E)) s
     \<and> newx_ok (pm_newx (re_pm E)) (rr_cryptoKey (re_keys E)) \<and> (\<forall>j. rand_ok (re_rnd E j))
     \<and> faithful (pm_newx (re_pm E)) (rr_cryptoKey (re_keys E)) truth w"

abbreviation env_refreshed :: "repair_env \<Rightarrow> shard_truth \<Rightarrow> 'd world \<Rightarrow> 'd world \<Rightarrow> bool" where
  "env_refreshed E \<equiv> refreshed (pm_newx (re_pm E)) (rr_cryptoKey (re_keys E))"

abbreviation env_readable :: "repair_env \<Rightarrow> 'd world \<Rightarrow> string \<Rightarrow> string \<Rightarrow> bytes \<Rightarrow> bool" where
  "env_readable E \<equiv> readable (pm_newx (re_pm E)) (rr_cryptoKey (re_keys E))"

text \<open>Nodes the store can choose, and a placement that was moved to one that has its shard.\<close>

definition choosable :: "json_codec \<Rightarrow> 'd Store \<Rightarrow> string \<Rightarrow> bool" where
  "choosable jc s i \<longleftrightarrow> (\<exists>n. node_at jc s i = Some n \<and> nm_IsHealthy n)"

definition moved :: "repair_env \<Rightarrow> shard_truth \<Rightarrow> 'd Store \<Rightarrow> 'd world \<Rightarrow> ShardPlacement \<Rightarrow> ShardPlacement \<Rightarrow> bool" where
  "moved E truth s w p p' \<longleftrightarrow> p' = p \<or>
     (\<exists>i n t. node_at (net_json (re_net E)) s i = Some n \<and> nm_IsHealthy n \<and> p' = p\<lparr>sp_NodeID := i\<rparr>
        \<and> truth (sp_ShardID p) = Some t \<and> env_readable E w (nm_Address n) (sp_ShardID p) t)"

lemma moved_refl [simp]: "moved E truth s w p p"
  by (simp add: moved_def)

lemma moved_mono: "moved E truth s w p p' \<Longrightarrow> env_refreshed E truth w w' \<Longrightarrow> moved E truth s w' p p'"
  unfolding moved_def using readable_refreshed [of _ _ truth w w'] by blast

lemma moved_fields:
  assumes "moved E truth s w p p'"
  shows "sp_ChunkIndex p' = sp_ChunkIndex p" "sp_ShardID p' = sp_ShardID p" "sp_ShardIndex p' = sp_ShardIndex p"
    "described enc truth chunk p' = described enc truth chunk p" "p'\<lparr>sp_NodeID := i\<rparr> = p\<lparr>sp_NodeID := i\<rparr>"
  using assms by (auto simp: moved_def)

lemma moved_trans:
  assumes "moved E truth s w p q" "moved E truth s w q r"
  shows "moved E truth s w p r"
  using assms moved_fields [OF assms(1)] unfolding moved_def by metis

lemma moved_node: "moved E truth s w p p' \<Longrightarrow> p' = p \<or> choosable (net_json (re_net E)) s (sp_NodeID p')"
  by (auto simp: moved_def choosable_def)

text \<open>The conditions under which nothing goes wrong: \<open>A\<close> are the addresses of the nodes that can be chosen.\<close>

definition repair_live :: "repair_env \<Rightarrow> string set \<Rightarrow> 'd Store \<Rightarrow> 'd world \<Rightarrow> bool" where
  "repair_live E A s w \<longleftrightarrow> (\<forall>n. net_fate (re_net E) n = Delivered) \<and> roomy_at (rr_networkKey (re_keys E)) A w
     \<and> (\<forall>d. bb_view (db_ops s) d = None)
     \<and> (\<forall>i d m p. file_at (net_json (re_net E)) s i \<noteq> None \<longrightarrow> is_ok (bb_update (db_ops s) d [(bucketFiles, i, m), (bucketPlacements, i, p)]))
     \<and> (\<exists>i n. node_at (net_json (re_net E)) s i = Some n \<and> nm_IsHealthy n \<and> 0 \<le> free_space n)
     \<and> (\<forall>i n. node_at (net_json (re_net E)) s i = Some n \<longrightarrow> nm_IsHealthy n \<longrightarrow> nm_Address n \<in> A)"

section \<open>Replacing the shards of a chunk\<close>

lemma choosable_node: "store_ok jc s \<Longrightarrow> node_at jc s i = Some n \<Longrightarrow> nm_NodeID n = i"
  using store_okD(3) by blast

text \<open>The one node that is chosen, if there is one.\<close>

lemma select_one:
  assumes "store_ok jc s" "sort_slice_ok more_space (srt more_space)"
  obtains e where "SelectPlacementNodes srt jc s 1 0 = Some (Inl e)"
  | n where "SelectPlacementNodes srt jc s 1 0 = Some (Inr [n])" "node_at jc s (nm_NodeID n) = Some n" "nm_IsHealthy n"
proof (cases "SelectPlacementNodes srt jc s 1 0")
  case None
  then show thesis by (simp add: SelectPlacementNodes_def Let_def split: sum.splits if_splits)
next
  case (Some r)
  show thesis
  proof (cases r)
    case (Inr ns)
    note chosen = SelectPlacementNodes_nodes [OF assms Some [unfolded Inr]]
    then obtain n where "ns = [n]" by (auto simp: length_Suc_conv)
    with chosen(3) [of n] Some Inr that(2) show thesis by simp
  qed (use Some that(1) in blast)
qed

lemma select_one_live:
  assumes "store_ok jc s" "sort_slice_ok more_space (srt more_space)" "bb_view (db_ops s) (db_file s) = None"
    and "node_at jc s i = Some m" "nm_IsHealthy m" "0 \<le> free_space m"
  shows "\<exists>ns. SelectPlacementNodes srt jc s 1 0 = Some (Inr ns)"
proof -
  obtain ns where ns: "ListNodes jc s = Inr ns" using ListNodes_ok [OF assms(1,3)] by blast
  have "m \<in> set ns" using ListNodes_law [OF assms(1) ns] assms(4) choosable_node [OF assms(1,4)] by simp
  then have "m \<in> set (eligible 0 ns)" using assms(5,6) by (simp add: eligible_iff)
  then have "1 \<le> length (eligible 0 ns)" by (cases "eligible 0 ns") simp_all
  then show ?thesis by (auto simp: SelectPlacementNodes_def ns Let_def)
qed

text \<open>One encrypted shard sent.\<close>

lemma upload_law:
  assumes "repair_ok E truth s w" "utf8_valid i" "truth i = Some t"
    and "Encrypt (pm_newx (re_pm E)) (re_rnd E k) t (rr_cryptoKey (re_keys E)) = Inr ct"
    and "uploadShard (re_net E) (rr_networkKey (re_keys E)) n i ct w = (e, w')"
  shows "repair_ok E truth s w'" "env_refreshed E truth w w'" "wd_trackers w' = wd_trackers w"
    and "live_at (re_net E, rr_networkKey (re_keys E)) w' = live_at (re_net E, rr_networkKey (re_keys E)) w"
    and "e = None \<Longrightarrow> env_readable E w' (nm_Address n) i t"
proof -
  let ?x = "(re_net E, rr_networkKey (re_keys E))"
  have ok: "rpc_ok ?x w" "newx_ok (pm_newx (re_pm E)) (rr_cryptoKey (re_keys E))" "\<And>j. rand_ok (re_rnd E j)"
    using assms(1) by (simp_all add: repair_ok_def)
  have good: "ct \<noteq> [] \<and> Decrypt (pm_newx (re_pm E)) ct (rr_cryptoKey (re_keys E)) = Inr t"
    using cipher.dec_enc [OF ok(2,3) assms(4)] by simp
  have "(\<lambda>x. uploadShard (fst x) (snd x)) ?x n i ct w = (e, w')" using assms(5) by simp
  note law = repairer.send_law [OF ok(1) assms(2) this]
  from law have "held_at w' = held_at w \<or> held_at w' = (held_at w)(nm_Address n := (held_at w (nm_Address n))(i \<mapsto> ct))" by blast
  then show "env_refreshed E truth w w'"
  proof
    assume "held_at w' = (held_at w)(nm_Address n := (held_at w (nm_Address n))(i \<mapsto> ct))"
    with good assms(3) show ?thesis by (simp add: refreshed_def readable_def)
  qed (rule refreshed_same)
  from faithful_refreshed [OF this] assms(1) law show "repair_ok E truth s w'" by (simp add: repair_ok_def)
  show "wd_trackers w' = wd_trackers w" "live_at ?x w' = live_at ?x w" using law by blast+
  show "env_readable E w' (nm_Address n) i t" if "e = None"
    using law that good by (auto simp: readable_def)
qed

lemma upload_live:
  assumes "repair_ok E truth s w" "repair_live E A s w" "utf8_valid i" "i \<noteq> ''''"
    and "node_at (net_json (re_net E)) s j = Some n" "nm_IsHealthy n"
    and "uploadShard (re_net E) (rr_networkKey (re_keys E)) n i ct w = (e, w')"
  shows "e = None \<and> repair_live E A s w'"
proof -
  have "network_ok (re_net E)" "\<And>n. net_fate (re_net E) n = Delivered" "roomy_at (rr_networkKey (re_keys E)) A w" "nm_Address n \<in> A"
    using assms(1,2,5,6) by (auto simp: repair_ok_def repair_live_def rpc_ok_def)
  from send_shard_roomy [OF this assms(3,4) senders_utf8(2), of ct] assms(2,7) show ?thesis
    by (auto simp: uploadShard_def repair_live_def)
qed

text \<open>The loop: what is replaced is on a node the store chose, and readable there.\<close>

lemma repair_shards_law:
  assumes "repair_ok E truth (rp_store st) (rp_world st)" "\<And>p. p \<in> set ps \<Longrightarrow> described enc truth chunk p"
    and "Erasure.Encode enc (chunk ci) = Inr fresh" "length fresh = 8"
    and "repair_shards E unhealthy ci fresh ps st = (out, st')"
  shows "repair_ok E truth (rp_store st') (rp_world st') \<and> rp_store st' = rp_store st
    \<and> env_refreshed E truth (rp_world st) (rp_world st') \<and> wd_trackers (rp_world st') = wd_trackers (rp_world st)
    \<and> live_at (re_net E, rr_networkKey (re_keys E)) (rp_world st') = live_at (re_net E, rr_networkKey (re_keys E)) (rp_world st)
    \<and> out \<noteq> Panicked
    \<and> (\<forall>ps' b. out = Done (ps', b) \<longrightarrow>
         list_all2 (\<lambda>p p'. moved E truth (rp_store st) (rp_world st') p p'
           \<and> (sp_ChunkIndex p = ci \<and> unhealthy (sp_NodeID p) \<longrightarrow> choosable (net_json (re_net E)) (rp_store st) (sp_NodeID p'))) ps ps'
         \<and> (\<not> b \<longrightarrow> ps' = ps))
    \<and> (repair_live E A (rp_store st) (rp_world st) \<longrightarrow> repair_live E A (rp_store st') (rp_world st') \<and> (\<exists>r. out = Done r))"
  using assms(1,2,5)
proof (induction ps arbitrary: st out)
  case (Cons p ps)
  let ?N = "re_net E" and ?jc = "net_json (re_net E)" and ?x = "(re_net E, rr_networkKey (re_keys E))"
  have tail: "\<And>q. q \<in> set ps \<Longrightarrow> described enc truth chunk q" using Cons.prems(2) by simp
  show ?case
  proof (cases "sp_ChunkIndex p \<noteq> ci \<or> \<not> unhealthy (sp_NodeID p)")
    case True
    obtain o1 where rest: "repair_shards E unhealthy ci fresh ps st = (o1, st')"
      and out: "out = (case o1 of Done (ps', b) \<Rightarrow> Done (p # ps', b) | Failed e \<Rightarrow> Failed e | Panicked \<Rightarrow> Panicked)"
      using Cons.prems(3) True by (auto split: prod.splits outcome.splits)
    from Cons.IH [OF Cons.prems(1) tail rest] out True show ?thesis
      by (cases o1) (auto split: prod.splits)
  next
    case False
    then have ci: "sp_ChunkIndex p = ci" "unhealthy (sp_NodeID p)" by simp_all
    have prim: "newx_ok (pm_newx (re_pm E)) (rr_cryptoKey (re_keys E))" "\<And>j. rand_ok (re_rnd E j)"
      using Cons.prems(1) by (simp_all add: repair_ok_def)
    have s: "store_ok ?jc (rp_store st)" "sort_slice_ok more_space (net_sort ?N more_space)"
      using Cons.prems(1) by (simp_all add: repair_ok_def rpc_ok_def network_ok_def)
    have p: "utf8_valid (sp_ShardID p)" "sp_ShardID p \<noteq> ''''" "0 \<le> sp_ShardIndex p" "sp_ShardIndex p < 8"
      "truth (sp_ShardID p) = Some (shard_of enc (chunk ci) (sp_ShardIndex p))"
      using Cons.prems(2) [of p] ci(1) by (auto simp: described_def)
    let ?sh = "fresh ! nat (sp_ShardIndex p)"
    have sh: "get_at fresh (sp_ShardIndex p) = Some ?sh" "shard_of enc (chunk ci) (sp_ShardIndex p) = sh_Data ?sh"
      using p(3,4) assms(3,4) by (simp_all add: get_at_def shard_of_def)
    show ?thesis
    proof (cases rule: select_one [where srt = "net_sort ?N", OF s])
      case (1 e)
      have "\<not> repair_live E A (rp_store st) (rp_world st)"
        using select_one_live [where srt = "net_sort ?N", OF s] 1 by (auto simp: repair_live_def)
      with 1 False Cons.prems(1,3) show ?thesis by (auto simp: refreshed_same)
    next
      case (2 n)
      obtain ct where ct: "Encrypt (pm_newx (re_pm E)) (re_rnd E (rp_count st)) (sh_Data ?sh) (rr_cryptoKey (re_keys E)) = Inr ct"
        using cipher.enc_dec [OF prim, of "rp_count st" "sh_Data ?sh"] by auto
      obtain e w1 where up: "uploadShard ?N (rr_networkKey (re_keys E)) n (sp_ShardID p) ct (rp_world st) = (e, w1)" by fastforce
      note law = upload_law [OF Cons.prems(1) p(1,5) [unfolded sh(2)] ct up]
      note live = upload_live [OF Cons.prems(1) _ p(1,2) 2(2,3) up]
      show ?thesis
      proof (cases e)
        case (Some err)
        with Cons.prems(3) 2(1) False sh(1) ct up have "out = Failed err" "st' = st\<lparr>rp_world := w1\<rparr>" by auto
        with law Some live show ?thesis by auto
      next
        case None
        let ?st = "st\<lparr>rp_world := w1, rp_count := Suc (rp_count st)\<rparr>"
        obtain o1 where rest: "repair_shards E unhealthy ci fresh ps ?st = (o1, st')"
          and out: "out = (case o1 of Done (ps', b) \<Rightarrow> Done (p\<lparr>sp_NodeID := nm_NodeID n\<rparr> # ps', True) | Failed e \<Rightarrow> Failed e | Panicked \<Rightarrow> Panicked)"
          using Cons.prems(3) 2(1) False sh(1) ct up None by (auto split: prod.splits outcome.splits)
        have "repair_ok E truth (rp_store ?st) (rp_world ?st)" using law(1) by simp
        note ih = Cons.IH [OF this tail rest]
        have ref: "env_refreshed E truth w1 (rp_world st')" using ih by simp
        have "env_readable E (rp_world st') (nm_Address n) (sp_ShardID p) (sh_Data ?sh)"
          using readable_refreshed [OF ref p(5) [unfolded sh(2)]] law(5) [OF None] by simp
        then have mv: "moved E truth (rp_store st) (rp_world st') p (p\<lparr>sp_NodeID := nm_NodeID n\<rparr>)"
          using 2(2,3) p(5) sh(2) unfolding moved_def by (metis)
        have "choosable ?jc (rp_store st) (nm_NodeID n)" using 2(2,3) by (auto simp: choosable_def)
        moreover have "repair_live E A (rp_store st) (rp_world st) \<longrightarrow> repair_live E A (rp_store ?st) (rp_world ?st)"
          using live by simp
        ultimately show ?thesis
          using ih out mv refreshed_trans [OF law(2) ref] law(3,4) by (cases o1) (auto split: prod.splits)
      qed
    qed
  qed
qed (auto simp: refreshed_same)

section \<open>Rebuilding a chunk\<close>

text \<open>A placement whose shard the repairer gets; a group from which the chunk can be rebuilt.\<close>

definition obtainable ::
    "repair_env \<Rightarrow> shard_truth \<Rightarrow> (string \<Rightarrow> NodeMetadata option) \<Rightarrow> 'd world \<Rightarrow> ShardPlacement \<Rightarrow> bool" where
  "obtainable E truth node_of w p \<longleftrightarrow> (\<exists>n t. node_of (sp_NodeID p) = Some n \<and> truth (sp_ShardID p) = Some t
     \<and> env_readable E w (nm_Address n) (sp_ShardID p) t \<and> live_at (re_net E, rr_networkKey (re_keys E)) w (nm_Address n))"

definition enough_left ::
    "repair_env \<Rightarrow> shard_truth \<Rightarrow> (string \<Rightarrow> NodeMetadata option) \<Rightarrow> 'd world \<Rightarrow> ShardPlacement list \<Rightarrow> bool" where
  "enough_left E truth node_of w ps \<longleftrightarrow> 4 \<le> card (sp_ShardIndex ` {p \<in> set ps. obtainable E truth node_of w p})"

text \<open>The nodes of the two maps of a pass; what a chunk needs if it has to be rebuilt.\<close>

abbreviation reach :: "(string \<Rightarrow> bool) \<Rightarrow> (string \<Rightarrow> NodeMetadata option) \<Rightarrow> string \<Rightarrow> NodeMetadata option" where
  "reach unhealthy healthy \<equiv> \<lambda>i. if unhealthy i then None else healthy i"

definition recoverable ::
    "repair_env \<Rightarrow> shard_truth \<Rightarrow> (string \<Rightarrow> bool) \<Rightarrow> (string \<Rightarrow> NodeMetadata option) \<Rightarrow> 'd world \<Rightarrow> ShardPlacement list \<Rightarrow> bool" where
  "recoverable E truth unhealthy healthy w ps \<longleftrightarrow>
     (\<exists>p \<in> set ps. unhealthy (sp_NodeID p)) \<longrightarrow> enough_left E truth (reach unhealthy healthy) w ps"

lemma obtainable_refreshed:
  assumes "env_refreshed E truth w w'" "live_at (re_net E, rr_networkKey (re_keys E)) w' = live_at (re_net E, rr_networkKey (re_keys E)) w"
    and "obtainable E truth node_of w p"
  shows "obtainable E truth node_of w' p"
  using assms readable_refreshed [OF assms(1)] unfolding obtainable_def by metis

lemma enough_left_refreshed:
  assumes "env_refreshed E truth w w'" "live_at (re_net E, rr_networkKey (re_keys E)) w' = live_at (re_net E, rr_networkKey (re_keys E)) w"
    and "enough_left E truth node_of w ps"
  shows "enough_left E truth node_of w' ps"
proof -
  have "sp_ShardIndex ` {p \<in> set ps. obtainable E truth node_of w p} \<subseteq> sp_ShardIndex ` {p \<in> set ps. obtainable E truth node_of w' p}"
    using obtainable_refreshed [OF assms(1,2)] by blast
  from card_mono [OF _ this] assms(3) show ?thesis by (simp add: enough_left_def)
qed

text \<open>Fetching changes nothing on any node.\<close>

lemma node_post_get_nodes: "node_post N a ''/shards/get'' body w = (x, v) \<Longrightarrow> wd_nodes v = wd_nodes w"
proof (cases "net_fate N (wd_calls w) = Unreachable \<or> wd_nodes w a = None")
  case False
  then obtain s where "wd_nodes w a = Some s" by blast
  with False show "wd_nodes v = wd_nodes w" if "node_post N a ''/shards/get'' body w = (x, v)"
    using that by (auto simp: node_post_served(2) fun_upd_idem)
qed (auto simp: node_post_dropped)

lemma fetchShard_nodes: "fetchShard N key n i w = (r, w') \<Longrightarrow> wd_nodes w' = wd_nodes w"
  by (auto simp: fetchShard_def request_shard_def split: sum.splits prod.splits option.splits dest: node_post_get_nodes)

lemma collect_same:
  assumes "\<And>n i w r w'. fetch n i w = (r, w') \<Longrightarrow> f w' = f w"
    and "collect_shards skip node_of fetch dec ps raw sz w = (res, w')"
  shows "f w' = f w"
  using assms(2)
proof (induction ps arbitrary: raw sz w)
  case (Cons p ps)
  then show ?case
    by (fastforce simp: Let_def assms(1) split: if_splits option.splits prod.splits sum.splits)
qed simp

text \<open>What the loop over the placements of a chunk collects is enough, or the chunk is given up.\<close>

lemma collected_chunk:
  assumes "repair_ok E truth s w" "encoder_ok enc" "dataShards enc = 4" "totalShards enc = 8"
    and "\<And>p. p \<in> set grp \<Longrightarrow> described enc truth chunk p \<and> sp_ChunkIndex p = ci" "grp \<noteq> []"
    and "collect_shards (\<lambda>_. False) node_of (fetchShard (re_net E) (rr_networkKey (re_keys E)))
           (\<lambda>d. Decrypt (pm_newx (re_pm E)) d (rr_cryptoKey (re_keys E))) grp (empty_slots totalDefault) 0 w = (res, w')"
  shows "\<exists>raw. res = Some (raw, int (length (chunk ci))) \<and> repair_ok E truth s w' \<and> held_at w' = held_at w
    \<and> wd_trackers w' = wd_trackers w
    \<and> live_at (re_net E, rr_networkKey (re_keys E)) w' = live_at (re_net E, rr_networkKey (re_keys E)) w
    \<and> (\<forall>d. Reconstruct enc raw (int (length (chunk ci))) = Inr d \<longrightarrow> d = chunk ci)
    \<and> (enough_left E truth node_of w grp \<longrightarrow> is_ok (Reconstruct enc raw (int (length (chunk ci)))))"
proof -
  let ?x = "(re_net E, rr_networkKey (re_keys E))" and ?dec = "\<lambda>d. Decrypt (pm_newx (re_pm E)) d (rr_cryptoKey (re_keys E))"
  have rpc: "rpc_ok ?x w" and faith: "faithful (pm_newx (re_pm E)) (rr_cryptoKey (re_keys E)) truth w"
    using assms(1) by (simp_all add: repair_ok_def)
  have grp: "described enc truth chunk p \<and> sp_ChunkIndex p = ci \<and> \<not> False \<and> utf8_valid (sp_ShardID p)" if "p \<in> set grp" for p
    using assms(5) [OF that] by (auto simp: described_def)
  have col: "collect_shards (\<lambda>_. False) node_of (\<lambda>n i. fetchShard (fst ?x) (snd ?x) n i) ?dec grp (empty_slots totalDefault) 0 w = (res, w')"
    using assms(7) by simp
  note law = repairer.collected_described [OF rpc assms(2-4) faith [unfolded faithful_def] _ assms(6) col, of chunk ci]
  have "sp_ShardIndex ` {p \<in> set grp. obtainable E truth node_of w p} \<subseteq> sp_ShardIndex ` {p \<in> set grp. \<exists>n ct. node_of (sp_NodeID p) = Some n
      \<and> live_at ?x w (nm_Address n) \<and> held_at w (nm_Address n) (sp_ShardID p) = Some ct \<and> ct \<noteq> [] \<and> is_ok (?dec ct)}"
    unfolding obtainable_def readable_def by fastforce
  from card_mono [OF _ this] have "4 \<le> card (sp_ShardIndex ` {p \<in> set grp. \<exists>n ct. node_of (sp_NodeID p) = Some n
      \<and> live_at ?x w (nm_Address n) \<and> held_at w (nm_Address n) (sp_ShardID p) = Some ct \<and> ct \<noteq> [] \<and> is_ok (?dec ct)})"
    if "enough_left E truth node_of w grp" using that by (simp add: enough_left_def)
  with law grp obtain raw where raw: "res = Some (raw, int (length (chunk ci)))" "rpc_ok ?x w'" "held_at w' = held_at w"
    "wd_trackers w' = wd_trackers w" "live_at ?x w' = live_at ?x w"
    "\<forall>d. Reconstruct enc raw (int (length (chunk ci))) = Inr d \<longrightarrow> d = chunk ci"
    "enough_left E truth node_of w grp \<longrightarrow> is_ok (Reconstruct enc raw (int (length (chunk ci))))" by blast
  moreover have "repair_ok E truth s w'" using assms(1) raw(2,3) by (simp add: repair_ok_def faithful_def)
  ultimately show ?thesis by blast
qed

lemma list_all2_right: "list_all2 P xs ys \<Longrightarrow> y \<in> set ys \<Longrightarrow> \<exists>x \<in> set xs. P x y"
  by (induction xs ys rule: list_all2_induct) auto

text \<open>One chunk. A file's placements are compared with those it had when the pass came to it.\<close>

lemma moved_all_trans:
  assumes "list_all2 (moved E truth s w) ps qs" "list_all2 (moved E truth s w') qs rs" "env_refreshed E truth w w'"
  shows "list_all2 (moved E truth s w') ps rs"
proof -
  have "list_all2 (moved E truth s w') ps qs"
    using assms(1) by (rule list_all2_mono) (rule moved_mono [OF _ assms(3)])
  from moved_trans this assms(2) show ?thesis by (rule list_all2_trans)
qed

lemma repair_chunk_law:
  assumes "repair_ok E truth (rp_store st) (rp_world st)" "encoder_ok enc" "dataShards enc = 4" "totalShards enc = 8"
    and "\<And>p. p \<in> set placements \<Longrightarrow> described enc truth chunk p"
    and "list_all2 (moved E truth (rp_store st) (rp_world st)) placements updated"
    and "repair_chunk E unhealthy healthy enc placements ci updated st = (out, st')"
  shows "repair_ok E truth (rp_store st') (rp_world st') \<and> rp_store st' = rp_store st
    \<and> env_refreshed E truth (rp_world st) (rp_world st') \<and> wd_trackers (rp_world st') = wd_trackers (rp_world st)
    \<and> live_at (re_net E, rr_networkKey (re_keys E)) (rp_world st') = live_at (re_net E, rr_networkKey (re_keys E)) (rp_world st)
    \<and> out \<noteq> Panicked
    \<and> (\<forall>ps' b. out = Done (ps', b) \<longrightarrow> list_all2 (moved E truth (rp_store st) (rp_world st')) placements ps'
         \<and> (\<forall>p \<in> set ps'. p \<in> set updated \<or> choosable (net_json (re_net E)) (rp_store st) (sp_NodeID p))
         \<and> (\<forall>p \<in> set ps'. sp_ChunkIndex p = ci \<and> unhealthy (sp_NodeID p) \<longrightarrow> choosable (net_json (re_net E)) (rp_store st) (sp_NodeID p))
         \<and> (\<not> b \<longrightarrow> ps' = updated))
    \<and> (repair_live E A (rp_store st) (rp_world st) \<longrightarrow>
         recoverable E truth unhealthy healthy (rp_world st) (chunk_group ci placements) \<longrightarrow>
         repair_live E A (rp_store st') (rp_world st') \<and> (\<exists>r. out = Done r))"
proof -
  let ?x = "(re_net E, rr_networkKey (re_keys E))" and ?grp = "chunk_group ci placements"
  let ?node = "\<lambda>i. if unhealthy i then None else healthy i" and ?ch = "choosable (net_json (re_net E)) (rp_store st)"
  show ?thesis
  proof (cases "list_ex (\<lambda>p. unhealthy (sp_NodeID p)) ?grp")
    case False
    then have run: "out = Done (updated, False)" "st' = st" using assms(7) by (simp_all add: repair_chunk_def Let_def)
    have "?ch (sp_NodeID q)" if q: "q \<in> set updated" "sp_ChunkIndex q = ci" "unhealthy (sp_NodeID q)" for q
    proof -
      from q(1) assms(6) obtain p where p: "p \<in> set placements" "moved E truth (rp_store st) (rp_world st) p q"
        using list_all2_right by metis
      with q(2) False have "\<not> unhealthy (sp_NodeID p)" using moved_fields(1) [OF p(2)] by (auto simp: chunk_group_def list_ex_iff)
      with moved_node [OF p(2)] q(3) show ?thesis by auto
    qed
    with run assms(1,6) show ?thesis by (auto simp: refreshed_same)
  next
    case True
    then have "?grp \<noteq> []" and rcv: "recoverable E truth unhealthy healthy (rp_world st) ?grp = enough_left E truth ?node (rp_world st) ?grp"
      by (auto simp: recoverable_def list_ex_iff)
    have grp: "described enc truth chunk p \<and> sp_ChunkIndex p = ci" if "p \<in> set ?grp" for p
      using that assms(5) by (simp add: chunk_group_def)
    obtain res w1 where col: "collect_shards (\<lambda>_. False) ?node (fetchShard (re_net E) (rr_networkKey (re_keys E)))
        (\<lambda>d. Decrypt (pm_newx (re_pm E)) d (rr_cryptoKey (re_keys E))) ?grp (empty_slots totalDefault) 0 (rp_world st) = (res, w1)"
      by fastforce
    from collected_chunk [OF assms(1-4) grp \<open>?grp \<noteq> []\<close> col] obtain raw where raw: "res = Some (raw, int (length (chunk ci)))"
      and ok1: "repair_ok E truth (rp_store st) w1" and w1: "held_at w1 = held_at (rp_world st)" "wd_trackers w1 = wd_trackers (rp_world st)"
        "live_at ?x w1 = live_at ?x (rp_world st)"
      and rec: "\<And>d. Reconstruct enc raw (int (length (chunk ci))) = Inr d \<Longrightarrow> d = chunk ci"
      and many: "enough_left E truth ?node (rp_world st) ?grp \<Longrightarrow> is_ok (Reconstruct enc raw (int (length (chunk ci))))"
      by blast
    let ?st = "st\<lparr>rp_world := w1\<rparr>"
    obtain fresh where fresh: "Erasure.Encode enc (chunk ci) = Inr fresh" "length fresh = 8"
      using rs_code.encode_ok [OF assms(2), of "chunk ci"] assms(4) by auto
    have "wd_nodes w1 = wd_nodes (rp_world st)" using collect_same [OF _ col] fetchShard_nodes by metis
    then have roomy: "repair_live E A (rp_store st) w1 = repair_live E A (rp_store st) (rp_world st)"
      by (simp add: repair_live_def roomy_at_def)
    show ?thesis
    proof (cases "Reconstruct enc raw (int (length (chunk ci)))")
      case (Inl e)
      with assms(7) True col raw have "out = Failed (ErrErasure e)" "st' = ?st" by (simp_all add: repair_chunk_def Let_def)
      with ok1 w1 many Inl rcv show ?thesis by (auto simp: refreshed_same)
    next
      case (Inr d)
      with rec have "d = chunk ci" by simp
      with assms(7) True col raw Inr fresh have run: "repair_shards E unhealthy ci fresh updated ?st = (out, st')"
        by (simp add: repair_chunk_def Let_def)
      have desc: "described enc truth chunk q" if "q \<in> set updated" for q
        using list_all2_right [OF assms(6) that] assms(5) moved_fields(4) by metis
      have "repair_ok E truth (rp_store ?st) (rp_world ?st)" using ok1 by simp
      note law = repair_shards_law [OF this desc fresh run, of A]
      have ref: "env_refreshed E truth (rp_world st) (rp_world st')"
        using refreshed_trans [OF refreshed_same [OF w1(1)]] law by simp
      have "list_all2 (moved E truth (rp_store st) (rp_world st')) placements ps'
          \<and> (\<forall>p \<in> set ps'. p \<in> set updated \<or> ?ch (sp_NodeID p))
          \<and> (\<forall>p \<in> set ps'. sp_ChunkIndex p = ci \<and> unhealthy (sp_NodeID p) \<longrightarrow> ?ch (sp_NodeID p))"
        if "out = Done (ps', b)" for ps' b
      proof -
        from law that have all: "list_all2 (\<lambda>p p'. moved E truth (rp_store st) (rp_world st') p p'
            \<and> (sp_ChunkIndex p = ci \<and> unhealthy (sp_NodeID p) \<longrightarrow> ?ch (sp_NodeID p'))) updated ps'" by simp
        then have mv: "list_all2 (moved E truth (rp_store st) (rp_world st')) updated ps'" by (rule list_all2_mono) simp
        have "(q \<in> set updated \<or> ?ch (sp_NodeID q)) \<and> (sp_ChunkIndex q = ci \<and> unhealthy (sp_NodeID q) \<longrightarrow> ?ch (sp_NodeID q))"
          if q: "q \<in> set ps'" for q
        proof -
          from list_all2_right [OF all q] obtain p where p: "p \<in> set updated" "moved E truth (rp_store st) (rp_world st') p q"
            "sp_ChunkIndex p = ci \<and> unhealthy (sp_NodeID p) \<longrightarrow> ?ch (sp_NodeID q)" by blast
          with moved_node [OF p(2)] show ?thesis by auto
        qed
        with moved_all_trans [OF assms(6) mv ref] show ?thesis by blast
      qed
      moreover from law have s': "rp_store st' = rp_store st" by simp
      moreover from law have "repair_ok E truth (rp_store st) (rp_world st')" "wd_trackers (rp_world st') = wd_trackers (rp_world st)"
        "live_at ?x (rp_world st') = live_at ?x (rp_world st)" "out \<noteq> Panicked" unfolding s' by (simp_all add: w1)
      moreover from law have "ps' = updated" if "out = Done (ps', b)" "\<not> b" for ps' b using that by blast
      moreover from law have "repair_live E A (rp_store st) (rp_world st') \<and> (\<exists>r. out = Done r)"
        if "repair_live E A (rp_store st) (rp_world st)" using that roomy unfolding s' by simp
      ultimately show ?thesis unfolding s' using ref by blast
    qed
  qed
qed

section \<open>A file, and all files\<close>

text \<open>What every step of a pass carries on.\<close>

definition carried :: "repair_env \<Rightarrow> shard_truth \<Rightarrow> 'd repairing \<Rightarrow> 'd repairing \<Rightarrow> bool" where
  "carried E truth st st' \<longleftrightarrow> repair_ok E truth (rp_store st') (rp_world st')
     \<and> env_refreshed E truth (rp_world st) (rp_world st') \<and> wd_trackers (rp_world st') = wd_trackers (rp_world st)
     \<and> live_at (re_net E, rr_networkKey (re_keys E)) (rp_world st') = live_at (re_net E, rr_networkKey (re_keys E)) (rp_world st)"

lemma carried_refl: "repair_ok E truth (rp_store st) (rp_world st) \<Longrightarrow> carried E truth st st"
  by (simp add: carried_def refreshed_same)

lemma carried_trans: "carried E truth st st1 \<Longrightarrow> carried E truth st1 st2 \<Longrightarrow> carried E truth st st2"
  unfolding carried_def using refreshed_trans by metis

lemma enough_left_carried: "carried E truth st st' \<Longrightarrow> enough_left E truth node_of (rp_world st) ps \<Longrightarrow> enough_left E truth node_of (rp_world st') ps"
  unfolding carried_def using enough_left_refreshed by blast

lemma recoverable_carried: "carried E truth st st' \<Longrightarrow> recoverable E truth unhealthy healthy (rp_world st) ps \<Longrightarrow>
    recoverable E truth unhealthy healthy (rp_world st') ps"
  unfolding recoverable_def using enough_left_carried by blast

lemma repair_chunks_law:
  assumes "repair_ok E truth (rp_store st) (rp_world st)" "encoder_ok enc" "dataShards enc = 4" "totalShards enc = 8"
    and "\<And>p. p \<in> set placements \<Longrightarrow> described enc truth chunk p"
    and "list_all2 (moved E truth (rp_store st) (rp_world st)) placements updated"
    and "repair_chunks E unhealthy healthy enc placements cis updated changed st = (out, st')"
  shows "carried E truth st st' \<and> rp_store st' = rp_store st \<and> out \<noteq> Panicked
    \<and> (\<forall>ps' b. out = Done (ps', b) \<longrightarrow> list_all2 (moved E truth (rp_store st) (rp_world st')) placements ps'
         \<and> (\<forall>p \<in> set ps'. p \<in> set updated \<or> choosable (net_json (re_net E)) (rp_store st) (sp_NodeID p))
         \<and> (\<forall>p \<in> set ps'. sp_ChunkIndex p \<in> set cis \<and> unhealthy (sp_NodeID p) \<longrightarrow> choosable (net_json (re_net E)) (rp_store st) (sp_NodeID p))
         \<and> (\<not> b \<longrightarrow> \<not> changed \<and> ps' = updated))
    \<and> (repair_live E A (rp_store st) (rp_world st) \<longrightarrow>
         (\<forall>ci \<in> set cis. recoverable E truth unhealthy healthy (rp_world st) (chunk_group ci placements)) \<longrightarrow>
         repair_live E A (rp_store st') (rp_world st') \<and> (\<exists>r. out = Done r))"
  using assms(1,6,7)
proof (induction cis arbitrary: updated changed st)
  case Nil
  then show ?case by (auto simp: carried_refl)
next
  case (Cons ci cis)
  let ?ch = "choosable (net_json (re_net E)) (rp_store st)"
  obtain o1 st1 where one: "repair_chunk E unhealthy healthy enc placements ci updated st = (o1, st1)" by fastforce
  note law = repair_chunk_law [OF Cons.prems(1) assms(2-5) Cons.prems(2) one, of A]
  then have c1: "carried E truth st st1" and s1: "rp_store st1 = rp_store st" unfolding carried_def by blast+
  show ?case
  proof (cases o1)
    case (Done r)
    obtain updated1 b1 where r: "r = (updated1, b1)" by fastforce
    from Cons.prems(3) one Done r
    have rest: "repair_chunks E unhealthy healthy enc placements cis updated1 (changed \<or> b1) st1 = (out, st')" by simp
    have o1: "o1 = Done (updated1, b1)" using Done r by simp
    with law have mv1: "list_all2 (moved E truth (rp_store st1) (rp_world st1)) placements updated1"
      and from1: "\<forall>p \<in> set updated1. p \<in> set updated \<or> ?ch (sp_NodeID p)"
      and ci1: "\<forall>p \<in> set updated1. sp_ChunkIndex p = ci \<and> unhealthy (sp_NodeID p) \<longrightarrow> ?ch (sp_NodeID p)"
      and b1: "\<not> b1 \<Longrightarrow> updated1 = updated" unfolding s1 by blast+
    have "repair_ok E truth (rp_store st1) (rp_world st1)" using c1 by (simp add: carried_def)
    note ih = Cons.IH [OF this mv1 rest]
    have "(\<forall>ci \<in> set cis. recoverable E truth unhealthy healthy (rp_world st1) (chunk_group ci placements))"
      if "\<forall>ci \<in> set cis. recoverable E truth unhealthy healthy (rp_world st) (chunk_group ci placements)"
      using that recoverable_carried [OF c1] by blast
    moreover have "(\<forall>p \<in> set ps'. p \<in> set updated \<or> ?ch (sp_NodeID p))
        \<and> (\<forall>p \<in> set ps'. sp_ChunkIndex p \<in> set (ci # cis) \<and> unhealthy (sp_NodeID p) \<longrightarrow> ?ch (sp_NodeID p))
        \<and> (\<not> b \<longrightarrow> \<not> changed \<and> ps' = updated)"
      if "out = Done (ps', b)" for ps' b
      using ih that from1 ci1 b1 s1 by auto
    ultimately show ?thesis
      using ih law c1 s1 Done carried_trans [OF c1] by auto
  next
    case (Failed e)
    with Cons.prems(3) one law c1 s1 show ?thesis by auto
  next
    case Panicked
    with law show ?thesis by simp
  qed
qed

end
