(* ===== verification/RepairPass.thy ===== *)
theory RepairPass
  imports Repair
begin

text \<open>
  A whole pass of the repairer: what it does to one file, to all files, and to the store, from
  what it does to a chunk (theory Repair), and the properties of the pass.
\<close>

section \<open>A file\<close>

text \<open>How a pass may have changed the store: the nodes are kept, and of the files all but where
  some shards are.\<close>

definition replaced :: "repair_env \<Rightarrow> shard_truth \<Rightarrow> 'd Store \<Rightarrow> 'd world \<Rightarrow> file_entry \<Rightarrow> file_entry \<Rightarrow> bool" where
  "replaced E truth s w e e' \<longleftrightarrow> fst e' = fst e \<and> list_all2 (moved E truth s w) (snd e) (snd e')"

definition repaired_store :: "repair_env \<Rightarrow> shard_truth \<Rightarrow> 'd Store \<Rightarrow> 'd world \<Rightarrow> 'd Store \<Rightarrow> bool" where
  "repaired_store E truth s w s' \<longleftrightarrow> node_at (net_json (re_net E)) s' = node_at (net_json (re_net E)) s \<and> db_ops s' = db_ops s
     \<and> (\<forall>i. rel_option (replaced E truth s w) (file_at (net_json (re_net E)) s i) (file_at (net_json (re_net E)) s' i))"

definition described_file :: "Encoder \<Rightarrow> shard_truth \<Rightarrow> ShardPlacement list \<Rightarrow> bool" where
  "described_file enc truth ps \<longleftrightarrow> (\<exists>chunk. \<forall>p \<in> set ps. described enc truth chunk p)"

definition described_files :: "Encoder \<Rightarrow> shard_truth \<Rightarrow> json_codec \<Rightarrow> 'd Store \<Rightarrow> bool" where
  "described_files enc truth jc s \<longleftrightarrow> (\<forall>i m ps. file_at jc s i = Some (m, ps) \<longrightarrow> described_file enc truth ps)"

lemma moved_store:
  assumes "node_at (net_json (re_net E)) s' = node_at (net_json (re_net E)) s"
  shows "moved E truth s' w = moved E truth s w" "choosable (net_json (re_net E)) s' = choosable (net_json (re_net E)) s"
  using assms by (simp_all add: moved_def choosable_def fun_eq_iff)

lemma all_moved_refl: "list_all2 (moved E truth s w) ps ps"
  by (simp add: list_all2_refl)

lemma replaced_refl: "replaced E truth s w e e"
  by (simp add: replaced_def all_moved_refl)

lemma repaired_store_refl: "repaired_store E truth s w s"
  by (simp add: repaired_store_def option.rel_refl replaced_refl)

lemma repaired_store_trans:
  assumes "repaired_store E truth s w s1" "repaired_store E truth s1 w1 s2" "env_refreshed E truth w w1"
  shows "repaired_store E truth s w1 s2"
proof -
  let ?jc = "net_json (re_net E)"
  have nodes: "node_at ?jc s1 = node_at ?jc s" using assms(1) by (simp add: repaired_store_def)
  have "replaced E truth s w1 e e2" if "replaced E truth s w e e1" "replaced E truth s1 w1 e1 e2" for e e1 e2
    using that moved_all_trans [OF _ _ assms(3), of s "snd e" "snd e1" "snd e2"] by (simp add: replaced_def moved_store(1) [OF nodes])
  then have "rel_option (replaced E truth s w1) (file_at ?jc s i) (file_at ?jc s2 i)" for i
    using assms(1,2) unfolding repaired_store_def
    by (cases "file_at ?jc s i"; cases "file_at ?jc s1 i"; cases "file_at ?jc s2 i")
      (force simp: rel_option_iff dest: spec [of _ i])+
  with assms(1,2) show ?thesis by (simp add: repaired_store_def)
qed

lemma described_moved_all:
  assumes "list_all2 (moved E truth s w) ps ps'" "\<forall>p \<in> set ps. described enc truth chunk p"
  shows "\<forall>p \<in> set ps'. described enc truth chunk p"
  using list_all2_right [OF assms(1)] assms(2) moved_fields(4) by metis

lemma described_repaired:
  assumes "repaired_store E truth s w s'" "described_files enc truth (net_json (re_net E)) s"
  shows "described_files enc truth (net_json (re_net E)) s'"
  unfolding described_files_def
proof (intro allI impI)
  fix i m ps' assume at: "file_at (net_json (re_net E)) s' i = Some (m, ps')"
  have "rel_option (replaced E truth s w) (file_at (net_json (re_net E)) s i) (file_at (net_json (re_net E)) s' i)"
    using assms(1) by (simp add: repaired_store_def)
  then obtain ps where "file_at (net_json (re_net E)) s i = Some (m, ps)" "list_all2 (moved E truth s w) ps ps'"
    using at by (cases "file_at (net_json (re_net E)) s i") (auto simp: replaced_def)
  with assms(2) described_moved_all show "described_file enc truth ps'"
    unfolding described_files_def described_file_def by meson
qed

text \<open>What a repaired file is saved with is a valid entry.\<close>

lemma moved_entry_ok:
  assumes "store_ok (net_json (re_net E)) s" "entry_ok (m, ps)" "list_all2 (moved E truth s w) ps ps'"
  shows "entry_ok (m, ps')"
proof -
  have "placement_ok q" if "q \<in> set ps'" for q
  proof -
    from list_all2_right [OF assms(3) that] obtain p where p: "p \<in> set ps" "moved E truth s w p q" by blast
    have ok: "placement_ok p" using assms(2) p(1) by (simp add: entry_ok_def list_all_iff)
    from p(2) consider "q = p" | i n where "node_at (net_json (re_net E)) s i = Some n" "q = p\<lparr>sp_NodeID := i\<rparr>"
      unfolding moved_def by blast
    then show ?thesis
    proof cases
      case (2 i n)
      with store_okD(3) [OF assms(1)] have "utf8_valid i" by (auto simp: node_ok_def)
      with ok 2(2) show ?thesis by (simp add: placement_ok_def)
    qed (use ok in simp)
  qed
  with assms(2) show ?thesis by (simp add: entry_ok_def list_all_iff)
qed

text \<open>\<open>settled\<close>: no placement is left on an unhealthy node, unless the store chose it.\<close>

definition settled :: "repair_env \<Rightarrow> (string \<Rightarrow> bool) \<Rightarrow> 'd Store \<Rightarrow> ShardPlacement list \<Rightarrow> bool" where
  "settled E unhealthy s ps \<longleftrightarrow>
     (\<forall>p \<in> set ps. unhealthy (sp_NodeID p) \<longrightarrow> choosable (net_json (re_net E)) s (sp_NodeID p))"

definition orders_ok :: "repair_env \<Rightarrow> bool" where
  "orders_ok E \<longleftrightarrow> (\<forall>f cs. set (re_order E f cs) = set cs)"

lemma chunk_indices_set: "set (chunk_indices ps) = sp_ChunkIndex ` set ps"
  by (simp add: chunk_indices_def)

lemma repair_file_law:
  assumes "repair_ok E truth (rp_store st) (rp_world st)" "encoder_ok enc" "dataShards enc = 4" "totalShards enc = 8"
    and "orders_ok E" "file_at (net_json (re_net E)) (rp_store st) (fm_FileID m) = Some (m, ps)" "described_file enc truth ps"
    and "repair_file E unhealthy healthy enc (m, ps) st = (out, st')"
  shows "carried E truth st st' \<and> repaired_store E truth (rp_store st) (rp_world st') (rp_store st')
    \<and> (\<forall>i. i \<noteq> fm_FileID m \<longrightarrow> file_at (net_json (re_net E)) (rp_store st') i = file_at (net_json (re_net E)) (rp_store st) i)
    \<and> out \<noteq> Panicked
    \<and> (out = Done () \<longrightarrow> (\<exists>ps'. file_at (net_json (re_net E)) (rp_store st') (fm_FileID m) = Some (m, ps') \<and> settled E unhealthy (rp_store st) ps'))
    \<and> (repair_live E A (rp_store st) (rp_world st) \<longrightarrow>
         (\<forall>ci. recoverable E truth unhealthy healthy (rp_world st) (chunk_group ci ps)) \<longrightarrow>
         repair_live E A (rp_store st') (rp_world st') \<and> out = Done ())"
proof -
  let ?jc = "net_json (re_net E)" and ?cis = "re_order E (fm_FileID m) (chunk_indices ps)"
  obtain chunk where chunk: "\<forall>p \<in> set ps. described enc truth chunk p" using assms(7) by (auto simp: described_file_def)
  obtain o1 st1 where run: "repair_chunks E unhealthy healthy enc ps ?cis ps False st = (o1, st1)" by fastforce
  have desc: "described enc truth chunk p" if "p \<in> set ps" for p using chunk that by blast
  note law = repair_chunks_law [OF assms(1-4) desc all_moved_refl run, of A]
  then have c1: "carried E truth st st1" and s1: "rp_store st1 = rp_store st" by blast+
  have cover: "sp_ChunkIndex p \<in> set ?cis" if "p \<in> set ps" for p
    using assms(5) that by (simp add: orders_ok_def chunk_indices_set)
  have still: "repaired_store E truth (rp_store st) (rp_world st1) (rp_store st1)" unfolding s1 by (rule repaired_store_refl)
  show ?thesis
  proof (cases o1)
    case Panicked
    with law show ?thesis by blast
  next
    case (Failed e)
    with assms(8) run have "out = Failed e" "st' = st1" by (simp_all add: repair_file_def)
    moreover have "\<not> (repair_live E A (rp_store st) (rp_world st) \<and> (\<forall>ci. recoverable E truth unhealthy healthy (rp_world st) (chunk_group ci ps)))"
      using law Failed by blast
    ultimately show ?thesis using c1 still s1 by auto
  next
    case (Done r)
    obtain ps' b where r: "o1 = Done (ps', b)" using Done by (cases r) simp
    from law r have mv: "list_all2 (moved E truth (rp_store st) (rp_world st1)) ps ps'"
      and set1: "\<forall>p \<in> set ps'. sp_ChunkIndex p \<in> set ?cis \<and> unhealthy (sp_NodeID p) \<longrightarrow> choosable ?jc (rp_store st) (sp_NodeID p)"
      and same: "\<not> b \<Longrightarrow> ps' = ps" by blast+
    have "sp_ChunkIndex p \<in> set ?cis" if "p \<in> set ps'" for p
      using list_all2_right [OF mv that] cover moved_fields(1) by metis
    with set1 have settled: "settled E unhealthy (rp_store st) ps'" by (simp add: settled_def)
    have live1: "repair_live E A (rp_store st) (rp_world st1)"
      if "repair_live E A (rp_store st) (rp_world st)" "\<forall>ci. recoverable E truth unhealthy healthy (rp_world st) (chunk_group ci ps)"
      using law that s1 by simp
    show ?thesis
    proof (cases b)
      case False
      with assms(8) run r have "out = Done ()" "st' = st1" by (simp_all add: repair_file_def)
      with c1 still s1 settled same [OF False] live1 assms(6) show ?thesis by simp
    next
      case True
      obtain x s2 where save: "SaveFilePlacement ?jc (rp_store st1) m ps' = (x, s2)" by fastforce
      with assms(8) run r True have out: "out = (case x of None \<Rightarrow> Done () | Some e \<Rightarrow> Failed (ErrStore e))" "st' = st1\<lparr>rp_store := s2\<rparr>"
        by (auto simp: repair_file_def split: option.splits)
      have ok1: "store_ok ?jc (rp_store st1)" using c1 by (simp add: carried_def repair_ok_def)
      have "entry_ok (m, ps)" using store_okD(4) [OF ok1] assms(6) s1 by simp
      then have "entry_ok (m, ps')" using moved_entry_ok [OF ok1] mv s1 by simp
      have "save_entry ?jc (rp_store st1) (m, ps') = (x, s2)" using save by (simp add: save_entry_def)
      note saved = save_entry_law [OF ok1 \<open>entry_ok (m, ps')\<close> this]
      have ops: "db_ops s2 = db_ops (rp_store st1)"
        using save store_update_ops by (metis SaveFilePlacement_def snd_conv)
      have files: "file_at ?jc s2 = (if x = None then (file_at ?jc (rp_store st))(fm_FileID m \<mapsto> (m, ps')) else file_at ?jc (rp_store st))"
        using saved s1 by (simp add: entry_id_def)
      have nodes: "node_at ?jc s2 = node_at ?jc (rp_store st)" using saved s1 by simp
      have "replaced E truth (rp_store st) (rp_world st1) (m, ps) (m, ps')" using mv by (simp add: replaced_def)
      then have rep: "repaired_store E truth (rp_store st) (rp_world st1) s2"
        using nodes ops s1 files assms(6) by (simp add: repaired_store_def option.rel_refl replaced_refl)
      have car: "carried E truth st st'" using c1 saved by (simp add: carried_def repair_ok_def out(2))
      have "x = None" if "repair_live E A (rp_store st) (rp_world st1)"
      proof -
        have "is_ok (bb_update (db_ops (rp_store st)) (db_file (rp_store st))
            [(bucketFiles, fm_FileID m, json_marshal ?jc (json_FileMetadata m)),
             (bucketPlacements, fm_FileID m, json_marshal ?jc (enc_structs json_ShardPlacement ps'))])"
          using that assms(6) by (simp add: repair_live_def)
        then show ?thesis using save s1 by (auto simp: SaveFilePlacement_def store_update_def elim!: is_okE)
      qed
      moreover have "repair_live E A s2 (rp_world st1)" if "repair_live E A (rp_store st) (rp_world st1)"
        using that nodes ops s1 files assms(6) by (auto simp: repair_live_def split: if_splits)
      ultimately show ?thesis
        using car rep files settled live1 out by (auto split: option.splits)
    qed
  qed
qed

section \<open>All files\<close>

lemma settled_moved:
  assumes "settled E unhealthy s ps" "list_all2 (moved E truth s w) ps ps'"
  shows "settled E unhealthy s ps'"
  unfolding settled_def
proof (intro ballI impI)
  fix q assume q: "q \<in> set ps'" "unhealthy (sp_NodeID q)"
  from list_all2_right [OF assms(2) q(1)] obtain p where p: "p \<in> set ps" "moved E truth s w p q" by blast
  from moved_node [OF p(2)] show "choosable (net_json (re_net E)) s (sp_NodeID q)"
    using assms(1) p(1) q(2) by (auto simp: settled_def)
qed

lemma settled_repaired:
  assumes "repaired_store E truth s w s'" "file_at (net_json (re_net E)) s i = Some (m, ps)" "settled E unhealthy s ps"
    and "file_at (net_json (re_net E)) s' i = Some (m', ps')"
  shows "settled E unhealthy s ps'"
proof -
  have "rel_option (replaced E truth s w) (file_at (net_json (re_net E)) s i) (file_at (net_json (re_net E)) s' i)"
    using assms(1) by (simp add: repaired_store_def)
  with assms(2,4) have "list_all2 (moved E truth s w) ps ps'" by (simp add: replaced_def)
  with assms(3) show ?thesis by (rule settled_moved)
qed

lemma settled_store:
  fixes s s' :: "'d Store"
  assumes "node_at (net_json (re_net E)) s' = node_at (net_json (re_net E)) s"
  shows "settled E unhealthy s' = settled E unhealthy s"
  unfolding settled_def moved_store(2) [OF assms] ..

lemma repair_files_law:
  assumes "repair_ok E truth (rp_store st) (rp_world st)" "encoder_ok enc" "dataShards enc = 4" "totalShards enc = 8"
    and "orders_ok E" "described_files enc truth (net_json (re_net E)) (rp_store st)"
    and "repair_files E unhealthy healthy enc fs st = (out, st')"
  shows "carried E truth st st' \<and> repaired_store E truth (rp_store st) (rp_world st') (rp_store st') \<and> out \<noteq> Panicked
    \<and> ((\<forall>d. bb_view (db_ops (rp_store st)) d = None) \<longrightarrow> out = Done () \<longrightarrow>
         (\<forall>f \<in> set fs. \<forall>m ps. file_at (net_json (re_net E)) (rp_store st') (fm_FileID f) = Some (m, ps) \<longrightarrow> settled E unhealthy (rp_store st) ps))
    \<and> (repair_live E A (rp_store st) (rp_world st) \<longrightarrow> distinct (map fm_FileID fs) \<longrightarrow>
         (\<forall>f \<in> set fs. \<forall>m ps ci. file_at (net_json (re_net E)) (rp_store st) (fm_FileID f) = Some (m, ps) \<longrightarrow>
            recoverable E truth unhealthy healthy (rp_world st) (chunk_group ci ps)) \<longrightarrow>
         out = Done ())"
  using assms(1,6,7)
proof (induction fs arbitrary: st)
  case Nil
  then show ?case by (auto simp: carried_refl repaired_store_refl)
next
  case (Cons f fs)
  let ?jc = "net_json (re_net E)" and ?s = "rp_store st"
  have s: "store_ok ?jc ?s" using Cons.prems(1) by (simp add: repair_ok_def)
  show ?case
  proof (cases "GetFilePlacement ?jc ?s (fm_FileID f)")
    case (Inl e)
    with Cons.prems(3) have rest: "repair_files E unhealthy healthy enc fs st = (out, st')" by simp
    note ih = Cons.IH [OF Cons.prems(1,2) rest]
    have "file_at ?jc (rp_store st') (fm_FileID f) = None" if "\<forall>d. bb_view (db_ops ?s) d = None"
    proof -
      have "file_at ?jc ?s (fm_FileID f) = None"
        using GetFilePlacement_law(2) [OF s, of "fm_FileID f"] that Inl by (auto split: option.splits)
      moreover have "rel_option (replaced E truth ?s (rp_world st')) (file_at ?jc ?s (fm_FileID f)) (file_at ?jc (rp_store st') (fm_FileID f))"
        using ih by (simp add: repaired_store_def)
      ultimately show ?thesis by simp
    qed
    with ih show ?thesis by auto
  next
    case (Inr entry)
    obtain m ps where entry: "entry = (m, ps)" by (cases entry)
    have at: "file_at ?jc ?s (fm_FileID f) = Some (m, ps)" using GetFilePlacement_law(1) [OF s Inr] entry by simp
    then have m: "fm_FileID m = fm_FileID f" using store_okD(4) [OF s at] by (simp add: entry_id_def)
    obtain o1 st1 where one: "repair_file E unhealthy healthy enc (m, ps) st = (o1, st1)" by fastforce
    have "described_file enc truth ps" using Cons.prems(2) at by (auto simp: described_files_def)
    note law = repair_file_law [OF Cons.prems(1) assms(2-5) at [folded m] this one, of A, unfolded m]
    then have c1: "carried E truth st st1" and r1: "repaired_store E truth ?s (rp_world st1) (rp_store st1)" by blast+
    have nodes1: "node_at ?jc (rp_store st1) = node_at ?jc ?s" and ops1: "db_ops (rp_store st1) = db_ops ?s"
      using r1 by (simp_all add: repaired_store_def)
    show ?thesis
    proof (cases o1)
      case Panicked
      with law show ?thesis by blast
    next
      case (Failed e)
      with Cons.prems(3) Inr entry one have "out = Failed e" "st' = st1" by simp_all
      with law Failed c1 r1 at show ?thesis by auto
    next
      case (Done u)
      with Cons.prems(3) Inr entry one have rest: "repair_files E unhealthy healthy enc fs st1 = (out, st')" by simp
      have "repair_ok E truth (rp_store st1) (rp_world st1)" using c1 by (simp add: carried_def)
      note ih = Cons.IH [OF this described_repaired [OF r1 Cons.prems(2)] rest]
      then have c2: "carried E truth st1 st'" and r2: "repaired_store E truth (rp_store st1) (rp_world st') (rp_store st')" by blast+
      have car: "carried E truth st st'" by (rule carried_trans [OF c1 c2])
      have rep: "repaired_store E truth ?s (rp_world st') (rp_store st')"
        using repaired_store_trans [OF r1 r2] c2 by (simp add: carried_def)
      have first: "settled E unhealthy ?s ps'" if "file_at ?jc (rp_store st') (fm_FileID f) = Some (m', ps')" for m' ps'
      proof -
        from law Done obtain ps1 where ps1: "file_at ?jc (rp_store st1) (fm_FileID f) = Some (m, ps1)" "settled E unhealthy ?s ps1" by auto
        from settled_repaired [OF r2 ps1(1) _ that, of unhealthy] ps1(2) show ?thesis by (simp add: settled_store [OF nodes1])
      qed
      have others: "\<forall>g \<in> set fs. \<forall>m ps ci. file_at ?jc (rp_store st1) (fm_FileID g) = Some (m, ps) \<longrightarrow>
          recoverable E truth unhealthy healthy (rp_world st1) (chunk_group ci ps)"
        if "distinct (map fm_FileID (f # fs))" "\<forall>g \<in> set (f # fs). \<forall>m ps ci. file_at ?jc ?s (fm_FileID g) = Some (m, ps) \<longrightarrow>
          recoverable E truth unhealthy healthy (rp_world st) (chunk_group ci ps)"
      proof (intro ballI allI impI)
        fix g m' ps' ci assume g: "g \<in> set fs" "file_at ?jc (rp_store st1) (fm_FileID g) = Some (m', ps')"
        then have "fm_FileID g \<noteq> fm_FileID f" using that(1) by (auto simp: image_iff)
        with law g(2) have "file_at ?jc ?s (fm_FileID g) = Some (m', ps')" by auto
        with that(2) g(1) have "recoverable E truth unhealthy healthy (rp_world st) (chunk_group ci ps')" by auto
        with recoverable_carried [OF c1] show "recoverable E truth unhealthy healthy (rp_world st1) (chunk_group ci ps')" by blast
      qed
      have live1: "repair_live E A (rp_store st1) (rp_world st1)"
        if "repair_live E A ?s (rp_world st)" "\<forall>g \<in> set (f # fs). \<forall>m ps ci. file_at ?jc ?s (fm_FileID g) = Some (m, ps) \<longrightarrow>
          recoverable E truth unhealthy healthy (rp_world st) (chunk_group ci ps)"
        using law that at by auto
      have later: "\<forall>g \<in> set fs. \<forall>m ps. file_at ?jc (rp_store st') (fm_FileID g) = Some (m, ps) \<longrightarrow> settled E unhealthy ?s ps"
        if "\<forall>d. bb_view (db_ops ?s) d = None" "out = Done ()"
        using ih that by (simp add: ops1 settled_store [OF nodes1])
      have "out = Done ()" if "repair_live E A ?s (rp_world st)" "distinct (map fm_FileID (f # fs))"
        "\<forall>g \<in> set (f # fs). \<forall>m ps ci. file_at ?jc ?s (fm_FileID g) = Some (m, ps) \<longrightarrow>
          recoverable E truth unhealthy healthy (rp_world st) (chunk_group ci ps)"
      proof -
        have "distinct (map fm_FileID fs)" using that(2) by simp
        with ih live1 [OF that(1,3)] others [OF that(2,3)] show ?thesis by blast
      qed
      with car rep first later ih show ?thesis by auto
    qed
  qed
qed

section \<open>Marking the unhealthy nodes\<close>

lemma mark_unhealthy_law:
  assumes "store_ok jc s" "distinct (map nm_NodeID ns)" "\<And>n. n \<in> set ns \<Longrightarrow> node_at jc s (nm_NodeID n) = Some n"
  shows "store_ok jc (mark_unhealthy jc now timeout ns s) \<and> file_at jc (mark_unhealthy jc now timeout ns s) = file_at jc s
    \<and> db_ops (mark_unhealthy jc now timeout ns s) = db_ops s
    \<and> (\<forall>i. i \<notin> nm_NodeID ` set ns \<longrightarrow> node_at jc (mark_unhealthy jc now timeout ns s) i = node_at jc s i)
    \<and> (\<forall>n \<in> set ns. node_at jc (mark_unhealthy jc now timeout ns s) (nm_NodeID n) = Some n
         \<and> (node_unhealthy now timeout n \<longrightarrow> \<not> (\<forall>d v. is_ok (bb_update (db_ops s) d [(bucketNodes, nm_NodeID n, v)])))
       \<or> node_unhealthy now timeout n
         \<and> node_at jc (mark_unhealthy jc now timeout ns s) (nm_NodeID n) = Some (n\<lparr>nm_IsHealthy := False\<rparr>))"
  using assms
proof (induction ns arbitrary: s)
  case (Cons n ns)
  let ?m = "n\<lparr>nm_IsHealthy := False\<rparr>"
  obtain e s1 where reg: "RegisterNode jc s ?m = (e, s1)" by fastforce
  define s' where "s' = (if node_unhealthy now timeout n then s1 else s)"
  have run: "mark_unhealthy jc now timeout (n # ns) s = mark_unhealthy jc now timeout ns s'"
    by (simp add: s'_def reg)
  have "node_ok ?m" using store_okD(3) [OF Cons.prems(1)] Cons.prems(3) [of n] by simp
  note law = RegisterNode_law [OF Cons.prems(1) this reg]
  have ops: "db_ops s' = db_ops s" using reg store_update_ops by (metis RegisterNode_def s'_def snd_conv)
  have s': "store_ok jc s'" "file_at jc s' = file_at jc s"
    "node_at jc s' = (if node_unhealthy now timeout n \<and> e = None then (node_at jc s)(nm_NodeID n \<mapsto> ?m) else node_at jc s)"
    using law Cons.prems(1) by (auto simp: s'_def)
  have other: "nm_NodeID k \<noteq> nm_NodeID n" if "k \<in> set ns" for k using Cons.prems(2) that by (auto simp: image_iff)
  have "distinct (map nm_NodeID ns)" "\<And>k. k \<in> set ns \<Longrightarrow> node_at jc s' (nm_NodeID k) = Some k"
    using Cons.prems(2,3) other by (simp_all add: s'(3))
  note ih = Cons.IH [OF s'(1) this]
  have "e = None" if "\<forall>d v. is_ok (bb_update (db_ops s) d [(bucketNodes, nm_NodeID n, v)])"
  proof -
    from that have "is_ok (bb_update (db_ops s) (db_file s) [(bucketNodes, nm_NodeID n, json_marshal jc (json_NodeMetadata ?m))])" by blast
    with reg show ?thesis by (auto simp: RegisterNode_def store_update_def elim!: is_okE)
  qed
  moreover have "node_at jc (mark_unhealthy jc now timeout ns s') (nm_NodeID n) = node_at jc s' (nm_NodeID n)"
    using ih Cons.prems(2) by auto
  ultimately show ?case
    unfolding run using ih s' ops Cons.prems(3) [of n] by auto
qed simp

text \<open>The nodes a pass takes for unhealthy, and the others.\<close>

definition judged_unhealthy :: "json_codec \<Rightarrow> 'd Store \<Rightarrow> int \<Rightarrow> int \<Rightarrow> string \<Rightarrow> bool" where
  "judged_unhealthy jc s now timeout i \<longleftrightarrow> (case node_at jc s i of None \<Rightarrow> False | Some n \<Rightarrow> node_unhealthy now timeout n)"

definition alive_node :: "json_codec \<Rightarrow> 'd Store \<Rightarrow> int \<Rightarrow> int \<Rightarrow> string \<Rightarrow> NodeMetadata option" where
  "alive_node jc s now timeout i = (if judged_unhealthy jc s now timeout i then None else node_at jc s i)"

text \<open>What the pass sees of the store, and what it leaves of it to work on.\<close>

lemma marked_store:
  assumes "store_ok jc s" "ListNodes jc s = Inr ns"
  shows "store_ok jc (mark_unhealthy jc now timeout ns s)" "file_at jc (mark_unhealthy jc now timeout ns s) = file_at jc s"
    and "db_ops (mark_unhealthy jc now timeout ns s) = db_ops s"
    and "node_at jc (mark_unhealthy jc now timeout ns s) i = Some n \<Longrightarrow> nm_IsHealthy n \<Longrightarrow> node_at jc s i = Some n"
    and "node_at jc s i = Some n \<Longrightarrow> \<not> node_unhealthy now timeout n \<Longrightarrow> node_at jc (mark_unhealthy jc now timeout ns s) i = Some n"
    and "(\<And>i d v. node_at jc s i \<noteq> None \<Longrightarrow> is_ok (bb_update (db_ops s) d [(bucketNodes, i, v)])) \<Longrightarrow>
      choosable jc (mark_unhealthy jc now timeout ns s) i \<Longrightarrow> \<not> judged_unhealthy jc s now timeout i"
    and "i \<in> nm_NodeID ` set (filter (node_unhealthy now timeout) ns) \<longleftrightarrow> judged_unhealthy jc s now timeout i"
    and "node_index (filter (\<lambda>n. \<not> node_unhealthy now timeout n) ns) i = alive_node jc s now timeout i"
proof -
  let ?s = "mark_unhealthy jc now timeout ns s"
  note listed = ListNodes_law [OF assms]
  have at: "node_at jc s (nm_NodeID n) = Some n" if "n \<in> set ns" for n using listed that by blast
  have inn: "n \<in> set ns" "nm_NodeID n = i" if "node_at jc s i = Some n" for n i
    using choosable_node [OF assms(1) that] listed that by auto
  note law = mark_unhealthy_law [OF assms(1) conjunct1 [OF listed] at, where now = now and timeout = timeout]
  then show "store_ok jc ?s" "file_at jc ?s = file_at jc s" "db_ops ?s = db_ops s" by blast+
  have absent: "i \<notin> nm_NodeID ` set ns \<Longrightarrow> node_at jc ?s i = node_at jc s i" for i using law by blast
  show "node_at jc s i = Some n" if "node_at jc ?s i = Some n" "nm_IsHealthy n"
  proof (cases "i \<in> nm_NodeID ` set ns")
    case True
    then obtain k where "k \<in> set ns" "i = nm_NodeID k" by blast
    with law at that show ?thesis by fastforce
  qed (use absent that in simp)
  show "node_at jc ?s i = Some n" if "node_at jc s i = Some n" "\<not> node_unhealthy now timeout n"
    using law inn [OF that(1)] that(2) by fastforce
  show "\<not> judged_unhealthy jc s now timeout i"
    if "\<And>i d v. node_at jc s i \<noteq> None \<Longrightarrow> is_ok (bb_update (db_ops s) d [(bucketNodes, i, v)])" "choosable jc ?s i"
  proof
    assume "judged_unhealthy jc s now timeout i"
    then obtain n where n: "node_at jc s i = Some n" "node_unhealthy now timeout n"
      by (auto simp: judged_unhealthy_def split: option.splits)
    then have "node_at jc ?s i = Some (n\<lparr>nm_IsHealthy := False\<rparr>)"
      using law inn [OF n(1)] that(1) [of i] by fastforce
    with that(2) show False by (simp add: choosable_def)
  qed
  show "i \<in> nm_NodeID ` set (filter (node_unhealthy now timeout) ns) \<longleftrightarrow> judged_unhealthy jc s now timeout i"
  proof
    assume "i \<in> nm_NodeID ` set (filter (node_unhealthy now timeout) ns)"
    then obtain n where "n \<in> set ns" "node_unhealthy now timeout n" "i = nm_NodeID n" by auto
    with at [of n] show "judged_unhealthy jc s now timeout i" by (simp add: judged_unhealthy_def)
  next
    assume "judged_unhealthy jc s now timeout i"
    then obtain n where "node_at jc s i = Some n" "node_unhealthy now timeout n"
      by (auto simp: judged_unhealthy_def split: option.splits)
    with inn show "i \<in> nm_NodeID ` set (filter (node_unhealthy now timeout) ns)" by force
  qed
  show "node_index (filter (\<lambda>n. \<not> node_unhealthy now timeout n) ns) i = alive_node jc s now timeout i"
  proof -
    have dist: "distinct (map nm_NodeID (filter (\<lambda>n. \<not> node_unhealthy now timeout n) ns))"
      using listed by (simp add: distinct_map_filter)
    have "node_index (filter (\<lambda>n. \<not> node_unhealthy now timeout n) ns) i = Some n \<longleftrightarrow>
        alive_node jc s now timeout i = Some n" for n
    proof -
      have "n \<in> set ns \<and> nm_NodeID n = i \<longleftrightarrow> node_at jc s i = Some n" using at [of n] inn [of i n] by blast
      moreover have "alive_node jc s now timeout i = Some n \<longleftrightarrow> node_at jc s i = Some n \<and> \<not> node_unhealthy now timeout n"
        by (cases "node_at jc s i") (auto simp: alive_node_def judged_unhealthy_def)
      ultimately show ?thesis using node_index_iff [OF dist] by auto
    qed
    then show ?thesis by (metis option.exhaust)
  qed
qed

section \<open>The pass\<close>

lemma ListFiles_ids:
  assumes "store_ok jc s" "ListFiles jc s = Inr fs"
  shows "distinct (map fm_FileID fs)" "f \<in> set fs \<Longrightarrow> \<exists>ps. file_at jc s (fm_FileID f) = Some (f, ps)"
    and "file_at jc s i = Some (m, ps) \<Longrightarrow> m \<in> set fs \<and> fm_FileID m = i"
proof -
  have ids: "fm_FileID r = i"
    if "Option.bind (stored s bucketFiles i) (unmarshal_struct jc put_FileMetadata zero_FileMetadata) = Some r" for i r
  proof -
    from that obtain v where "stored s bucketFiles i = Some v" by (auto simp: bind_eq_Some_conv)
    from store_okD(6) [OF assms(1) this] obtain e where e: "file_at jc s i = Some e" by blast
    with file_of_entry [OF e] that store_okD(4) [OF assms(1) e] show ?thesis by (simp add: entry_id_def)
  qed
  have "unmarshal_each jc put_FileMetadata zero_FileMetadata (bucket_values s bucketFiles) = Inr fs"
    using assms(2) by (simp add: ListFiles_def split: option.splits)
  from bucket_read(1) [OF store_okD(2) [OF assms(1)] this ids] show "distinct (map fm_FileID fs)" .
  note law = ListFiles_law [OF assms]
  show "\<exists>ps. file_at jc s (fm_FileID f) = Some (f, ps)" if "f \<in> set fs"
  proof -
    from that law obtain i e where e: "file_at jc s i = Some e" "f = fst e" by (auto simp: ran_def)
    with store_okD(4) [OF assms(1) e(1)] show ?thesis by (cases e) (auto simp: entry_id_def)
  qed
  show "m \<in> set fs \<and> fm_FileID m = i" if "file_at jc s i = Some (m, ps)"
  proof -
    have "m \<in> fst ` ran (file_at jc s)" using that by (force intro: ranI)
    with law store_okD(4) [OF assms(1) that] show ?thesis by (simp add: entry_id_def)
  qed
qed

lemma ListFiles_ok:
  assumes "store_ok jc s" "bb_view (db_ops s) (db_file s) = None"
  shows "\<exists>fs. ListFiles jc s = Inr fs"
proof -
  have "unmarshal_struct jc put_FileMetadata zero_FileMetadata v \<noteq> None" if v: "v \<in> set (bucket_values s bucketFiles)" for v
  proof -
    from v obtain i where "(i, v) \<in> set (bb_entries (db_ops s) (db_file s) bucketFiles)"
      by (auto simp: bucket_values_def)
    then have "stored s bucketFiles i = Some v" by (simp add: bolt_entries(2) [OF store_okD(2) [OF assms(1)]])
    with store_okD(6) [OF assms(1) this] show ?thesis by (auto simp: file_at_def bind_eq_Some_conv)
  qed
  then have "\<exists>rs. unmarshal_each jc put_FileMetadata zero_FileMetadata (bucket_values s bucketFiles) = Inr rs"
    by (rule unmarshal_each_ok)
  with assms(2) show ?thesis by (simp add: ListFiles_def)
qed

text \<open>
  The conditions under which a pass does all it should: every exchange is delivered, the database
  takes every write, a node that is not judged unhealthy has space, and those that are not are
  at the addresses \<open>A\<close>, where there are nodes with room.
\<close>

definition pass_live :: "repair_env \<Rightarrow> int \<Rightarrow> int \<Rightarrow> string set \<Rightarrow> 'd Store \<Rightarrow> 'd world \<Rightarrow> bool" where
  "pass_live E now timeout A s w \<longleftrightarrow> (\<forall>n. net_fate (re_net E) n = Delivered) \<and> roomy_at (rr_networkKey (re_keys E)) A w
     \<and> (\<forall>d. bb_view (db_ops s) d = None)
     \<and> (\<forall>i d v. node_at (net_json (re_net E)) s i \<noteq> None \<longrightarrow> is_ok (bb_update (db_ops s) d [(bucketNodes, i, v)]))
     \<and> (\<forall>i d m p. file_at (net_json (re_net E)) s i \<noteq> None \<longrightarrow> is_ok (bb_update (db_ops s) d [(bucketFiles, i, m), (bucketPlacements, i, p)]))
     \<and> (\<exists>i n. alive_node (net_json (re_net E)) s now timeout i = Some n \<and> 0 \<le> free_space n)
     \<and> (\<forall>i n. alive_node (net_json (re_net E)) s now timeout i = Some n \<longrightarrow> nm_Address n \<in> A)"

lemma replaced_marked:
  assumes "\<And>i n. node_at (net_json (re_net E)) s1 i = Some n \<Longrightarrow> nm_IsHealthy n \<Longrightarrow> node_at (net_json (re_net E)) s i = Some n"
    and "replaced E truth s1 w e e'"
  shows "replaced E truth s w e e'"
proof -
  have "moved E truth s w p p'" if "moved E truth s1 w p p'" for p p'
    using that assms(1) unfolding moved_def by blast
  with assms(2) show ?thesis unfolding replaced_def by (auto elim: list_all2_mono)
qed

lemma alive_healthy: "alive_node jc s now timeout i = Some n \<longleftrightarrow> node_at jc s i = Some n \<and> \<not> node_unhealthy now timeout n"
  by (cases "node_at jc s i") (auto simp: alive_node_def judged_unhealthy_def)

text \<open>The run of the pass, in the two cases of its beginning.\<close>

lemma InspectAndRepair_run:
  assumes "store_ok (net_json (re_net E)) s" "NewEncoder (pm_rsNew (re_pm E)) DefaultDataShards DefaultParityShards = Inr enc"
    and "InspectAndRepair E now timeout s w = (out, st')"
  obtains e where "ListNodes (net_json (re_net E)) s = Inl e" "out = Failed (ErrStore e)" "st' = \<lparr>rp_store = s, rp_world = w, rp_count = 0\<rparr>"
  | ns s1 where "ListNodes (net_json (re_net E)) s = Inr ns" "s1 = mark_unhealthy (net_json (re_net E)) now timeout ns s"
      "filter (node_unhealthy now timeout) ns = []" "out = Done ()" "st' = \<lparr>rp_store = s1, rp_world = w, rp_count = 0\<rparr>"
  | ns s1 e where "ListNodes (net_json (re_net E)) s = Inr ns" "s1 = mark_unhealthy (net_json (re_net E)) now timeout ns s"
      "ListFiles (net_json (re_net E)) s1 = Inl e" "out = Failed (ErrStore e)" "st' = \<lparr>rp_store = s1, rp_world = w, rp_count = 0\<rparr>"
  | ns s1 fs where "ListNodes (net_json (re_net E)) s = Inr ns" "s1 = mark_unhealthy (net_json (re_net E)) now timeout ns s"
      "ListFiles (net_json (re_net E)) s1 = Inr fs"
      "repair_files E (judged_unhealthy (net_json (re_net E)) s now timeout) (alive_node (net_json (re_net E)) s now timeout) enc fs
         \<lparr>rp_store = s1, rp_world = w, rp_count = 0\<rparr> = (out, st')"
proof (cases "ListNodes (net_json (re_net E)) s")
  case (Inl e)
  with assms(3) that(1) show thesis by (simp add: InspectAndRepair_def Let_def)
next
  case (Inr ns)
  note marked = marked_store [OF assms(1) Inr, where now = now and timeout = timeout]
  have un: "(\<lambda>i. i \<in> nm_NodeID ` set (filter (node_unhealthy now timeout) ns)) = judged_unhealthy (net_json (re_net E)) s now timeout"
    "node_index (filter (\<lambda>n. \<not> node_unhealthy now timeout n) ns) = alive_node (net_json (re_net E)) s now timeout"
    by (rule ext, rule marked(7), rule ext, rule marked(8))
  have run: "(out, st') = (if filter (node_unhealthy now timeout) ns = []
      then (Done (), \<lparr>rp_store = mark_unhealthy (net_json (re_net E)) now timeout ns s, rp_world = w, rp_count = 0\<rparr>)
      else case ListFiles (net_json (re_net E)) (mark_unhealthy (net_json (re_net E)) now timeout ns s) of
             Inl e \<Rightarrow> (Failed (ErrStore e), \<lparr>rp_store = mark_unhealthy (net_json (re_net E)) now timeout ns s, rp_world = w, rp_count = 0\<rparr>)
           | Inr files \<Rightarrow> repair_files E (judged_unhealthy (net_json (re_net E)) s now timeout) (alive_node (net_json (re_net E)) s now timeout)
               enc files \<lparr>rp_store = mark_unhealthy (net_json (re_net E)) now timeout ns s, rp_world = w, rp_count = 0\<rparr>)"
    using assms(3) [symmetric]
    by (simp only: InspectAndRepair_def Let_def Inr assms(2) sum.case un repairing.select_convs repairing.update_convs)
  show thesis
  proof (cases "filter (node_unhealthy now timeout) ns = []")
    case True
    with run that(2) [OF Inr refl] show thesis by simp
  next
    case False
    with run that(3,4) [OF Inr refl] show thesis
      by (cases "ListFiles (net_json (re_net E)) (mark_unhealthy (net_json (re_net E)) now timeout ns s)") simp_all
  qed
qed

text \<open>Whatever happens in a pass, it keeps what there is.\<close>

lemma InspectAndRepair_keeps:
  assumes "primitives_ok (re_pm E)" "NewEncoder (pm_rsNew (re_pm E)) DefaultDataShards DefaultParityShards = Inr enc"
    and "repair_ok E truth s w" "orders_ok E" "described_files enc truth (net_json (re_net E)) s"
    and "InspectAndRepair E now timeout s w = (out, st')"
  shows "repair_ok E truth (rp_store st') (rp_world st')" "env_refreshed E truth w (rp_world st')"
    and "wd_trackers (rp_world st') = wd_trackers w" "out \<noteq> Panicked" "db_ops (rp_store st') = db_ops s"
    and "rel_option (replaced E truth s (rp_world st')) (file_at (net_json (re_net E)) s i) (file_at (net_json (re_net E)) (rp_store st') i)"
    and "node_at (net_json (re_net E)) (rp_store st') i = Some n \<Longrightarrow> nm_IsHealthy n \<Longrightarrow> node_at (net_json (re_net E)) s i = Some n"
proof -
  let ?jc = "net_json (re_net E)"
  have enc: "encoder_ok enc" "dataShards enc = 4" "totalShards enc = 8"
    using default_encoder [OF assms(1)] assms(2) by (metis sum.inject(2))+
  have s: "store_ok ?jc s" using assms(3) by (simp add: repair_ok_def)
  have marked_ok: "repair_ok E truth s1 w" if "store_ok ?jc s1" for s1 using assms(3) that by (simp add: repair_ok_def)
  have *: "repair_ok E truth (rp_store st') (rp_world st') \<and> env_refreshed E truth w (rp_world st')
    \<and> wd_trackers (rp_world st') = wd_trackers w \<and> out \<noteq> Panicked \<and> db_ops (rp_store st') = db_ops s
    \<and> (\<forall>i. rel_option (replaced E truth s (rp_world st')) (file_at ?jc s i) (file_at ?jc (rp_store st') i))
    \<and> (\<forall>i n. node_at ?jc (rp_store st') i = Some n \<longrightarrow> nm_IsHealthy n \<longrightarrow> node_at ?jc s i = Some n)"
  proof (cases rule: InspectAndRepair_run [OF s assms(2,6)])
    case (1 e)
    with assms(3) show ?thesis by (simp add: refreshed_same option.rel_refl replaced_refl)
  next
    case (2 ns s1)
    with marked_ok [of s1] marked_store(1-4) [OF s 2(1), of now timeout, folded 2(2)] show ?thesis
      by (auto simp: refreshed_same option.rel_refl replaced_refl)
  next
    case (3 ns s1 e)
    with marked_ok [of s1] marked_store(1-4) [OF s 3(1), of now timeout, folded 3(2)] show ?thesis
      by (auto simp: refreshed_same option.rel_refl replaced_refl)
  next
    case (4 ns s1 fs)
    note marked = marked_store [OF s 4(1), where now = now and timeout = timeout, folded 4(2)]
    have ok1: "repair_ok E truth s1 w" by (rule marked_ok [OF marked(1)])
    have desc: "described_files enc truth ?jc s1" using assms(5) by (simp add: described_files_def marked(2))
    note law = repair_files_law [OF _ enc assms(4) _ 4(4), of truth, simplified, OF ok1 desc]
    then have rep: "repaired_store E truth s1 (rp_world st') (rp_store st')" by blast
    have "rel_option (replaced E truth s (rp_world st')) (file_at ?jc s i) (file_at ?jc (rp_store st') i)" for i
    proof -
      have "rel_option (replaced E truth s1 (rp_world st')) (file_at ?jc s i) (file_at ?jc (rp_store st') i)"
        using rep by (simp add: repaired_store_def marked(2))
      then show ?thesis by (rule option.rel_mono_strong) (rule replaced_marked [OF marked(4)])
    qed
    moreover have "node_at ?jc (rp_store st') = node_at ?jc s1" "db_ops (rp_store st') = db_ops s"
      using rep marked(3) by (simp_all add: repaired_store_def)
    ultimately show ?thesis using law marked(4) by (auto simp: carried_def)
  qed
  from * show "repair_ok E truth (rp_store st') (rp_world st')" "env_refreshed E truth w (rp_world st')"
    "wd_trackers (rp_world st') = wd_trackers w" "out \<noteq> Panicked" "db_ops (rp_store st') = db_ops s"
    "rel_option (replaced E truth s (rp_world st')) (file_at ?jc s i) (file_at ?jc (rp_store st') i)"
    "node_at ?jc (rp_store st') i = Some n \<Longrightarrow> nm_IsHealthy n \<Longrightarrow> node_at ?jc s i = Some n"
    by blast+
qed

text \<open>When nothing hinders it, it succeeds, and nothing is left where it was missing.\<close>

lemma InspectAndRepair_live:
  assumes "primitives_ok (re_pm E)" "NewEncoder (pm_rsNew (re_pm E)) DefaultDataShards DefaultParityShards = Inr enc"
    and "repair_ok E truth s w" "orders_ok E" "described_files enc truth (net_json (re_net E)) s"
    and "InspectAndRepair E now timeout s w = (out, st')" "pass_live E now timeout A s w"
    and "\<And>i m ps ci. file_at (net_json (re_net E)) s i = Some (m, ps) \<Longrightarrow>
      recoverable E truth (judged_unhealthy (net_json (re_net E)) s now timeout) (alive_node (net_json (re_net E)) s now timeout) w (chunk_group ci ps)"
  shows "out = Done ()"
    and "file_at (net_json (re_net E)) (rp_store st') i = Some (m, ps) \<Longrightarrow> p \<in> set ps \<Longrightarrow>
      \<not> judged_unhealthy (net_json (re_net E)) s now timeout (sp_NodeID p)"
proof -
  let ?jc = "net_json (re_net E)" and ?un = "judged_unhealthy (net_json (re_net E)) s now timeout"
  have enc: "encoder_ok enc" "dataShards enc = 4" "totalShards enc = 8"
    using default_encoder [OF assms(1)] assms(2) by (metis sum.inject(2))+
  have s: "store_ok ?jc s" using assms(3) by (simp add: repair_ok_def)
  have view: "\<And>d. bb_view (db_ops s) d = None" using assms(7) by (simp add: pass_live_def)
  have regs: "is_ok (bb_update (db_ops s) d [(bucketNodes, i, v)])" if "node_at ?jc s i \<noteq> None" for i d v
    using assms(7) that by (auto simp: pass_live_def)
  obtain ns0 where ns0: "ListNodes ?jc s = Inr ns0" using ListNodes_ok [OF s view] by blast
  have "out = Done () \<and> (\<forall>i m ps. file_at ?jc (rp_store st') i = Some (m, ps) \<longrightarrow> (\<forall>p \<in> set ps. \<not> ?un (sp_NodeID p)))"
  proof (cases rule: InspectAndRepair_run [OF s assms(2,6)])
    case (1 e)
    with ns0 show ?thesis by simp
  next
    case (2 ns s1)
    note marked = marked_store [OF s 2(1), where now = now and timeout = timeout, folded 2(2)]
    have "\<not> ?un i" for i using marked(7) [of i] 2(3) by simp
    with 2(4) show ?thesis by simp
  next
    case (3 ns s1 e)
    note marked = marked_store [OF s 3(1), where now = now and timeout = timeout, folded 3(2)]
    from ListFiles_ok [OF marked(1)] marked(3) view 3(3) show ?thesis by auto
  next
    case (4 ns s1 fs)
    note marked = marked_store [OF s 4(1), where now = now and timeout = timeout, folded 4(2)]
    let ?st = "\<lparr>rp_store = s1, rp_world = w, rp_count = 0\<rparr>"
    have ok1: "repair_ok E truth s1 w" using assms(3) marked(1) by (simp add: repair_ok_def)
    have desc: "described_files enc truth ?jc s1" using assms(5) by (simp add: described_files_def marked(2))
    note law = repair_files_law [OF _ enc assms(4) _ 4(4), of truth A, simplified, OF ok1 desc]
    have chosen: "alive_node ?jc s now timeout i = Some n" if "node_at ?jc s1 i = Some n" "nm_IsHealthy n" for i n
    proof -
      have "\<not> ?un i" using marked(6) [OF regs] that by (simp add: choosable_def)
      with marked(4) [OF that] show ?thesis by (simp add: alive_node_def)
    qed
    have kept: "node_at ?jc s1 i = Some n \<and> nm_IsHealthy n" if "alive_node ?jc s now timeout i = Some n" for i n
      using that marked(5) by (auto simp: alive_healthy node_unhealthy_def)
    have "repair_live E A s1 w"
      unfolding repair_live_def
    proof (intro conjI allI impI)
      show "\<exists>i n. node_at ?jc s1 i = Some n \<and> nm_IsHealthy n \<and> 0 \<le> free_space n"
        using assms(7) kept unfolding pass_live_def by blast
      show "nm_Address n \<in> A" if "node_at ?jc s1 i = Some n" "nm_IsHealthy n" for i n
        using chosen [OF that] assms(7) unfolding pass_live_def by blast
    qed (use assms(7) in \<open>simp_all add: pass_live_def marked(2,3)\<close>)
    moreover have "distinct (map fm_FileID fs)" by (rule ListFiles_ids(1) [OF marked(1) 4(3)])
    ultimately have fine: "out = Done ()" using law assms(8) by (simp add: marked(2))
    have rep: "repaired_store E truth s1 (rp_world st') (rp_store st')" using law by blast
    have "\<not> ?un (sp_NodeID p)" if found: "file_at ?jc (rp_store st') i = Some (m, ps)" and p: "p \<in> set ps" for i m ps p
    proof
      assume bad: "?un (sp_NodeID p)"
      have "store_ok ?jc (rp_store st')" using law by (simp add: carried_def repair_ok_def)
      then have i: "fm_FileID m = i" using store_okD(4) found by (fastforce simp: entry_id_def)
      have "rel_option (replaced E truth s1 (rp_world st')) (file_at ?jc s1 i) (file_at ?jc (rp_store st') i)"
        using rep by (simp add: repaired_store_def)
      then obtain ps0 where "file_at ?jc s1 i = Some (m, ps0)"
        using found by (cases "file_at ?jc s1 i") (auto simp: replaced_def)
      then have "m \<in> set fs" using ListFiles_ids(3) [OF marked(1) 4(3)] by blast
      with law fine view found i have "settled E ?un s1 ps" by (simp add: marked(3))
      with p bad have "choosable ?jc s1 (sp_NodeID p)" by (simp add: settled_def)
      with marked(6) [OF regs] bad show False by blast
    qed
    with fine show ?thesis by blast
  qed
  then show "out = Done ()" "file_at ?jc (rp_store st') i = Some (m, ps) \<Longrightarrow> p \<in> set ps \<Longrightarrow> \<not> ?un (sp_NodeID p)" by blast+
qed

end
