(* ===== verification/System.thy ===== *)
theory System
  imports RepairPass SoundCmds
begin

text \<open>
  The network as a whole: uploads, downloads, nodes that start and go, liveness passes, repair
  passes and other requests, in any order and each with its own failures, against the simplest
  description of a file store, a map from file identifiers to contents.
\<close>

section \<open>What happens in the network\<close>

text \<open>
  What all of its members share: the codec and the primitives of their program, and the clients'
  configuration, which names the tracker and from which the keys come.
\<close>

record deployment =
  dp_json :: json_codec
  dp_pm :: primitives
  dp_cfg :: ClientConfig

definition network_of :: "deployment \<Rightarrow> network \<Rightarrow> bool" where
  "network_of D N \<longleftrightarrow> network_ok N \<and> net_json N = dp_json D"

abbreviation tracker_url :: "deployment \<Rightarrow> string" where
  "tracker_url D \<equiv> cc_TrackerAddr (dp_cfg D)"

datatype event =
    Uploaded string bytes
  | UploadFailed string bytes
  | Downloaded string "bytes option"
  | Upkeep

definition upload_event :: "string \<Rightarrow> bytes \<Rightarrow> string outcome \<Rightarrow> event" where
  "upload_event fid content out = (case out of Done _ \<Rightarrow> Uploaded fid content | _ \<Rightarrow> UploadFailed fid content)"

text \<open>The repairer is given the network's key and the clients' encryption key.\<close>

definition repairer_of :: "deployment \<Rightarrow> repair_env \<Rightarrow> bool" where
  "repairer_of D E \<longleftrightarrow> network_of D (re_net E) \<and> re_pm E = dp_pm D \<and> orders_ok E \<and> (\<forall>j. rand_ok (re_rnd E j))
     \<and> rr_networkKey (re_keys E) = bytes_of_string (cc_NetworkKey (dp_cfg D))
     \<and> client_key (dp_pm D) (dp_cfg D) = Inr (rr_cryptoKey (re_keys E))"

inductive happens :: "deployment \<Rightarrow> event \<Rightarrow> 'd world \<Rightarrow> 'd world \<Rightarrow> bool" for D where
  upload: "network_of D N \<Longrightarrow> randomness_ok rn \<Longrightarrow> file_given f \<Longrightarrow>
      runPut N (dp_pm D) rn (Inr (dp_cfg D)) (Inr f) w = (out, w') \<Longrightarrow>
      happens D (upload_event (randomHex (rn_fileID rn) 16) (rd_content (of_reader f)) out) w w'"
| download: "network_of D N \<Longrightarrow> plain_text fid \<Longrightarrow> fid \<noteq> '''' \<Longrightarrow>
      runGet N (dp_pm D) (Inr (dp_cfg D)) buffer_write (Inr []) fid w = (res, written, w') \<Longrightarrow>
      happens D (Downloaded fid (if res = Done () then written else None)) w w'"
| node_starts: "network_of D N \<Longrightarrow> wd_nodes w a = None \<Longrightarrow> server_ok s \<Longrightarrow> holds s = Map.empty \<Longrightarrow>
      nc_TrackerAddr ncfg = tracker_url D \<Longrightarrow>
      happens D Upkeep w (registerWithTracker N ncfg (w\<lparr>wd_nodes := (wd_nodes w)(a \<mapsto> s)\<rparr>))"
| nodes_go: "nodes_lost w w' \<Longrightarrow> happens D Upkeep w w'"
| request: "network_of D N \<Longrightarrow> \<forall>b. req \<noteq> PostFiles b \<Longrightarrow> tracker_do N (tracker_url D) key req w = (r, w') \<Longrightarrow> happens D Upkeep w w'"
| liveness_pass: "wd_trackers w (tracker_url D) = Some t \<Longrightarrow> ApplyLiveness (dp_json D) (ts_store t) lc now = (r, s) \<Longrightarrow>
      happens D Upkeep w (w\<lparr>wd_trackers := (wd_trackers w)(tracker_url D \<mapsto> t\<lparr>ts_store := s\<rparr>)\<rparr>)"
| repair_pass: "repairer_of D E \<Longrightarrow> wd_trackers w (tracker_url D) = Some t \<Longrightarrow>
      InspectAndRepair E now timeout (ts_store t) w = (out, st) \<Longrightarrow>
      happens D Upkeep w ((rp_world st)\<lparr>wd_trackers := (wd_trackers (rp_world st))(tracker_url D \<mapsto> t\<lparr>ts_store := rp_store st\<rparr>)\<rparr>)"

inductive runs :: "deployment \<Rightarrow> event list \<Rightarrow> 'd world \<Rightarrow> 'd world \<Rightarrow> bool" for D where
  runs_none: "runs D [] w w"
| runs_step: "happens D e w v \<Longrightarrow> runs D es v w' \<Longrightarrow> runs D (e # es) w w'"

section \<open>What a file store is\<close>

text \<open>
  An upload that fails may have taken effect, when only the last reply was lost. A download gives
  nothing or the file.
\<close>

record catalog =
  ct_used :: "string set"
  ct_files :: "string \<Rightarrow> bytes option"

inductive catalog_step :: "event \<Rightarrow> catalog \<Rightarrow> catalog \<Rightarrow> bool" where
  "fid \<notin> ct_used c \<Longrightarrow>
     catalog_step (Uploaded fid content) c \<lparr>ct_used = insert fid (ct_used c), ct_files = (ct_files c)(fid \<mapsto> content)\<rparr>"
| "fid \<notin> ct_used c \<Longrightarrow> fs = ct_files c \<or> fs = (ct_files c)(fid \<mapsto> content) \<Longrightarrow>
     catalog_step (UploadFailed fid content) c \<lparr>ct_used = insert fid (ct_used c), ct_files = fs\<rparr>"
| "res = None \<or> res = ct_files c fid \<Longrightarrow> catalog_step (Downloaded fid res) c c"
| "catalog_step Upkeep c c"

inductive_simps catalog_step_simps:
  "catalog_step (Uploaded fid content) c c'" "catalog_step (UploadFailed fid content) c c'"
  "catalog_step (Downloaded fid res) c c'" "catalog_step Upkeep c c'"

inductive catalog_runs :: "event list \<Rightarrow> catalog \<Rightarrow> catalog \<Rightarrow> bool" where
  "catalog_runs [] c c"
| "catalog_step e c c1 \<Longrightarrow> catalog_runs es c1 c' \<Longrightarrow> catalog_runs (e # es) c c'"

inductive_simps catalog_runs_simps: "catalog_runs [] c c'" "catalog_runs (e # es) c c'"

fun upload_ids :: "event list \<Rightarrow> string list" where
  "upload_ids [] = []"
| "upload_ids (Uploaded fid _ # es) = fid # upload_ids es"
| "upload_ids (UploadFailed fid _ # es) = fid # upload_ids es"
| "upload_ids (_ # es) = upload_ids es"

section \<open>The correspondence\<close>

text \<open>
  The tracker lists exactly the files of the catalog, as placements of their shards; no node holds
  anything under a shard's identifier that decrypts to something else; and what the nodes hold
  belongs to uploads made so far.
\<close>

definition used_shard :: "catalog \<Rightarrow> string \<Rightarrow> bool" where
  "used_shard c i \<longleftrightarrow> (\<exists>f \<in> ct_used c. shard_of_file f i)"

definition nodes_ok :: "'d world \<Rightarrow> bool" where
  "nodes_ok w \<longleftrightarrow> (\<forall>a s. wd_nodes w a = Some s \<longrightarrow> server_ok s)"

definition tracker_keeps :: "deployment \<Rightarrow> Encoder \<Rightarrow> shard_truth \<Rightarrow> catalog \<Rightarrow> 'd Store \<Rightarrow> bool" where
  "tracker_keeps D enc truth c s \<longleftrightarrow> store_ok (dp_json D) s \<and> (\<forall>d. bb_view (db_ops s) d = None)
     \<and> (\<forall>i. rel_option (\<lambda>e content. holds_file enc truth content (snd e)) (file_at (dp_json D) s i) (ct_files c i))"

definition nodes_keep :: "deployment \<Rightarrow> bytes \<Rightarrow> shard_truth \<Rightarrow> catalog \<Rightarrow> 'd world \<Rightarrow> bool" where
  "nodes_keep D key truth c w \<longleftrightarrow> nodes_ok w \<and> faithful (pm_newx (dp_pm D)) key truth w
     \<and> (\<forall>a i. held_at w a i \<noteq> None \<longrightarrow> used_shard c i)"

definition catalog_ok :: "shard_truth \<Rightarrow> catalog \<Rightarrow> bool" where
  "catalog_ok truth c \<longleftrightarrow> (\<forall>i. truth i \<noteq> None \<longrightarrow> used_shard c i) \<and> (\<forall>f \<in> ct_used c. plain_text f)"

definition keeps :: "deployment \<Rightarrow> catalog \<Rightarrow> 'd world \<Rightarrow> bool" where
  "keeps D c w \<longleftrightarrow> (\<exists>key enc truth t. client_key (dp_pm D) (dp_cfg D) = Inr key
     \<and> NewEncoder (pm_rsNew (dp_pm D)) DefaultDataShards DefaultParityShards = Inr enc
     \<and> wd_trackers w (tracker_url D) = Some t \<and> tracker_keeps D enc truth c (ts_store t)
     \<and> nodes_keep D key truth c w \<and> catalog_ok truth c)"

definition deployed :: "deployment \<Rightarrow> 'd world \<Rightarrow> bool" where
  "deployed D w \<longleftrightarrow> primitives_ok (dp_pm D) \<and> is_ok (client_key (dp_pm D) (dp_cfg D)) \<and> nodes_ok w
     \<and> (\<forall>a. held_at w a = Map.empty)
     \<and> (case wd_trackers w (tracker_url D) of None \<Rightarrow> False
        | Some t \<Rightarrow> store_ok (dp_json D) (ts_store t) \<and> (\<forall>d. bb_view (db_ops (ts_store t)) d = None)
            \<and> file_at (dp_json D) (ts_store t) = Map.empty)"

definition empty_catalog :: catalog where
  "empty_catalog = \<lparr>ct_used = {}, ct_files = Map.empty\<rparr>"

lemma keeps_deployed: "deployed D w \<Longrightarrow> keeps D empty_catalog w"
proof -
  assume d: "deployed D w"
  then obtain key where key: "client_key (dp_pm D) (dp_cfg D) = Inr key" by (auto simp: deployed_def elim: is_okE)
  from d obtain enc where enc: "NewEncoder (pm_rsNew (dp_pm D)) DefaultDataShards DefaultParityShards = Inr enc"
    by (auto simp: deployed_def elim: default_encoder)
  from d obtain t where t: "wd_trackers w (tracker_url D) = Some t" "tracker_keeps D enc Map.empty empty_catalog (ts_store t)"
    by (auto simp: deployed_def tracker_keeps_def empty_catalog_def split: option.splits)
  moreover have "nodes_keep D key Map.empty empty_catalog w" using d by (simp add: deployed_def nodes_keep_def faithful_def)
  moreover have "catalog_ok Map.empty empty_catalog" by (simp add: catalog_ok_def empty_catalog_def)
  ultimately show ?thesis using key enc unfolding keeps_def by blast
qed

lemma plain_no_dash: "plain_text f \<Longrightarrow> CHR ''-'' \<notin> set f"
  by (auto simp: plain_text_def list_all_iff Let_def)

text \<open>A shard's identifier tells its file.\<close>

lemma shard_of_file_unique:
  assumes "shard_of_file f i" "shard_of_file g i" "plain_text f" "plain_text g"
  shows "f = g"
proof -
  have cut: "takeWhile (\<lambda>x. x \<noteq> CHR ''-'') (shard_id h c k) = h" if "plain_text h" for h c k
  proof -
    have "takeWhile (\<lambda>x. x \<noteq> CHR ''-'') (h @ CHR ''-'' # ys) = h" for ys
      using plain_no_dash [OF that] by (induction h) auto
    then show ?thesis by (simp add: shard_id_def)
  qed
  from assms(1,2) obtain c k c' k' where "i = shard_id f c k" "i = shard_id g c' k'"
    unfolding shard_of_file_def by blast
  with cut [OF assms(3)] cut [OF assms(4)] show ?thesis by metis
qed

lemma network_rpc: "network_of D N \<Longrightarrow> rpc_ok (N, k) w \<longleftrightarrow> nodes_ok w"
  by (simp add: network_of_def rpc_ok_def nodes_ok_def)

lemma keepsI:
  assumes "client_key (dp_pm D) (dp_cfg D) = Inr key"
    and "NewEncoder (pm_rsNew (dp_pm D)) DefaultDataShards DefaultParityShards = Inr enc"
    and "wd_trackers w (tracker_url D) = Some t" "tracker_keeps D enc truth c (ts_store t)"
    and "nodes_keep D key truth c w" "catalog_ok truth c"
  shows "keeps D c w"
  using assms unfolding keeps_def by blast

lemma nodes_keep_same: "nodes_keep D key truth c w \<Longrightarrow> held_at w' = held_at w \<Longrightarrow> nodes_ok w' \<Longrightarrow> nodes_keep D key truth c w'"
  by (simp add: nodes_keep_def faithful_def)

lemma tracker_keeps_same:
  assumes "tracker_keeps D enc truth c s" "store_ok (dp_json D) s'" "db_ops s' = db_ops s" "file_at (dp_json D) s' = file_at (dp_json D) s"
  shows "tracker_keeps D enc truth c s'"
  using assms by (simp add: tracker_keeps_def)

section \<open>Each step keeps it\<close>

lemma tracker_request_keeps:
  assumes "network_of D N" "keeps D c w" "\<forall>b. req \<noteq> PostFiles b" "tracker_do N (tracker_url D) key req w = (r, w')"
  shows "keeps D c w'"
proof -
  from assms(2) obtain ck enc truth t where k: "client_key (dp_pm D) (dp_cfg D) = Inr ck"
    "NewEncoder (pm_rsNew (dp_pm D)) DefaultDataShards DefaultParityShards = Inr enc"
    "wd_trackers w (tracker_url D) = Some t" "tracker_keeps D enc truth c (ts_store t)"
    "nodes_keep D ck truth c w" "catalog_ok truth c" by (auto simp: keeps_def)
  have store: "store_ok (net_json N) (ts_store t)" and jc: "net_json N = dp_json D"
    using assms(1) k(4) by (simp_all add: tracker_keeps_def network_of_def)
  have at: "tracker_at N (tracker_url D) w t" using assms(1) k(3) store by (simp add: tracker_at_def network_of_def)
  from tracker_do_cases [OF at assms(4)] consider "w' = next_call w"
    | h a t' where "tracker_routes (net_sort N) (net_json N) h req t = (a, t')"
      "w' = next_call (w\<lparr>wd_trackers := (wd_trackers w)(tracker_url D \<mapsto> t')\<rparr>)" by blast
  then show ?thesis
  proof cases
    case 1
    then have "wd_trackers w' (tracker_url D) = Some t" "nodes_keep D ck truth c w'"
      using k(3) nodes_keep_same [OF k(5), of w'] k(5) by (simp_all add: nodes_ok_def nodes_keep_def)
    from keepsI [OF k(1,2) this(1) k(4) this(2) k(6)] show ?thesis .
  next
    case (2 h a t')
    have "tracker_serve (net_sort N) (net_json N) [(h, req)] t = ([a], t')" using 2(1) by simp
    note ops = tracker_serve_ops [OF this]
    have "\<not> saves_file (net_json N) i req" for i using assms(3) by (cases req) (auto simp: saves_file_def)
    then have "file_at (net_json N) (ts_store t') = file_at (net_json N) (ts_store t)"
      using tracker_routes_file [OF store 2(1)] by blast
    with tracker_routes_keeps [OF store 2(1)] ops k(4) have "tracker_keeps D enc truth c (ts_store t')"
      by (intro tracker_keeps_same [OF k(4)]) (simp_all add: jc)
    moreover have "nodes_keep D ck truth c w'"
      using k(5) by (simp add: nodes_keep_def nodes_ok_def faithful_def 2(2) held_at_def)
    moreover have "wd_trackers w' (tracker_url D) = Some t'" by (simp add: 2(2))
    ultimately show ?thesis using keepsI [OF k(1,2)] k(6) by blast
  qed
qed

lemma node_start_keeps:
  assumes "network_of D N" "keeps D c w" "wd_nodes w a = None" "server_ok s" "holds s = Map.empty" "nc_TrackerAddr ncfg = tracker_url D"
  shows "keeps D c (registerWithTracker N ncfg (w\<lparr>wd_nodes := (wd_nodes w)(a \<mapsto> s)\<rparr>))"
proof -
  let ?w = "w\<lparr>wd_nodes := (wd_nodes w)(a \<mapsto> s)\<rparr>"
  have held: "held_at ?w = held_at w" using assms(3,5) by (auto simp: held_at_def fun_eq_iff)
  have "keeps D c ?w"
    using assms(2) unfolding keeps_def
  proof (elim exE conjE, intro exI conjI)
    fix key enc truth t assume "nodes_keep D key truth c w"
    with assms(4) show "nodes_keep D key truth c ?w"
      by (intro nodes_keep_same [OF _ held]) (simp_all add: nodes_keep_def nodes_ok_def)
  qed (assumption | simp)+
  moreover from tracker_request_keeps [OF assms(1) this, of "PostNodes b" for b]
  have "keeps D c (snd (tracker_do N (tracker_url D) k (PostNodes b) ?w))" for k b
    by (metis prod.collapse tracker_request.distinct(5))
  ultimately show ?thesis by (simp add: registerWithTracker_def Let_def assms(6))
qed

lemma nodes_go_keeps:
  assumes "keeps D c w" "nodes_lost w w'"
  shows "keeps D c w'"
proof -
  have held: "held_at w' a = held_at w a \<or> held_at w' a = Map.empty" for a
  proof -
    from assms(2) have "wd_nodes w' a = wd_nodes w a \<or> wd_nodes w' a = None" by (simp add: nodes_lost_def)
    then show ?thesis by (auto simp: held_at_def)
  qed
  have "nodes_keep D key truth c w'" if "nodes_keep D key truth c w" for key truth
  proof -
    have "nodes_ok w'" using that assms(2) unfolding nodes_keep_def nodes_ok_def nodes_lost_def by (metis option.distinct(1))
    moreover have "held_at w' a i \<noteq> None \<Longrightarrow> held_at w' a i = held_at w a i" for a i using held [of a] by auto
    ultimately show ?thesis using that unfolding nodes_keep_def faithful_def by (metis option.distinct(1))
  qed
  moreover have "wd_trackers w' = wd_trackers w" using assms(2) by (simp add: nodes_lost_def)
  ultimately show ?thesis using assms(1) unfolding keeps_def by metis
qed

lemma apply_each_ops: "db_ops (snd (apply_each jc lc now ns s k)) = db_ops s"
proof (induction ns arbitrary: s k)
  case (Cons n ns)
  have "db_ops s' = db_ops s" if "RegisterNode jc s m = (e, s')" for m e s'
    using store_update_ops that by (metis RegisterNode_def snd_conv)
  with Cons show ?case by (auto simp: Let_def split: prod.split option.split)
qed simp

lemma ApplyLiveness_files:
  assumes "store_ok jc s" "ApplyLiveness jc s lc now = (r, s')"
  shows "store_ok jc s' \<and> file_at jc s' = file_at jc s \<and> db_ops s' = db_ops s"
proof (cases "ListNodes jc s")
  case (Inr ns)
  note listed = ListNodes_law [OF assms(1) Inr]
  obtain k e where r: "r = (k, e)" by fastforce
  have run: "tracker.update_nodes jc (liveness_change lc now) ns s 0 = ((k, e), s')" "apply_each jc lc now ns s 0 = (r, s')"
    using assms(2) Inr r by (simp_all add: ApplyLiveness_def apply_each_update)
  have upd: "node_ok n' \<and> nm_NodeID n' = nm_NodeID n" if "n \<in> set ns" "liveness_change lc now n = Some n'" for n n'
  proof -
    have "node_ok n" using that(1) listed store_okD(3) [OF assms(1)] by blast
    with liveness_change_same [OF that(2)] show ?thesis by simp
  qed
  from tracker.update_nodes_law [OF assms(1) run(1) conjunct1 [OF listed] upd] apply_each_ops [of jc lc now ns s 0] run(2)
  show ?thesis by auto
qed (use assms in \<open>simp add: ApplyLiveness_def\<close>)

lemma liveness_pass_keeps:
  assumes "keeps D c w" "wd_trackers w (tracker_url D) = Some t" "ApplyLiveness (dp_json D) (ts_store t) lc now = (r, s)"
  shows "keeps D c (w\<lparr>wd_trackers := (wd_trackers w)(tracker_url D \<mapsto> t\<lparr>ts_store := s\<rparr>)\<rparr>)"
proof -
  let ?w = "w\<lparr>wd_trackers := (wd_trackers w)(tracker_url D \<mapsto> t\<lparr>ts_store := s\<rparr>)\<rparr>"
  from assms(1,2) obtain key enc truth where k: "client_key (dp_pm D) (dp_cfg D) = Inr key"
    "NewEncoder (pm_rsNew (dp_pm D)) DefaultDataShards DefaultParityShards = Inr enc"
    "tracker_keeps D enc truth c (ts_store t)" "nodes_keep D key truth c w" "catalog_ok truth c" by (auto simp: keeps_def)
  have "store_ok (dp_json D) (ts_store t)" using k(3) by (simp add: tracker_keeps_def)
  from ApplyLiveness_files [OF this assms(3)] have "tracker_keeps D enc truth c s" by (intro tracker_keeps_same [OF k(3)]) simp_all
  moreover have "nodes_keep D key truth c ?w"
    using k(4) by (simp add: nodes_keep_def nodes_ok_def faithful_def held_at_def)
  ultimately show ?thesis by (intro keepsI [OF k(1,2) _ _ _ k(5), of ?w "t\<lparr>ts_store := s\<rparr>"]) simp_all
qed

lemma holds_file_moved:
  assumes "holds_file enc truth content ps" "list_all2 (moved E truth s w) ps ps'"
  shows "holds_file enc truth content ps'"
proof -
  have "map sp_ChunkIndex ps' = map sp_ChunkIndex ps"
    using assms(2) moved_fields(1) by (induction rule: list_all2_induct) auto
  then have "chunk_indices ps' = chunk_indices ps"
    unfolding chunk_indices_def by (metis list.set_map)
  with assms described_moved_all [OF assms(2)] show ?thesis by (simp add: holds_file_def)
qed

lemma repair_pass_ok:
  assumes "primitives_ok (dp_pm D)" "repairer_of D E" "client_key (dp_pm D) (dp_cfg D) = Inr key"
    and "NewEncoder (pm_rsNew (dp_pm D)) DefaultDataShards DefaultParityShards = Inr enc"
    and "tracker_keeps D enc truth c s" "nodes_keep D key truth c w" "catalog_ok truth c"
  shows "repair_ok E truth s w" "described_files enc truth (net_json (re_net E)) s"
proof -
  have E: "re_pm E = dp_pm D" "rr_cryptoKey (re_keys E) = key" "network_of D (re_net E)" "net_json (re_net E) = dp_json D"
    using assms(2,3) by (simp_all add: repairer_of_def network_of_def)
  show "repair_ok E truth s w"
    using assms(2,5,6) client_key_ok [OF assms(1,3)] network_rpc [OF E(3), of _ w] unfolding repair_ok_def
    by (simp add: E repairer_of_def tracker_keeps_def nodes_keep_def)
  have "described_file enc truth (snd e)" if "file_at (dp_json D) s i = Some e" for i e
  proof -
    have "rel_option (\<lambda>e content. holds_file enc truth content (snd e)) (file_at (dp_json D) s i) (ct_files c i)"
      using assms(5) by (simp add: tracker_keeps_def)
    with that obtain content where "holds_file enc truth content (snd e)" by (cases "ct_files c i") auto
    then show ?thesis unfolding described_file_def holds_file_def by blast
  qed
  then show "described_files enc truth (net_json (re_net E)) s"
    unfolding described_files_def E(4) by fastforce
qed

lemma repair_pass_keeps:
  assumes "primitives_ok (dp_pm D)" "keeps D c w" "repairer_of D E" "wd_trackers w (tracker_url D) = Some t"
    and "InspectAndRepair E now timeout (ts_store t) w = (out, st)"
  shows "keeps D c ((rp_world st)\<lparr>wd_trackers := (wd_trackers (rp_world st))(tracker_url D \<mapsto> t\<lparr>ts_store := rp_store st\<rparr>)\<rparr>)"
proof -
  let ?w = "(rp_world st)\<lparr>wd_trackers := (wd_trackers (rp_world st))(tracker_url D \<mapsto> t\<lparr>ts_store := rp_store st\<rparr>)\<rparr>"
  from assms(2,4) obtain key enc truth where k: "client_key (dp_pm D) (dp_cfg D) = Inr key"
    "NewEncoder (pm_rsNew (dp_pm D)) DefaultDataShards DefaultParityShards = Inr enc"
    "tracker_keeps D enc truth c (ts_store t)" "nodes_keep D key truth c w" "catalog_ok truth c" by (auto simp: keeps_def)
  have E: "re_pm E = dp_pm D" "rr_cryptoKey (re_keys E) = key" "network_of D (re_net E)" "orders_ok E" "net_json (re_net E) = dp_json D"
    using assms(3) k(1) by (simp_all add: repairer_of_def network_of_def)
  note rok = repair_pass_ok [OF assms(1,3) k]
  note kept = InspectAndRepair_keeps [OF assms(1) [folded E(1)] k(2) [folded E(1)] rok(1) E(4) rok(2) assms(5), unfolded E(5)]
  have "rel_option (\<lambda>e content. holds_file enc truth content (snd e)) (file_at (dp_json D) (rp_store st) i) (ct_files c i)" for i
  proof -
    have r1: "rel_option (\<lambda>e content. holds_file enc truth content (snd e)) (file_at (dp_json D) (ts_store t) i) (ct_files c i)"
      using k(3) by (simp add: tracker_keeps_def)
    have r2: "rel_option (replaced E truth (ts_store t) (rp_world st)) (file_at (dp_json D) (ts_store t) i) (file_at (dp_json D) (rp_store st) i)"
      by (rule kept(6))
    from r1 r2 show ?thesis
      by (cases "file_at (dp_json D) (ts_store t) i"; cases "file_at (dp_json D) (rp_store st) i"; cases "ct_files c i")
        (auto simp: replaced_def intro: holds_file_moved)
  qed
  then have "tracker_keeps D enc truth c (rp_store st)"
    using kept(1,5) k(3) by (simp add: tracker_keeps_def repair_ok_def E(5))
  moreover have "nodes_keep D key truth c (rp_world st)"
  proof -
    have "used_shard c i" if "held_at (rp_world st) a i \<noteq> None" for a i
      using that kept(2) k(4,5) unfolding refreshed_def nodes_keep_def catalog_ok_def by (metis option.distinct(1))
    with kept(1) show ?thesis using network_rpc [OF E(3), of _ "rp_world st"] by (simp add: nodes_keep_def repair_ok_def E)
  qed
  then have "nodes_keep D key truth c ?w" by (simp add: nodes_keep_def nodes_ok_def faithful_def held_at_def)
  ultimately show ?thesis by (intro keepsI [OF k(1,2) _ _ _ k(5), of ?w "t\<lparr>ts_store := rp_store st\<rparr>"]) simp_all
qed

lemma upload_keeps:
  assumes "primitives_ok (dp_pm D)" "keeps D c w" "network_of D N" "randomness_ok rn" "file_given f"
    and "runPut N (dp_pm D) rn (Inr (dp_cfg D)) (Inr f) w = (out, w')" "randomHex (rn_fileID rn) 16 \<notin> ct_used c"
  shows "\<exists>c'. catalog_step (upload_event (randomHex (rn_fileID rn) 16) (rd_content (of_reader f)) out) c c' \<and> keeps D c' w'"
proof -
  let ?fid = "randomHex (rn_fileID rn) 16" and ?content = "rd_content (of_reader f)"
  from assms(2) obtain key enc truth t where k: "client_key (dp_pm D) (dp_cfg D) = Inr key"
    "NewEncoder (pm_rsNew (dp_pm D)) DefaultDataShards DefaultParityShards = Inr enc"
    "wd_trackers w (tracker_url D) = Some t" "tracker_keeps D enc truth c (ts_store t)"
    "nodes_keep D key truth c w" "catalog_ok truth c" by (auto simp: keeps_def)
  let ?new = "file_truth enc ?fid ?content"
  let ?truth = "truth ++ ?new"
  have fresh: "\<not> shard_of_file ?fid i" if used: "used_shard c i" for i
  proof
    assume own: "shard_of_file ?fid i"
    from used obtain f where f: "f \<in> ct_used c" "shard_of_file f i" by (auto simp: used_shard_def)
    then have "plain_text f" using k(6) by (simp add: catalog_ok_def)
    with shard_of_file_unique [OF f(2) own _ randomHex_plain(1)] f(1) assms(7) show False by simp
  qed
  have old: "?truth i = Some x" if "truth i = Some x" for i x
  proof -
    have "used_shard c i" using k(6) that by (auto simp: catalog_ok_def)
    from fresh [OF this] file_truth_own have "?new i = None" by blast
    with that show ?thesis by (simp add: map_add_def)
  qed
  have faith: "faithful (pm_newx (dp_pm D)) key ?truth w"
    unfolding faithful_def
  proof (intro allI impI)
    fix a i x ct y assume h: "?truth i = Some x" "held_at w a i = Some ct" "ct \<noteq> []" "Decrypt (pm_newx (dp_pm D)) ct key = Inr y"
    then have "used_shard c i" using k(5) by (auto simp: nodes_keep_def)
    from fresh [OF this] file_truth_own have "?new i = None" by blast
    with h(1) have "truth i = Some x" by (auto simp: map_add_def)
    with h k(5) show "y = x" by (auto simp: nodes_keep_def faithful_def)
  qed
  have rpc: "rpc_ok (with_key (N, dp_cfg D)) w"
    using network_rpc [OF assms(3), of _ w] k(5) by (simp add: nodes_keep_def with_key_def)
  have jc: "net_json N = dp_json D" using assms(3) by (simp add: network_of_def)
  have at: "tracker_at N (tracker_url D) w t"
    using assms(3) k(3,4) by (simp add: tracker_at_def network_of_def tracker_keeps_def)
  have "?truth i = Some x" if "?new i = Some x" for i x using that by (simp add: map_add_def)
  from runPut_any [where truth = ?truth, OF assms(1,4,5) k(1,2) rpc at this assms(6), unfolded jc] obtain t' where
    w': "rpc_ok (with_key (N, dp_cfg D)) w'" "refreshed (pm_newx (dp_pm D)) key ?truth w w'"
    and t': "tracker_at N (tracker_url D) w' t'" "db_ops (ts_store t') = db_ops (ts_store t)"
    and files: "(\<forall>i. out \<noteq> Done i) \<and> file_at (dp_json D) (ts_store t') = file_at (dp_json D) (ts_store t)
      \<or> (\<exists>meta ps. holds_file enc ?truth ?content ps
           \<and> file_at (dp_json D) (ts_store t') = (file_at (dp_json D) (ts_store t))(?fid \<mapsto> (meta, ps)))" by blast
  define listed where "listed = (if file_at (dp_json D) (ts_store t') = file_at (dp_json D) (ts_store t) \<and> (\<forall>i. out \<noteq> Done i)
    then ct_files c else (ct_files c)(?fid \<mapsto> ?content))"
  let ?c = "\<lparr>ct_used = insert ?fid (ct_used c), ct_files = listed\<rparr>"
  have step: "catalog_step (upload_event ?fid ?content out) c ?c"
    using assms(7) by (cases out) (simp_all add: upload_event_def catalog_step_simps listed_def)
  have kept: "rel_option (\<lambda>e content. holds_file enc ?truth content (snd e)) (file_at (dp_json D) (ts_store t) i) (ct_files c i)" for i
  proof -
    have "rel_option (\<lambda>e content. holds_file enc truth content (snd e)) (file_at (dp_json D) (ts_store t) i) (ct_files c i)"
      using k(4) by (simp add: tracker_keeps_def)
    then show ?thesis by (rule option.rel_mono_strong) (rule holds_file_mono [OF _ old])
  qed
  have "rel_option (\<lambda>e content. holds_file enc ?truth content (snd e)) (file_at (dp_json D) (ts_store t') i) (listed i)" for i
    using files kept [of i] by (auto simp: listed_def)
  then have tracker: "tracker_keeps D enc ?truth ?c (ts_store t')"
    using t' k(4) jc by (simp add: tracker_keeps_def tracker_at_def)
  have used: "used_shard ?c i" if "?truth i \<noteq> None" for i
  proof (cases "?new i")
    case None
    with that k(6) have "used_shard c i" by (auto simp: map_add_def catalog_ok_def)
    then show ?thesis by (auto simp: used_shard_def)
  next
    case (Some x)
    with file_truth_own [of enc ?fid ?content i] show ?thesis by (auto simp: used_shard_def)
  qed
  have "used_shard ?c i" if "held_at w' a i \<noteq> None" for a i
  proof -
    from w'(2) have "held_at w' a i = held_at w a i \<or> ?truth i \<noteq> None"
      unfolding refreshed_def by (metis option.distinct(1))
    then show ?thesis
    proof
      assume "held_at w' a i = held_at w a i"
      with that k(5) have "used_shard c i" unfolding nodes_keep_def by metis
      then show ?thesis by (auto simp: used_shard_def)
    qed (rule used)
  qed
  moreover have "nodes_ok w'" using w'(1) network_rpc [OF assms(3), of _ w'] by (simp add: with_key_def)
  ultimately have nodes: "nodes_keep D key ?truth ?c w'"
    using faithful_refreshed [OF w'(2) faith] by (simp add: nodes_keep_def)
  have "catalog_ok ?truth ?c" using used k(6) randomHex_plain(1) by (simp add: catalog_ok_def)
  from keepsI [OF k(1,2) _ tracker nodes this] t'(1) step show ?thesis unfolding tracker_at_def by blast
qed

lemma download_keeps:
  assumes "primitives_ok (dp_pm D)" "keeps D c w" "network_of D N" "plain_text fid" "fid \<noteq> ''''"
    and "runGet N (dp_pm D) (Inr (dp_cfg D)) buffer_write (Inr []) fid w = (res, written, w')"
  shows "catalog_step (Downloaded fid (if res = Done () then written else None)) c c \<and> keeps D c w'"
proof -
  from assms(2) obtain key enc truth t where k: "client_key (dp_pm D) (dp_cfg D) = Inr key"
    "NewEncoder (pm_rsNew (dp_pm D)) DefaultDataShards DefaultParityShards = Inr enc"
    "wd_trackers w (tracker_url D) = Some t" "tracker_keeps D enc truth c (ts_store t)"
    "nodes_keep D key truth c w" "catalog_ok truth c" by (auto simp: keeps_def)
  have rpc: "rpc_ok (with_key (N, dp_cfg D)) w"
    using network_rpc [OF assms(3), of _ w] k(5) by (simp add: nodes_keep_def with_key_def)
  have jc: "net_json N = dp_json D" using assms(3) by (simp add: network_of_def)
  have at: "tracker_at N (tracker_url D) w t"
    using assms(3) k(3,4) by (simp add: tracker_at_def network_of_def tracker_keeps_def)
  have seg: "path_segment N fid = Some fid" using assms(4,5) by (simp add: path_segment_def)
  have view: "bb_view (db_ops (ts_store t)) d = None" for d using k(4) by (simp add: tracker_keeps_def)
  have faith: "faithful (pm_newx (dp_pm D)) key truth w" using k(5) by (simp add: nodes_keep_def)
  have rel: "rel_option (\<lambda>e content. holds_file enc truth content (snd e)) (file_at (dp_json D) (ts_store t) fid) (ct_files c fid)"
    using k(4) by (simp add: tracker_keeps_def)
  have "(res = Done () \<longrightarrow> written = ct_files c fid) \<and> wd_trackers w' = wd_trackers w \<and> held_at w' = held_at w \<and> nodes_ok w'"
  proof (cases "file_at (dp_json D) (ts_store t) fid")
    case None
    with runGet_unlisted [OF at _ seg assms(6)] k(5) same_world_keeps(2) [of w w'] show ?thesis
      by (simp add: jc nodes_keep_def same_world_def nodes_ok_def)
  next
    case (Some e)
    with rel obtain content where c: "ct_files c fid = Some content" "holds_file enc truth content (snd e)" by (cases "ct_files c fid") auto
    obtain meta ps where e: "e = (meta, ps)" by fastforce
    have "file_at (net_json N) (ts_store t) fid = Some (meta, ps)" "holds_file enc truth content ps"
      using Some c(2) by (simp_all add: jc e)
    note got = runGet_described [OF assms(1) k(1,2) at rpc faith this seg view assms(6)]
    then show ?thesis using c(1) network_rpc [OF assms(3), of _ w'] by (simp add: with_key_def)
  qed
  moreover from this have "nodes_keep D key truth c w'" using nodes_keep_same [OF k(5), of w'] by blast
  ultimately show ?thesis
    using keepsI [OF k(1,2) _ k(4) _ k(6), of w'] k(3) by (simp add: catalog_step_simps)
qed

lemma happens_simulates:
  assumes "primitives_ok (dp_pm D)" "keeps D c w" "happens D e w w'" "\<And>fid. fid \<in> set (upload_ids [e]) \<Longrightarrow> fid \<notin> ct_used c"
  shows "\<exists>c'. catalog_step e c c' \<and> keeps D c' w'"
  using assms(3)
proof (cases rule: happens.cases)
  case (upload N rn f out)
  have "randomHex (rn_fileID rn) 16 \<notin> ct_used c"
    using assms(4) upload(1) by (cases out) (simp_all add: upload_event_def)
  from upload_keeps [OF assms(1,2) upload(2-5) this] show ?thesis using upload(1) by simp
next
  case (download N fid res written)
  from download_keeps [OF assms(1,2) download(2-5)] show ?thesis using download(1) by blast
next
  case (node_starts N a s ncfg)
  from node_start_keeps [OF node_starts(3) assms(2) node_starts(4-7)] show ?thesis
    using node_starts(1,2) by (auto simp: catalog_step_simps)
next
  case nodes_go
  from nodes_go_keeps [OF assms(2) nodes_go(2)] show ?thesis using nodes_go(1) by (auto simp: catalog_step_simps)
next
  case (request N req key r)
  from tracker_request_keeps [OF request(2) assms(2) request(3,4)] show ?thesis using request(1) by (auto simp: catalog_step_simps)
next
  case (liveness_pass t lc now r s)
  from liveness_pass_keeps [OF assms(2) liveness_pass(3,4)] show ?thesis
    using liveness_pass(1,2) by (auto simp: catalog_step_simps)
next
  case (repair_pass E t now timeout out st)
  from repair_pass_keeps [OF assms(1,2) repair_pass(3-5)] show ?thesis using repair_pass(1,2) by (auto simp: catalog_step_simps)
qed

lemma catalog_step_used: "catalog_step e c c' \<Longrightarrow> ct_used c' = set (upload_ids [e]) \<union> ct_used c"
  by (cases rule: catalog_step.cases) auto

lemma upload_ids_Cons: "upload_ids (e # es) = upload_ids [e] @ upload_ids es"
  by (cases e) simp_all

lemma runs_simulates:
  assumes "runs D es w w'" "primitives_ok (dp_pm D)" "keeps D c w" "distinct (upload_ids es)" "set (upload_ids es) \<inter> ct_used c = {}"
  shows "\<exists>c'. catalog_runs es c c' \<and> keeps D c' w'"
  using assms(1,3-)
proof (induction arbitrary: c rule: runs.induct)
  case (runs_none w)
  then show ?case by (auto simp: catalog_runs_simps)
next
  case (runs_step e w v es w')
  have ids: "distinct (upload_ids es)" "set (upload_ids [e]) \<inter> set (upload_ids es) = {}"
    "set (upload_ids [e]) \<inter> ct_used c = {}" "set (upload_ids es) \<inter> ct_used c = {}"
    using runs_step.prems(2,3) unfolding upload_ids_Cons [of e es] by auto
  have "fid \<notin> ct_used c" if "fid \<in> set (upload_ids [e])" for fid using ids(3) that by blast
  from happens_simulates [OF assms(2) runs_step.prems(1) runs_step.hyps(1) this]
  obtain c1 where c1: "catalog_step e c c1" "keeps D c1 v" by blast
  have "set (upload_ids es) \<inter> ct_used c1 = {}"
    using ids(2,4) by (simp only: catalog_step_used [OF c1(1)]) blast
  from runs_step.IH [OF c1(2) ids(1) this] c1(1) show ?case by (auto simp: catalog_runs_simps)
qed

section \<open>A deployment for the witnesses\<close>

definition demo_deploy :: deployment where
  "demo_deploy = \<lparr>dp_json = ser_codec, dp_pm = demo_pm, dp_cfg = demo_client\<rparr>"

lemma demo_deploy_simps [simp]:
  "dp_json demo_deploy = ser_codec" "dp_pm demo_deploy = demo_pm" "dp_cfg demo_deploy = demo_client"
  "network_of demo_deploy demo_net"
  by (simp_all add: demo_deploy_def network_of_def)

lemma demo8_no_files: "file_at ser_codec demo8_store = Map.empty"
proof -
  have "store_ok ser_codec (foldl (\<lambda>s n. snd (RegisterNode ser_codec s n)) s ns)
      \<and> file_at ser_codec (foldl (\<lambda>s n. snd (RegisterNode ser_codec s n)) s ns) = file_at ser_codec s"
    if "store_ok ser_codec s" "\<And>n. n \<in> set ns \<Longrightarrow> node_ok n" for s :: "(string \<Rightarrow> (string \<times> bytes) list) Store" and ns
    using that
  proof (induction ns arbitrary: s)
    case (Cons n ns)
    obtain e s1 where s1: "RegisterNode ser_codec s n = (e, s1)" by fastforce
    have "node_ok n" using Cons.prems(2) by simp
    from RegisterNode_law [OF Cons.prems(1) this s1] Cons.IH [of s1] Cons.prems(2) s1 show ?case by simp
  qed simp
  from this [OF empty_store_ok, of demo8] demo8_nodes have "file_at ser_codec demo8_store = file_at ser_codec empty_store"
    by (simp add: demo8_store_def)
  also have "\<dots> = Map.empty" by (rule ext) (simp add: file_at_def empty_store_def alist_bolt_def)
  finally show ?thesis .
qed

lemma demo_deployed: "deployed demo_deploy demo_world"
proof -
  have "nodes_ok demo_world" by (simp add: nodes_ok_def demo_world_def)
  moreover have "held_at demo_world a = Map.empty" for a
  proof -
    have "holds (demo_server q) = Map.empty" for q by (simp add: holds_def demo_server_def alist_bolt_def fun_eq_iff)
    then show ?thesis by (simp add: held_at_def demo_world_def)
  qed
  moreover have "wd_trackers demo_world (cc_TrackerAddr demo_client) = Some (demo_tracker\<lparr>ts_store := demo8_store\<rparr>)"
    by (simp add: demo_world_def demo_client_def)
  ultimately show ?thesis
    by (simp add: deployed_def demo_pm_ok demo_client_key demo8_store_ok demo8_no_files)
qed

lemma demo_file_given: "file_given demo_file"
  by (simp add: file_given_def demo_reader demo_small)

lemma demo_upload:
  assumes "runPut demo_net demo_pm demo_rn (Inr demo_client) (Inr demo_file) demo_world = (Done fid, w)"
  shows "happens demo_deploy (Uploaded fid [1, 2, 3]) demo_world w" "plain_text fid" "fid \<noteq> ''''"
proof -
  have fid: "fid = randomHex (rn_fileID demo_rn) 16"
    using runPut_law [OF demo_pm_ok demo_rn_ok demo_reader(2) demo_small(1) demo_reader(3) demo_small(2,3) demo_world_ok(1,2) assms] by blast
  have "happens demo_deploy (upload_event (randomHex (rn_fileID demo_rn) 16) (rd_content (of_reader demo_file)) (Done fid)) demo_world w"
    by (rule happens.upload [where N = demo_net]) (simp_all add: demo_rn_ok demo_file_given assms)
  then show "happens demo_deploy (Uploaded fid [1, 2, 3]) demo_world w" by (simp add: upload_event_def fid demo_reader(1))
  show "plain_text fid" "fid \<noteq> ''''" using randomHex_plain randomHex_nonempty demo_rn_ok by (simp_all add: fid randomness_ok_def)
qed

section \<open>Properties\<close>

text \<open>
  C1: the network is a file store. Whatever uploads, downloads, starts and losses of nodes, liveness
  passes, repair passes and other requests happen, in any order and with any failures of the
  network and of the nodes' disks on the way, and when the random identifiers are different, then
  what they report is what a map from identifiers to contents could report: a download gives the
  content that was uploaded under its identifier or fails.
\<close>

theorem system_refines_catalog:
  assumes "deployed D w" "runs D es w w'" "distinct (upload_ids es)"
  shows "\<exists>c. catalog_runs es empty_catalog c \<and> keeps D c w'"
proof -
  have "primitives_ok (dp_pm D)" using assms(1) by (simp add: deployed_def)
  from runs_simulates [OF assms(2) this keeps_deployed [OF assms(1)] assms(3)] show ?thesis
    by (simp add: empty_catalog_def)
qed

theorem system_refines_catalog_witness:
  "\<exists>fid w1 res written w3. runPut demo_net demo_pm demo_rn (Inr demo_client) (Inr demo_file) demo_world = (Done fid, w1)
     \<and> runGet demo_net demo_pm (Inr demo_client) buffer_write (Inr []) fid (without_b w1) = (res, written, w3)
     \<and> (\<exists>c. catalog_runs [Uploaded fid [1, 2, 3], Upkeep, Downloaded fid (if res = Done () then written else None)] empty_catalog c
          \<and> keeps demo_deploy c w3)"
proof -
  obtain fid w1 where put: "runPut demo_net demo_pm demo_rn (Inr demo_client) (Inr demo_file) demo_world = (Done fid, w1)"
    using demo_put_runs by blast
  obtain res written w3 where get: "runGet demo_net demo_pm (Inr demo_client) buffer_write (Inr []) fid (without_b w1) = (res, written, w3)"
    by (metis surj_pair)
  note up = demo_upload [OF put]
  have "runs demo_deploy [Uploaded fid [1, 2, 3], Upkeep, Downloaded fid (if res = Done () then written else None)] demo_world w3"
  proof -
    have "happens demo_deploy (Downloaded fid (if res = Done () then written else None)) (without_b w1) w3"
      by (rule download [where N = demo_net]) (simp_all add: up get)
    from runs_step [OF up(1) runs_step [OF nodes_go [OF without_b_lost] runs_step [OF this runs_none]]] show ?thesis .
  qed
  from system_refines_catalog [OF demo_deployed this] put get show ?thesis by auto
qed

text \<open>In the map, what is given was put there before.\<close>

lemma catalog_runs_files:
  assumes "catalog_runs es c c'" "ct_files c' fid = Some content"
  shows "ct_files c fid = Some content \<or> Uploaded fid content \<in> set es \<or> UploadFailed fid content \<in> set es"
  using assms
proof (induction rule: catalog_runs.induct)
  case (2 e c c1 es c')
  from 2(1) have "ct_files c1 fid = Some content \<Longrightarrow>
      ct_files c fid = Some content \<or> e = Uploaded fid content \<or> e = UploadFailed fid content"
    by (cases rule: catalog_step.cases) (auto split: if_splits)
  with 2 show ?case by auto
qed simp

lemma catalog_runs_append: "catalog_runs (es @ fs) c c' \<longleftrightarrow> (\<exists>c1. catalog_runs es c c1 \<and> catalog_runs fs c1 c')"
  by (induction es arbitrary: c) (auto simp: catalog_runs_simps)

text \<open>
  C2: no download ever gives anything but what was uploaded. Whenever in the course of the network
  a download of an identifier gives some content, an upload of exactly this content under this
  identifier came before it.
\<close>

theorem downloads_were_uploaded:
  assumes "deployed D w" "runs D (es @ Downloaded fid (Some content) # fs) w w'"
    and "distinct (upload_ids (es @ Downloaded fid (Some content) # fs))"
  shows "Uploaded fid content \<in> set es \<or> UploadFailed fid content \<in> set es"
proof -
  have "primitives_ok (dp_pm D)" using assms(1) by (simp add: deployed_def)
  from runs_simulates [OF assms(2) this keeps_deployed [OF assms(1)] assms(3)] obtain c c1
    where "catalog_runs es empty_catalog c1" "catalog_runs (Downloaded fid (Some content) # fs) c1 c"
    by (auto simp: catalog_runs_append empty_catalog_def)
  moreover from this have "ct_files c1 fid = Some content" by (simp add: catalog_runs_simps catalog_step_simps)
  ultimately show ?thesis using catalog_runs_files [of es empty_catalog c1 fid content] by (simp add: empty_catalog_def)
qed

theorem downloads_were_uploaded_witness:
  "\<exists>fid w1 w3. runPut demo_net demo_pm demo_rn (Inr demo_client) (Inr demo_file) demo_world = (Done fid, w1)
     \<and> runGet demo_net demo_pm (Inr demo_client) buffer_write (Inr []) fid w1 = (Done (), Some [1, 2, 3], w3)
     \<and> (Uploaded fid [1, 2, 3] \<in> set [Uploaded fid [1, 2, 3]] \<or> UploadFailed fid [1, 2, 3] \<in> set [Uploaded fid [1, 2, 3]])"
proof -
  obtain fid w1 where put: "runPut demo_net demo_pm demo_rn (Inr demo_client) (Inr demo_file) demo_world = (Done fid, w1)"
    and "roomy_at (bytes_of_string (cc_NetworkKey demo_client)) {''a'', ''b''} w1"
    using demo_put_runs by blast
  then have room: "roomy_at (bytes_of_string (cc_NetworkKey demo_client)) {''a''} w1" by (simp add: roomy_at_def)
  obtain w3 where get: "runGet demo_net demo_pm (Inr demo_client) buffer_write (Inr []) fid w1 = (Done (), Some [1, 2, 3], w3)"
    using demo_get_runs [OF put _ room, of "[]"] by (auto simp: nodes_lost_def)
  note up = demo_upload [OF put]
  have "runs demo_deploy ([Uploaded fid [1, 2, 3]] @ Downloaded fid (Some [1, 2, 3]) # []) demo_world w3"
  proof -
    have "happens demo_deploy (Downloaded fid (if Done () = Done () then Some [1, 2, 3] else None)) w1 w3"
      by (rule download [where N = demo_net]) (simp_all add: up get)
    then have "happens demo_deploy (Downloaded fid (Some [1, 2, 3])) w1 w3" by simp
    from runs_step [OF up(1) runs_step [OF this runs_none]] show ?thesis by simp
  qed
  from downloads_were_uploaded [OF demo_deployed this] put get show ?thesis by auto
qed

end
