(* ===== verification/Restore.thy ===== *)
theory Restore
  imports System
begin

text \<open>
  What a repair pass achieves when nothing hinders it: every file is whole again, on nodes that were
  not judged unhealthy; and where it puts what it makes: all on one node.
\<close>

section \<open>Shards that are there\<close>

definition intact :: "newx_fun \<Rightarrow> bytes \<Rightarrow> (string \<Rightarrow> NodeMetadata option) \<Rightarrow> 'd world \<Rightarrow> ShardPlacement \<Rightarrow> bool" where
  "intact newx key nodes w p \<longleftrightarrow> (\<exists>n ct. nodes (sp_NodeID p) = Some n
     \<and> held_at w (nm_Address n) (sp_ShardID p) = Some ct \<and> ct \<noteq> [] \<and> is_ok (Decrypt newx ct key))"

lemma intact_readable:
  assumes "faithful newx key truth w" "described enc truth chunk p"
  shows "intact newx key nodes w p \<longleftrightarrow>
    (\<exists>n t. nodes (sp_NodeID p) = Some n \<and> truth (sp_ShardID p) = Some t \<and> readable newx key w (nm_Address n) (sp_ShardID p) t)"
proof
  assume "intact newx key nodes w p"
  then obtain n ct y where n: "nodes (sp_NodeID p) = Some n" "held_at w (nm_Address n) (sp_ShardID p) = Some ct" "ct \<noteq> []"
    "Decrypt newx ct key = Inr y" by (auto simp: intact_def elim: is_okE)
  obtain t where "truth (sp_ShardID p) = Some t" using assms(2) by (auto simp: described_def)
  moreover from this have "y = t" using assms(1) n unfolding faithful_def by blast
  ultimately show "\<exists>n t. nodes (sp_NodeID p) = Some n \<and> truth (sp_ShardID p) = Some t \<and> readable newx key w (nm_Address n) (sp_ShardID p) t"
    using n unfolding readable_def by blast
qed (auto simp: intact_def readable_def)

text \<open>The files as the tracker lists them before a pass: what is on nodes that are alive is intact, and enough of it.\<close>

definition damaged_at_most :: "newx_fun \<Rightarrow> bytes \<Rightarrow> json_codec \<Rightarrow> int \<Rightarrow> int \<Rightarrow> 'd Store \<Rightarrow> 'd world \<Rightarrow> bool" where
  "damaged_at_most newx key jc now timeout s w \<longleftrightarrow> (\<forall>i m ps. file_at jc s i = Some (m, ps) \<longrightarrow>
     (\<forall>p \<in> set ps. judged_unhealthy jc s now timeout (sp_NodeID p) \<or> intact newx key (alive_node jc s now timeout) w p)
     \<and> (\<forall>ci \<in> set (chunk_indices ps). 4 \<le> card (sp_ShardIndex ` {p \<in> set (chunk_group ci ps). intact newx key (alive_node jc s now timeout) w p})))"

lemma repair_restores_law:
  assumes "primitives_ok (dp_pm D)" "keeps D c w" "repairer_of D E" "wd_trackers w (tracker_url D) = Some t"
    and "pass_live E now timeout A (ts_store t) w"
    and "damaged_at_most (pm_newx (dp_pm D)) (rr_cryptoKey (re_keys E)) (dp_json D) now timeout (ts_store t) w"
    and "InspectAndRepair E now timeout (ts_store t) w = (out, st)"
  shows "out = Done ()" "file_at (dp_json D) (rp_store st) i = Some (m, ps) \<Longrightarrow> p \<in> set ps \<Longrightarrow>
    intact (pm_newx (dp_pm D)) (rr_cryptoKey (re_keys E)) (alive_node (dp_json D) (ts_store t) now timeout) (rp_world st) p"
proof -
  let ?s = "ts_store t" and ?jc = "dp_json D" and ?key = "rr_cryptoKey (re_keys E)" and ?newx = "pm_newx (dp_pm D)"
  let ?alive = "alive_node ?jc ?s now timeout" and ?bad = "judged_unhealthy ?jc ?s now timeout"
  from assms(2,4) obtain key enc truth where k: "client_key (dp_pm D) (dp_cfg D) = Inr key"
    "NewEncoder (pm_rsNew (dp_pm D)) DefaultDataShards DefaultParityShards = Inr enc"
    "tracker_keeps D enc truth c ?s" "nodes_keep D key truth c w" "catalog_ok truth c" by (auto simp: keeps_def)
  have E: "re_pm E = dp_pm D" "?key = key" "orders_ok E" "net_json (re_net E) = ?jc"
    using assms(3) k(1) by (simp_all add: repairer_of_def network_of_def)
  note rok = repair_pass_ok [OF assms(1,3) k]
  note kept = InspectAndRepair_keeps [OF assms(1) [folded E(1)] k(2) [folded E(1)] rok(1) E(3) rok(2) assms(7), unfolded E(4)]
  have faith: "faithful ?newx ?key truth w" using k(4) by (simp add: E(2) nodes_keep_def)
  have desc: "described_file enc truth ps" if "file_at ?jc ?s i = Some (m, ps)" for i m ps
    using rok(2) that by (simp add: described_files_def E(4))
  have live: "live_at (re_net E, rr_networkKey (re_keys E)) w (nm_Address n)" if "?alive i = Some n" for i n
    using assms(5) that unfolding pass_live_def E(4) live_at_def roomy_at_def roomy_def by fastforce
  have rec: "recoverable E truth ?bad ?alive w (chunk_group ci ps)" if at: "file_at ?jc ?s i = Some (m, ps)" for i m ps ci
    unfolding recoverable_def
  proof
    assume ex: "\<exists>p \<in> set (chunk_group ci ps). ?bad (sp_NodeID p)"
    then have "ci \<in> set (chunk_indices ps)" by (auto simp: chunk_indices_set chunk_group_def)
    with assms(6) at have "4 \<le> card (sp_ShardIndex ` {p \<in> set (chunk_group ci ps). intact ?newx ?key ?alive w p})"
      unfolding damaged_at_most_def by blast
    also have "\<dots> \<le> card (sp_ShardIndex ` {p \<in> set (chunk_group ci ps). obtainable E truth (reach ?bad ?alive) w p})"
    proof (intro card_mono image_mono subsetI)
      fix p assume "p \<in> {p \<in> set (chunk_group ci ps). intact ?newx ?key ?alive w p}"
      then have p: "p \<in> set (chunk_group ci ps)" "intact ?newx ?key ?alive w p" by simp_all
      obtain chunk where "described enc truth chunk p" using desc [OF at] p(1) by (auto simp: described_file_def chunk_group_def)
      from intact_readable [OF faith this, of ?alive] p(2) obtain n x where n: "?alive (sp_NodeID p) = Some n"
        "truth (sp_ShardID p) = Some x" "readable ?newx ?key w (nm_Address n) (sp_ShardID p) x" by blast
      then have "\<not> ?bad (sp_NodeID p)" by (simp add: alive_node_def split: if_splits)
      with n live [OF n(1)] p(1) show "p \<in> {p \<in> set (chunk_group ci ps). obtainable E truth (reach ?bad ?alive) w p}"
        unfolding obtainable_def by (simp add: E(1))
    qed simp
    finally show "enough_left E truth (reach ?bad ?alive) w (chunk_group ci ps)" by (simp add: enough_left_def)
  qed
  note done_law = InspectAndRepair_live [OF assms(1) [folded E(1)] k(2) [folded E(1)] rok(1) E(3) rok(2) assms(7,5), unfolded E(4)]
  show "out = Done ()" by (rule done_law(1)) (rule rec)
  show "intact ?newx ?key ?alive (rp_world st) p" if at: "file_at ?jc (rp_store st) i = Some (m, ps)" and p: "p \<in> set ps"
  proof -
    have fine: "\<not> ?bad (sp_NodeID p)" by (rule done_law(2) [OF _ at p]) (rule rec)
    from kept(6) [of i] at obtain ps0 where ps0: "file_at ?jc ?s i = Some (m, ps0)" "list_all2 (moved E truth ?s (rp_world st)) ps0 ps"
      by (cases "file_at ?jc ?s i") (auto simp: replaced_def)
    from list_all2_right [OF ps0(2) p] obtain q where q: "q \<in> set ps0" "moved E truth ?s (rp_world st) q p" by blast
    from q(2) consider "p = q" | j n x where "node_at ?jc ?s j = Some n" "p = q\<lparr>sp_NodeID := j\<rparr>" "truth (sp_ShardID q) = Some x"
      "readable ?newx ?key (rp_world st) (nm_Address n) (sp_ShardID q) x"
      unfolding moved_def E(1,4) by blast
    then show ?thesis
    proof cases
      case 1
      with assms(6) ps0(1) q(1) fine have "intact ?newx ?key ?alive w p" unfolding damaged_at_most_def by blast
      moreover obtain chunk where d: "described enc truth chunk p" using desc [OF ps0(1)] q(1) 1 by (auto simp: described_file_def)
      ultimately obtain n x where n: "?alive (sp_NodeID p) = Some n" "truth (sp_ShardID p) = Some x"
        "readable ?newx ?key w (nm_Address n) (sp_ShardID p) x" using intact_readable [OF faith d, of ?alive] by blast
      from readable_refreshed [OF kept(2) [unfolded E(1)] n(2,3)] n(1) show ?thesis
        unfolding intact_def readable_def by auto
    next
      case (2 j n x)
      with fine have "?alive (sp_NodeID p) = Some n" by (simp add: alive_node_def)
      with 2 show ?thesis unfolding intact_def readable_def by auto
    qed
  qed
qed

section \<open>Where the new shards go\<close>

text \<open>The store does not change while a chunk is repaired, so neither does its choice of a node.\<close>

lemma repair_shards_one_node:
  assumes "repair_shards E unhealthy ci fresh ps st = (Done (ps', b), st')"
  shows "length ps' = length ps \<and> (\<forall>k < length ps. sp_ChunkIndex (ps ! k) = ci \<and> unhealthy (sp_NodeID (ps ! k)) \<longrightarrow>
    (\<exists>n ns. SelectPlacementNodes (net_sort (re_net E)) (net_json (re_net E)) (rp_store st) 1 0 = Some (Inr (n # ns)) \<and> sp_NodeID (ps' ! k) = nm_NodeID n))"
  using assms
proof (induction ps arbitrary: ps' b st)
  case (Cons p ps)
  let ?sel = "SelectPlacementNodes (net_sort (re_net E)) (net_json (re_net E)) (rp_store st) 1 0"
  show ?case
  proof (cases "sp_ChunkIndex p \<noteq> ci \<or> \<not> unhealthy (sp_NodeID p)")
    case True
    with Cons.prems obtain qs where qs: "ps' = p # qs" "repair_shards E unhealthy ci fresh ps st = (Done (qs, b), st')"
      by (auto split: prod.splits outcome.splits)
    from Cons.IH [OF qs(2)] True qs(1) show ?thesis by (auto simp: nth_Cons split: nat.split)
  next
    case False
    with Cons.prems obtain n ns where sel: "?sel = Some (Inr (n # ns))"
      by (auto split: option.splits sum.splits list.splits)
    with Cons.prems False obtain w qs b' where
      rest: "repair_shards E unhealthy ci fresh ps (st\<lparr>rp_world := w, rp_count := Suc (rp_count st)\<rparr>) = (Done (qs, b'), st')"
      "ps' = p\<lparr>sp_NodeID := nm_NodeID n\<rparr> # qs"
      by (auto split: option.splits sum.splits prod.splits outcome.splits)
    from Cons.IH [OF rest(1)] sel rest(2) show ?thesis by (auto simp: nth_Cons split: nat.split)
  qed
qed simp

section \<open>A pass over the network of the witnesses\<close>

definition demo_repairer :: repair_env where
  "demo_repairer = \<lparr>re_net = demo_net, re_pm = demo_pm, re_rnd = \<lambda>_. zero_rand, re_order = \<lambda>_ cs. cs,
     re_keys = \<lparr>rr_networkKey = bytes_of_string ''k'', rr_cryptoKey = replicate 32 7\<rparr>\<rparr>"

lemma demo_repairer_simps [simp]:
  "re_net demo_repairer = demo_net" "re_pm demo_repairer = demo_pm"
  "rr_networkKey (re_keys demo_repairer) = bytes_of_string ''k''" "rr_cryptoKey (re_keys demo_repairer) = replicate 32 7"
  "orders_ok demo_repairer" "re_rnd demo_repairer j = zero_rand" "re_order demo_repairer f cs = cs"
  by (simp_all add: demo_repairer_def orders_ok_def)

lemma demo_repairer_of: "repairer_of demo_deploy demo_repairer"
  using demo_client_key by (simp add: repairer_of_def zero_rand_ok) (simp add: demo_client_def)

text \<open>Of the eight nodes, those at address \<open>a\<close> have been seen a short time ago.\<close>

lemma demo_judged:
  assumes "n \<in> set demo8"
  shows "node_unhealthy 150 100 n \<longleftrightarrow> nm_Address n = ''b''"
proof -
  have "in_int64 150" "in_int64 50" by (simp_all add: in_int64_def)
  with assms show ?thesis
    by (auto simp: demo8_def node_unhealthy_def demo_node_def in_int64_wrap64 split: if_splits)
qed

lemma demo_alive_node:
  assumes "node_at ser_codec s = node_at ser_codec demo8_store"
  shows "alive_node ser_codec s 150 100 i = Some n \<longleftrightarrow> n \<in> set demo8 \<and> nm_NodeID n = i \<and> nm_Address n = ''a''"
    and "judged_unhealthy ser_codec s 150 100 i \<longleftrightarrow> i \<in> demo_lost"
proof -
  have at: "node_at ser_codec s i = Some m \<longleftrightarrow> m \<in> set demo8 \<and> nm_NodeID m = i" for m
    unfolding assms by (rule demo8_store_ok(3))
  show "alive_node ser_codec s 150 100 i = Some n \<longleftrightarrow> n \<in> set demo8 \<and> nm_NodeID n = i \<and> nm_Address n = ''a''"
    using demo_judged [of n] demo8_nodes [of n] by (auto simp: alive_healthy at)
  show "judged_unhealthy ser_codec s 150 100 i \<longleftrightarrow> i \<in> demo_lost"
  proof (cases "node_at ser_codec s i")
    case None
    then have "m \<notin> set demo8 \<or> nm_NodeID m \<noteq> i" for m using at [of m] by simp
    with None show ?thesis by (auto simp: judged_unhealthy_def)
  next
    case (Some m)
    then have m: "m \<in> set demo8" "nm_NodeID m = i" using at by blast+
    have "m' = m" if "m' \<in> set demo8" "nm_NodeID m' = i" for m'
      using demo8_distinct(1) m that by (auto simp: distinct_map dest: inj_onD)
    then have "i \<in> demo_lost \<longleftrightarrow> nm_Address m = ''b''" using m by blast
    with Some demo_judged [OF m(1)] show ?thesis by (simp add: judged_unhealthy_def)
  qed
qed

text \<open>The nodes of the eight shards of a chunk are different, so few lost nodes leave enough shards.\<close>

lemma placed_left:
  assumes "placed newx key enc nodes f w c ps" "length ps = 8" "finite A" "card A \<le> 4"
    and "\<And>p. p \<in> set ps \<Longrightarrow> sp_NodeID p \<notin> A \<Longrightarrow> P p"
  shows "4 \<le> card (sp_ShardIndex ` {p \<in> set ps. P p})"
proof -
  from assms(1) obtain shards :: "Shard list" and ns where s: "length ps = length shards" "length ns = length shards" "distinct (map nm_NodeID ns)"
    "\<forall>k < length shards. ps ! k = placement f c (int k) (ns ! k)"
    unfolding placed_def by blast
  have ids: "map sp_NodeID ps = map nm_NodeID ns" "map sp_ShardIndex ps = map int [0..<8]"
    using s assms(2) by (auto intro!: nth_equalityI simp: placement_def)
  have inj: "inj_on sp_NodeID (set ps)" "inj_on sp_ShardIndex (set ps)" "distinct ps"
    using s(3) ids distinct_map [of sp_NodeID ps] distinct_map [of sp_ShardIndex ps]
    by (simp_all add: distinct_map)
  let ?dead = "{p \<in> set ps. sp_NodeID p \<in> A}" and ?good = "{p \<in> set ps. P p}"
  have "card ?dead = card (sp_NodeID ` ?dead)"
    by (rule card_image [symmetric]) (rule inj_on_subset [OF inj(1)], blast)
  also have "\<dots> \<le> card A" by (rule card_mono [OF assms(3)]) blast
  finally have "card ?dead \<le> 4" using assms(4) by simp
  moreover have "set ps = ?dead \<union> (set ps - ?dead)" by blast
  then have "8 \<le> card ?dead + card (set ps - ?dead)"
    using card_Un_le [of ?dead "set ps - ?dead"] distinct_card [OF inj(3)] assms(2) by simp
  moreover have "card (set ps - ?dead) \<le> card ?good" by (rule card_mono) (use assms(5) in auto)
  moreover have "card (sp_ShardIndex ` ?good) = card ?good"
    by (rule card_image) (rule inj_on_subset [OF inj(2)], blast)
  ultimately show ?thesis by simp
qed

lemma demo_damage:
  assumes put: "runPut demo_net demo_pm demo_rn (Inr demo_client) (Inr demo_file) demo_world = (Done fid, w1)"
    and "wd_trackers w1 (cc_TrackerAddr demo_client) = Some t1"
  shows "damaged_at_most (pm_newx demo_pm) (replicate 32 7) ser_codec 150 100 (ts_store t1) w1"
    and "file_at ser_codec (ts_store t1) i \<noteq> None \<Longrightarrow> i = fid" "db_ops (ts_store t1) = alist_bolt"
    and "node_at ser_codec (ts_store t1) = node_at ser_codec demo8_store"
proof -
  let ?s = "ts_store t1" and ?cs = "file_chunks [1, 2, 3]"
  note law = runPut_law [OF demo_pm_ok demo_rn_ok demo_reader(2) demo_small(1) demo_reader(3) demo_small(2,3) demo_world_ok(1,2) put]
  then obtain enc t' where enc: "NewEncoder (pm_rsNew demo_pm) DefaultDataShards DefaultParityShards = Inr enc"
    and up: "uploaded demo_net demo_pm demo_client (replicate 32 7) enc fid [1, 2, 3] w1 t'" and fid: "fid = randomHex (rn_fileID demo_rn) 16"
    and same: "db_ops (ts_store t') = alist_bolt" "node_at ser_codec (ts_store t') = node_at ser_codec demo8_store"
    by (auto simp: demo_client_key demo_reader(1) demo8_store_ok(2))
  have t: "t' = t1" using up assms(2) by (simp add: uploaded_def tracker_at_def)
  have ok: "encoder_ok enc" "totalShards enc = 8"
    using default_encoder [OF demo_pm_ok] enc by (metis sum.inject(2))+
  have plain: "list_all (\<lambda>c. (of_char c :: nat) < 128) fid" by (simp add: fid randomHex_plain(2))
  have small: "in_int64 (int (length [1 :: byte, 2, 3]))" by (simp add: in_int64_def)
  show "db_ops ?s = alist_bolt" "node_at ser_codec ?s = node_at ser_codec demo8_store" using same t by simp_all
  from uploaded_groups [OF up ok plain small] t obtain meta ps where ps: "file_at ser_codec ?s fid = Some (meta, ps)"
    "chunk_indices ps = map ch_Index ?cs"
    "\<And>c. c \<in> set ?cs \<Longrightarrow> placed (pm_newx demo_pm) (replicate 32 7) enc (node_at ser_codec ?s) fid w1 c (chunk_group (ch_Index c) ps)"
    by auto
  obtain c where c: "catalog_runs [Uploaded fid [1, 2, 3]] empty_catalog c" "keeps demo_deploy c w1"
    using runs_simulates [OF runs_step [OF demo_upload(1) [OF put] runs_none] _ keeps_deployed [OF demo_deployed]] demo_pm_ok
    by (auto simp: empty_catalog_def)
  show only: "i = fid" if "file_at ser_codec ?s i \<noteq> None" for i
  proof -
    from c(2) assms(2) obtain enc truth where
      "rel_option (\<lambda>e content. holds_file enc truth content (snd e)) (file_at ser_codec ?s i) (ct_files c i)"
      by (auto simp: keeps_def tracker_keeps_def)
    with that have "ct_files c i \<noteq> None" by (cases "ct_files c i") auto
    with c(1) show ?thesis by (auto simp: catalog_runs_simps catalog_step_simps empty_catalog_def split: if_splits)
  qed
  let ?intact = "intact (pm_newx demo_pm) (replicate 32 7) (alive_node ser_codec ?s 150 100) w1"
  have good: "?intact p" if g: "c \<in> set ?cs" "p \<in> set (chunk_group (ch_Index c) ps)" "sp_NodeID p \<notin> demo_lost" for c p
  proof -
    from ps(3) [OF g(1)] g(2) obtain k ns ct x where p: "p = placement fid c (int k) (ns ! k)"
      "node_at ser_codec ?s (nm_NodeID (ns ! k)) = Some (ns ! k)"
      "held_at w1 (nm_Address (ns ! k)) (shard_id fid (ch_Index c) (int k)) = Some ct" "ct \<noteq> []"
      "Decrypt (pm_newx demo_pm) ct (replicate 32 7) = Inr x"
      unfolding placed_def by (auto simp: in_set_conv_nth)
    have n: "ns ! k \<in> set demo8" using p(2) same(2) t demo8_store_ok(3) by simp
    with g(3) p(1) demo8_nodes [OF n] have "nm_Address (ns ! k) = ''a''" by (auto simp: placement_def)
    with n p show ?thesis using demo_alive_node(1) [of ?s "nm_NodeID (ns ! k)" "ns ! k"] same(2) t
      by (auto simp: intact_def placement_def)
  qed
  have eight: "length (chunk_group (ch_Index c) ps) = 8" if "c \<in> set ?cs" for c
    using ps(3) [OF that] rs_code.encode_ok [OF ok(1), of "ch_Data c"] ok(2) by (auto simp: placed_def)
  show "damaged_at_most (pm_newx demo_pm) (replicate 32 7) ser_codec 150 100 ?s w1"
    unfolding damaged_at_most_def
  proof (intro allI impI)
    fix i m qs assume at: "file_at ser_codec ?s i = Some (m, qs)"
    with only [of i] ps(1) have qs: "qs = ps" by simp
    have "judged_unhealthy ser_codec ?s 150 100 (sp_NodeID p) \<or> ?intact p" if p: "p \<in> set ps" for p
    proof -
      have "sp_ChunkIndex p \<in> set (chunk_indices ps)" using p by (simp add: chunk_indices_set)
      then obtain c where "c \<in> set ?cs" "sp_ChunkIndex p = ch_Index c" using ps(2) by auto
      with good [of c p] p demo_alive_node(2) [of ?s] same(2) t show ?thesis by (auto simp: chunk_group_def)
    qed
    moreover have "4 \<le> card (sp_ShardIndex ` {p \<in> set (chunk_group ci ps). ?intact p})" if "ci \<in> set (chunk_indices ps)" for ci
    proof -
      from that ps(2) obtain c where c: "c \<in> set ?cs" "ci = ch_Index c" by auto
      show ?thesis unfolding c(2)
        by (rule placed_left [OF ps(3) [OF c(1)] eight [OF c(1)] demo_lost]) (rule good [OF c(1)])
    qed
    ultimately show "(\<forall>p \<in> set qs. judged_unhealthy ser_codec ?s 150 100 (sp_NodeID p) \<or> ?intact p)
      \<and> (\<forall>ci \<in> set (chunk_indices qs). 4 \<le> card (sp_ShardIndex ` {p \<in> set (chunk_group ci qs). ?intact p}))"
      by (simp add: qs)
  qed
qed

lemma demo_pass_live:
  assumes put: "runPut demo_net demo_pm demo_rn (Inr demo_client) (Inr demo_file) demo_world = (Done fid, w1)"
    and "wd_trackers w1 (cc_TrackerAddr demo_client) = Some t1"
    and "roomy_at (bytes_of_string (cc_NetworkKey demo_client)) {''a'', ''b''} w1"
  shows "pass_live demo_repairer 150 100 {''a'', ''b''} (ts_store t1) w1"
proof -
  note store = demo_damage(2-4) [OF put assms(2)]
  have first: "hd demo8 \<in> set demo8" "nm_Address (hd demo8) = ''a''"
    by (simp_all add: demo8_def upt_rec)
  have "alive_node ser_codec (ts_store t1) 150 100 (nm_NodeID (hd demo8)) = Some (hd demo8)" "0 \<le> free_space (hd demo8)"
    using demo_alive_node(1) [OF store(3)] first demo8_nodes [OF first(1)] by simp_all
  then have one: "\<exists>i n. alive_node ser_codec (ts_store t1) 150 100 i = Some n \<and> 0 \<le> free_space n" by blast
  have nonempty: "i \<noteq> ''''" if registered: "node_at ser_codec (ts_store t1) i \<noteq> None" for i
  proof -
    obtain m where "node_at ser_codec (ts_store t1) i = Some m" using registered by blast
    then have "m \<in> set demo8" "nm_NodeID m = i" unfolding store(3) demo8_store_ok(3) by simp_all
    with demo8_nodes show ?thesis by blast
  qed
  have "fid \<noteq> ''''" by (rule demo_upload(3) [OF put])
  then have "is_ok (bb_update alist_bolt d [(bucketFiles, fid, m), (bucketPlacements, fid, p)])" for d m p
    by (simp add: alist_bolt_def)
  then have db: "\<forall>i d m p. file_at ser_codec (ts_store t1) i \<noteq> None \<longrightarrow> is_ok (bb_update alist_bolt d [(bucketFiles, i, m), (bucketPlacements, i, p)])"
    using store(1) by blast
  have db2: "is_ok (bb_update alist_bolt d [(bucketNodes, i, v)])" if "i \<noteq> ''''" for i d v
    using that by (simp add: alist_bolt_def)
  have addr: "nm_Address n \<in> {''a'', ''b''}" if "alive_node ser_codec (ts_store t1) 150 100 i = Some n" for i n
    using that demo_alive_node(1) [OF store(3)] by simp
  show ?thesis
    unfolding pass_live_def demo_repairer_simps demo_net_ok(2) store(2)
    using assms(3) one nonempty db2 addr by (intro conjI db) (simp_all add: demo_client_def)
qed

section \<open>Properties\<close>

text \<open>
  C3: repair restores. In every reachable state of the network, when on the nodes that answer in time
  nothing is missing, four different shards of every chunk are left there, and nothing hinders the
  pass, a repair pass succeeds, and after it every shard that the tracker lists for any file is on a
  node that had not been judged unhealthy, as a text that decrypts.
\<close>

theorem repair_restores:
  assumes "deployed D w0" "runs D es w0 w" "distinct (upload_ids es)"
    and "repairer_of D E" "wd_trackers w (tracker_url D) = Some t" "pass_live E now timeout A (ts_store t) w"
    and "damaged_at_most (pm_newx (dp_pm D)) (rr_cryptoKey (re_keys E)) (dp_json D) now timeout (ts_store t) w"
    and "InspectAndRepair E now timeout (ts_store t) w = (out, st)"
  shows "out = Done () \<and> (\<forall>i m ps. file_at (dp_json D) (rp_store st) i = Some (m, ps) \<longrightarrow>
    (\<forall>p \<in> set ps. intact (pm_newx (dp_pm D)) (rr_cryptoKey (re_keys E)) (alive_node (dp_json D) (ts_store t) now timeout) (rp_world st) p))"
proof -
  have pm: "primitives_ok (dp_pm D)" using assms(1) by (simp add: deployed_def)
  from runs_simulates [OF assms(2) pm keeps_deployed [OF assms(1)] assms(3)]
  obtain c where "keeps D c w" by (auto simp: empty_catalog_def)
  from repair_restores_law [OF pm this assms(4-8)] show ?thesis by blast
qed

theorem repair_restores_witness:
  "\<exists>fid w1 t1 st. runPut demo_net demo_pm demo_rn (Inr demo_client) (Inr demo_file) demo_world = (Done fid, w1)
     \<and> wd_trackers w1 (cc_TrackerAddr demo_client) = Some t1
     \<and> InspectAndRepair demo_repairer 150 100 (ts_store t1) w1 = (Done (), st)
     \<and> (\<forall>i m ps. file_at ser_codec (rp_store st) i = Some (m, ps) \<longrightarrow> (\<forall>p \<in> set ps.
          intact (pm_newx demo_pm) (replicate 32 7) (alive_node ser_codec (ts_store t1) 150 100) (rp_world st) p))"
proof -
  obtain fid w1 where put: "runPut demo_net demo_pm demo_rn (Inr demo_client) (Inr demo_file) demo_world = (Done fid, w1)"
    and room: "roomy_at (bytes_of_string (cc_NetworkKey demo_client)) {''a'', ''b''} w1"
    using demo_put_runs by blast
  obtain t1 where t1: "wd_trackers w1 (cc_TrackerAddr demo_client) = Some t1" by (rule demo_put_nodes [OF put])
  obtain out st where run: "InspectAndRepair demo_repairer 150 100 (ts_store t1) w1 = (out, st)" by fastforce
  note hist = runs_step [OF demo_upload(1) [OF put] runs_none]
  have ids: "distinct (upload_ids [Uploaded fid [1, 2, 3]])" by simp
  have at: "wd_trackers w1 (tracker_url demo_deploy) = Some t1" using t1 by simp
  have damage: "damaged_at_most (pm_newx (dp_pm demo_deploy)) (rr_cryptoKey (re_keys demo_repairer)) (dp_json demo_deploy) 150 100 (ts_store t1) w1"
    using demo_damage(1) [OF put t1] by simp
  note restored = repair_restores [OF demo_deployed hist ids demo_repairer_of at demo_pass_live [OF put t1 room] damage run, unfolded demo_deploy_simps demo_repairer_simps]
  then have "out = Done ()" by (rule conjunct1)
  with put t1 run conjunct2 [OF restored] show ?thesis by blast
qed

text \<open>
  C40: repair piles up. All shards of a chunk that one pass replaces, whichever nodes they were lost
  with, go to one and the same node, so that the loss of this one node loses them all again; an
  upload had put them on eight different nodes.
\<close>

theorem repair_piles_up:
  assumes "repair_shards E unhealthy ci fresh ps st = (Done (ps', b), st')"
    and "k < length ps" "sp_ChunkIndex (ps ! k) = ci" "unhealthy (sp_NodeID (ps ! k))"
    and "l < length ps" "sp_ChunkIndex (ps ! l) = ci" "unhealthy (sp_NodeID (ps ! l))"
  shows "sp_NodeID (ps' ! k) = sp_NodeID (ps' ! l)"
proof -
  let ?sel = "SelectPlacementNodes (net_sort (re_net E)) (net_json (re_net E)) (rp_store st) 1 0"
  have chosen: "\<exists>n ns. ?sel = Some (Inr (n # ns)) \<and> sp_NodeID (ps' ! j) = nm_NodeID n"
    if "j < length ps" "sp_ChunkIndex (ps ! j) = ci" "unhealthy (sp_NodeID (ps ! j))" for j
    using repair_shards_one_node [OF assms(1)] that by blast
  from chosen [OF assms(2-4)] chosen [OF assms(5-7)] show ?thesis by auto
qed

definition demo_lost_shards :: "ShardPlacement list" where
  "demo_lost_shards = map (\<lambda>k. \<lparr>sp_ShardID = [char_of (48 + k)], sp_FileID = ''f'', sp_ChunkIndex = 0, sp_ShardIndex = int k,
     sp_NodeID = ''x'', sp_OriginalChunkSize = 3\<rparr>) [0..<2]"

definition demo_repair_state :: "(string \<Rightarrow> (string \<times> bytes) list) repairing" where
  "demo_repair_state = \<lparr>rp_store = demo8_store, rp_world = demo_world, rp_count = 0\<rparr>"

lemma demo_repair_shards:
  obtains fresh ps' b st' where "repair_shards demo_repairer (\<lambda>i. i = ''x'') 0 fresh demo_lost_shards demo_repair_state = (Done (ps', b), st')"
proof -
  obtain enc where enc: "encoder_ok enc" "totalShards enc = 8" by (rule default_encoder [OF demo_pm_ok])
  obtain fresh where fresh: "Erasure.Encode enc [1, 2, 3] = Inr fresh" "length fresh = 8"
    using rs_code.encode_ok [OF enc(1), of "[1, 2, 3]"] enc(2) by auto
  define truth where "truth i = (if i = ''0'' then Some (shard_of enc [1, 2, 3] 0)
    else if i = ''1'' then Some (shard_of enc [1, 2, 3] 1) else None)" for i :: string
  have c: "char_of (48 :: nat) = CHR ''0''" "char_of (49 :: nat) = CHR ''1''" by code_simp+
  have shards: "demo_lost_shards =
    [\<lparr>sp_ShardID = ''0'', sp_FileID = ''f'', sp_ChunkIndex = 0, sp_ShardIndex = 0, sp_NodeID = ''x'', sp_OriginalChunkSize = 3\<rparr>,
     \<lparr>sp_ShardID = ''1'', sp_FileID = ''f'', sp_ChunkIndex = 0, sp_ShardIndex = 1, sp_NodeID = ''x'', sp_OriginalChunkSize = 3\<rparr>]"
    by (simp add: demo_lost_shards_def upt_rec c)
  have d: "described enc truth (\<lambda>_. [1, 2, 3]) p" if "p \<in> set demo_lost_shards" for p
    using that by (auto simp: shards described_def truth_def utf8_valid_ascii)
  have held: "held_at demo_world a i = None" for a i
    using demo_deployed by (simp add: deployed_def)
  have ok: "repair_ok demo_repairer truth (rp_store demo_repair_state) (rp_world demo_repair_state)"
    using demo_world_ok(1) client_key_ok [OF demo_pm_ok demo_client_key] demo8_store_ok(1) zero_rand_ok
    by (simp add: repair_ok_def demo_repair_state_def faithful_def held rpc_ok_def)
  have first: "hd demo8 \<in> set demo8" by (simp add: demo8_def upt_rec)
  have at: "node_at ser_codec demo8_store (nm_NodeID (hd demo8)) = Some (hd demo8)" using first demo8_store_ok(3) by blast
  have "repair_live demo_repairer {''a'', ''b''} demo8_store demo_world"
    unfolding repair_live_def demo_repairer_simps demo_net_ok(2) demo8_store_ok(2) demo8_no_files
  proof (intro conjI allI impI)
    show "roomy_at (bytes_of_string ''k'') {''a'', ''b''} demo_world" using demo_world_ok(3) by (simp add: demo_client_def)
    show "\<exists>i n. node_at ser_codec demo8_store i = Some n \<and> nm_IsHealthy n \<and> 0 \<le> free_space n"
      using at demo8_nodes [OF first] by (intro exI [of _ "nm_NodeID (hd demo8)"] exI [of _ "hd demo8"]) simp
    show "nm_Address n \<in> {''a'', ''b''}" if "node_at ser_codec demo8_store i = Some n" for i n
      using that demo8_nodes unfolding demo8_store_ok(3) by blast
  qed simp_all
  then have live: "repair_live demo_repairer {''a'', ''b''} (rp_store demo_repair_state) (rp_world demo_repair_state)"
    by (simp add: demo_repair_state_def)
  obtain out st' where run: "repair_shards demo_repairer (\<lambda>i. i = ''x'') 0 fresh demo_lost_shards demo_repair_state = (out, st')" by fastforce
  from repair_shards_law [OF ok d fresh run] live obtain r where "out = Done r" by blast
  with run that show thesis by (cases r) auto
qed

theorem repair_piles_up_witness:
  "\<exists>fresh ps' b st'. repair_shards demo_repairer (\<lambda>i. i = ''x'') 0 fresh demo_lost_shards demo_repair_state = (Done (ps', b), st')
     \<and> sp_NodeID (ps' ! 0) = sp_NodeID (ps' ! 1)"
proof -
  obtain fresh ps' b st' where run: "repair_shards demo_repairer (\<lambda>i. i = ''x'') 0 fresh demo_lost_shards demo_repair_state = (Done (ps', b), st')"
    by (rule demo_repair_shards)
  have "0 < length demo_lost_shards" "1 < length demo_lost_shards"
    "sp_ChunkIndex (demo_lost_shards ! 0) = 0" "sp_ChunkIndex (demo_lost_shards ! 1) = 0"
    "sp_NodeID (demo_lost_shards ! 0) = ''x''" "sp_NodeID (demo_lost_shards ! 1) = ''x''"
    by (simp_all add: demo_lost_shards_def upt_rec)
  with repair_piles_up [OF run, of 0 1] run show ?thesis by blast
qed

end
