(* ===== verification/Float64.thy ===== *)
theory Float64
  imports Prelude Complex_Main "HOL-Library.Log_Nat"
begin

text \<open>
  Go's \<open>float64\<close>: IEEE 754 binary64 with rounding to the nearest, ties to even, gradual underflow
  and signed zeros. A finite value is its sign and its magnitude, a rational number; an operation is
  the exact one followed by a rounding, as on a machine that does not fuse multiplications with
  additions.
\<close>

section \<open>Rounding\<close>

definition pow2 :: "int \<Rightarrow> rat" where
  "pow2 k = (if 0 \<le> k then 2 ^ nat k else 1 / 2 ^ nat (- k))"

text \<open>The exponent of a positive number, and the distance of the numbers with its exponent.\<close>

definition ilog2 :: "rat \<Rightarrow> int" where
  "ilog2 q = (let (a, b) = quotient_of q; k = bitlen a - bitlen b in if pow2 k \<le> q then k else k - 1)"

definition quantum_exp :: "rat \<Rightarrow> int" where
  "quantum_exp q = max (ilog2 q - 52) (- 1074)"

definition half_even :: "rat \<Rightarrow> int" where
  "half_even x = (let k = \<lfloor>x\<rfloor>; d = x - of_int k in if d < 1 / 2 \<or> d = 1 / 2 \<and> even k then k else k + 1)"

definition round_mag :: "rat \<Rightarrow> rat" where
  "round_mag q = (if q \<le> 0 then 0 else let u = pow2 (quantum_exp q) in of_int (half_even (q / u)) * u)"

lemma pow2_code [code]: "pow2 k = (if 0 \<le> k then of_int (2 ^ nat k) else Fract 1 (2 ^ nat (- k)))"
  by (simp add: pow2_def Fract_of_int_quotient)

lemma pow2_pos [simp]: "0 < pow2 k"
  by (simp add: pow2_def)

lemma pow2_nonzero [simp]: "pow2 k \<noteq> 0"
  using pow2_pos [of k] by (simp only: less_irrefl)

lemma pow2_powi: "pow2 k = 2 powi k"
  by (simp add: pow2_def power_int_def inverse_eq_divide power_divide)

lemma pow2_add: "pow2 (j + k) = pow2 j * pow2 k"
  by (simp add: pow2_powi power_int_add)

lemma pow2_mono: "j \<le> k \<longleftrightarrow> pow2 j \<le> pow2 k"
proof
  show "j \<le> k \<Longrightarrow> pow2 j \<le> pow2 k" by (simp add: pow2_powi power_int_increasing)
  have "pow2 k < pow2 j" if "k < j" using that by (simp add: pow2_powi power_int_strict_increasing)
  then show "pow2 j \<le> pow2 k \<Longrightarrow> j \<le> k" by (meson not_less)
qed

lemma pow2_strict_mono: "j < k \<longleftrightarrow> pow2 j < pow2 k"
  using pow2_mono [of k j] by linarith

lemma pow2_Suc: "pow2 (k + 1) = 2 * pow2 k"
  by (simp add: pow2_add) (simp add: pow2_def)

lemma pow2_nat: "pow2 (int n) = 2 ^ n"
  by (simp add: pow2_def)

lemma ilog2_bounds:
  assumes "0 < q"
  shows "pow2 (ilog2 q) \<le> q \<and> q < pow2 (ilog2 q + 1)"
proof -
  obtain a b where ab: "quotient_of q = (a, b)" by fastforce
  have b: "0 < b" using quotient_of_denom_pos [OF ab] .
  have q: "q = of_int a / of_int b" by (rule quotient_of_div [OF ab])
  have a: "0 < a" using assms b by (simp add: q zero_less_divide_iff)
  let ?k = "bitlen a - bitlen b"
  have bounds: "pow2 (bitlen x - 1) \<le> of_int x \<and> (of_int x :: rat) < pow2 (bitlen x)" if "0 < x" for x
  proof -
    have len: "0 < bitlen x" using that bitlen_bounds [OF that] by (cases "bitlen x \<le> 0") (simp_all add: bitlen_nonneg)
    from bitlen_bounds [OF that] have "2 ^ nat (bitlen x - 1) \<le> x" "x < 2 ^ nat (bitlen x)" by blast+
    then have "of_int (2 ^ nat (bitlen x - 1)) \<le> (of_int x :: rat)" "(of_int x :: rat) < of_int (2 ^ nat (bitlen x))"
      by (simp_all only: of_int_le_iff of_int_less_iff)
    then show ?thesis using len by (simp add: pow2_def)
  qed
  have bpos: "(0 :: rat) < of_int b" using b by simp
  have low: "pow2 (?k - 1) \<le> q"
  proof -
    have "pow2 (?k - 1) * of_int b \<le> pow2 (?k - 1) * pow2 (bitlen b)" using bounds [OF b] by simp
    also have "\<dots> = pow2 (bitlen a - 1)" by (simp add: pow2_add [symmetric])
    also have "\<dots> \<le> of_int a" using bounds [OF a] by simp
    finally show ?thesis unfolding q using bpos by (simp only: pos_le_divide_eq)
  qed
  have high: "q < pow2 (?k + 1)"
  proof -
    have "of_int a < pow2 (bitlen a)" using bounds [OF a] by simp
    also have "\<dots> = pow2 (?k + 1) * pow2 (bitlen b - 1)" by (simp add: pow2_add [symmetric])
    also have "\<dots> \<le> pow2 (?k + 1) * of_int b" using bounds [OF b] by simp
    finally show ?thesis unfolding q using bpos by (simp only: pos_divide_less_eq)
  qed
  show ?thesis using low high by (simp add: ilog2_def ab Let_def)
qed

lemma ilog2_eqI: "pow2 k \<le> q \<Longrightarrow> q < pow2 (k + 1) \<Longrightarrow> ilog2 q = k"
proof -
  assume k: "pow2 k \<le> q" "q < pow2 (k + 1)"
  then have "0 < q" using pow2_pos [of k] by linarith
  from ilog2_bounds [OF this] k have "pow2 (ilog2 q) < pow2 (k + 1)" "pow2 k < pow2 (ilog2 q + 1)" by linarith+
  then show ?thesis by (simp add: pow2_strict_mono [symmetric])
qed

lemma ilog2_mono: "0 < p \<Longrightarrow> p \<le> q \<Longrightarrow> ilog2 p \<le> ilog2 q"
proof -
  assume pq: "0 < p" "p \<le> q"
  then have "0 < q" by linarith
  from ilog2_bounds [OF pq(1)] ilog2_bounds [OF this] pq(2) have "pow2 (ilog2 p) < pow2 (ilog2 q + 1)" by linarith
  then show ?thesis by (simp add: pow2_strict_mono [symmetric])
qed

lemma half_even_mono: "x \<le> y \<Longrightarrow> half_even x \<le> half_even y"
proof -
  assume le: "x \<le> y"
  then have fl: "\<lfloor>x\<rfloor> \<le> \<lfloor>y\<rfloor>" by (rule floor_mono)
  show ?thesis
  proof (cases "\<lfloor>x\<rfloor> = \<lfloor>y\<rfloor>")
    case True
    with le show ?thesis by (auto simp: half_even_def Let_def)
  next
    case False
    with fl have "\<lfloor>x\<rfloor> + 1 \<le> \<lfloor>y\<rfloor>" by simp
    then show ?thesis by (auto simp: half_even_def Let_def)
  qed
qed

lemma half_even_int [simp]: "half_even (of_int k) = k"
  by (simp add: half_even_def)

lemma half_even_ge: "of_int k \<le> x \<Longrightarrow> k \<le> half_even x"
  using half_even_mono [of "of_int k" x] by simp

lemma half_even_le: "x \<le> of_int k \<Longrightarrow> half_even x \<le> k"
  using half_even_mono [of x "of_int k"] by simp

text \<open>What rounding gives: a multiple of the quantum with at most 53 bits.\<close>

lemma round_mag_pos:
  assumes "0 < q"
  shows "round_mag q = of_int (half_even (q / pow2 (quantum_exp q))) * pow2 (quantum_exp q)"
  using assms by (simp add: round_mag_def Let_def)

lemma scaled_bounds:
  assumes "0 < q"
  shows "0 \<le> half_even (q / pow2 (quantum_exp q))" "half_even (q / pow2 (quantum_exp q)) \<le> 2 ^ 53"
    and "- 1074 < quantum_exp q \<Longrightarrow> 2 ^ 52 \<le> half_even (q / pow2 (quantum_exp q))"
proof -
  let ?e = "quantum_exp q" and ?l = "ilog2 q"
  have l: "pow2 ?l \<le> q" "q < pow2 (?l + 1)" using ilog2_bounds [OF assms] by simp_all
  show "0 \<le> half_even (q / pow2 ?e)" by (rule half_even_ge) (use assms in \<open>simp add: less_imp_le\<close>)
  have "q \<le> pow2 (53 + ?e)"
  proof -
    have "?l + 1 \<le> 53 + ?e" by (simp add: quantum_exp_def)
    with l(2) show ?thesis by (meson less_imp_le order_trans pow2_mono)
  qed
  then have "q / pow2 ?e \<le> pow2 53" by (simp add: pow2_add pos_divide_le_eq)
  then have "q / pow2 ?e \<le> of_int (2 ^ 53)" by (simp add: pow2_def)
  then show "half_even (q / pow2 ?e) \<le> 2 ^ 53" by (rule half_even_le)
  show "2 ^ 52 \<le> half_even (q / pow2 ?e)" if "- 1074 < ?e"
  proof (rule half_even_ge)
    have "?l = 52 + ?e" using that by (simp add: quantum_exp_def)
    then have "pow2 52 * pow2 ?e \<le> q" using l(1) by (simp add: pow2_add [symmetric])
    then have "pow2 52 \<le> q / pow2 ?e" by (simp add: pos_le_divide_eq)
    then show "of_int (2 ^ 52) \<le> q / pow2 ?e" by (simp add: pow2_def)
  qed
qed

lemma round_mag_nonneg [simp]: "0 \<le> round_mag q"
proof (cases "0 < q")
  case True
  with scaled_bounds(1) [OF True] show ?thesis by (simp add: round_mag_pos [OF True] mult_nonneg_nonneg less_imp_le)
qed (simp add: round_mag_def)

text \<open>A number with at most 53 bits is rounded to itself.\<close>

lemma round_mag_exact:
  assumes "0 \<le> k" "k < 2 ^ 53" "- 1074 \<le> e"
  shows "round_mag (of_int k * pow2 e) = of_int k * pow2 e"
proof (cases "k = 0")
  case False
  let ?q = "of_int k * pow2 e"
  define u where "u = quantum_exp ?q"
  have pos: "0 < ?q" using assms(1) False by simp
  have "(of_int k :: rat) < of_int (2 ^ 53)" using assms(2) by (simp only: of_int_less_iff)
  then have "(of_int k :: rat) < pow2 53" by (simp add: pow2_def)
  then have "?q < pow2 (53 + e)" by (simp add: pow2_add)
  moreover have "pow2 (ilog2 ?q) \<le> ?q" using ilog2_bounds [OF pos] by simp
  ultimately have "ilog2 ?q < 53 + e" by (meson le_less_trans pow2_strict_mono)
  then have le: "u \<le> e" using assms(3) by (simp add: quantum_exp_def u_def)
  define d where "d = nat (e - u)"
  have e: "e = int d + u" using le by (simp add: d_def)
  have p: "pow2 e = 2 ^ d * pow2 u" by (simp add: e pow2_add pow2_nat)
  then have "?q / pow2 u = of_int (k * 2 ^ d)" by simp
  then have "half_even (?q / pow2 u) = k * 2 ^ d" by (simp only: half_even_int)
  then have "round_mag ?q = of_int (k * 2 ^ d) * pow2 u"
    using round_mag_pos [OF pos] by (simp only: u_def)
  then show ?thesis by (simp add: p)
qed (simp add: round_mag_def)

lemma round_mag_idem [simp]: "round_mag (round_mag q) = round_mag q"
proof (cases "0 < q")
  case True
  let ?e = "quantum_exp q" and ?k = "half_even (q / pow2 (quantum_exp q))"
  note k = scaled_bounds [OF True]
  have e: "- 1074 \<le> ?e" by (simp add: quantum_exp_def)
  show ?thesis
  proof (cases "?k = 2 ^ 53")
    case False
    with k(2) have "?k < 2 ^ 53" by simp
    from round_mag_exact [OF k(1) this e] show ?thesis by (simp only: round_mag_pos [OF True])
  next
    case big: True
    have "round_mag q = of_int (2 ^ 53) * pow2 ?e" using round_mag_pos [OF True] by (simp only: big)
    also have "\<dots> = of_int (2 ^ 52) * pow2 (?e + 1)" by (simp add: pow2_Suc)
    finally have "round_mag q = of_int (2 ^ 52) * pow2 (?e + 1)" .
    moreover have "round_mag (of_int (2 ^ 52) * pow2 (?e + 1)) = of_int (2 ^ 52) * pow2 (?e + 1)"
      by (rule round_mag_exact) (use e in simp_all)
    ultimately show ?thesis by simp
  qed
qed (simp add: round_mag_def)

lemma round_mag_mono: "p \<le> q \<Longrightarrow> round_mag p \<le> round_mag q"
proof (cases "0 < p")
  case True
  assume le: "p \<le> q"
  with True have q: "0 < q" by linarith
  let ?d = "quantum_exp p" and ?e = "quantum_exp q"
  have de: "?d \<le> ?e" using ilog2_mono [OF True le] by (simp add: quantum_exp_def)
  show "round_mag p \<le> round_mag q"
  proof (cases "?d = ?e")
    case same: True
    have "half_even (p / pow2 ?e) \<le> half_even (q / pow2 ?e)"
      by (rule half_even_mono) (use le in \<open>simp add: divide_right_mono less_imp_le\<close>)
    then show ?thesis unfolding round_mag_pos [OF True] round_mag_pos [OF q] same by simp
  next
    case False
    with de have lt: "?d < ?e" by simp
    then have e: "- 1074 < ?e" by (simp add: quantum_exp_def)
    have "round_mag p \<le> of_int (2 ^ 53) * pow2 ?d"
      unfolding round_mag_pos [OF True] using scaled_bounds(2) [OF True] by (simp only: mult_le_cancel_right_pos pow2_pos of_int_le_iff)
    also have "\<dots> = pow2 (53 + ?d)" by (simp add: pow2_add) (simp add: pow2_def)
    also have "\<dots> \<le> pow2 (52 + ?e)" using lt by (simp add: pow2_mono [symmetric])
    also have "\<dots> = of_int (2 ^ 52) * pow2 ?e" by (simp add: pow2_add) (simp add: pow2_def)
    also have "\<dots> \<le> round_mag q"
      unfolding round_mag_pos [OF q] using scaled_bounds(3) [OF q e] by (simp only: mult_le_cancel_right_pos pow2_pos of_int_le_iff)
    finally show ?thesis .
  qed
next
  case False
  then have "round_mag p = 0" by (simp add: round_mag_def)
  then show ?thesis by simp
qed

lemma round_mag_ge: "round_mag x = x \<Longrightarrow> x \<le> q \<Longrightarrow> x \<le> round_mag q"
  using round_mag_mono [of x q] by simp

lemma round_mag_le: "round_mag x = x \<Longrightarrow> q \<le> x \<Longrightarrow> round_mag q \<le> x"
  using round_mag_mono [of q x] by simp

lemma round_mag_int: "0 \<le> k \<Longrightarrow> k < 2 ^ 53 \<Longrightarrow> round_mag (of_int k) = of_int k"
  using round_mag_exact [of k 0] by (simp add: pow2_def)

section \<open>Values and operations\<close>

text \<open>The Boolean is the sign: true for negative numbers, and for the negative zero.\<close>

datatype f64 = NaN | Infinite bool | Finite bool rat

definition round_f64 :: "bool \<Rightarrow> rat \<Rightarrow> f64" where
  "round_f64 neg q = (let m = round_mag q in if pow2 1024 \<le> m then Infinite neg else Finite neg m)"

lemma pow2_le_iff: "pow2 k \<le> m \<longleftrightarrow> 0 < m \<and> k \<le> ilog2 m"
proof (cases "0 < m")
  case True
  with ilog2_bounds [OF True] show ?thesis
    by (meson le_less_trans not_less order_trans pow2_mono pow2_strict_mono zle_add1_eq_le)
next
  case False
  then show ?thesis using pow2_pos [of k] by linarith
qed

lemma round_f64_code [code]:
  "round_f64 neg q = (let m = round_mag q in if 0 < m \<and> 1024 \<le> ilog2 m then Infinite neg else Finite neg m)"
  by (simp only: round_f64_def pow2_le_iff)

definition f64_of_rat :: "rat \<Rightarrow> f64" where
  "f64_of_rat v = (if v < 0 then round_f64 True (- v) else round_f64 False v)"

definition f64_of_int :: "int \<Rightarrow> f64" where
  "f64_of_int i = f64_of_rat (of_int i)"

definition signed :: "bool \<Rightarrow> rat \<Rightarrow> rat" where
  "signed neg q = (if neg then - q else q)"

fun f_neg :: "f64 \<Rightarrow> f64" where
  "f_neg NaN = NaN"
| "f_neg (Infinite a) = Infinite (\<not> a)"
| "f_neg (Finite a p) = Finite (\<not> a) p"

fun f_add :: "f64 \<Rightarrow> f64 \<Rightarrow> f64" where
  "f_add NaN y = NaN"
| "f_add x NaN = NaN"
| "f_add (Infinite a) (Infinite b) = (if a = b then Infinite a else NaN)"
| "f_add (Infinite a) (Finite b q) = Infinite a"
| "f_add (Finite a p) (Infinite b) = Infinite b"
| "f_add (Finite a p) (Finite b q) =
     (let v = signed a p + signed b q in if v = 0 then Finite (a \<and> b) 0 else f64_of_rat v)"

definition f_sub :: "f64 \<Rightarrow> f64 \<Rightarrow> f64" where
  "f_sub x y = f_add x (f_neg y)"

fun f_mul :: "f64 \<Rightarrow> f64 \<Rightarrow> f64" where
  "f_mul NaN y = NaN"
| "f_mul x NaN = NaN"
| "f_mul (Infinite a) (Infinite b) = Infinite (a \<noteq> b)"
| "f_mul (Infinite a) (Finite b q) = (if q = 0 then NaN else Infinite (a \<noteq> b))"
| "f_mul (Finite a p) (Infinite b) = (if p = 0 then NaN else Infinite (a \<noteq> b))"
| "f_mul (Finite a p) (Finite b q) = round_f64 (a \<noteq> b) (p * q)"

fun f_div :: "f64 \<Rightarrow> f64 \<Rightarrow> f64" where
  "f_div NaN y = NaN"
| "f_div x NaN = NaN"
| "f_div (Infinite a) (Infinite b) = NaN"
| "f_div (Infinite a) (Finite b q) = Infinite (a \<noteq> b)"
| "f_div (Finite a p) (Infinite b) = Finite (a \<noteq> b) 0"
| "f_div (Finite a p) (Finite b q) =
     (if q = 0 then if p = 0 then NaN else Infinite (a \<noteq> b) else round_f64 (a \<noteq> b) (p / q))"

text \<open>Comparisons are false when a NaN takes part.\<close>

fun f_lt :: "f64 \<Rightarrow> f64 \<Rightarrow> bool" where
  "f_lt (Infinite a) (Infinite b) \<longleftrightarrow> a \<and> \<not> b"
| "f_lt (Infinite a) (Finite b q) \<longleftrightarrow> a"
| "f_lt (Finite a p) (Infinite b) \<longleftrightarrow> \<not> b"
| "f_lt (Finite a p) (Finite b q) \<longleftrightarrow> signed a p < signed b q"
| "f_lt _ _ \<longleftrightarrow> False"

fun f_le :: "f64 \<Rightarrow> f64 \<Rightarrow> bool" where
  "f_le (Infinite a) (Infinite b) \<longleftrightarrow> a \<or> \<not> b"
| "f_le (Infinite a) (Finite b q) \<longleftrightarrow> a"
| "f_le (Finite a p) (Infinite b) \<longleftrightarrow> \<not> b"
| "f_le (Finite a p) (Finite b q) \<longleftrightarrow> signed a p \<le> signed b q"
| "f_le _ _ \<longleftrightarrow> False"

abbreviation f_zero :: f64 where "f_zero \<equiv> Finite False 0"

abbreviation f_one :: f64 where "f_one \<equiv> Finite False 1"

text \<open>Conversion to an integer type cuts off the fraction; out of range Go leaves the result open.\<close>

fun f_trunc :: "f64 \<Rightarrow> int option" where
  "f_trunc (Finite a p) =
     (let i = (if a then - \<lfloor>p\<rfloor> else \<lfloor>p\<rfloor>) in if in_int64 i then Some i else None)"
| "f_trunc _ = None"

text \<open>The values there are.\<close>

fun f64_ok :: "f64 \<Rightarrow> bool" where
  "f64_ok (Finite a p) \<longleftrightarrow> 0 \<le> p \<and> round_mag p = p \<and> p < pow2 1024"
| "f64_ok _ \<longleftrightarrow> True"

lemma round_f64_ok [simp]: "f64_ok (round_f64 neg q)"
  by (simp add: round_f64_def Let_def)

lemma f64_of_rat_ok [simp]: "f64_ok (f64_of_rat v)" "f64_ok (f64_of_int i)"
  by (simp_all add: f64_of_rat_def f64_of_int_def)

lemma f64_zero_ok [simp]: "f64_ok (Finite a 0)"
  by (simp add: round_mag_def)

lemma f64_one_ok [simp]: "f64_ok f_one"
  using round_mag_int [of 1] by (simp add: pow2_def)

lemma f64_ops_ok:
  "f64_ok x \<Longrightarrow> f64_ok (f_neg x)" "f64_ok (f_add x y)" "f64_ok (f_sub x y)" "f64_ok (f_mul x y)" "f64_ok (f_div x y)"
proof -
  show "f64_ok x \<Longrightarrow> f64_ok (f_neg x)" by (cases x) simp_all
  show add: "f64_ok (f_add x y)" for x y by (induction x y rule: f_add.induct) (simp_all add: Let_def del: f64_ok.simps(1))
  then show "f64_ok (f_sub x y)" by (simp add: f_sub_def)
  show "f64_ok (f_mul x y)" by (induction x y rule: f_mul.induct) simp_all
  show "f64_ok (f_div x y)" by (induction x y rule: f_div.induct) (simp_all del: f64_ok.simps(1))
qed

section \<open>Order\<close>

lemma f_le_refl: "f_le x x \<longleftrightarrow> x \<noteq> NaN"
  by (cases x) simp_all

lemma f_le_trans: "f_le x y \<Longrightarrow> f_le y z \<Longrightarrow> f_le x z"
  by (cases x; cases y; cases z) auto

lemma f_le_lt_trans: "f_le x y \<Longrightarrow> f_lt y z \<Longrightarrow> f_lt x z"
  by (cases x; cases y; cases z) auto

lemma f_lt_le_trans: "f_lt x y \<Longrightarrow> f_le y z \<Longrightarrow> f_lt x z"
  by (cases x; cases y; cases z) auto

lemma f_lt_imp_le: "f_lt x y \<Longrightarrow> f_le x y"
  by (cases x; cases y) auto

lemma f_le_NaN: "f_le x y \<Longrightarrow> x \<noteq> NaN \<and> y \<noteq> NaN"
  by (cases x; cases y) auto

lemma f_lt_NaN: "f_lt x y \<Longrightarrow> x \<noteq> NaN \<and> y \<noteq> NaN"
  by (cases x; cases y) auto

lemma f_not_lt: "x \<noteq> NaN \<Longrightarrow> y \<noteq> NaN \<Longrightarrow> \<not> f_lt x y \<longleftrightarrow> f_le y x"
  by (cases x; cases y) auto

text \<open>Rounding keeps the order of the exact results.\<close>

lemma round_f64_mono: "p \<le> q \<Longrightarrow> f_le (round_f64 False p) (round_f64 False q)"
  using round_mag_mono [of p q] by (auto simp: round_f64_def Let_def signed_def)

lemma round_f64_exact: "f64_ok (Finite a p) \<Longrightarrow> round_f64 a p = Finite a p"
  by (simp add: round_f64_def Let_def)

lemma round_f64_nonneg: "f_le f_zero (round_f64 False p)"
  by (simp add: round_f64_def Let_def signed_def)

lemma f64_of_rat_nonneg: "0 \<le> v \<Longrightarrow> f64_of_rat v = round_f64 False v"
  by (simp add: f64_of_rat_def)

lemma f64_of_int_mono:
  assumes "0 \<le> i" "i \<le> j"
  shows "f_le (f64_of_int i) (f64_of_int j)"
  using assms round_f64_mono [of "of_int i" "of_int j"] by (simp add: f64_of_int_def f64_of_rat_nonneg)

lemma f64_of_int_small: "0 \<le> i \<Longrightarrow> i < 2 ^ 53 \<Longrightarrow> f64_of_int i = Finite False (of_int i)"
proof -
  assume i: "0 \<le> i" "i < 2 ^ 53"
  have "(of_int i :: rat) < of_int (2 ^ 53)" using i(2) by (simp only: of_int_less_iff)
  also have "\<dots> = pow2 53" by (simp add: pow2_def)
  also have "\<dots> < pow2 1024" by (simp add: pow2_strict_mono [symmetric])
  finally have "(of_int i :: rat) < pow2 1024" .
  with round_mag_int [OF i] i(1) show ?thesis
    by (simp add: f64_of_int_def f64_of_rat_nonneg round_f64_def)
qed

text \<open>\<open>int64\<close> values are finite, and positive ones are positive.\<close>

lemma f64_of_int64:
  assumes "0 < i" "in_int64 i"
  obtains p where "f64_of_int i = Finite False p" "1 \<le> p"
proof -
  have one: "1 \<le> round_mag (of_int i)"
    by (rule round_mag_ge [of 1]) (use assms(1) round_mag_int [of 1] in simp_all)
  have "i \<le> 2 ^ 63" using assms(2) by (simp add: in_int64_def)
  then have "(of_int i :: rat) \<le> of_int (2 ^ 63)" by (simp only: of_int_le_iff)
  then have "(of_int i :: rat) \<le> of_int 1 * pow2 63" by (simp add: pow2_def)
  from round_mag_le [OF _ this] round_mag_exact [of 1 63] have "round_mag (of_int i) \<le> pow2 63" by simp
  also have "\<dots> < pow2 1024" by (simp add: pow2_strict_mono [symmetric])
  finally have "f64_of_int i = Finite False (round_mag (of_int i))"
    using assms(1) by (simp add: f64_of_int_def f64_of_rat_nonneg round_f64_def not_le)
  from this one show thesis by (rule that)
qed

text \<open>Sums, products and quotients of numbers that are not negative.\<close>

definition nonneg :: "f64 \<Rightarrow> bool" where
  "nonneg x \<longleftrightarrow> f_le f_zero x"

lemma nonneg_cases:
  assumes "nonneg x" "f64_ok x"
  obtains "x = Infinite False" | s q where "x = Finite s q" "signed s q = q" "0 \<le> q"
  using assms by (cases x) (auto simp: nonneg_def signed_def split: if_splits)

lemma f_add_nonneg:
  assumes "nonneg x" "nonneg y" "f64_ok x" "f64_ok y"
  shows "nonneg (f_add x y)" "f_le y (f_add x y)"
proof -
  have *: "nonneg (f_add x y) \<and> f_le y (f_add x y)"
  proof (cases rule: nonneg_cases [OF assms(1,3)])
    case 1
    with assms(2,4) show ?thesis by (cases rule: nonneg_cases [OF assms(2,4)]) (simp_all add: nonneg_def)
  next
    case x: (2 s p)
    show ?thesis
    proof (cases rule: nonneg_cases [OF assms(2,4)])
      case 1
      with x show ?thesis by (simp add: nonneg_def)
    next
      case y: (2 r q)
      show ?thesis
      proof (cases "p + q = 0")
        case True
        with x y have "p = 0" "q = 0" by simp_all
        with x y show ?thesis by (simp add: nonneg_def signed_def)
      next
        case False
        then have sum: "f_add x y = round_f64 False (p + q)" using x y by (simp add: Let_def f64_of_rat_nonneg)
        have "f_le (round_f64 False q) (round_f64 False (p + q))" by (rule round_f64_mono) (use x in simp)
        moreover have "round_f64 False q = Finite False q"
          by (rule round_f64_exact) (use assms(4) y in simp)
        ultimately have "f_le (Finite False q) (f_add x y)" by (simp only: sum)
        moreover have "f_le y (Finite False q)" using y by (simp add: signed_def)
        ultimately show ?thesis using round_f64_nonneg f_le_trans unfolding nonneg_def sum by blast
      qed
    qed
  qed
  then show "nonneg (f_add x y)" "f_le y (f_add x y)" by simp_all
qed

lemma f_mul_nonneg:
  assumes "nonneg (Finite s p)" "nonneg (Finite r q)" "f64_ok (Finite s p)" "f64_ok (Finite r q)"
  shows "f_le f_zero (f_mul (Finite False p) (Finite False q))"
    and "1 \<le> p \<Longrightarrow> f_le (Finite False q) (f_mul (Finite False p) (Finite False q))"
proof -
  show "f_le f_zero (f_mul (Finite False p) (Finite False q))" by (simp add: round_f64_nonneg)
  assume "1 \<le> p"
  then have "q \<le> p * q" using assms(4) by (simp add: mult_right_mono [of 1 p q, simplified])
  from round_f64_mono [OF this] round_f64_exact [of False q] assms(4)
  show "f_le (Finite False q) (f_mul (Finite False p) (Finite False q))" by simp
qed

text \<open>A quotient of a part by the whole is at most one.\<close>

lemma f_div_part:
  assumes "0 \<le> p" "0 < q"
  shows "f_le f_zero (f_div (Finite False p) (Finite False q))"
    and "p \<le> q \<Longrightarrow> f_le (f_div (Finite False p) (Finite False q)) f_one"
proof -
  show "f_le f_zero (f_div (Finite False p) (Finite False q))" using assms(2) by (simp add: round_f64_nonneg)
  assume "p \<le> q"
  then have "p / q \<le> 1" using assms(2) by simp
  from round_f64_mono [OF this] round_f64_exact [of False 1] f64_one_ok assms(2)
  show "f_le (f_div (Finite False p) (Finite False q)) f_one" by (simp del: f64_ok.simps)
qed

lemma f_div_nonneg:
  assumes "nonneg x" "f64_ok x" "0 < q"
  shows "nonneg (f_div x (Finite False q))"
proof (cases rule: nonneg_cases [OF assms(1,2)])
  case (2 s p)
  have "nonneg (round_f64 s (p / q))"
  proof (cases s)
    case True
    with 2 have "p = 0" by (simp add: signed_def)
    then show ?thesis by (simp add: nonneg_def round_f64_def round_mag_def signed_def not_le)
  qed (simp add: nonneg_def round_f64_nonneg)
  with 2 assms(3) show ?thesis by simp
qed (simp add: nonneg_def)

lemma f64_of_int_nonneg: "0 \<le> i \<Longrightarrow> nonneg (f64_of_int i)"
  by (simp add: nonneg_def f64_of_int_def f64_of_rat_nonneg round_f64_nonneg)

lemma round_f64_unit:
  assumes "0 \<le> q" "q \<le> 1"
  obtains r where "round_f64 False q = Finite False r" "0 \<le> r" "r \<le> 1"
proof -
  have "f_le (round_f64 False q) f_one"
    using round_f64_mono [OF assms(2)] round_f64_exact [of False 1] f64_one_ok by simp
  then show thesis
    using that [of "round_mag q"] by (auto simp: round_f64_def Let_def signed_def split: if_splits)
qed

lemma f64_of_int_part:
  assumes "0 \<le> i" "i \<le> j" "f64_of_int j = Finite False q"
  obtains p where "f64_of_int i = Finite False p" "0 \<le> p" "p \<le> q"
proof -
  from assms(1,2) have "f_le (f64_of_int i) (Finite False q)" using f64_of_int_mono assms(3) by metis
  moreover have "f64_of_int i = round_f64 False (of_int i)"
    using assms(1) by (simp add: f64_of_int_def f64_of_rat_nonneg)
  ultimately show thesis
    using that [of "round_mag (of_int i)"] by (auto simp: round_f64_def Let_def signed_def split: if_splits)
qed

section \<open>Rounding errors\<close>

lemma half_even_err: "\<bar>of_int (half_even x) - x\<bar> \<le> 1 / 2"
proof -
  have "of_int \<lfloor>x\<rfloor> \<le> x" "x < of_int \<lfloor>x\<rfloor> + 1" by linarith+
  then show ?thesis by (auto simp: half_even_def Let_def abs_le_iff)
qed

lemma quantum_exp_mono: "0 < p \<Longrightarrow> p \<le> q \<Longrightarrow> quantum_exp p \<le> quantum_exp q"
  using ilog2_mono [of p q] by (simp add: quantum_exp_def)

lemma round_mag_err:
  assumes "0 < q"
  shows "\<bar>round_mag q - q\<bar> \<le> pow2 (quantum_exp q) / 2"
proof -
  let ?u = "pow2 (quantum_exp q)" and ?k = "of_int (half_even (q / pow2 (quantum_exp q))) :: rat"
  have "round_mag q - q = (?k - q / ?u) * ?u"
    unfolding round_mag_pos [OF assms] by (simp add: left_diff_distrib)
  then have "\<bar>round_mag q - q\<bar> = \<bar>?k - q / ?u\<bar> * ?u" by (simp add: abs_mult less_imp_le)
  also have "\<dots> \<le> 1 / 2 * ?u" by (rule mult_right_mono [OF half_even_err]) (simp add: less_imp_le)
  finally show ?thesis by simp
qed

lemma quantum_normal:
  assumes "pow2 (- 1022) \<le> q"
  shows "pow2 (quantum_exp q) \<le> q * pow2 (- 52)"
proof -
  have pos: "0 < q" using assms pow2_pos [of "- 1022"] by linarith
  have "- 1022 < ilog2 q + 1"
    using ilog2_bounds [OF pos] assms unfolding pow2_strict_mono by linarith
  then have "quantum_exp q = ilog2 q + - 52" by (simp add: quantum_exp_def)
  then have "pow2 (quantum_exp q) = pow2 (ilog2 q) * pow2 (- 52)" by (simp only: pow2_add)
  also have "\<dots> \<le> q * pow2 (- 52)"
    using ilog2_bounds [OF pos] by (intro mult_right_mono) (simp_all add: less_imp_le)
  finally show ?thesis .
qed

text \<open>The error of a result up to \<open>c\<close> is at most \<open>c\<close> times 2 to the -53rd.\<close>

lemma round_mag_within:
  assumes "0 \<le> q" "q \<le> c" "pow2 (- 1022) \<le> c"
  shows "round_mag q \<le> q + c * pow2 (- 53)" "q - c * pow2 (- 53) \<le> round_mag q"
proof -
  have half: "pow2 (- 53) = pow2 (- 52) / 2" by (simp add: pow2_def)
  have c: "0 < c" using assms(3) pow2_pos [of "- 1022"] by linarith
  have "\<bar>round_mag q - q\<bar> \<le> c * pow2 (- 53)"
  proof (cases "q = 0")
    case True
    then show ?thesis using c by (simp add: round_mag_def less_imp_le)
  next
    case False
    with assms(1) have q: "0 < q" by simp
    have "\<bar>round_mag q - q\<bar> \<le> pow2 (quantum_exp q) / 2" by (rule round_mag_err [OF q])
    also have "\<dots> \<le> pow2 (quantum_exp c) / 2"
      using quantum_exp_mono [OF q assms(2)] by (simp add: pow2_mono)
    also have "\<dots> \<le> c * pow2 (- 53)" using quantum_normal [OF assms(3)] unfolding half by simp
    finally show ?thesis .
  qed
  then show "round_mag q \<le> q + c * pow2 (- 53)" "q - c * pow2 (- 53) \<le> round_mag q" by linarith+
qed

text \<open>Operations whose result is finite, on the magnitudes.\<close>

lemma round_mag_0 [simp]: "round_mag 0 = 0"
  by (simp add: round_mag_def)

definition in_range :: "rat \<Rightarrow> bool" where
  "in_range q \<longleftrightarrow> 0 \<le> q \<and> q \<le> pow2 1023"

lemma pow2_normal: "- 1074 \<le> k \<Longrightarrow> round_mag (pow2 k) = pow2 k"
  using round_mag_exact [of 1 k] by simp

lemma round_f64_in_range: "in_range q \<Longrightarrow> round_f64 False q = Finite False (round_mag q)"
proof -
  assume "in_range q"
  then have "round_mag q \<le> pow2 1023" by (intro round_mag_le pow2_normal) (simp_all add: in_range_def)
  also have "\<dots> < pow2 1024" by (simp add: pow2_strict_mono [symmetric])
  finally show ?thesis by (simp add: round_f64_def not_le)
qed

lemma f_add_in_range: "0 \<le> p \<Longrightarrow> 0 \<le> q \<Longrightarrow> in_range (p + q) \<Longrightarrow> f_add (Finite False p) (Finite False q) = Finite False (round_mag (p + q))"
  using round_f64_in_range [of "p + q"] by (auto simp: signed_def f64_of_rat_nonneg Let_def)

lemma f_sub_in_range: "0 \<le> q \<Longrightarrow> q \<le> p \<Longrightarrow> in_range (p - q) \<Longrightarrow> f_sub (Finite False p) (Finite False q) = Finite False (round_mag (p - q))"
  using round_f64_in_range [of "p - q"] by (auto simp: f_sub_def signed_def f64_of_rat_nonneg Let_def)

lemma f_mul_in_range: "in_range (p * q) \<Longrightarrow> f_mul (Finite False p) (Finite False q) = Finite False (round_mag (p * q))"
  by (simp add: round_f64_in_range)

lemma f_div_in_range: "0 < q \<Longrightarrow> in_range (p / q) \<Longrightarrow> f_div (Finite False p) (Finite False q) = Finite False (round_mag (p / q))"
  by (simp add: round_f64_in_range)

lemma f64_of_int_in_range: "0 \<le> i \<Longrightarrow> in_int64 i \<Longrightarrow> f64_of_int i = Finite False (round_mag (of_int i)) \<and> round_mag (of_int i) \<le> pow2 63"
proof -
  assume i: "0 \<le> i" "in_int64 i"
  from i(2) have "i \<le> 2 ^ 63" by (simp add: in_int64_def)
  then have "(of_int i :: rat) \<le> of_int (2 ^ 63)" by (simp only: of_int_le_iff)
  then have le: "(of_int i :: rat) \<le> pow2 63" by (simp add: pow2_def)
  then have "in_range (of_int i)"
    using i(1) pow2_mono [of 63 1023] unfolding in_range_def by simp
  with round_mag_le [OF pow2_normal le] i(1) show ?thesis
    by (simp add: f64_of_int_def f64_of_rat_nonneg round_f64_in_range)
qed

end
