(* ===== verification/Gotext.thy ===== *)
theory Gotext
  imports Gostd
begin

text \<open>
  Go's \<open>strings\<close> on text that need not be ASCII: \<open>TrimSpace\<close>, and what \<open>ToLower\<close> gives
  when its result is compared with an ASCII word. A string is its UTF-8 bytes.
\<close>

section \<open>\<open>strings.TrimSpace\<close>\<close>

text \<open>
  The UTF-8 encodings of the characters \<open>unicode.IsSpace\<close> holds for. None is the beginning or
  the end of another, and each begins with a byte that no other position of an encoding has, so
  cutting encodings off the bytes is cutting characters off the text.
\<close>

definition space_codes :: "nat list list" where
  "space_codes = [[9], [10], [11], [12], [13], [32], [0xC2, 0x85], [0xC2, 0xA0], [0xE1, 0x9A, 0x80],
     [0xE2, 0x80, 0x80], [0xE2, 0x80, 0x81], [0xE2, 0x80, 0x82], [0xE2, 0x80, 0x83],
     [0xE2, 0x80, 0x84], [0xE2, 0x80, 0x85], [0xE2, 0x80, 0x86], [0xE2, 0x80, 0x87],
     [0xE2, 0x80, 0x88], [0xE2, 0x80, 0x89], [0xE2, 0x80, 0x8A], [0xE2, 0x80, 0xA8],
     [0xE2, 0x80, 0xA9], [0xE2, 0x80, 0xAF], [0xE2, 0x81, 0x9F], [0xE3, 0x80, 0x80]]"

definition starts_with :: "'a list \<Rightarrow> 'a list \<Rightarrow> bool" where
  "starts_with p s \<longleftrightarrow> p \<noteq> [] \<and> take (length p) s = p"

lemma starts_with_length: "starts_with p s \<Longrightarrow> 0 < length p \<and> length p \<le> length s"
  unfolding starts_with_def by (metis length_greater_0_conv length_take min.absorb_iff2 min.commute)

function skip_all :: "'a list list \<Rightarrow> 'a list \<Rightarrow> 'a list" where
  "skip_all ps s =
     (case find (\<lambda>p. starts_with p s) ps of None \<Rightarrow> s | Some p \<Rightarrow> skip_all ps (drop (length p) s))"
  by pat_completeness auto

termination
proof (relation "measure (\<lambda>(ps, s). length s)")
  fix ps :: "'a list list" and s p
  assume "find (\<lambda>p. starts_with p s) ps = Some p"
  then have "starts_with p s" by (auto simp: find_Some_iff)
  then have "length s - length p < length s" using starts_with_length [of p s] by linarith
  then show "((ps, drop (length p) s), (ps, s)) \<in> measure (\<lambda>(ps, s). length s)" by simp
qed simp

declare skip_all.simps [simp del]

definition TrimSpace :: "string \<Rightarrow> string" where
  "TrimSpace s =
     (let cs = skip_all space_codes (map of_char s)
      in map char_of (rev (skip_all (map rev space_codes) (rev cs))))"

text \<open>Text without a space at either end is kept.\<close>

lemma skip_all_id: "\<forall>p \<in> set ps. \<not> starts_with p s \<Longrightarrow> skip_all ps s = s"
  by (subst skip_all.simps) (auto simp: find_Some_iff split: option.split)

lemma skip_all_step:
  assumes "find (\<lambda>p. starts_with p s) ps = Some p"
  shows "skip_all ps s = skip_all ps (drop (length p) s)"
  using assms by (subst skip_all.simps) simp

lemma skip_all_Nil [simp]: "skip_all ps [] = []"
  by (rule skip_all_id) (auto simp: starts_with_def)

text \<open>Text bounded by printable ASCII characters is trimmed to itself.\<close>

definition printable :: "char \<Rightarrow> bool" where
  "printable c \<longleftrightarrow> 32 < (of_char c :: nat) \<and> (of_char c :: nat) < 127"

lemma space_codes_ends:
  "p \<in> set space_codes \<Longrightarrow> hd p \<le> 32 \<or> 127 < hd p" "p \<in> set space_codes \<Longrightarrow> last p \<le> 32 \<or> 127 < last p"
  "p \<in> set space_codes \<Longrightarrow> p \<noteq> []"
  by (auto simp: space_codes_def)

lemma starts_with_hd: "starts_with p s \<Longrightarrow> s \<noteq> [] \<and> hd p = hd s"
  unfolding starts_with_def by (metis hd_take length_greater_0_conv take_eq_Nil)

lemma skip_all_rev:
  assumes "s \<noteq> []" "printable (last s)"
  shows "skip_all (map rev space_codes) (rev (map of_char s)) = rev (map of_char s)"
proof (rule skip_all_id, intro ballI notI)
  fix q assume q: "q \<in> set (map rev space_codes)" "starts_with q (rev (map of_char s))"
  then obtain p where "p \<in> set space_codes" "q = rev p" by auto
  with space_codes_ends(2,3) [of p] starts_with_hd [OF q(2)] assms show False
    by (auto simp: printable_def hd_rev last_map)
qed

lemma TrimSpace_id:
  assumes "s \<noteq> []" "printable (hd s)" "printable (last s)"
  shows "TrimSpace s = s"
proof -
  let ?c = "map of_char s :: nat list"
  have l: "skip_all space_codes ?c = ?c"
  proof (rule skip_all_id, intro ballI notI)
    fix p assume "p \<in> set space_codes" "starts_with p ?c"
    with space_codes_ends(1) [of p] starts_with_hd [of p ?c] assms(1,2) show False
      by (auto simp: printable_def hd_map)
  qed
  note r = skip_all_rev [OF assms(1,3)]
  show ?thesis unfolding TrimSpace_def Let_def l r by (simp add: comp_def)
qed

section \<open>\<open>strings.ToLower\<close> against ASCII words\<close>

text \<open>
  Apart from the letters A to Z, two characters have an ASCII letter as their lower case: the
  Kelvin sign (\<open>E2 84 AA\<close>), and the capital I with a dot (\<open>C4 B0\<close>). Other characters stay
  outside ASCII, so for an ASCII word \<open>w\<close> the code's \<open>strings.ToLower(s) == w\<close> is
  \<open>ToLower s = w\<close>, and the ASCII blanks at the ends are the same.
\<close>

fun lower_codes :: "nat list \<Rightarrow> nat list" where
  "lower_codes [] = []"
| "lower_codes (c # cs) =
     (if c = 0xC4 \<and> take 1 cs = [0xB0] then 105 # lower_codes (drop 1 cs)
      else if c = 0xE2 \<and> take 2 cs = [0x84, 0xAA] then 107 # lower_codes (drop 2 cs)
      else (if 65 \<le> c \<and> c \<le> 90 then c + 32 else c) # lower_codes cs)"

definition ToLower :: "string \<Rightarrow> string" where
  "ToLower s = map char_of (lower_codes (map of_char s))"

text \<open>On ASCII text it is the conversion letter by letter.\<close>

definition ascii :: "string \<Rightarrow> bool" where
  "ascii s \<longleftrightarrow> list_all (\<lambda>c. (of_char c :: nat) < 128) s"

lemma ToLower_ascii: "ascii s \<Longrightarrow> ToLower s = lower s"
proof (induction s)
  case (Cons c s)
  then have "(of_char c :: nat) < 128" "ToLower s = lower s" by (simp_all add: ascii_def)
  then show ?case by (simp add: ToLower_def lower_def to_lower_def Let_def)
qed (simp add: ToLower_def lower_def)

end
