(* ===== verification/Gomap.thy ===== *)
theory Gomap
  imports Main "HOL-Library.AList" "HOL-Library.Multiset"
begin

text \<open>
  Go's \<open>map[K]V\<close>: a list of entries with distinct keys. A lookup, an assignment, a deletion and
  \<open>len\<close> do not depend on the order of the list; \<open>range\<close> visits the entries in an order the
  language leaves open, which is a permutation of it.
\<close>

type_synonym ('k, 'v) gomap = "('k \<times> 'v) list"

definition map_ok :: "('k, 'v) gomap \<Rightarrow> bool" where
  "map_ok m \<longleftrightarrow> distinct (map fst m)"

abbreviation map_get :: "('k, 'v) gomap \<Rightarrow> 'k \<Rightarrow> 'v option" where
  "map_get \<equiv> map_of"

abbreviation map_put :: "'k \<Rightarrow> 'v \<Rightarrow> ('k, 'v) gomap \<Rightarrow> ('k, 'v) gomap" where
  "map_put \<equiv> AList.update"

abbreviation map_del :: "'k \<Rightarrow> ('k, 'v) gomap \<Rightarrow> ('k, 'v) gomap" where
  "map_del \<equiv> AList.delete"

definition range_order :: "('k, 'v) gomap \<Rightarrow> ('k, 'v) gomap \<Rightarrow> bool" where
  "range_order m xs \<longleftrightarrow> mset xs = mset m"

lemma map_ok_Nil [simp]: "map_ok []"
  by (simp add: map_ok_def)

lemma map_ok_put [simp]: "map_ok m \<Longrightarrow> map_ok (map_put k v m)"
  by (simp add: map_ok_def distinct_update)

lemma map_ok_del [simp]: "map_ok m \<Longrightarrow> map_ok (map_del k m)"
  by (simp add: map_ok_def distinct_delete)

lemma map_get_put [simp]: "map_get (map_put k v m) = (map_get m)(k \<mapsto> v)"
  by (rule update_conv')

lemma map_get_del [simp]: "map_get (map_del k m) = (map_get m)(k := None)"
  by (rule delete_conv')

lemma set_map_put: "set (map_put k v m) \<subseteq> insert (k, v) (set m)"
  by (induction m) auto

lemma set_map_del: "set (map_del k m) = {x \<in> set m. fst x \<noteq> k}"
  by (auto simp: AList.delete_eq)

lemma length_map_put: "length (map_put k v m) = (if map_get m k = None then length m + 1 else length m)"
  by (induction m) auto

lemma range_order_refl [simp]: "range_order m m"
  by (simp add: range_order_def)

lemma range_order_length: "range_order m xs \<Longrightarrow> length xs = length m"
  unfolding range_order_def by (rule mset_eq_length)

lemma range_order_set: "range_order m xs \<Longrightarrow> set xs = set m"
  unfolding range_order_def by (rule mset_eq_setD)

text \<open>A loop over a map sees every entry once, whatever the order.\<close>

lemma range_order_get:
  assumes "map_ok m" "range_order m xs"
  shows "distinct (map fst xs)" "(k, v) \<in> set xs \<longleftrightarrow> map_get m k = Some v"
proof -
  have "mset (map fst xs) = mset (map fst m)" using assms(2) by (simp add: range_order_def)
  then show "distinct (map fst xs)" using assms(1) unfolding map_ok_def by (metis mset_eq_imp_distinct_iff)
  show "(k, v) \<in> set xs \<longleftrightarrow> map_get m k = Some v"
    using assms by (simp add: range_order_set map_ok_def)
qed

end
