(* ===== verification/Scheduler.thy ===== *)
theory Scheduler
  imports Prelude Gotext Gomap Float64
begin

text \<open>
  Workload manifests (\<open>src/internal/scheduler/manifest.go\<close>) and the placement of workloads
  (\<open>src/internal/scheduler/scheduler.go\<close>). CPU cores are \<open>float64\<close>, memory is \<open>int64\<close>. The
  YAML decoder is not under \<open>src/\<close>: it is a parameter, from bytes to an error or a manifest.
  A result that points into the slice of candidates is the candidate.
\<close>

section \<open>Manifests\<close>

type_synonym WorkloadType = string

abbreviation WorkloadStateless :: WorkloadType where "WorkloadStateless \<equiv> ''stateless''"

abbreviation WorkloadStateful :: WorkloadType where "WorkloadStateful \<equiv> ''stateful''"

record PortMapping =
  HostPort :: int
  ContainerPort :: int
  Protocol :: string

record WorkloadManifest =
  WorkloadID :: string
  Name :: string
  Image :: string
  Type :: WorkloadType
  CPUCores :: f64
  MemoryMB :: int
  PortMappings :: "PortMapping list"
  Env :: "(string, string) gomap"
  SnapshotIntervalSec :: int

datatype manifest_err = ErrInvalidManifest | ErrInvalidWorkloadType | YamlError string

definition Validate :: "WorkloadManifest \<Rightarrow> manifest_err + WorkloadManifest" where
  "Validate m =
     (if WorkloadID m = [] \<or> Name m = [] \<or> Image m = [] then Inl ErrInvalidManifest
      else if f_le (CPUCores m) f_zero \<or> MemoryMB m \<le> 0 then Inl ErrInvalidManifest
      else let wt = ToLower (Type m) in
        if wt \<noteq> WorkloadStateless \<and> wt \<noteq> WorkloadStateful then Inl ErrInvalidWorkloadType
        else Inr (m\<lparr>Type := wt\<rparr>))"

definition ParseManifestYAML ::
  "('d \<Rightarrow> string + WorkloadManifest) \<Rightarrow> 'd \<Rightarrow> manifest_err + WorkloadManifest" where
  "ParseManifestYAML unmarshal data =
     (case unmarshal data of Inl e \<Rightarrow> Inl (YamlError e) | Inr m \<Rightarrow> Validate m)"

section \<open>Candidates\<close>

record NodeComputeCapability =
  NodeID :: string
  OS :: string
  ComputeEnabled :: bool
  IsHealthy :: bool
  TotalCPUCores :: f64
  AllocatedCPUCores :: f64
  TotalMemoryMB :: int
  AllocatedMemoryMB :: int

definition AvailableCPU :: "NodeComputeCapability \<Rightarrow> f64" where
  "AvailableCPU n =
     (let free = f_sub (TotalCPUCores n) (AllocatedCPUCores n) in if f_lt free f_zero then f_zero else free)"

definition AvailableMemoryMB :: "NodeComputeCapability \<Rightarrow> int" where
  "AvailableMemoryMB n =
     (let free = wrap64 (TotalMemoryMB n - AllocatedMemoryMB n) in if free < 0 then 0 else free)"

section \<open>Placement\<close>

datatype sched_err = ErrNoEligibleComputeNode | ErrStatefulWorkloadPinned

definition score :: "NodeComputeCapability \<Rightarrow> f64" where
  "score c =
     (let cpuRatio = f_div (AvailableCPU c) (TotalCPUCores c);
          memRatio = f_div (f64_of_int (AvailableMemoryMB c)) (f64_of_int (TotalMemoryMB c))
      in f_div (f_add cpuRatio memRatio) (Finite False 2))"

definition eligible :: "WorkloadManifest \<Rightarrow> NodeComputeCapability \<Rightarrow> bool" where
  "eligible m c \<longleftrightarrow>
     ToLower (OS c) = ''linux'' \<and> ComputeEnabled c \<and> IsHealthy c \<and>
     \<not> (f_lt (AvailableCPU c) (CPUCores m) \<or> AvailableMemoryMB c < MemoryMB m)"

fun select_loop ::
  "WorkloadManifest \<Rightarrow> NodeComputeCapability option \<Rightarrow> f64 \<Rightarrow> NodeComputeCapability list
     \<Rightarrow> NodeComputeCapability option" where
  "select_loop m bestNode maxScore [] = bestNode"
| "select_loop m bestNode maxScore (c # cs) =
     (if eligible m c \<and> f_lt maxScore (score c) then select_loop m (Some c) (score c) cs
      else select_loop m bestNode maxScore cs)"

definition SelectNode ::
  "WorkloadManifest \<Rightarrow> NodeComputeCapability list \<Rightarrow> sched_err + NodeComputeCapability" where
  "SelectNode m candidates =
     (case select_loop m None (Finite True 1) candidates of
        None \<Rightarrow> Inl ErrNoEligibleComputeNode | Some c \<Rightarrow> Inr c)"

definition RescheduleOnNodeFailure ::
  "WorkloadManifest \<Rightarrow> string \<Rightarrow> NodeComputeCapability list \<Rightarrow> sched_err + NodeComputeCapability" where
  "RescheduleOnNodeFailure m deadNodeID candidates =
     (if Type m = WorkloadStateful then Inl ErrStatefulWorkloadPinned
      else SelectNode m (filter (\<lambda>c. NodeID c \<noteq> deadNodeID) candidates))"

section \<open>What is chosen\<close>

text \<open>
  The loop starts from the score -1.0, so a candidate counts when it is eligible and scores more
  than that; the first of the best of these is chosen.
\<close>

definition accepted :: "WorkloadManifest \<Rightarrow> f64 \<Rightarrow> NodeComputeCapability \<Rightarrow> bool" where
  "accepted m s c \<longleftrightarrow> eligible m c \<and> f_lt s (score c)"

lemma select_loop_cases:
  assumes "s \<noteq> NaN"
  shows "select_loop m b s cs = b \<and> (\<forall>c \<in> set cs. \<not> accepted m s c) \<or>
    (\<exists>xs c ys. cs = xs @ c # ys \<and> select_loop m b s cs = Some c \<and> accepted m s c \<and>
       (\<forall>x \<in> set xs. accepted m s x \<longrightarrow> f_lt (score x) (score c)) \<and>
       (\<forall>y \<in> set ys. accepted m s y \<longrightarrow> f_le (score y) (score c)))"
  using assms
proof (induction cs arbitrary: b s)
  case (Cons c cs)
  show ?case
  proof (cases "accepted m s c")
    case False
    then have loop: "select_loop m b s (c # cs) = select_loop m b s cs" by (auto simp: accepted_def)
    from Cons.IH [OF Cons.prems, of b] show ?thesis
    proof (elim disjE exE conjE)
      fix xs d ys
      assume "cs = xs @ d # ys" "select_loop m b s cs = Some d" "accepted m s d"
        "\<forall>x \<in> set xs. accepted m s x \<longrightarrow> f_lt (score x) (score d)"
        "\<forall>y \<in> set ys. accepted m s y \<longrightarrow> f_le (score y) (score d)"
      with False loop show ?thesis by (intro disjI2 exI [of _ "c # xs"] exI [of _ d] exI [of _ ys]) simp
    qed (use False loop in simp)
  next
    case True
    then have lt: "f_lt s (score c)" and el: "eligible m c" by (simp_all add: accepted_def)
    have nan: "score c \<noteq> NaN" using f_lt_NaN [OF lt] by simp
    have loop: "select_loop m b s (c # cs) = select_loop m (Some c) (score c) cs" using lt el by simp
    have up: "accepted m (score c) x \<or> f_le (score x) (score c)" if "accepted m s x" for x
      using that nan f_lt_NaN [of s "score x"] f_not_lt [of "score c" "score x"] by (auto simp: accepted_def)
    from Cons.IH [OF nan, of "Some c"] show ?thesis
    proof (elim disjE exE conjE)
      assume "select_loop m (Some c) (score c) cs = Some c" "\<forall>x \<in> set cs. \<not> accepted m (score c) x"
      with up loop True show ?thesis by (intro disjI2 exI [of _ "[]"] exI [of _ c] exI [of _ cs]) auto
    next
      fix xs d ys
      assume cs: "cs = xs @ d # ys" and res: "select_loop m (Some c) (score c) cs = Some d"
        and d: "accepted m (score c) d"
        and xs: "\<forall>x \<in> set xs. accepted m (score c) x \<longrightarrow> f_lt (score x) (score d)"
        and ys: "\<forall>y \<in> set ys. accepted m (score c) y \<longrightarrow> f_le (score y) (score d)"
      have cd: "f_lt (score c) (score d)" using d by (simp add: accepted_def)
      have "accepted m s d" using d f_lt_le_trans [OF lt f_lt_imp_le [OF cd]] by (simp add: accepted_def)
      moreover have "\<forall>x \<in> set (c # xs). accepted m s x \<longrightarrow> f_lt (score x) (score d)"
        using xs cd up f_le_lt_trans [OF _ cd] by (metis set_ConsD)
      moreover have "\<forall>y \<in> set ys. accepted m s y \<longrightarrow> f_le (score y) (score d)"
        using ys up f_le_trans [OF _ f_lt_imp_le [OF cd]] by blast
      ultimately show ?thesis using cs res loop
        by (intro disjI2 exI [of _ "c # xs"] exI [of _ d] exI [of _ ys]) simp
    qed
  qed
qed simp

lemma chosen_cases:
  obtains (nobody) "select_loop m None (Finite True 1) cs = None"
      "\<forall>c \<in> set cs. \<not> accepted m (Finite True 1) c"
  | (chosen) xs c ys where "cs = xs @ c # ys" "select_loop m None (Finite True 1) cs = Some c"
      "accepted m (Finite True 1) c"
      "\<forall>x \<in> set xs. accepted m (Finite True 1) x \<longrightarrow> f_lt (score x) (score c)"
      "\<forall>y \<in> set ys. accepted m (Finite True 1) y \<longrightarrow> f_le (score y) (score c)"
proof -
  from select_loop_cases [OF f64.distinct(4), of m None True 1 cs] show thesis
  proof (elim disjE exE conjE)
    fix xs c ys
    assume "cs = xs @ c # ys" "select_loop m None (Finite True 1) cs = Some c" "accepted m (Finite True 1) c"
      "\<forall>x \<in> set xs. accepted m (Finite True 1) x \<longrightarrow> f_lt (score x) (score c)"
      "\<forall>y \<in> set ys. accepted m (Finite True 1) y \<longrightarrow> f_le (score y) (score c)"
    then show thesis by (rule chosen)
  qed (rule nobody)
qed

lemma chosen_best:
  assumes "cs = xs @ c # ys" "accepted m s c"
    "\<forall>x \<in> set xs. accepted m s x \<longrightarrow> f_lt (score x) (score c)"
    "\<forall>y \<in> set ys. accepted m s y \<longrightarrow> f_le (score y) (score c)"
    and "d \<in> set cs" "accepted m s d"
  shows "f_le (score d) (score c)"
proof -
  from assms(1,5) consider "d \<in> set xs" | "d = c" | "d \<in> set ys" by auto
  then show ?thesis
  proof cases
    case 1
    with assms(3,6) f_lt_imp_le show ?thesis by blast
  next
    case 2
    with assms(2) f_lt_NaN [of s "score c"] show ?thesis by (simp add: f_le_refl accepted_def)
  qed (use assms(4,6) in blast)
qed

definition first_best :: "WorkloadManifest \<Rightarrow> NodeComputeCapability list \<Rightarrow> NodeComputeCapability option" where
  "first_best m cs = (let ok = filter (accepted m (Finite True 1)) cs
     in find (\<lambda>c. list_all (\<lambda>d. f_le (score d) (score c)) ok) ok)"

lemma find_append: "find P (xs @ ys) = (case find P xs of None \<Rightarrow> find P ys | Some x \<Rightarrow> Some x)"
  by (induction xs) auto

text \<open>
  C17: \<open>SelectNode\<close> chooses as the reference does: among the candidates that fit and score above
  -1.0, the first one that no other beats; without one it reports that no node is eligible. The
  single pass with its running maximum is equivalent to comparing every pair.
\<close>
theorem SelectNode_first_best:
  "SelectNode m cs =
     (case first_best m cs of None \<Rightarrow> Inl ErrNoEligibleComputeNode | Some c \<Rightarrow> Inr c)"
proof -
  let ?acc = "accepted m (Finite True 1)"
  have "select_loop m None (Finite True 1) cs = first_best m cs"
  proof (cases rule: chosen_cases [where m = m and cs = cs])
    case nobody
    then have "filter ?acc cs = []" by (simp add: filter_empty_conv)
    with nobody(1) show ?thesis by (simp add: first_best_def)
  next
    case (chosen xs c ys)
    let ?P = "\<lambda>c. list_all (\<lambda>d. f_le (score d) (score c)) (filter ?acc cs)"
    have "?P c" using chosen_best [OF chosen(1,3-5)] by (simp add: list_all_iff)
    moreover have "\<not> ?P x" if "x \<in> set xs" "?acc x" for x
    proof -
      have "f_lt (score x) (score c)" using chosen(4) that by blast
      then have "\<not> f_le (score c) (score x)" by (metis f_lt_NaN f_not_lt)
      with chosen(1,3) show ?thesis by (simp add: list_all_iff)
    qed
    then have "find ?P (filter ?acc xs) = None" by (auto simp: find_None_iff)
    then have "find ?P (filter ?acc xs @ c # filter ?acc ys) = Some c"
      using \<open>?P c\<close> by (simp only: find_append option.case find.simps if_True)
    then show ?thesis using chosen(1-3) by (simp add: first_best_def)
  qed
  then show ?thesis by (simp add: SelectNode_def)
qed

lemma SelectNode_eligible:
  "SelectNode m cs = Inr c \<Longrightarrow> c \<in> set cs \<and> eligible m c \<and> (\<forall>d \<in> set cs. accepted m (Finite True 1) d \<longrightarrow> f_le (score d) (score c))"
proof -
  assume "SelectNode m cs = Inr c"
  then have c: "select_loop m None (Finite True 1) cs = Some c" by (simp add: SelectNode_def split: option.splits)
  show ?thesis
  proof (cases rule: chosen_cases [where m = m and cs = cs])
    case (chosen xs d ys)
    with c have "d = c" by simp
    with chosen(1,3) chosen_best [OF chosen(1,3-5)] show ?thesis by (simp add: accepted_def)
  qed (use c in simp)
qed

lemma SelectNode_none:
  "SelectNode m cs = Inl e \<Longrightarrow> e = ErrNoEligibleComputeNode \<and> (\<forall>c \<in> set cs. \<not> accepted m (Finite True 1) c)"
  by (cases rule: chosen_cases [where m = m and cs = cs]) (simp_all add: SelectNode_def split: option.splits)

section \<open>Some node is found\<close>

text \<open>A node whose totals make sense: positive, finite CPU, positive memory within \<open>int64\<close>.\<close>

definition sane :: "NodeComputeCapability \<Rightarrow> bool" where
  "sane c \<longleftrightarrow> f_lt f_zero (TotalCPUCores c) \<and> TotalCPUCores c \<noteq> Infinite False \<and>
     f64_ok (TotalCPUCores c) \<and> f64_ok (AllocatedCPUCores c) \<and> AllocatedCPUCores c \<noteq> NaN \<and>
     0 < TotalMemoryMB c \<and> in_int64 (TotalMemoryMB c)"

lemma AvailableMemoryMB_range: "0 \<le> AvailableMemoryMB c" "in_int64 (AvailableMemoryMB c)"
  using in_int64_wrap64 [of "TotalMemoryMB c - AllocatedMemoryMB c"]
  by (auto simp: AvailableMemoryMB_def Let_def in_int64_def)

lemma AvailableCPU_nonneg:
  assumes "TotalCPUCores c = Finite s t" "AllocatedCPUCores c \<noteq> NaN"
  shows "nonneg (AvailableCPU c)" "f64_ok (AvailableCPU c)"
proof -
  let ?f = "f_sub (TotalCPUCores c) (AllocatedCPUCores c)"
  have "?f \<noteq> NaN" using assms
    by (cases "AllocatedCPUCores c") (auto simp: f_sub_def Let_def f64_of_rat_def round_f64_def)
  with f_not_lt [of ?f f_zero] show "nonneg (AvailableCPU c)"
    by (auto simp: AvailableCPU_def Let_def nonneg_def signed_def)
  show "f64_ok (AvailableCPU c)" by (auto simp: AvailableCPU_def Let_def f64_ops_ok simp del: f64_ok.simps intro: f64_zero_ok)
qed

lemma score_nonneg:
  assumes "sane c"
  shows "nonneg (score c)"
proof -
  from assms obtain s t where t: "TotalCPUCores c = Finite s t" and pos: "f_lt f_zero (Finite s t)"
    and ok: "f64_ok (Finite s t)"
    by (cases "TotalCPUCores c") (auto simp: sane_def)
  from pos ok have s: "\<not> s" "0 < t" by (auto simp: signed_def split: if_splits)
  have cpu: "nonneg (f_div (AvailableCPU c) (TotalCPUCores c))"
    using f_div_nonneg [OF AvailableCPU_nonneg [OF t]] assms s t by (simp add: sane_def)
  obtain k where k: "f64_of_int (TotalMemoryMB c) = Finite False k" "1 \<le> k"
    using f64_of_int64 [of "TotalMemoryMB c"] assms by (auto simp: sane_def)
  have mem: "nonneg (f_div (f64_of_int (AvailableMemoryMB c)) (f64_of_int (TotalMemoryMB c)))"
    using f_div_nonneg [OF f64_of_int_nonneg] AvailableMemoryMB_range(1) k by simp
  have "nonneg (f_add (f_div (AvailableCPU c) (TotalCPUCores c))
      (f_div (f64_of_int (AvailableMemoryMB c)) (f64_of_int (TotalMemoryMB c))))"
    by (rule f_add_nonneg(1) [OF cpu mem]) (simp_all add: f64_ops_ok)
  from f_div_nonneg [OF this, of 2] show ?thesis by (simp add: score_def f64_ops_ok)
qed

lemma sane_accepted: "sane c \<Longrightarrow> eligible m c \<Longrightarrow> accepted m (Finite True 1) c"
  using score_nonneg [of c] f_lt_le_trans [of "Finite True 1" f_zero]
  by (auto simp: accepted_def nonneg_def signed_def)

text \<open>
  C25: When some candidate runs Linux, takes part, is healthy and has the room, and its totals make
  sense, the workload is placed, and on a candidate that scores at least as well. So a workload
  is turned away only when there is no such node.
\<close>
theorem SelectNode_places:
  assumes "c \<in> set cs" "eligible m c" "sane c"
  shows "\<exists>d \<in> set cs. SelectNode m cs = Inr d \<and> eligible m d \<and> f_le (score c) (score d)"
proof (cases "SelectNode m cs")
  case (Inl e)
  with SelectNode_none [OF Inl] sane_accepted [OF assms(3,2)] assms(1) show ?thesis by blast
next
  case (Inr d)
  with SelectNode_eligible [OF Inr] sane_accepted [OF assms(3,2)] assms(1) show ?thesis by blast
qed

definition demo_manifest :: WorkloadManifest where
  "demo_manifest = \<lparr>WorkloadID = ''w'', Name = ''web'', Image = ''nginx'', Type = WorkloadStateless,
     CPUCores = Finite False (3 / 2), MemoryMB = 512, PortMappings = [], Env = [], SnapshotIntervalSec = 0\<rparr>"

definition demo_node :: "string \<Rightarrow> rat \<Rightarrow> NodeComputeCapability" where
  "demo_node n used = \<lparr>NodeID = n, OS = ''Linux'', ComputeEnabled = True, IsHealthy = True,
     TotalCPUCores = Finite False 8, AllocatedCPUCores = Finite False used, TotalMemoryMB = 8192, AllocatedMemoryMB = 1024\<rparr>"

lemma demo_node_eligible:
  "eligible demo_manifest (demo_node ''a'' 2)" "eligible demo_manifest (demo_node ''b'' 1)"
  by code_simp+

lemma demo_node_sane: "sane (demo_node ''a'' 2)" "sane (demo_node ''b'' 1)"
  by code_simp+

theorem SelectNode_places_witness:
  "\<exists>d \<in> set [demo_node ''a'' 2, demo_node ''b'' 1].
     SelectNode demo_manifest [demo_node ''a'' 2, demo_node ''b'' 1] = Inr d \<and> eligible demo_manifest d \<and>
     f_le (score (demo_node ''a'' 2)) (score d)"
  by (rule SelectNode_places [OF _ demo_node_eligible(1) demo_node_sane(1)]) simp

section \<open>A node that fails\<close>

lemma eligible_fits:
  assumes "eligible m c"
  shows "MemoryMB m \<le> AvailableMemoryMB c"
    and "CPUCores m \<noteq> NaN \<Longrightarrow> AvailableCPU c \<noteq> NaN \<Longrightarrow> f_le (CPUCores m) (AvailableCPU c)"
  using assms f_not_lt [of "AvailableCPU c" "CPUCores m"] by (auto simp: eligible_def)

text \<open>
  When a node fails, a stateful workload stays with it and is not placed anew. A workload that
  is placed anew goes to one of the candidates, not to the node that failed, and this candidate
  runs Linux, takes part, is healthy, and has the memory and, both numbers of cores being numbers,
  the CPU the manifest asks for.
\<close>
theorem RescheduleOnNodeFailure_safe:
  assumes "RescheduleOnNodeFailure m dead cs = Inr c"
  shows "Type m \<noteq> WorkloadStateful \<and> c \<in> set cs \<and> NodeID c \<noteq> dead \<and>
    ToLower (OS c) = ''linux'' \<and> ComputeEnabled c \<and> IsHealthy c \<and> MemoryMB m \<le> AvailableMemoryMB c \<and>
    (CPUCores m = NaN \<or> AvailableCPU c = NaN \<or> f_le (CPUCores m) (AvailableCPU c))"
proof -
  from assms have type: "Type m \<noteq> WorkloadStateful"
    and sel: "SelectNode m (filter (\<lambda>c. NodeID c \<noteq> dead) cs) = Inr c"
    by (auto simp: RescheduleOnNodeFailure_def split: if_splits)
  from SelectNode_eligible [OF sel] have "c \<in> set cs" "NodeID c \<noteq> dead" "eligible m c" by simp_all
  moreover have "ToLower (OS c) = ''linux''" "ComputeEnabled c" "IsHealthy c"
    using \<open>eligible m c\<close> by (simp_all add: eligible_def)
  ultimately show ?thesis using type eligible_fits [of m c] by blast
qed

lemma demo_reschedule:
  "RescheduleOnNodeFailure demo_manifest ''b'' [demo_node ''b'' 1, demo_node ''a'' 2] = Inr (demo_node ''a'' 2)"
  by code_simp

theorem RescheduleOnNodeFailure_safe_witness:
  "NodeID (demo_node ''a'' 2) \<noteq> ''b'' \<and> MemoryMB demo_manifest \<le> AvailableMemoryMB (demo_node ''a'' 2)"
  using RescheduleOnNodeFailure_safe [OF demo_reschedule] by simp

section \<open>Manifests that pass\<close>

text \<open>A manifest that passes keeps its fields, and its type is one of the two.\<close>

lemma ParseManifestYAML_ok:
  assumes "ParseManifestYAML unmarshal data = Inr m"
  shows "Type m \<in> {WorkloadStateless, WorkloadStateful}" "WorkloadID m \<noteq> []" "Image m \<noteq> []"
    "0 < MemoryMB m" "\<not> f_le (CPUCores m) f_zero"
  using assms by (auto simp: ParseManifestYAML_def Validate_def Let_def split: sum.splits if_splits)

text \<open>
  A NaN of CPU cores, which YAML writes as \<open>.nan\<close>, passes every check there is: a manifest with
  it is valid exactly when it is valid with one core, and a candidate is eligible for it whatever
  CPU it has left, for the comparisons \<open>CPUCores <= 0\<close> and \<open>freeCPU < CPUCores\<close> are both false.
\<close>
theorem NaN_cores_pass:
  "is_ok (Validate (m\<lparr>CPUCores := NaN\<rparr>)) = is_ok (Validate (m\<lparr>CPUCores := f_one\<rparr>)) \<and>
   eligible (m\<lparr>CPUCores := NaN\<rparr>) c =
     (ToLower (OS c) = ''linux'' \<and> ComputeEnabled c \<and> IsHealthy c \<and> MemoryMB m \<le> AvailableMemoryMB c)"
proof -
  have "\<not> f_lt x NaN" for x by (cases x) simp_all
  then show ?thesis by (auto simp: Validate_def Let_def eligible_def signed_def)
qed

end
