(* ===== verification/Metrics.thy ===== *)
theory Metrics
  imports Prelude Gomap Float64 "HOL-Library.Signed_Division"
begin

text \<open>
  The collector of metrics (\<open>src/internal/metrics/metrics.go\<close>): counters that wrap around, the
  latest report of every peer, and the snapshot with the share of the storage in use. Durations
  and times are nanoseconds; the time of a report is an argument, the reading of the clock.
\<close>

section \<open>State and operations\<close>

record PeerMetric =
  NodeID :: string
  LatencyMs :: int
  IsHealthy :: bool
  LastSeen :: int

record MetricsSnapshot =
  StorageAllocated :: int
  StorageUsed :: int
  StoragePercent :: f64
  BytesSentTotal :: int
  BytesReceivedTotal :: int
  Peers :: "(string, PeerMetric) gomap"

record Collector =
  storageAlloc :: int
  storageUsed :: int
  bytesSent :: int
  bytesReceived :: int
  peers :: "(string, PeerMetric) gomap"

definition NewCollector :: Collector where
  "NewCollector = \<lparr>storageAlloc = 0, storageUsed = 0, bytesSent = 0, bytesReceived = 0, peers = []\<rparr>"

definition RecordStorage :: "int \<Rightarrow> int \<Rightarrow> Collector \<Rightarrow> Collector" where
  "RecordStorage allocated used c = c\<lparr>storageAlloc := allocated, storageUsed := used\<rparr>"

definition RecordTransfer :: "int \<Rightarrow> int \<Rightarrow> Collector \<Rightarrow> Collector" where
  "RecordTransfer sent received c =
     c\<lparr>bytesSent := wrap64 (bytesSent c + sent), bytesReceived := wrap64 (bytesReceived c + received)\<rparr>"

text \<open>\<open>Duration.Milliseconds\<close> cuts off the fraction.\<close>

definition Milliseconds :: "int \<Rightarrow> int" where
  "Milliseconds d = d sdiv 1000000"

definition RecordPeerStatus :: "string \<Rightarrow> int \<Rightarrow> bool \<Rightarrow> int \<Rightarrow> Collector \<Rightarrow> Collector" where
  "RecordPeerStatus nodeID latency isHealthy now c =
     c\<lparr>peers := map_put nodeID
         \<lparr>NodeID = nodeID, LatencyMs = Milliseconds latency, IsHealthy = isHealthy, LastSeen = now\<rparr> (peers c)\<rparr>"

definition storage_percent :: "int \<Rightarrow> int \<Rightarrow> f64" where
  "storage_percent allocated used =
     (if 0 < allocated then f_mul (f_div (f64_of_int used) (f64_of_int allocated)) (Finite False 100)
      else f_zero)"

definition GetSnapshot :: "Collector \<Rightarrow> MetricsSnapshot" where
  "GetSnapshot c =
     \<lparr>StorageAllocated = storageAlloc c, StorageUsed = storageUsed c,
      StoragePercent = storage_percent (storageAlloc c) (storageUsed c),
      BytesSentTotal = bytesSent c, BytesReceivedTotal = bytesReceived c, Peers = peers c\<rparr>"

section \<open>What a history of reports leaves\<close>

datatype metric_event =
  Storage int int | Transfer int int | PeerStatus string int bool int

fun report :: "metric_event \<Rightarrow> Collector \<Rightarrow> Collector" where
  "report (Storage a u) = RecordStorage a u"
| "report (Transfer s r) = RecordTransfer s r"
| "report (PeerStatus n l h t) = RecordPeerStatus n l h t"

fun last_storage :: "metric_event list \<Rightarrow> int \<times> int" where
  "last_storage [] = (0, 0)"
| "last_storage (Storage a u # es) = (a, u)"
| "last_storage (_ # es) = last_storage es"

fun last_status :: "string \<Rightarrow> metric_event list \<Rightarrow> PeerMetric option" where
  "last_status n [] = None"
| "last_status n (PeerStatus k l h t # es) =
     (if k = n then Some \<lparr>NodeID = k, LatencyMs = Milliseconds l, IsHealthy = h, LastSeen = t\<rparr>
      else last_status n es)"
| "last_status n (_ # es) = last_status n es"

fun transferred :: "metric_event \<Rightarrow> int \<times> int" where
  "transferred (Transfer s r) = (s, r)"
| "transferred _ = (0, 0)"

text \<open>
  C23: A snapshot shows the latest report of the storage, the latest report of every peer, and as
  totals the sums of all transfers reported, taken modulo \<open>2\<close> to the 64th into \<open>int64\<close>; nothing
  else of the history, whatever was reported in which order.
\<close>
theorem GetSnapshot_history:
  "let s = GetSnapshot (fold report es NewCollector) in
    (StorageAllocated s, StorageUsed s) = last_storage (rev es) \<and>
    map_ok (Peers s) \<and> (\<forall>n. map_get (Peers s) n = last_status n (rev es)) \<and>
    BytesSentTotal s = wrap64 (sum_list (map (fst \<circ> transferred) es)) \<and>
    BytesReceivedTotal s = wrap64 (sum_list (map (snd \<circ> transferred) es))"
  unfolding Let_def
proof (induction es rule: rev_induct)
  case Nil
  then show ?case by (simp add: GetSnapshot_def NewCollector_def in_int64_def)
next
  case (snoc e es)
  then show ?case
    by (cases e) (simp_all add: GetSnapshot_def RecordStorage_def RecordTransfer_def RecordPeerStatus_def wrap64_add)
qed

section \<open>The share in use\<close>

text \<open>
  With between nothing and everything in use the percentage is between 0 and 100: the
  conversions, the quotient and the product are each rounded, and still never leave the range.
\<close>
theorem storage_percent_bounds:
  assumes "0 \<le> used" "used \<le> allocated" "in_int64 allocated"
  shows "f_le f_zero (storage_percent allocated used) \<and> f_le (storage_percent allocated used) (Finite False 100)"
proof (cases "0 < allocated")
  case True
  obtain q where q: "f64_of_int allocated = Finite False q" "1 \<le> q"
    using f64_of_int64 [OF True assms(3)] .
  obtain p where p: "f64_of_int used = Finite False p" "0 \<le> p" "p \<le> q"
    using f64_of_int_part [OF assms(1,2) q(1)] .
  have "p / q \<le> 1" "0 \<le> p / q" using p q by simp_all
  then obtain r where r: "f_div (Finite False p) (Finite False q) = Finite False r" "0 \<le> r" "r \<le> 1"
    using round_f64_unit [of "p / q"] q by auto
  have "f_le (round_f64 False (r * 100)) (round_f64 False 100)"
    by (rule round_f64_mono) (use r in simp)
  moreover have "round_f64 False 100 = Finite False 100" by code_simp
  ultimately show ?thesis using True p q r by (simp add: storage_percent_def round_f64_nonneg)
qed (simp add: storage_percent_def signed_def)

theorem storage_percent_bounds_witness:
  "f_le f_zero (storage_percent 100 25) \<and> f_le (storage_percent 100 25) (Finite False 100)"
  by (rule storage_percent_bounds) (simp_all add: in_int64_def)

end
