(* ===== verification/Bandwidth.thy ===== *)
theory Bandwidth
  imports Prelude Float64 "HOL-Library.Signed_Division"
begin

text \<open>
  The token bucket (\<open>src/internal/bandwidth/bandwidth.go\<close>). Times are nanoseconds of the
  monotonic clock. The environment says how late each reading of the clock comes: reading number
  \<open>k\<close> shows \<open>late k\<close> nanoseconds more than the previous reading and the sleep after it together,
  so a sleep lasts at least as long as it was asked to. One caller uses the limiter, as with the
  throttled readers and writers (theory \<open>Callers\<close> has many); a wait that does not end is \<open>None\<close>.
\<close>

section \<open>Time\<close>

text \<open>\<open>Time.Sub\<close> stays within \<open>int64\<close>; \<open>Duration.Seconds\<close> adds the whole seconds and the rest.\<close>

definition time_sub :: "int \<Rightarrow> int \<Rightarrow> int" where
  "time_sub t u = max (- (2 ^ 63)) (min (2 ^ 63 - 1) (t - u))"

definition Seconds :: "int \<Rightarrow> f64" where
  "Seconds d = f_add (f64_of_int (d sdiv 1000000000))
     (f_div (f64_of_int (d smod 1000000000)) (Finite False 1000000000))"

section \<open>The limiter\<close>

record Limiter =
  bytesPerSec :: int
  lastCheck :: int
  tokens :: f64

definition NewLimiter :: "int \<Rightarrow> int \<Rightarrow> Limiter" where
  "NewLimiter bps now = \<lparr>bytesPerSec = bps, lastCheck = now, tokens = f64_of_int bps\<rparr>"

definition refill :: "int \<Rightarrow> Limiter \<Rightarrow> Limiter" where
  "refill now l =
     (let maxCapacity = f64_of_int (bytesPerSec l);
          elapsed = Seconds (time_sub now (lastCheck l));
          t = f_add (tokens l) (f_mul elapsed (f64_of_int (bytesPerSec l)))
      in l\<lparr>lastCheck := now, tokens := if f_lt maxCapacity t then maxCapacity else t\<rparr>)"

definition take_tokens :: "int \<Rightarrow> Limiter \<Rightarrow> Limiter option" where
  "take_tokens n l =
     (if f_le (f64_of_int n) (tokens l) then Some (l\<lparr>tokens := f_sub (tokens l) (f64_of_int n)\<rparr>) else None)"

text \<open>
  A conversion to \<open>Duration\<close> out of its range is left open by the language; the sleep is then
  taken to end at once.
\<close>

definition sleep_time :: "int \<Rightarrow> Limiter \<Rightarrow> int" where
  "sleep_time n l =
     (let needed = f_sub (f64_of_int n) (tokens l); sleepSec = f_div needed (f64_of_int (bytesPerSec l))
      in case f_trunc (f_mul sleepSec (Finite False 1000000000)) of None \<Rightarrow> 0 | Some d \<Rightarrow> max 0 d)"

text \<open>
  The loops take the number of the next reading and the time before which it does not come, and
  return both with the limiter.
\<close>

partial_function (option) waitChunk ::
  "(nat \<Rightarrow> nat) \<Rightarrow> int \<Rightarrow> nat \<Rightarrow> int \<Rightarrow> Limiter \<Rightarrow> (nat \<times> int \<times> Limiter) option" where
  "waitChunk late n k t l =
     (let now = t + int (late k); l' = refill now l
      in case take_tokens n l' of
           Some l'' \<Rightarrow> Some (k + 1, now, l'')
         | None \<Rightarrow> waitChunk late n (k + 1) (now + sleep_time n l') l')"

partial_function (option) waitN_loop ::
  "(nat \<Rightarrow> nat) \<Rightarrow> int \<Rightarrow> nat \<Rightarrow> int \<Rightarrow> Limiter \<Rightarrow> (nat \<times> int \<times> Limiter) option" where
  "waitN_loop late rem k t l =
     (if rem \<le> 0 then Some (k, t, l)
      else let chunk = (if bytesPerSec l < rem then bytesPerSec l else rem)
        in case waitChunk late chunk k t l of
             None \<Rightarrow> None
           | Some (k', t', l') \<Rightarrow> waitN_loop late (rem - chunk) k' t' l')"

declare waitChunk.simps [code] waitN_loop.simps [code]

definition WaitN ::
  "(nat \<Rightarrow> nat) \<Rightarrow> int \<Rightarrow> nat \<Rightarrow> int \<Rightarrow> Limiter \<Rightarrow> (nat \<times> int \<times> Limiter) option" where
  "WaitN late n k t l = (if bytesPerSec l \<le> 0 \<or> n \<le> 0 then Some (k, t, l) else waitN_loop late n k t l)"

section \<open>Throttled readers and writers\<close>

text \<open>The reader and the writer inside are arguments: what a call of them does to their state.\<close>

record 's throttled =
  inner :: 's
  limiter :: Limiter

definition NewThrottled :: "'s \<Rightarrow> int \<Rightarrow> int \<Rightarrow> 's throttled" where
  "NewThrottled r bps now = \<lparr>inner = r, limiter = NewLimiter bps now\<rparr>"

definition throttled_Read ::
  "('s \<Rightarrow> nat \<Rightarrow> 's \<times> bytes \<times> 'e option) \<Rightarrow> (nat \<Rightarrow> nat) \<Rightarrow> nat \<Rightarrow> nat \<Rightarrow> int \<Rightarrow> 's throttled \<Rightarrow>
     (nat \<times> int \<times> 's throttled \<times> bytes \<times> 'e option) option" where
  "throttled_Read read late len k t tr =
     (if len = 0 then Some (k, t, tr, [], None)
      else case WaitN late (int len) k t (limiter tr) of
             None \<Rightarrow> None
           | Some (k', t', l') \<Rightarrow>
               (case read (inner tr) len of (s', p, e) \<Rightarrow> Some (k', t', \<lparr>inner = s', limiter = l'\<rparr>, p, e)))"

definition throttled_Write ::
  "('s \<Rightarrow> bytes \<Rightarrow> 's \<times> nat \<times> 'e option) \<Rightarrow> (nat \<Rightarrow> nat) \<Rightarrow> bytes \<Rightarrow> nat \<Rightarrow> int \<Rightarrow> 's throttled \<Rightarrow>
     (nat \<times> int \<times> 's throttled \<times> nat \<times> 'e option) option" where
  "throttled_Write wr late p k t tw =
     (if p = [] then Some (k, t, tw, 0, None)
      else case WaitN late (int (length p)) k t (limiter tw) of
             None \<Rightarrow> None
           | Some (k', t', l') \<Rightarrow>
               (case wr (inner tw) p of (s', n, e) \<Rightarrow> Some (k', t', \<lparr>inner = s', limiter = l'\<rparr>, n, e)))"

section \<open>One reading of the clock, on the amounts\<close>

text \<open>The capacity and the tokens of a limiter as rational numbers.\<close>

definition cap :: "Limiter \<Rightarrow> rat" where
  "cap l = round_mag (of_int (bytesPerSec l))"

definition amount :: "Limiter \<Rightarrow> rat" where
  "amount l = (case tokens l of Finite False p \<Rightarrow> p | _ \<Rightarrow> - 1)"

definition limiter_ok :: "Limiter \<Rightarrow> bool" where
  "limiter_ok l \<longleftrightarrow> 0 < bytesPerSec l \<and> in_int64 (bytesPerSec l) \<and>
     0 \<le> amount l \<and> amount l \<le> cap l \<and> round_mag (amount l) = amount l"

definition secs :: "int \<Rightarrow> rat" where
  "secs d = round_mag (of_int (d div 1000000000) + round_mag (of_int (d mod 1000000000) / 1000000000))"

lemma tokens_amount: "limiter_ok l \<Longrightarrow> tokens l = Finite False (amount l)"
  by (cases "tokens l") (auto simp: limiter_ok_def amount_def split: bool.splits)

lemma amount_tokens: "tokens l = Finite False p \<Longrightarrow> amount l = p"
  by (simp add: amount_def)

lemma cap_bounds:
  assumes "limiter_ok l"
  shows "f64_of_int (bytesPerSec l) = Finite False (cap l)" "1 \<le> cap l" "cap l \<le> pow2 63"
    "round_mag (cap l) = cap l"
proof -
  have B: "0 < bytesPerSec l" "in_int64 (bytesPerSec l)" using assms by (simp_all add: limiter_ok_def)
  show "f64_of_int (bytesPerSec l) = Finite False (cap l)" "cap l \<le> pow2 63"
    using f64_of_int_in_range [of "bytesPerSec l"] B by (simp_all add: cap_def)
  show "1 \<le> cap l" unfolding cap_def
    by (rule round_mag_ge [of 1]) (use B round_mag_int [of 1] in simp_all)
  show "round_mag (cap l) = cap l" by (simp add: cap_def)
qed

abbreviation unit_err :: rat where "unit_err \<equiv> pow2 (- 53)"

text \<open>The time between two readings, as \<open>Seconds\<close> gives it.\<close>

lemma secs_parts:
  fixes d :: int
  assumes "0 \<le> d" "d < 2 ^ 63"
  obtains a r where "of_int (d div 1000000000) = a" "of_int (d mod 1000000000) / 1000000000 = r"
    "0 \<le> a" "a \<le> pow2 34" "0 \<le> r" "r \<le> 1" "r = 0 \<or> 1 / 1000000000 \<le> r"
    "of_int d / 1000000000 = (a + r :: rat)" "secs d = round_mag (a + round_mag r)"
proof -
  let ?a = "of_int (d div 1000000000) :: rat" and ?r = "of_int (d mod 1000000000) / 1000000000 :: rat"
  have "d div 1000000000 \<le> 2 ^ 34" using assms by (simp add: div_le_mono)
  then have "?a \<le> of_int (2 ^ 34)" by (simp only: of_int_le_iff)
  then have "?a \<le> pow2 34" by (simp add: pow2_def)
  moreover have "0 \<le> ?a" using assms(1) by (simp add: pos_imp_zdiv_nonneg_iff)
  moreover have m: "0 \<le> d mod 1000000000" "d mod 1000000000 \<le> 1000000000" by simp_all
  then have "(of_int (d mod 1000000000) :: rat) \<le> of_int 1000000000" by (simp only: of_int_le_iff)
  then have "0 \<le> ?r" "?r \<le> 1" using m(1) by simp_all
  moreover have "?r = 0 \<or> 1 / 1000000000 \<le> ?r"
  proof (cases "d mod 1000000000 = 0")
    case False
    with m(1) have "1 \<le> d mod 1000000000" by simp
    then have "(of_int 1 :: rat) \<le> of_int (d mod 1000000000)" by (simp only: of_int_le_iff)
    then show ?thesis by simp
  qed simp
  moreover have "of_int d / 1000000000 = ?a + ?r"
  proof -
    have "(of_int d :: rat) = of_int (1000000000 * (d div 1000000000) + d mod 1000000000)" by simp
    also have "\<dots> = 1000000000 * ?a + of_int (d mod 1000000000)" by (simp only: of_int_add of_int_mult of_int_numeral)
    finally show ?thesis by simp
  qed
  ultimately show thesis using that [of ?a ?r] by (simp add: secs_def)
qed

lemma rnd_up: "0 \<le> q \<Longrightarrow> q = 0 \<or> pow2 (- 1022) \<le> q \<Longrightarrow> round_mag q \<le> q * (1 + unit_err)"
  using round_mag_within(1) [of q q] by (auto simp: distrib_left)

lemma secs_upper:
  assumes "0 \<le> d" "d < 2 ^ 63"
  shows "secs d \<le> of_int d / 1000000000 * ((1 + unit_err) * (1 + unit_err))" "0 \<le> secs d" "secs d \<le> pow2 35"
proof -
  from secs_parts [OF assms] obtain a r where p: "0 \<le> a" "a \<le> pow2 34" "0 \<le> r" "r \<le> 1"
    "r = 0 \<or> 1 / 1000000000 \<le> r" "of_int d / 1000000000 = a + r" "secs d = round_mag (a + round_mag r)"
    and a: "of_int (d div 1000000000) = a" by metis
  have tiny: "pow2 (- 1022) \<le> 1 / 1000000000"
    using pow2_mono [of "- 1022" "- 30"] by (simp add: pow2_def)
  have r: "round_mag r \<le> r * (1 + unit_err)" by (rule rnd_up) (use p tiny in auto)
  have s0: "0 \<le> a + round_mag r" using p by simp
  have "a + round_mag r = 0 \<or> pow2 (- 1022) \<le> a + round_mag r"
  proof (cases "r = 0")
    case True
    have "a = 0 \<or> 1 \<le> a" using a p(1) by (metis of_int_0_le_iff of_int_1_le_iff of_int_eq_0_iff zless_iff_Suc_zadd linorder_not_le int_one_le_iff_zero_less order_le_less)
    with True tiny show ?thesis by auto
  next
    case False
    have "pow2 (- 30) \<le> round_mag r" by (rule round_mag_ge [OF pow2_normal]) (use False p in \<open>simp_all add: pow2_def\<close>)
    with pow2_mono [of "- 1022" "- 30"] p(1) show ?thesis by auto
  qed
  from rnd_up [OF s0 this] have "secs d \<le> (a + round_mag r) * (1 + unit_err)" by (simp only: p(7))
  also have "\<dots> \<le> ((a + r) * (1 + unit_err)) * (1 + unit_err)"
  proof (rule mult_right_mono)
    have "0 \<le> a * unit_err" using p(1) by (simp add: less_imp_le)
    with r show "a + round_mag r \<le> (a + r) * (1 + unit_err)" by (simp add: algebra_simps)
  qed (simp add: add_nonneg_nonneg less_imp_le)
  finally show "secs d \<le> of_int d / 1000000000 * ((1 + unit_err) * (1 + unit_err))" by (simp only: p(6) mult.assoc)
  show "0 \<le> secs d" by (simp add: p(7))
  have "round_mag r \<le> 1" by (rule round_mag_le) (use p(4) round_mag_int [of 1] in simp_all)
  then have "a + round_mag r \<le> pow2 35" using p(2) by (simp add: pow2_def)
  then show "secs d \<le> pow2 35" unfolding p(7) by (rule round_mag_le [OF pow2_normal, rotated]) simp
qed

lemma secs_lower:
  assumes "0 < d" "d < 2 ^ 63"
  shows "pow2 (- 30) \<le> secs d"
proof -
  from secs_parts [of d] assms obtain a r where p: "0 \<le> a" "0 \<le> r" "r = 0 \<or> 1 / 1000000000 \<le> r"
    "of_int d / 1000000000 = a + r" "secs d = round_mag (a + round_mag r)" and a: "of_int (d div 1000000000) = a"
    by (metis less_imp_le)
  have "pow2 (- 30) \<le> a + round_mag r"
  proof (cases "r = 0")
    case True
    with p(4) assms(1) have "0 < a" by (metis add.right_neutral divide_pos_pos of_int_0_less_iff zero_less_numeral)
    then have "1 \<le> a" using a by (metis of_int_0_less_iff of_int_1_le_iff int_one_le_iff_zero_less)
    then show ?thesis using True by (simp add: pow2_def)
  next
    case False
    have "pow2 (- 30) \<le> round_mag r" by (rule round_mag_ge [OF pow2_normal]) (use False p in \<open>simp_all add: pow2_def\<close>)
    with p(1) show ?thesis by simp
  qed
  then show ?thesis unfolding p(5) by (rule round_mag_ge [OF pow2_normal, rotated]) simp
qed

lemma in_range_le: "0 \<le> q \<Longrightarrow> q \<le> pow2 k \<Longrightarrow> k \<le> 1023 \<Longrightarrow> in_range q"
  unfolding in_range_def pow2_mono by (meson order_trans)

lemma Seconds_secs:
  assumes "0 \<le> d" "d < 2 ^ 63"
  shows "Seconds d = Finite False (secs d)"
proof -
  from secs_parts [OF assms] obtain a r where p: "0 \<le> a" "a \<le> pow2 34" "0 \<le> r" "r \<le> 1"
    "secs d = round_mag (a + round_mag r)"
    and a: "of_int (d div 1000000000) = a" and r: "of_int (d mod 1000000000) / 1000000000 = r" by metis
  have div: "d sdiv 1000000000 = d div 1000000000" "d smod 1000000000 = d mod 1000000000"
    using assms(1) by (simp_all add: signed_divide_int_def signed_modulo_int_def sgn_if)
  have small: "0 \<le> d div 1000000000" "d div 1000000000 < 2 ^ 53" "0 \<le> d mod 1000000000" "d mod 1000000000 < 2 ^ 53"
  proof -
    have "d div 1000000000 \<le> 2 ^ 63 div 1000000000" using assms(2) by (intro zdiv_mono1) simp_all
    then show "d div 1000000000 < 2 ^ 53" by simp
    have "d mod 1000000000 < 1000000000" by simp
    then show "d mod 1000000000 < 2 ^ 53" by (rule less_trans) simp
    show "0 \<le> d div 1000000000" "0 \<le> d mod 1000000000" using assms(1) by (simp_all add: pos_imp_zdiv_nonneg_iff)
  qed
  have r1: "round_mag r \<le> 1" by (rule round_mag_le) (use p(4) round_mag_int [of 1] in simp_all)
  have "f_div (f64_of_int (d mod 1000000000)) (Finite False 1000000000) = Finite False (round_mag r)"
    unfolding f64_of_int_small [OF small(3,4)]
    using f_div_in_range [of 1000000000 "of_int (d mod 1000000000)"] in_range_le [of r 0] p(3,4) r
    by (simp add: pow2_def del: f_div.simps)
  moreover have "f64_of_int (d div 1000000000) = Finite False a"
    by (simp only: f64_of_int_small [OF small(1,2)] a)
  moreover have "f_add (Finite False a) (Finite False (round_mag r)) = Finite False (secs d)"
    unfolding p(5) by (rule f_add_in_range) (use p(1,2) r1 in \<open>simp_all add: in_range_le [of _ 35] pow2_def\<close>)
  ultimately show ?thesis by (simp only: Seconds_def div)
qed

text \<open>A reading \<open>d\<close> nanoseconds after the last adds \<open>gain\<close> tokens, up to the capacity.\<close>

definition gain :: "int \<Rightarrow> Limiter \<Rightarrow> rat" where
  "gain d l = round_mag (secs (min (2 ^ 63 - 1) d) * cap l)"

lemma gain_bounds:
  assumes "limiter_ok l" "0 \<le> d"
  shows "0 \<le> gain d l" "gain d l \<le> pow2 98"
    and "0 < d \<Longrightarrow> pow2 (- 31) * cap l \<le> gain d l"
    and "gain d l \<le> of_int d / 1000000000 * cap l * (1 + pow2 (- 50))"
proof -
  let ?d = "min (2 ^ 63 - 1) d"
  have d: "0 \<le> ?d" "?d < 2 ^ 63" "?d \<le> d" using assms(2) by simp_all
  note c = cap_bounds [OF assms(1)] and s = secs_upper [OF d(1,2)]
  have x0: "0 \<le> secs ?d * cap l" using s(2) c(2) by simp
  show "0 \<le> gain d l" by (simp add: gain_def)
  have "secs ?d * cap l \<le> pow2 35 * pow2 63" by (rule mult_mono) (use s c in simp_all)
  then have "secs ?d * cap l \<le> pow2 98" by (simp add: pow2_add [symmetric])
  then show "gain d l \<le> pow2 98" unfolding gain_def by (rule round_mag_le [OF pow2_normal, rotated]) simp
  have pos: "pow2 (- 30) * cap l \<le> secs ?d * cap l" if "0 < d"
    using secs_lower [of ?d] that d(2) c(2) by (intro mult_right_mono) simp_all
  have normal: "pow2 (- 1022) \<le> secs ?d * cap l" if "0 < d"
  proof -
    have "pow2 (- 1022) \<le> pow2 (- 30) * 1" using pow2_mono [of "- 1022" "- 30"] by simp
    also have "\<dots> \<le> pow2 (- 30) * cap l" using c(2) by (intro mult_left_mono) (simp_all add: less_imp_le)
    finally show ?thesis using pos [OF that] by linarith
  qed
  show "pow2 (- 31) * cap l \<le> gain d l" if "0 < d"
  proof -
    have "secs ?d * cap l - secs ?d * cap l * unit_err \<le> gain d l"
      unfolding gain_def using round_mag_within(2) [OF x0 order_refl normal [OF that]] .
    moreover have "secs ?d * cap l * unit_err \<le> secs ?d * cap l * (1 / 2)"
      by (rule mult_left_mono) (use x0 in \<open>simp_all add: pow2_def\<close>)
    moreover have "pow2 (- 31) * cap l = pow2 (- 30) * cap l / 2" by (simp add: pow2_def)
    ultimately show ?thesis using pos [OF that] by linarith
  qed
  show "gain d l \<le> of_int d / 1000000000 * cap l * (1 + pow2 (- 50))"
  proof (cases "0 < d")
    case False
    with assms(2) have d0: "d = 0" by simp
    have "secs 0 \<le> 0" using secs_upper(1) [of 0] by simp
    then have "secs 0 = 0" using secs_upper(2) [of 0] by simp
    then show ?thesis using d0 by (simp add: gain_def)
  next
    case True
    have "gain d l \<le> secs ?d * cap l * (1 + unit_err)"
      unfolding gain_def using rnd_up [OF x0] normal [OF True] by blast
    also have "\<dots> \<le> (of_int ?d / 1000000000 * ((1 + unit_err) * (1 + unit_err))) * cap l * (1 + unit_err)"
      using s(1) c(2) by (intro mult_right_mono) (simp_all add: add_nonneg_nonneg less_imp_le)
    also have "\<dots> = of_int ?d / 1000000000 * cap l * ((1 + unit_err) * (1 + unit_err) * (1 + unit_err))" by simp
    also have "\<dots> \<le> of_int d / 1000000000 * cap l * (1 + pow2 (- 50))"
    proof (rule mult_mono)
      have "(of_int ?d :: rat) \<le> of_int d" using d(3) by (simp only: of_int_le_iff)
      then show "of_int ?d / 1000000000 * cap l \<le> of_int d / 1000000000 * cap l"
        using c(2) by (intro mult_right_mono) (simp_all add: divide_right_mono)
    qed (use assms(2) c(2) in \<open>simp_all add: pow2_def\<close>)
    finally show ?thesis .
  qed
qed

lemma refill_fields [simp]: "bytesPerSec (refill now l) = bytesPerSec l" "lastCheck (refill now l) = now" "cap (refill now l) = cap l"
  by (simp_all add: refill_def Let_def cap_def)

lemma refill_amount:
  assumes l: "limiter_ok l" and t: "lastCheck l \<le> now"
  defines "x \<equiv> gain (now - lastCheck l) l"
  shows "limiter_ok (refill now l)"
    and "amount (refill now l) = min (cap l) (round_mag (amount l + x))"
proof -
  let ?d = "min (2 ^ 63 - 1) (now - lastCheck l)"
  have d: "0 \<le> ?d" "?d < 2 ^ 63" using t by simp_all
  note c = cap_bounds [OF l] and g = gain_bounds [OF l, of "now - lastCheck l", folded x_def]
  have a: "0 \<le> amount l" "amount l \<le> cap l" using l by (simp_all add: limiter_ok_def)
  have sub: "time_sub now (lastCheck l) = ?d" using t by (simp add: time_sub_def)
  have "f_mul (Seconds (time_sub now (lastCheck l))) (f64_of_int (bytesPerSec l)) = Finite False x"
  proof -
    have "secs ?d * cap l \<le> pow2 35 * pow2 63"
      by (rule mult_mono) (use secs_upper [OF d] c in simp_all)
    then have "secs ?d * cap l \<le> pow2 98" by (simp add: pow2_add [symmetric])
    with secs_upper(2) [OF d] c(2) have "in_range (secs ?d * cap l)" by (intro in_range_le [of _ 98]) simp_all
    from f_mul_in_range [OF this] show ?thesis
      by (simp only: sub Seconds_secs [OF d] c(1) x_def gain_def)
  qed
  moreover have "amount l + x \<le> pow2 99"
  proof -
    have "amount l + x \<le> pow2 63 + pow2 98" using a(2) c(3) g(2) t by simp
    also have "\<dots> \<le> pow2 99" by (simp add: pow2_def)
    finally show ?thesis .
  qed
  then have "f_add (Finite False (amount l)) (Finite False x) = Finite False (round_mag (amount l + x))"
    using a(1) g(1) t by (intro f_add_in_range in_range_le [of _ 99]) simp_all
  ultimately have tok: "tokens (refill now l) = Finite False (min (cap l) (round_mag (amount l + x)))"
    by (simp add: refill_def Let_def tokens_amount [OF l] c(1) signed_def min_def)
  show am: "amount (refill now l) = min (cap l) (round_mag (amount l + x))" using tok by (rule amount_tokens)
  show "limiter_ok (refill now l)"
    using l c(2,4) unfolding limiter_ok_def am refill_fields by (simp add: min_def)
qed

text \<open>Between two readings the tokens never drop, grow with the time, and by no more than it allows.\<close>

lemma refill_bounds:
  assumes "limiter_ok l" "lastCheck l \<le> now"
  shows "amount l \<le> amount (refill now l)"
    and "lastCheck l < now \<Longrightarrow> min (cap l) (amount l + pow2 (- 32) * cap l) \<le> amount (refill now l)"
    and "amount (refill now l) \<le> amount l + of_int (now - lastCheck l) / 1000000000 * cap l * (1 + pow2 (- 50)) + cap l * unit_err"
proof -
  define x where "x = gain (now - lastCheck l) l"
  note am = refill_amount(2) [OF assms, folded x_def] and c = cap_bounds [OF assms(1)]
  have d: "0 \<le> now - lastCheck l" using assms(2) by simp
  note g = gain_bounds [OF assms(1) d, folded x_def]
  have a: "0 \<le> amount l" "amount l \<le> cap l" "round_mag (amount l) = amount l"
    using assms(1) by (simp_all add: limiter_ok_def)
  have c': "pow2 (- 1022) \<le> cap l" using pow2_mono [of "- 1022" 0] c(2) by (simp add: pow2_def)
  have "amount l \<le> round_mag (amount l + x)" by (rule round_mag_ge [OF a(3)]) (use g(1) in simp)
  then show "amount l \<le> amount (refill now l)" using a(2) by (simp add: am)
  have full: "amount l + x \<le> cap l \<or> cap l \<le> round_mag (amount l + x)"
    using round_mag_ge [OF c(4), of "amount l + x"] by linarith
  show "min (cap l) (amount l + pow2 (- 32) * cap l) \<le> amount (refill now l)" if "lastCheck l < now"
  proof (cases "amount l + x \<le> cap l")
    case True
    have "amount l + x - cap l * unit_err \<le> round_mag (amount l + x)"
      by (rule round_mag_within(2) [OF _ True c']) (use a g in simp)
    moreover have "pow2 (- 31) * cap l \<le> x" using g(3) that by simp
    moreover have "cap l * unit_err \<le> cap l * pow2 (- 32)"
      using c(2) by (intro mult_left_mono) (simp_all add: pow2_mono [symmetric])
    moreover have "pow2 (- 31) = 2 * pow2 (- 32)" by (simp add: pow2_def)
    then have "pow2 (- 31) * cap l = 2 * (pow2 (- 32) * cap l)" by simp
    moreover have "cap l * pow2 (- 32) = pow2 (- 32) * cap l" by simp
    ultimately have "amount l + pow2 (- 32) * cap l \<le> round_mag (amount l + x)" by linarith
    then show ?thesis by (simp add: am min_le_iff_disj)
  qed (use full in \<open>simp add: am\<close>)
  have "min (cap l) (round_mag (amount l + x)) \<le> amount l + x + cap l * unit_err"
  proof (cases "amount l + x \<le> cap l")
    case True
    have "round_mag (amount l + x) \<le> amount l + x + cap l * unit_err"
      by (rule round_mag_within(1) [OF _ True c']) (use a g in simp)
    then show ?thesis by (simp add: min_le_iff_disj)
  next
    case False
    have "0 \<le> cap l * unit_err" using c(2) by (simp add: less_imp_le)
    with False show ?thesis by (simp add: min_le_iff_disj)
  qed
  then show "amount (refill now l) \<le> amount l + of_int (now - lastCheck l) / 1000000000 * cap l * (1 + pow2 (- 50)) + cap l * unit_err"
    using g(4) unfolding am by linarith
qed

text \<open>A grant takes what was asked, up to a rounding.\<close>

lemma int_round_within:
  assumes "0 < n" "n \<le> bytesPerSec l" "limiter_ok l"
  shows "of_int n - cap l * pow2 (- 52) \<le> round_mag (of_int n)"
proof -
  have within: "(of_int i :: rat) - of_int i * unit_err \<le> round_mag (of_int i)" if "0 < i" for i
  proof (rule round_mag_within(2))
    have "1 \<le> i" using that by simp
    then have "(of_int 1 :: rat) \<le> of_int i" by (simp only: of_int_le_iff)
    with pow2_mono [of "- 1022" 0] show "pow2 (- 1022) \<le> of_int i" by (simp add: pow2_def)
  qed (use that in simp_all)
  have "of_int (bytesPerSec l) - of_int (bytesPerSec l) * unit_err \<le> cap l"
    unfolding cap_def using assms by (intro within) simp
  moreover have "(of_int (bytesPerSec l) :: rat) * unit_err \<le> of_int (bytesPerSec l) * (1 / 2)"
    using assms by (intro mult_left_mono) (simp_all add: pow2_def)
  moreover have "(of_int n :: rat) \<le> of_int (bytesPerSec l)" using assms(2) by (simp only: of_int_le_iff)
  ultimately have "of_int n \<le> 2 * cap l" by linarith
  then have "of_int n * unit_err \<le> 2 * cap l * unit_err" by (rule mult_right_mono) (simp add: less_imp_le)
  moreover have "2 * cap l * unit_err = cap l * pow2 (- 52)" by (simp add: pow2_def)
  ultimately show ?thesis using within [OF assms(1)] by linarith
qed

lemma take_tokens_cases:
  assumes l: "limiter_ok l" and n: "0 < n" "n \<le> bytesPerSec l"
  obtains (wait) "take_tokens n l = None" "amount l < round_mag (of_int n)"
  | (grant) l' where "take_tokens n l = Some l'" "limiter_ok l'" "round_mag (of_int n) \<le> amount l"
      "bytesPerSec l' = bytesPerSec l" "lastCheck l' = lastCheck l"
      "amount l' \<le> amount l - of_int n + cap l * pow2 (- 51)"
proof -
  let ?n = "round_mag (of_int n)"
  have B: "in_int64 (bytesPerSec l)" using l by (simp add: limiter_ok_def)
  have i: "in_int64 n" using n B by (simp add: in_int64_def)
  have fn: "f64_of_int n = Finite False ?n" using f64_of_int_in_range [of n] n(1) i by simp
  note c = cap_bounds [OF l]
  have nc: "?n \<le> cap l" unfolding cap_def by (rule round_mag_mono) (use n(2) in \<open>simp only: of_int_le_iff\<close>)
  have a: "amount l \<le> cap l" using l by (simp add: limiter_ok_def)
  have c': "pow2 (- 1022) \<le> cap l" using pow2_mono [of "- 1022" 0] c(2) by (simp add: pow2_def)
  show thesis
  proof (cases "?n \<le> amount l")
    case False
    then show thesis using wait fn tokens_amount [OF l] by (simp add: take_tokens_def signed_def)
  next
    case True
    define l' where "l' = l\<lparr>tokens := Finite False (round_mag (amount l - ?n))\<rparr>"
    have am: "amount l' = round_mag (amount l - ?n)" by (rule amount_tokens) (simp add: l'_def)
    have "amount l - ?n \<le> pow2 63" using a c(3) round_mag_nonneg [of "of_int n"] by linarith
    then have "f_sub (tokens l) (f64_of_int n) = Finite False (round_mag (amount l - ?n))"
      unfolding fn tokens_amount [OF l] using True by (intro f_sub_in_range in_range_le [of _ 63]) simp_all
    then have some: "take_tokens n l = Some l'"
      using True fn tokens_amount [OF l] by (simp add: take_tokens_def signed_def l'_def)
    have le: "amount l - ?n \<le> amount l" by simp
    have "amount l' \<le> amount l" unfolding am
      by (rule round_mag_le) (use l le in \<open>simp_all add: limiter_ok_def\<close>)
    moreover have "cap l' = cap l" by (simp add: l'_def cap_def)
    moreover have "bytesPerSec l' = bytesPerSec l" by (simp add: l'_def)
    ultimately have ok: "limiter_ok l'" using l a unfolding limiter_ok_def by (simp add: am)
    have "amount l' \<le> amount l - ?n + cap l * unit_err" unfolding am
      by (rule round_mag_within(1)) (use True a c' round_mag_nonneg [of "of_int n"] in linarith)+
    moreover have "of_int n - cap l * pow2 (- 52) \<le> ?n" using int_round_within [OF n l] .
    moreover have "cap l * pow2 (- 52) = 2 * (cap l * unit_err)" "cap l * pow2 (- 51) = 4 * (cap l * unit_err)"
      by (simp_all add: pow2_def)
    moreover have "0 \<le> cap l * unit_err" using c(2) by (simp add: less_imp_le)
    ultimately have "amount l' \<le> amount l - of_int n + cap l * pow2 (- 51)" by linarith
    with grant [OF some ok True] show thesis by (simp add: l'_def)
  qed
qed

section \<open>Waiting for a chunk\<close>

text \<open>The clock does not stand still for good.\<close>

definition advances :: "(nat \<Rightarrow> nat) \<Rightarrow> bool" where
  "advances late \<longleftrightarrow> (\<forall>j. \<exists>i \<ge> j. 0 < late i)"

lemma sleep_time_nonneg [simp]: "0 \<le> sleep_time n l"
  by (simp add: sleep_time_def Let_def split: option.split)

text \<open>
  What a caller may have been granted by time \<open>t'\<close>, when it had \<open>l\<close> and made \<open>k\<close> readings since.
\<close>

definition budget :: "Limiter \<Rightarrow> int \<Rightarrow> nat \<Rightarrow> rat" where
  "budget l t' k = of_int (t' - lastCheck l) / 1000000000 * cap l * (1 + pow2 (- 50)) + of_nat k * (cap l * pow2 (- 50))"

text \<open>\<open>spends n k l k' t' l'\<close>: from \<open>l\<close> at reading \<open>k\<close> to \<open>l'\<close>, \<open>n\<close> bytes were granted.\<close>

definition spends :: "int \<Rightarrow> nat \<Rightarrow> Limiter \<Rightarrow> nat \<Rightarrow> int \<Rightarrow> Limiter \<Rightarrow> bool" where
  "spends n k l k' t' l' \<longleftrightarrow> limiter_ok l' \<and> bytesPerSec l' = bytesPerSec l \<and> k \<le> k' \<and> lastCheck l \<le> t' \<and>
     lastCheck l' \<le> t' \<and> of_int n + amount l' \<le> amount l + budget l (lastCheck l') (k' - k)"

lemma cap_err: "limiter_ok l \<Longrightarrow> 0 \<le> cap l * pow2 k"
  using cap_bounds(2) [of l] by (simp add: less_imp_le)

lemma budget_mono: "limiter_ok l \<Longrightarrow> t \<le> t' \<Longrightarrow> budget l t k \<le> budget l t' k"
proof -
  assume "limiter_ok l" "t \<le> t'"
  then have "(of_int (t - lastCheck l) :: rat) \<le> of_int (t' - lastCheck l)" by (simp only: of_int_le_iff)
  then show ?thesis using cap_bounds(2) [OF \<open>limiter_ok l\<close>] unfolding budget_def
    by (intro add_right_mono mult_right_mono divide_right_mono) (simp_all add: less_imp_le add_nonneg_nonneg)
qed

lemma budget_add:
  "budget l u j + budget (l'\<lparr>bytesPerSec := bytesPerSec l, lastCheck := u\<rparr>) t k = budget l t (j + k)"
proof -
  have "(of_int (t - lastCheck l) :: rat) = of_int (u - lastCheck l) + of_int (t - u)" by simp
  then show ?thesis unfolding budget_def cap_def
    by (simp add: algebra_simps add_divide_distrib diff_divide_distrib)
qed

lemma budget_trans:
  assumes "bytesPerSec l' = bytesPerSec l"
  shows "budget l (lastCheck l') j + budget l' t k = budget l t (j + k)"
  using budget_add [of l "lastCheck l'" j l' t k] assms by (simp add: budget_def cap_def)

lemma spends_trans:
  assumes "spends n k l k' t' l'" "spends m k' l' k'' t'' l''" "t' \<le> t''"
  shows "spends (n + m) k l k'' t'' l''"
proof -
  have "budget l (lastCheck l') (k' - k) + budget l' (lastCheck l'') (k'' - k') = budget l (lastCheck l'') (k' - k + (k'' - k'))"
    by (rule budget_trans) (use assms(1) in \<open>simp add: spends_def\<close>)
  moreover have "k' - k + (k'' - k') = k'' - k" using assms by (simp add: spends_def)
  ultimately show ?thesis using assms unfolding spends_def by auto
qed

text \<open>One turn of the loop: a reading of the clock, and the tokens taken or found missing.\<close>

lemma reading_spends:
  assumes l: "limiter_ok l" "lastCheck l \<le> now" and n: "0 < n" "n \<le> bytesPerSec l"
  obtains (grant) l' where "take_tokens n (refill now l) = Some l'" "spends n k l (k + 1) now l'"
  | (wait) "take_tokens n (refill now l) = None" "amount (refill now l) < cap l"
      "\<And>t. now \<le> t \<Longrightarrow> spends 0 k l (k + 1) t (refill now l)"
proof -
  define r where "r = refill now l"
  note amt = refill_bounds [OF l(1,2), folded r_def] and ok = refill_amount(1) [OF l(1,2), folded r_def]
  have r: "bytesPerSec r = bytesPerSec l" "lastCheck r = now" "cap r = cap l" by (simp_all add: r_def)
  have one: "budget l now 1 = of_int (now - lastCheck l) / 1000000000 * cap l * (1 + pow2 (- 50)) + cap l * pow2 (- 50)"
    by (simp add: budget_def)
  have err: "cap l * pow2 (- 50) = 8 * (cap l * unit_err)" "cap l * pow2 (- 51) = 4 * (cap l * unit_err)"
    by (simp_all add: pow2_def)
  note pos = cap_err [OF l(1), of "- 53"]
  have room: "amount r + 4 * (cap l * unit_err) \<le> amount l + budget l now 1"
    using amt(3) one err(1) pos by linarith
  have n': "n \<le> bytesPerSec r" using n(2) r(1) by simp
  have nc: "round_mag (of_int n) \<le> cap l" unfolding cap_def
    by (rule round_mag_mono) (use n(2) in \<open>simp only: of_int_le_iff\<close>)
  from ok n(1) n' show thesis
  proof (cases rule: take_tokens_cases)
    case w: wait
    have le: "amount r \<le> amount l + budget l now 1" using room pos by linarith
    have "spends 0 k l (k + 1) t r" if "now \<le> t" for t
      using ok r l(2) that le unfolding spends_def by simp
    moreover have "amount r < cap l" using w(2) nc by simp
    ultimately show thesis using wait w(1) unfolding r_def by blast
  next
    case g: (grant l')
    have "of_int n + amount l' \<le> amount l + budget l now 1"
      using g(6) room err(2) unfolding r(3) by linarith
    then have "spends n k l (k + 1) now l'"
      using g(2,4,5) r l(2) unfolding spends_def by simp
    with grant g(1) show thesis unfolding r_def by blast
  qed
qed

lemma waitChunk_step:
  assumes l: "limiter_ok l" "lastCheck l \<le> t" and n: "0 < n" "n \<le> bytesPerSec l"
  obtains (returns) t' l' where "waitChunk late n k t l = Some (k + 1, t', l')" "spends n k l (k + 1) t' l'" "t \<le> t'"
  | (waits) t' l' where "waitChunk late n k t l = waitChunk late n (k + 1) t' l'" "spends 0 k l (k + 1) t' l'" "t \<le> t'"
      "amount l \<le> amount l'" "0 < late k \<Longrightarrow> amount l + pow2 (- 32) * cap l \<le> amount l'" "amount l' < cap l"
proof -
  define now where "now = t + int (late k)"
  define r where "r = refill now l"
  have now: "lastCheck l \<le> now" "t \<le> now" using l(2) by (simp_all add: now_def)
  note amt = refill_bounds [OF l(1) now(1), folded r_def]
  have unfold: "waitChunk late n k t l = (case take_tokens n r of Some l'' \<Rightarrow> Some (k + 1, now, l'')
      | None \<Rightarrow> waitChunk late n (k + 1) (now + sleep_time n r) r)"
    unfolding r_def now_def by (subst waitChunk.simps) (simp only: Let_def)
  from l(1) now(1) n show thesis
  proof (cases rule: reading_spends [where k = k])
    case (grant l')
    with returns [of now l'] unfold now(2) show thesis unfolding r_def by simp
  next
    case wait
    have "amount l + pow2 (- 32) * cap l \<le> amount r" if "0 < late k"
      using amt(2) that now l(2) wait(2) by (simp add: now_def r_def min_le_iff_disj)
    moreover have "now \<le> now + sleep_time n r" "t \<le> now + sleep_time n r" using now(2) sleep_time_nonneg [of n r] by linarith+
    moreover have "spends 0 k l (k + 1) (now + sleep_time n r) r" "take_tokens n r = None" "amount r < cap l"
      using wait calculation(2) by (simp_all add: r_def)
    moreover have "waitChunk late n k t l = waitChunk late n (k + 1) (now + sleep_time n r) r"
      unfolding unfold calculation(5) by (simp only: option.case)
    ultimately show thesis by (intro waits [of "now + sleep_time n r" r] amt(1)) assumption+
  qed
qed

text \<open>Waiting adds nothing to what was granted.\<close>

definition done_within :: "(nat \<times> int \<times> Limiter) option \<Rightarrow> int \<Rightarrow> nat \<Rightarrow> int \<Rightarrow> Limiter \<Rightarrow> bool" where
  "done_within res n k t l \<longleftrightarrow> (case res of None \<Rightarrow> False | Some (k', t', l') \<Rightarrow> spends n k l k' t' l' \<and> t \<le> t')"

lemma done_within_later:
  assumes "spends 0 k l j u l'" "t \<le> u" "done_within res n j u l'"
  shows "done_within res n k t l"
  using assms spends_trans [of 0 k l j u l' n] by (force simp: done_within_def split: option.splits prod.splits)

text \<open>
  The tokens missing are counted in steps of \<open>2\<close> to the -32nd of the capacity, which is less than
  what a nanosecond brings; the second induction goes to the next reading that is later.
\<close>

lemma waitChunk_done:
  assumes "advances late" "0 < n"
  shows "limiter_ok l \<Longrightarrow> lastCheck l \<le> t \<Longrightarrow> n \<le> bytesPerSec l \<Longrightarrow>
    cap l \<le> amount l + of_nat m * (pow2 (- 32) * cap l) \<Longrightarrow> done_within (waitChunk late n k t l) n k t l"
proof (induction m arbitrary: k t l)
  case 0
  from 0(1,2) assms(2) 0(3) show ?case
  proof (cases rule: waitChunk_step [where late = late and k = k])
    case (returns t' l')
    then show ?thesis by (simp add: done_within_def)
  qed (use 0(4) in simp)
next
  case (Suc m)
  obtain j where "k \<le> j" "0 < late j" using assms(1) unfolding advances_def by blast
  then have "0 < late (k + (j - k))" by simp
  then obtain d where "0 < late (k + d)" by blast
  then show ?case using Suc.prems
  proof (induction d arbitrary: k t l)
    case 0
    from 0(2,3) assms(2) 0(4) show ?case
    proof (cases rule: waitChunk_step [where late = late and k = k])
      case (returns t' l')
      then show ?thesis by (simp add: done_within_def)
    next
      case (waits t' l')
      have w: "limiter_ok l'" "lastCheck l' \<le> t'" "bytesPerSec l' = bytesPerSec l" using waits(2) by (simp_all add: spends_def)
      then have "cap l' = cap l" by (simp add: cap_def)
      moreover have "amount l + pow2 (- 32) * cap l \<le> amount l'" using waits(5) 0(1) by simp
      ultimately have "cap l' \<le> amount l' + of_nat m * (pow2 (- 32) * cap l')"
        using 0(5) by (simp add: algebra_simps)
      from Suc.IH [OF w(1,2) _ this, of "k + 1"] 0(4) w(3) have "done_within (waitChunk late n (k + 1) t' l') n (k + 1) t' l'"
        by simp
      from done_within_later [OF waits(2,3) this] show ?thesis by (simp only: waits(1))
    qed
  next
    case (Suc d)
    from Suc.prems(2,3) assms(2) Suc.prems(4) show ?case
    proof (cases rule: waitChunk_step [where late = late and k = k])
      case (returns t' l')
      then show ?thesis by (simp add: done_within_def)
    next
      case (waits t' l')
      have w: "limiter_ok l'" "lastCheck l' \<le> t'" "bytesPerSec l' = bytesPerSec l" using waits(2) by (simp_all add: spends_def)
      then have "cap l' = cap l" by (simp add: cap_def)
      then have "cap l' \<le> amount l' + of_nat (Suc m) * (pow2 (- 32) * cap l')"
        using Suc.prems(5) waits(4) by simp
      from Suc.IH [OF _ w(1,2) _ this, of "k + 1"] Suc.prems(1,4) w(3)
      have "done_within (waitChunk late n (k + 1) t' l') n (k + 1) t' l'" by simp
      from done_within_later [OF waits(2,3) this] show ?thesis by (simp only: waits(1))
    qed
  qed
qed

lemma waitChunk_returns:
  assumes "advances late" "0 < n" "limiter_ok l" "lastCheck l \<le> t" "n \<le> bytesPerSec l"
  shows "done_within (waitChunk late n k t l) n k t l"
proof (rule waitChunk_done [OF assms, where m = "2 ^ 32"])
  have "of_nat (2 ^ 32) * (pow2 (- 32) * cap l) = cap l" by (simp add: pow2_def)
  then show "cap l \<le> amount l + of_nat (2 ^ 32) * (pow2 (- 32) * cap l)"
    using assms(3) by (simp only: limiter_ok_def) linarith
qed

section \<open>Waiting for any amount\<close>

lemma waitN_loop_returns:
  assumes "advances late"
  shows "limiter_ok l \<Longrightarrow> lastCheck l \<le> t \<Longrightarrow> 0 \<le> rem \<Longrightarrow> done_within (waitN_loop late rem k t l) rem k t l"
proof (induction "nat rem" arbitrary: rem k t l rule: less_induct)
  case less
  show ?case
  proof (cases "rem = 0")
    case True
    then show ?thesis using less.prems by (subst waitN_loop.simps) (simp add: done_within_def spends_def budget_def)
  next
    case False
    define chunk where "chunk = (if bytesPerSec l < rem then bytesPerSec l else rem)"
    have B: "0 < bytesPerSec l" using less.prems(1) by (simp add: limiter_ok_def)
    have c: "0 < chunk" "chunk \<le> bytesPerSec l" "chunk \<le> rem" using False less.prems(3) B by (simp_all add: chunk_def)
    from waitChunk_returns [OF assms c(1) less.prems(1,2) c(2), of k]
    obtain k' t' l' where w: "waitChunk late chunk k t l = Some (k', t', l')" "spends chunk k l k' t' l'" "t \<le> t'"
      by (auto simp: done_within_def split: option.splits)
    have "waitN_loop late rem k t l = waitN_loop late (rem - chunk) k' t' l'"
      using False less.prems(3) w(1) by (subst waitN_loop.simps) (simp add: Let_def chunk_def split: if_splits)
    moreover have "done_within (waitN_loop late (rem - chunk) k' t' l') (rem - chunk) k' t' l'"
      by (rule less.hyps) (use c w(2) in \<open>simp_all add: spends_def\<close>)
    ultimately show ?thesis using spends_trans [OF w(2), of "rem - chunk"] w(3)
      by (force simp: done_within_def split: option.splits prod.splits)
  qed
qed

section \<open>A limiter in use\<close>

text \<open>Calls of \<open>WaitN\<close> one after the other, with pauses between them.\<close>

fun serve ::
  "(nat \<Rightarrow> nat) \<Rightarrow> (nat \<times> int) list \<Rightarrow> nat \<Rightarrow> int \<Rightarrow> Limiter \<Rightarrow> (nat \<times> int \<times> Limiter) option" where
  "serve late [] k t l = Some (k, t, l)"
| "serve late ((pause, n) # reqs) k t l =
     (case WaitN late n k (t + int pause) l of
        None \<Rightarrow> None | Some (k', t', l') \<Rightarrow> serve late reqs k' t' l')"

definition granted :: "(nat \<times> int) list \<Rightarrow> int" where
  "granted reqs = sum_list (map (\<lambda>(pause, n). max 0 n) reqs)"

lemma WaitN_within:
  assumes "advances late" "limiter_ok l" "lastCheck l \<le> t"
  shows "done_within (WaitN late n k t l) (max 0 n) k t l"
proof (cases "n \<le> 0")
  case True
  then show ?thesis using assms(2,3) by (simp add: WaitN_def done_within_def spends_def budget_def)
next
  case False
  then show ?thesis using waitN_loop_returns [OF assms, of n k] assms(2) by (simp add: WaitN_def limiter_ok_def)
qed

lemma done_within_later_call:
  assumes "done_within res n k u l" "t \<le> u"
    and "\<And>k' t' l'. res = Some (k', t', l') \<Longrightarrow> spends n k l k' t' l' \<Longrightarrow> t \<le> t' \<Longrightarrow> done_within (f k' t' l') m k' t' l'"
  shows "done_within (case res of None \<Rightarrow> None | Some (k', t', l') \<Rightarrow> f k' t' l') (n + m) k t l"
proof -
  from assms(1) obtain k' t' l' where r: "res = Some (k', t', l')" "spends n k l k' t' l'" "u \<le> t'"
    by (auto simp: done_within_def split: option.splits)
  from assms(3) [OF r(1,2)] assms(2) r(3) have "done_within (f k' t' l') m k' t' l'" by simp
  then show ?thesis using spends_trans [OF r(2)] r assms(2)
    by (force simp: done_within_def split: option.splits prod.splits)
qed

lemma serve_within:
  assumes "advances late"
  shows "limiter_ok l \<Longrightarrow> lastCheck l \<le> t \<Longrightarrow> done_within (serve late reqs k t l) (granted reqs) k t l"
proof (induction reqs arbitrary: k t l)
  case Nil
  then show ?case by (simp add: granted_def done_within_def spends_def budget_def)
next
  case (Cons req reqs)
  obtain pause n where req: "req = (pause, n)" by (cases req)
  have "lastCheck l \<le> t + int pause" using Cons.prems(2) by simp
  from done_within_later_call [OF WaitN_within [OF assms Cons.prems(1) this],
      where t = t and f = "serve late reqs" and m = "granted reqs"] Cons.IH
  show ?case by (simp add: req granted_def spends_def)
qed

lemma NewLimiter_ok: "0 < bps \<Longrightarrow> in_int64 bps \<Longrightarrow> limiter_ok (NewLimiter bps t)"
  using f64_of_int_in_range [of bps] by (simp add: limiter_ok_def NewLimiter_def amount_def cap_def)

lemma serve_unlimited: "bytesPerSec l \<le> 0 \<Longrightarrow> \<exists>r. serve late reqs k t l = Some r"
  by (induction reqs arbitrary: t) (auto simp: WaitN_def)

text \<open>
  C12: Whatever amounts are asked for and whatever pauses are made, a limiter lets every caller
  through in the end: the loop of \<open>waitChunk\<close> ends, even when the clock often shows the same time
  and the sleep, computed in floating point, is cut off to nothing. It is enough that the clock
  moves on again and again, by a nanosecond at least.
\<close>
theorem limiter_lets_through:
  assumes "advances late" "in_int64 bps"
  shows "\<exists>r. serve late reqs k t (NewLimiter bps t) = Some r"
proof (cases "0 < bps")
  case True
  from serve_within [OF assms(1) NewLimiter_ok [OF True assms(2)], of t t reqs k] show ?thesis
    by (auto simp: done_within_def NewLimiter_def split: option.splits)
next
  case False
  then show ?thesis by (intro serve_unlimited) (simp add: NewLimiter_def)
qed

theorem limiter_lets_through_witness:
  "\<exists>r. serve (\<lambda>k. if even k then 0 else 1) [(0, 3000), (5, 1000)] 0 7 (NewLimiter 2000 7) = Some r"
proof (rule limiter_lets_through)
  show "advances (\<lambda>k. if even k then 0 else 1)"
    unfolding advances_def by (metis even_Suc le_SucI order_refl zero_less_one)
qed (simp add: in_int64_def)

text \<open>
  The limit is kept: the bytes granted by a limiter since it was made are at most one burst of
  the rate and the rate times the seconds that passed, up to a relative error of \<open>2\<close> to the -50th
  for every reading of the clock.
\<close>
theorem limiter_keeps_rate:
  assumes "advances late" "0 < bps" "in_int64 bps"
    and "serve late reqs 0 t0 (NewLimiter bps t0) = Some (k, t, l)"
  shows "of_int (granted reqs) \<le>
    round_mag (of_int bps) * (1 + of_int (t - t0) / 1000000000 * (1 + pow2 (- 50)) + of_nat k * pow2 (- 50))"
proof -
  let ?l = "NewLimiter bps t0"
  note ok = NewLimiter_ok [OF assms(2,3), of t0]
  have "spends (granted reqs) 0 ?l k t l"
    using serve_within [OF assms(1) ok, of t0 reqs 0] assms(4) by (simp add: done_within_def NewLimiter_def)
  then have "of_int (granted reqs) + amount l \<le> amount ?l + budget ?l (lastCheck l) k"
    and "limiter_ok l" "lastCheck l \<le> t" by (simp_all add: spends_def)
  then have "of_int (granted reqs) \<le> cap ?l + budget ?l t k"
    using budget_mono [OF ok \<open>lastCheck l \<le> t\<close>, of k] ok unfolding limiter_ok_def by linarith
  then show ?thesis by (simp add: budget_def cap_def NewLimiter_def algebra_simps)
qed

lemma demo_serve:
  "serve (\<lambda>k. k) [(0, 1500)] 0 7 (NewLimiter 2000 7) =
     Some (1, 7, \<lparr>bytesPerSec = 2000, lastCheck = 7, tokens = Finite False 500\<rparr>)"
  by code_simp

lemma demo_clock: "advances (\<lambda>k. k)"
  unfolding advances_def by (metis le_SucI order_refl zero_less_Suc)

theorem limiter_keeps_rate_witness:
  "of_int (granted [(0, 1500)]) \<le>
     round_mag (of_int 2000) * (1 + of_int (7 - 7) / 1000000000 * (1 + pow2 (- 50)) + of_nat 1 * pow2 (- 50))"
  by (rule limiter_keeps_rate [OF demo_clock _ _ demo_serve]) (simp_all add: in_int64_def)

section \<open>What passes a throttled reader or writer\<close>

text \<open>Throttling changes when data passes, not what passes.\<close>

lemma throttled_Read_passes:
  assumes "advances late" "limiter_ok (limiter tr)" "lastCheck (limiter tr) \<le> t" "0 < len"
  obtains k' t' l' s' p e where "read (inner tr) len = (s', p, e)" "t \<le> t'" "limiter_ok l'" "lastCheck l' \<le> t'"
    "throttled_Read read late len k t tr = Some (k', t', \<lparr>inner = s', limiter = l'\<rparr>, p, e)"
proof -
  from WaitN_within [OF assms(1-3), of "int len" k] obtain k' t' l'
    where w: "WaitN late (int len) k t (limiter tr) = Some (k', t', l')" "spends (max 0 (int len)) k (limiter tr) k' t' l'" "t \<le> t'"
    by (auto simp: done_within_def split: option.splits)
  obtain s' p e where "read (inner tr) len = (s', p, e)" by (metis prod_cases3)
  with that w assms(4) show thesis by (simp add: throttled_Read_def spends_def)
qed

lemma throttled_Write_passes:
  assumes "advances late" "limiter_ok (limiter tw)" "lastCheck (limiter tw) \<le> t" "p \<noteq> []"
  obtains k' t' l' s' n e where "wr (inner tw) p = (s', n, e)" "t \<le> t'" "limiter_ok l'" "lastCheck l' \<le> t'"
    "throttled_Write wr late p k t tw = Some (k', t', \<lparr>inner = s', limiter = l'\<rparr>, n, e)"
proof -
  from WaitN_within [OF assms(1-3), of "int (length p)" k] obtain k' t' l'
    where w: "WaitN late (int (length p)) k t (limiter tw) = Some (k', t', l')" "spends (max 0 (int (length p))) k (limiter tw) k' t' l'" "t \<le> t'"
    by (auto simp: done_within_def split: option.splits)
  obtain s' n e where "wr (inner tw) p = (s', n, e)" by (metis prod_cases3)
  with that w assms(4) show thesis by (simp add: throttled_Write_def spends_def)
qed

end
