(* ===== verification/Callers.thy ===== *)
theory Callers
  imports Bandwidth
begin

text \<open>
  Several goroutines on one limiter (\<open>src/internal/bandwidth/bandwidth.go\<close>). The mutex is held from
  a reading of the clock to the tokens taken or found missing, and released for the sleep, so what
  the callers interleave are the turns of the loop of \<open>waitChunk\<close>. A call remembers the bytes asked
  for, the bytes not yet granted and the time before which its next turn does not come. The clock is
  read with the mutex held: the turns see times that never go back.
\<close>

section \<open>Turns\<close>

record call =
  asked :: int
  remaining :: int
  wake :: int

record shared =
  bucket :: Limiter
  clock :: int
  calls :: "call list"
  readings :: nat

definition fresh_limiter :: "int \<Rightarrow> int \<Rightarrow> shared" where
  "fresh_limiter bps now = \<lparr>bucket = NewLimiter bps now, clock = now, calls = [], readings = 0\<rparr>"

text \<open>A call of \<open>WaitN\<close> that has something to wait for joins the others.\<close>

definition join :: "int \<Rightarrow> int \<Rightarrow> shared \<Rightarrow> shared" where
  "join n now s =
     (if bytesPerSec (bucket s) \<le> 0 \<or> n \<le> 0 then s
      else s\<lparr>calls := calls s @ [\<lparr>asked = n, remaining = n, wake = now\<rparr>]\<rparr>)"

definition turn :: "int \<Rightarrow> nat \<Rightarrow> shared \<Rightarrow> shared" where
  "turn now i s =
     (let c = calls s ! i; l = bucket s;
          chunk = (if bytesPerSec l < remaining c then bytesPerSec l else remaining c);
          l' = refill now l
      in case take_tokens chunk l' of
           Some l'' \<Rightarrow> s\<lparr>bucket := l'', clock := now, readings := readings s + 1,
             calls := (calls s)[i := c\<lparr>remaining := remaining c - chunk, wake := now\<rparr>]\<rparr>
         | None \<Rightarrow> s\<lparr>bucket := l', clock := now, readings := readings s + 1,
             calls := (calls s)[i := c\<lparr>wake := now + sleep_time chunk l'\<rparr>]\<rparr>)"

text \<open>A call with nothing remaining has returned; it takes no further turn.\<close>

definition may_turn :: "int \<Rightarrow> nat \<Rightarrow> shared \<Rightarrow> bool" where
  "may_turn now i s \<longleftrightarrow> i < length (calls s) \<and> 0 < remaining (calls s ! i) \<and> wake (calls s ! i) \<le> now \<and> clock s \<le> now"

inductive sharing :: "int \<Rightarrow> int \<Rightarrow> shared \<Rightarrow> bool" for bps :: int and t0 :: int where
  fresh: "sharing bps t0 (fresh_limiter bps t0)"
| join: "sharing bps t0 s \<Longrightarrow> sharing bps t0 (join n now s)"
| turn: "sharing bps t0 s \<Longrightarrow> may_turn now i s \<Longrightarrow> sharing bps t0 (turn now i s)"

section \<open>What was granted\<close>

definition bytes_granted :: "call list \<Rightarrow> int" where
  "bytes_granted cs = sum_list (map (\<lambda>c. asked c - remaining c) cs)"

lemma granted_append: "bytes_granted (cs @ [\<lparr>asked = n, remaining = n, wake = t\<rparr>]) = bytes_granted cs"
  by (simp add: bytes_granted_def)

lemma granted_update:
  "i < length cs \<Longrightarrow> bytes_granted (cs[i := c]) = bytes_granted cs + (asked c - remaining c) - (asked (cs ! i) - remaining (cs ! i))"
  by (induction cs arbitrary: i) (auto simp: bytes_granted_def split: nat.splits)

text \<open>No call is granted more than it asked for.\<close>

definition call_ok :: "call \<Rightarrow> bool" where
  "call_ok c \<longleftrightarrow> 0 \<le> remaining c \<and> remaining c \<le> asked c"

definition sharing_ok :: "Limiter \<Rightarrow> shared \<Rightarrow> bool" where
  "sharing_ok l0 s \<longleftrightarrow> spends (bytes_granted (calls s)) 0 l0 (readings s) (clock s) (bucket s) \<and> (\<forall>c \<in> set (calls s). call_ok c)"

lemma turn_cases:
  assumes ok: "sharing_ok l0 s" and may: "may_turn now i s"
  obtains (granted) chunk l' where "0 < chunk" "chunk \<le> remaining (calls s ! i)" "spends chunk (readings s) (bucket s) (readings s + 1) now l'"
      "turn now i s = s\<lparr>bucket := l', clock := now, readings := readings s + 1,
         calls := (calls s)[i := (calls s ! i)\<lparr>remaining := remaining (calls s ! i) - chunk, wake := now\<rparr>]\<rparr>"
  | (waiting) l' t where "spends 0 (readings s) (bucket s) (readings s + 1) now l'" "now \<le> t"
      "turn now i s = s\<lparr>bucket := l', clock := now, readings := readings s + 1, calls := (calls s)[i := (calls s ! i)\<lparr>wake := t\<rparr>]\<rparr>"
proof -
  let ?c = "calls s ! i" and ?l = "bucket s"
  define chunk where "chunk = (if bytesPerSec ?l < remaining ?c then bytesPerSec ?l else remaining ?c)"
  have l: "limiter_ok ?l" "lastCheck ?l \<le> now" using ok may by (simp_all add: sharing_ok_def spends_def may_turn_def)
  then have c: "0 < chunk" "chunk \<le> bytesPerSec ?l" "chunk \<le> remaining ?c"
    using may by (simp_all add: chunk_def may_turn_def limiter_ok_def)
  from l c(1,2) show thesis
  proof (cases rule: reading_spends [where k = "readings s"])
    case (grant l')
    then show thesis using granted [OF c(1,3), of l'] by (simp add: turn_def Let_def chunk_def)
  next
    case wait
    then show thesis using waiting [of "refill now ?l" "now + sleep_time chunk (refill now ?l)"]
      by (simp add: turn_def Let_def chunk_def)
  qed
qed

lemma sharing_ok_turn:
  assumes ok: "sharing_ok l0 s" and may: "may_turn now i s"
  shows "sharing_ok l0 (turn now i s)"
proof -
  have i: "i < length (calls s)" and sp: "spends (bytes_granted (calls s)) 0 l0 (readings s) (clock s) (bucket s)"
    and t: "clock s \<le> now" and cs: "\<forall>c \<in> set (calls s). call_ok c" and c: "call_ok (calls s ! i)"
    using ok may by (auto simp: sharing_ok_def may_turn_def)
  from ok may show ?thesis
  proof (cases rule: turn_cases)
    case (granted chunk l')
    have "call_ok ((calls s ! i)\<lparr>remaining := remaining (calls s ! i) - chunk, wake := now\<rparr>)"
      using c granted(1,2) by (simp add: call_ok_def)
    then show ?thesis using spends_trans [OF sp granted(3) t] cs i unfolding granted(4)
      by (auto simp: sharing_ok_def granted_update dest!: set_update_subset_insert [THEN subsetD])
  next
    case (waiting l' w)
    have "call_ok ((calls s ! i)\<lparr>wake := w\<rparr>)" using c by (simp add: call_ok_def)
    then show ?thesis using spends_trans [OF sp waiting(1) t] cs i unfolding waiting(3)
      by (auto simp: sharing_ok_def granted_update dest!: set_update_subset_insert [THEN subsetD])
  qed
qed

lemma sharing_ok_join: "sharing_ok l0 s \<Longrightarrow> sharing_ok l0 (join n now s)"
  by (simp add: sharing_ok_def join_def granted_append call_ok_def)

lemma sharing_ok:
  assumes "0 < bps" "in_int64 bps" "sharing bps t0 s"
  shows "sharing_ok (NewLimiter bps t0) s"
  using assms(3)
proof induction
  case fresh
  show ?case using NewLimiter_ok [OF assms(1,2), of t0]
    by (simp add: sharing_ok_def fresh_limiter_def bytes_granted_def spends_def budget_def) (simp add: NewLimiter_def)
qed (simp_all add: sharing_ok_join sharing_ok_turn)

lemma spends_rate:
  assumes "limiter_ok l0" "spends n 0 l0 k t l"
  shows "of_int n \<le> cap l0 * (1 + of_int (t - lastCheck l0) / 1000000000 * (1 + pow2 (- 50)) + of_nat k * pow2 (- 50))"
proof -
  have "of_int n + amount l \<le> amount l0 + budget l0 (lastCheck l) k"
    and "limiter_ok l" "lastCheck l \<le> t" using assms(2) by (simp_all add: spends_def)
  then have "of_int n \<le> cap l0 + budget l0 t k"
    using budget_mono [OF assms(1) \<open>lastCheck l \<le> t\<close>, of k] assms(1) unfolding limiter_ok_def by linarith
  then show ?thesis by (simp add: budget_def algebra_simps)
qed

section \<open>The rate is kept by all callers together\<close>

text \<open>
  C13: However many goroutines wait on one limiter and however their turns interleave, the bytes
  granted to all of them together since it was made are at most one burst of the rate and the rate
  times the seconds that passed, up to a relative error of \<open>2\<close> to the -50th for every reading of the
  clock; and each call has been granted something between nothing and what it asked for.
\<close>
theorem callers_share_rate:
  assumes "0 < bps" "in_int64 bps" "sharing bps t0 s"
  shows "of_int (bytes_granted (calls s)) \<le>
      round_mag (of_int bps) * (1 + of_int (clock s - t0) / 1000000000 * (1 + pow2 (- 50)) + of_nat (readings s) * pow2 (- 50))
    \<and> (\<forall>c \<in> set (calls s). 0 \<le> asked c - remaining c \<and> asked c - remaining c \<le> asked c)"
proof
  note ok = sharing_ok [OF assms]
  then have "spends (bytes_granted (calls s)) 0 (NewLimiter bps t0) (readings s) (clock s) (bucket s)"
    unfolding sharing_ok_def ..
  from spends_rate [OF NewLimiter_ok [OF assms(1,2)] this]
  show "of_int (bytes_granted (calls s)) \<le>
      round_mag (of_int bps) * (1 + of_int (clock s - t0) / 1000000000 * (1 + pow2 (- 50)) + of_nat (readings s) * pow2 (- 50))"
    by (simp add: cap_def NewLimiter_def)
  show "\<forall>c \<in> set (calls s). 0 \<le> asked c - remaining c \<and> asked c - remaining c \<le> asked c"
    using ok by (simp add: sharing_ok_def call_ok_def)
qed

text \<open>Two calls that wait at once, with a turn each.\<close>

definition demo_shared :: shared where
  "demo_shared = turn 11 1 (turn 9 0 (join 700 8 (join 1500 8 (fresh_limiter 2000 7))))"

lemma demo_sharing: "sharing 2000 7 demo_shared"
  unfolding demo_shared_def
  by (rule sharing.turn, rule sharing.turn, rule sharing.join, rule sharing.join, rule sharing.fresh)
     (simp_all add: may_turn_def turn_def join_def fresh_limiter_def NewLimiter_def Let_def split: option.split)

theorem callers_share_rate_witness:
  "of_int (bytes_granted (calls demo_shared)) \<le>
     round_mag (of_int 2000) * (1 + of_int (clock demo_shared - 7) / 1000000000 * (1 + pow2 (- 50))
       + of_nat (readings demo_shared) * pow2 (- 50))
     \<and> map asked (calls demo_shared) = [1500, 700]
     \<and> list_all (\<lambda>c. 0 \<le> asked c - remaining c \<and> asked c - remaining c \<le> asked c) (calls demo_shared)"
  using callers_share_rate [OF _ _ demo_sharing]
  by (simp add: in_int64_def list_all_iff)
     (simp add: demo_shared_def turn_def join_def fresh_limiter_def NewLimiter_def Let_def split: option.split)

section \<open>A caller alone\<close>

text \<open>The loops of one caller are turns, one for every reading of the clock.\<close>

abbreviation turns :: "shared \<Rightarrow> shared \<Rightarrow> bool" where
  "turns \<equiv> (\<lambda>s s'. \<exists>now i. may_turn now i s \<and> s' = turn now i s)\<^sup>*\<^sup>*"

lemma turns_turn: "may_turn now i s \<Longrightarrow> turns (turn now i s) s' \<Longrightarrow> turns s s'"
  by (rule converse_rtranclp_into_rtranclp) blast+

definition alone :: "Limiter \<Rightarrow> int \<Rightarrow> int \<Rightarrow> int \<Rightarrow> int \<Rightarrow> nat \<Rightarrow> shared" where
  "alone l ck n rem t k = \<lparr>bucket = l, clock = ck, calls = [\<lparr>asked = n, remaining = rem, wake = t\<rparr>], readings = k\<rparr>"

definition chunk_of :: "int \<Rightarrow> Limiter \<Rightarrow> int" where
  "chunk_of rem l = (if bytesPerSec l < rem then bytesPerSec l else rem)"

lemma alone_may: "0 < rem \<Longrightarrow> t \<le> now \<Longrightarrow> ck \<le> t \<Longrightarrow> may_turn now 0 (alone l ck n rem t k)"
  by (simp add: may_turn_def alone_def)

lemma alone_turn:
  "turn now 0 (alone l ck n rem t k) =
     (case take_tokens (chunk_of rem l) (refill now l) of
        Some l'' \<Rightarrow> alone l'' now n (rem - chunk_of rem l) now (k + 1)
      | None \<Rightarrow> alone (refill now l) now n rem (now + sleep_time (chunk_of rem l) (refill now l)) (k + 1))"
  by (simp add: turn_def alone_def chunk_of_def Let_def split: option.split)

lemma refill_rate [simp]: "bytesPerSec (refill now l) = bytesPerSec l"
  by (simp add: refill_def Let_def)

lemma take_tokens_rate: "take_tokens n l = Some l' \<Longrightarrow> bytesPerSec l' = bytesPerSec l"
  by (auto simp: take_tokens_def split: if_splits)

lemma waitChunk_turns:
  assumes "waitChunk late n k t l = Some y"
  shows "\<forall>ck. 0 < rem \<longrightarrow> n = chunk_of rem l \<longrightarrow> ck \<le> t \<longrightarrow>
    (case y of (k', t', l') \<Rightarrow>
      turns (alone l ck a rem t k) (alone l' t' a (rem - n) t' k') \<and> bytesPerSec l' = bytesPerSec l)"
proof (rule waitChunk.raw_induct [OF _ assms, where P = "\<lambda>late n k t l y. \<forall>ck. 0 < rem \<longrightarrow> n = chunk_of rem l \<longrightarrow> ck \<le> t \<longrightarrow>
    (case y of (k', t', l') \<Rightarrow>
      turns (alone l ck a rem t k) (alone l' t' a (rem - n) t' k') \<and> bytesPerSec l' = bytesPerSec l)"], intro allI impI)
  fix wait late n k t l y ck
  assume IH: "\<And>late n k t l y. wait late n k t l = Some y \<Longrightarrow>
      \<forall>ck. 0 < rem \<longrightarrow> n = chunk_of rem l \<longrightarrow> ck \<le> t \<longrightarrow>
        (case y of (k', t', l') \<Rightarrow>
          turns (alone l ck a rem t k) (alone l' t' a (rem - n) t' k') \<and> bytesPerSec l' = bytesPerSec l)"
    and body: "(let now = t + int (late k); l' = refill now l in case take_tokens n l' of
        None \<Rightarrow> wait late n (k + 1) (now + sleep_time n l') l' | Some l'' \<Rightarrow> Some (k + 1, now, l'')) = Some y"
    and rem: "0 < rem" and n: "n = chunk_of rem l" and ck: "ck \<le> t"
  define now where "now = t + int (late k)"
  define r where "r = refill now l"
  have may: "may_turn now 0 (alone l ck a rem t k)" using rem ck by (simp add: alone_may now_def)
  note tn = alone_turn [of now l ck a rem t k, folded r_def n]
  show "case y of (k', t', l') \<Rightarrow>
      turns (alone l ck a rem t k) (alone l' t' a (rem - n) t' k') \<and> bytesPerSec l' = bytesPerSec l"
  proof (cases "take_tokens n r")
    case None
    then have w: "wait late n (k + 1) (now + sleep_time n r) r = Some y"
      using body by (simp add: Let_def now_def r_def)
    have "n = chunk_of rem r" "bytesPerSec r = bytesPerSec l" using n by (simp_all add: chunk_of_def r_def)
    then show ?thesis using IH [OF w, rule_format, of now] rem turns_turn [OF may] tn None
      by (auto split: prod.splits)
  next
    case (Some l'')
    then have "y = (k + 1, now, l'')" using body by (simp add: Let_def now_def r_def)
    then show ?thesis using turns_turn [OF may, unfolded tn] Some take_tokens_rate [OF Some] by (simp add: r_def)
  qed
qed

lemma waitN_loop_turns:
  "0 < bytesPerSec l \<Longrightarrow> 0 \<le> rem \<Longrightarrow> ck \<le> t \<Longrightarrow> (rem = 0 \<Longrightarrow> ck = t) \<Longrightarrow>
    waitN_loop late rem k t l = Some (k', t', l') \<Longrightarrow> turns (alone l ck a rem t k) (alone l' t' a 0 t' k')"
proof (induction "nat rem" arbitrary: rem ck k t l rule: less_induct)
  case less
  show ?case
  proof (cases "rem = 0")
    case True
    with less.prems show ?thesis by (simp add: waitN_loop.simps)
  next
    case False
    then have rem: "0 < rem" using less.prems(2) by simp
    have body: "waitN_loop late rem k t l = (case waitChunk late (chunk_of rem l) k t l of
        None \<Rightarrow> None | Some (k', t', l') \<Rightarrow> waitN_loop late (rem - chunk_of rem l) k' t' l')"
      using rem by (subst waitN_loop.simps) (simp add: Let_def flip: chunk_of_def)
    then obtain k1 t1 l1 where w: "waitChunk late (chunk_of rem l) k t l = Some (k1, t1, l1)"
      and rest: "waitN_loop late (rem - chunk_of rem l) k1 t1 l1 = Some (k', t', l')"
      using less.prems(5) by (auto split: option.splits)
    have c: "0 < chunk_of rem l" "chunk_of rem l \<le> rem" using rem less.prems(1) by (simp_all add: chunk_of_def)
    have one: "turns (alone l ck a rem t k) (alone l1 t1 a (rem - chunk_of rem l) t1 k1)" "bytesPerSec l1 = bytesPerSec l"
      using waitChunk_turns [OF w, rule_format, OF rem refl less.prems(3)] by simp_all
    have "turns (alone l1 t1 a (rem - chunk_of rem l) t1 k1) (alone l' t' a 0 t' k')"
      by (rule less.hyps [OF _ _ _ _ _ rest]) (use c less.prems(1) one(2) in simp_all)
    with one(1) show ?thesis by (rule rtranclp_trans)
  qed
qed

text \<open>A call of \<open>WaitN\<close> by one caller is a run of turns from the call to nothing remaining.\<close>

lemma WaitN_turns:
  assumes "0 < bytesPerSec l" "0 < n" "WaitN late n k t l = Some (k', t', l')"
  shows "turns (join n t \<lparr>bucket = l, clock = t, calls = [], readings = k\<rparr>) (alone l' t' n 0 t' k')"
  using waitN_loop_turns [of l n t t late k k' t' l' n] assms by (simp add: WaitN_def join_def alone_def)

section \<open>No order among the callers\<close>

text \<open>
  A schedule says which call takes its turn when. It is possible when each call takes a turn only while
  something remains for it, not before it is awake, and at times that do not go back.
\<close>

type_synonym schedule = "(int \<times> nat) list"

fun run_turns :: "schedule \<Rightarrow> shared \<Rightarrow> shared option" where
  "run_turns [] s = Some s"
| "run_turns ((now, i) # sch) s = (if may_turn now i s then run_turns sch (turn now i s) else None)"

lemma run_turns_append: "run_turns (sch @ sch') s = Option.bind (run_turns sch s) (run_turns sch')"
  by (induction sch s rule: run_turns.induct) simp_all

lemma run_turns_sharing: "sharing bps t0 s \<Longrightarrow> run_turns sch s = Some s' \<Longrightarrow> sharing bps t0 s'"
  by (induction sch s rule: run_turns.induct) (auto intro: sharing.turn split: if_splits)

text \<open>The times at which a call takes its turn.\<close>

definition turns_of :: "nat \<Rightarrow> schedule \<Rightarrow> int list" where
  "turns_of i sch = map fst (filter (\<lambda>(now, j). j = i) sch)"

text \<open>
  At a rate of one byte a second, call 0 asks for one byte; call 1 comes after it, and takes the byte of
  every second just before call 0 looks for it.
\<close>

definition empty_bucket :: "int \<Rightarrow> Limiter" where
  "empty_bucket t = \<lparr>bytesPerSec = 1, lastCheck = t, tokens = Finite False 0\<rparr>"

definition full_bucket :: "int \<Rightarrow> Limiter" where
  "full_bucket t = \<lparr>bytesPerSec = 1, lastCheck = t, tokens = Finite False 1\<rparr>"

definition overtaken :: "int \<Rightarrow> nat \<Rightarrow> int \<Rightarrow> int \<Rightarrow> shared" where
  "overtaken want k t rem =
     \<lparr>bucket = empty_bucket t, clock = t,
      calls = [\<lparr>asked = 1, remaining = 1, wake = t + 1000000000\<rparr>,
               \<lparr>asked = want, remaining = rem, wake = t + 1000000000\<rparr>],
      readings = k\<rparr>"

definition in_second :: "nat \<Rightarrow> schedule" where
  "in_second i = (let t = int i * 1000000000 in [(t, 1), (t, 1), (t, 0)])"

definition overtaking :: "nat \<Rightarrow> schedule" where
  "overtaking m = concat (map in_second [0..<m])"

lemma overtaking_turns: "turns_of 0 (overtaking m) = map (\<lambda>i. int i * 1000000000) [0..<m]"
  by (induction m) (simp_all add: turns_of_def overtaking_def in_second_def Let_def)

lemma second_later [simp]:
  "bytesPerSec (empty_bucket t) = 1"
  "refill (t + 1000000000) (empty_bucket t) = full_bucket (t + 1000000000)"
  "refill t (empty_bucket t) = empty_bucket t"
  "take_tokens 1 (full_bucket t) = Some (empty_bucket t)"
  "take_tokens 1 (empty_bucket t) = None"
  "sleep_time 1 (empty_bucket t) = 1000000000"
proof -
  have s: "Seconds (time_sub (t + 1000000000) t) = Finite False 1" "Seconds (time_sub t t) = Finite False 0"
    unfolding time_sub_def by (simp only: add_diff_cancel_left' diff_self, code_simp)+
  have one: "f64_of_int 1 = Finite False 1" by code_simp
  have f: "f_add (Finite False 0) (f_mul (Finite False 1) (Finite False 1)) = Finite False 1"
    "f_add (Finite False 0) (f_mul (Finite False 0) (Finite False 1)) = Finite False 0"
    "f_lt (Finite False 1) (Finite False 1) = False" "f_lt (Finite False 1) (Finite False 0) = False"
    "f_le (Finite False 1) (Finite False 1) = True" "f_le (Finite False 1) (Finite False 0) = False"
    "f_sub (Finite False 1) (Finite False 1) = Finite False 0"
    "f_trunc (f_mul (f_div (f_sub (Finite False 1) (Finite False 0)) (Finite False 1)) (Finite False 1000000000)) = Some 1000000000"
    by code_simp+
  note defs = refill_def take_tokens_def sleep_time_def empty_bucket_def full_bucket_def Let_def
    Limiter.simps Limiter.update_convs s one f if_True if_False option.case
  show "bytesPerSec (empty_bucket t) = 1"
    "refill (t + 1000000000) (empty_bucket t) = full_bucket (t + 1000000000)"
    "refill t (empty_bucket t) = empty_bucket t"
    "take_tokens 1 (full_bucket t) = Some (empty_bucket t)"
    "take_tokens 1 (empty_bucket t) = None"
    "sleep_time 1 (empty_bucket t) = 1000000000"
    by (simp_all only: defs)
qed

lemma chunk_one:
  "1 < r \<Longrightarrow> (if 1 < r then 1 else r) = (1::int)"
  "1 < r \<Longrightarrow> (if 2 < r then 1 else r - 1) = (1::int)"
  by simp_all

text \<open>One second: call 1 is granted a byte and finds nothing more, and nothing is left for call 0.\<close>

lemma overtaken_second:
  assumes "1 < rem"
  shows "run_turns [(t + 1000000000, 1), (t + 1000000000, 1), (t + 1000000000, 0)] (overtaken want k t rem) =
    Some (overtaken want (k + 3) (t + 1000000000) (rem - 1))"
proof -
  let ?t = "t + 1000000000"
  let ?s1 = "\<lparr>bucket = empty_bucket ?t, clock = ?t,
    calls = [\<lparr>asked = 1, remaining = 1, wake = ?t\<rparr>, \<lparr>asked = want, remaining = rem - 1, wake = ?t\<rparr>], readings = k + 1\<rparr>"
  let ?s2 = "\<lparr>bucket = empty_bucket ?t, clock = ?t,
    calls = [\<lparr>asked = 1, remaining = 1, wake = ?t\<rparr>, \<lparr>asked = want, remaining = rem - 1, wake = ?t + 1000000000\<rparr>], readings = k + 2\<rparr>"
  have t1: "turn ?t 1 (overtaken want k t rem) = ?s1" "may_turn ?t 1 (overtaken want k t rem)"
    using assms by (simp_all add: turn_def overtaken_def may_turn_def chunk_one Let_def)
  have t2: "turn ?t 1 ?s1 = ?s2" "may_turn ?t 1 ?s1"
    using assms by (cases "rem = 2"; simp add: turn_def may_turn_def chunk_one Let_def)+
  have t3: "turn ?t 0 ?s2 = overtaken want (k + 3) ?t (rem - 1)" "may_turn ?t 0 ?s2"
    using assms by (simp_all add: turn_def overtaken_def may_turn_def Let_def)
  show ?thesis by (simp only: run_turns.simps t1 t2 t3 if_True)
qed

lemma overtaken_starts:
  assumes "1 < want"
  shows "run_turns (in_second 0) (join want 0 (join 1 0 (fresh_limiter 1 0))) = Some (overtaken want 3 0 (want - 1))"
proof -
  let ?s = "join want 0 (join 1 0 (fresh_limiter 1 0))"
  have "NewLimiter 1 0 = full_bucket 0" "refill 0 (full_bucket 0) = full_bucket 0" "bytesPerSec (full_bucket 0) = 1"
    by code_simp+
  note [simp] = this
  let ?s1 = "\<lparr>bucket = empty_bucket 0, clock = 0,
    calls = [\<lparr>asked = 1, remaining = 1, wake = 0\<rparr>, \<lparr>asked = want, remaining = want - 1, wake = 0\<rparr>], readings = 1\<rparr>"
  let ?s2 = "\<lparr>bucket = empty_bucket 0, clock = 0,
    calls = [\<lparr>asked = 1, remaining = 1, wake = 0\<rparr>, \<lparr>asked = want, remaining = want - 1, wake = 1000000000\<rparr>], readings = 2\<rparr>"
  have t1: "turn 0 1 ?s = ?s1" "may_turn 0 1 ?s"
    using assms by (simp_all add: turn_def join_def fresh_limiter_def may_turn_def chunk_one Let_def)
  have t2: "turn 0 1 ?s1 = ?s2" "may_turn 0 1 ?s1"
    using assms second_later(3) [of 0] by (cases "want = 2"; simp add: turn_def may_turn_def chunk_one Let_def)+
  have t3: "turn 0 0 ?s2 = overtaken want 3 0 (want - 1)" "may_turn 0 0 ?s2"
    by (simp_all add: turn_def overtaken_def may_turn_def Let_def)
  have "in_second 0 = [(0, 1), (0, 1), (0, 0)]" by (simp add: in_second_def)
  then show ?thesis by (simp only: run_turns.simps t1 t2 t3 if_True)
qed

lemma overtaken_for_ever:
  "j \<le> m \<Longrightarrow> run_turns (overtaking (Suc j)) (join (int m + 2) 0 (join 1 0 (fresh_limiter 1 0))) =
     Some (overtaken (int m + 2) (3 * j + 3) (int j * 1000000000) (int m - int j + 1))"
proof (induction j)
  case 0
  show ?case using overtaken_starts [of "int m + 2"] by (simp add: overtaking_def algebra_simps)
next
  case (Suc j)
  have "overtaking (Suc (Suc j)) = overtaking (Suc j) @ in_second (Suc j)" by (simp add: overtaking_def)
  moreover have "in_second (Suc j) = (let t = int j * 1000000000 + 1000000000 in [(t, 1), (t, 1), (t, 0)])"
    by (simp add: in_second_def algebra_simps)
  ultimately show ?case
    using Suc overtaken_second [of "int m - int j + 1" "int j * 1000000000" "int m + 2" "3 * j + 3"]
    by (simp add: run_turns_append Let_def algebra_simps del: run_turns.simps)
qed

text \<open>
  C34: The limiter keeps no order, and a call that waits can be overtaken for ever. On a limiter of one
  byte a second, a call asks for one byte, and after it a second call for more. For every number of
  seconds there is a possible schedule of their turns in which the first call takes its turn in
  each of the seconds, and all the bytes granted in them, one a second, go to the call that came later.
\<close>
theorem no_order_among_callers:
  "\<exists>sch s. run_turns sch (join (int m + 2) 0 (join 1 0 (fresh_limiter 1 0))) = Some s
     \<and> turns_of 0 sch = map (\<lambda>i. int i * 1000000000) [0..<Suc m]
     \<and> map (\<lambda>c. asked c - remaining c) (calls s) = [0, int m + 1]"
  by (rule exI [of _ "overtaking (Suc m)"], rule exI, rule conjI, rule overtaken_for_ever [OF order_refl])
     (simp add: overtaking_turns overtaken_def)

end
