(* ===== verification/Runtime.thy ===== *)
theory Runtime
  imports Scheduler
begin

text \<open>
  The workload engine (\<open>src/internal/runtime/runtime.go\<close>, \<open>runtime_linux.go\<close> and
  \<open>runtime_stub.go\<close>). On Linux an engine is a table of the workloads it started; the callers under
  \<open>src/\<close> only read the statuses they are given, so a status is a value. On other systems every
  operation reports that the platform is not supported.
\<close>

section \<open>Types\<close>

type_synonym ContainerState = string

abbreviation StateRunning :: ContainerState where "StateRunning \<equiv> ''running''"

abbreviation StateStopped :: ContainerState where "StateStopped \<equiv> ''stopped''"

abbreviation StateError :: ContainerState where "StateError \<equiv> ''error''"

datatype runtime_err = ErrComputeNotSupportedOnPlatform | ErrWorkloadNotFound

record ContainerStatus =
  cs_WorkloadID :: string
  cs_Name :: string
  cs_Image :: string
  cs_State :: ContainerState
  cs_Pid :: int
  cs_StartedAt :: int
  cs_IPAddress :: string

text \<open>The interface of an engine with states \<open>'e\<close>; the range loop's order is an argument.\<close>

record 'e Runtime =
  rt_Start :: "int \<Rightarrow> WorkloadManifest \<Rightarrow> 'e \<Rightarrow> 'e \<times> (runtime_err + ContainerStatus)"
  rt_Stop :: "string \<Rightarrow> 'e \<Rightarrow> 'e \<times> runtime_err option"
  rt_Status :: "string \<Rightarrow> 'e \<Rightarrow> runtime_err + ContainerStatus"
  rt_List :: "((string, ContainerStatus) gomap \<Rightarrow> (string, ContainerStatus) gomap) \<Rightarrow> 'e \<Rightarrow> runtime_err + ContainerStatus list"

section \<open>The engine on Linux\<close>

record Engine =
  workloads :: "(string, ContainerStatus) gomap"

definition NewEngine :: Engine where
  "NewEngine = \<lparr>workloads = []\<rparr>"

definition ip_of :: "nat \<Rightarrow> string" where
  "ip_of n = ''10.244.0.'' @ show_int (10 + int n)"

definition StartWorkload ::
  "int \<Rightarrow> WorkloadManifest \<Rightarrow> Engine \<Rightarrow> Engine \<times> (runtime_err + ContainerStatus)" where
  "StartWorkload now manifest e =
     (let status = \<lparr>cs_WorkloadID = WorkloadID manifest, cs_Name = Name manifest, cs_Image = Image manifest,
            cs_State = StateRunning, cs_Pid = 1000 + int (length (workloads e)), cs_StartedAt = now,
            cs_IPAddress = ip_of (length (workloads e))\<rparr>
      in (e\<lparr>workloads := map_put (WorkloadID manifest) status (workloads e)\<rparr>, Inr status))"

definition StopWorkload :: "string \<Rightarrow> Engine \<Rightarrow> Engine \<times> runtime_err option" where
  "StopWorkload workloadID e =
     (case map_get (workloads e) workloadID of
        None \<Rightarrow> (e, Some ErrWorkloadNotFound)
      | Some status \<Rightarrow>
          (e\<lparr>workloads := map_put workloadID (status\<lparr>cs_State := StateStopped\<rparr>) (workloads e)\<rparr>, None))"

definition GetWorkloadStatus :: "string \<Rightarrow> Engine \<Rightarrow> runtime_err + ContainerStatus" where
  "GetWorkloadStatus workloadID e =
     (case map_get (workloads e) workloadID of
        None \<Rightarrow> Inl ErrWorkloadNotFound | Some status \<Rightarrow> Inr status)"

definition ListWorkloads ::
  "((string, ContainerStatus) gomap \<Rightarrow> (string, ContainerStatus) gomap) \<Rightarrow> Engine \<Rightarrow> runtime_err + ContainerStatus list" where
  "ListWorkloads order e = Inr (map snd (order (workloads e)))"

definition linux_runtime :: "Engine Runtime" where
  "linux_runtime = \<lparr>rt_Start = StartWorkload, rt_Stop = StopWorkload, rt_Status = GetWorkloadStatus, rt_List = ListWorkloads\<rparr>"

section \<open>The engine elsewhere\<close>

definition stub_runtime :: "unit Runtime" where
  "stub_runtime =
     \<lparr>rt_Start = (\<lambda>now manifest e. (e, Inl ErrComputeNotSupportedOnPlatform)),
      rt_Stop = (\<lambda>workloadID e. (e, Some ErrComputeNotSupportedOnPlatform)),
      rt_Status = (\<lambda>workloadID e. Inl ErrComputeNotSupportedOnPlatform),
      rt_List = (\<lambda>order e. Inl ErrComputeNotSupportedOnPlatform)\<rparr>"

section \<open>What an engine promises\<close>

text \<open>
  An engine keeps, for every workload it was asked to start, the name and image of the latest
  start and whether it was stopped since.
\<close>

datatype engine_op = Start int WorkloadManifest | Stop string

fun op_id :: "engine_op \<Rightarrow> string" where
  "op_id (Start now m) = WorkloadID m"
| "op_id (Stop i) = i"

text \<open>What the history, the latest operation first, says of a workload.\<close>

fun told :: "string \<Rightarrow> engine_op list \<Rightarrow> (string \<times> string \<times> int \<times> bool) option" where
  "told i [] = None"
| "told i (Start now m # ops) = (if WorkloadID m = i then Some (Name m, Image m, now, True) else told i ops)"
| "told i (Stop j # ops) =
     (if i = j then map_option (\<lambda>(n, im, now, running). (n, im, now, False)) (told i ops) else told i ops)"

definition facts_of :: "ContainerStatus \<Rightarrow> string \<times> string \<times> int \<times> bool" where
  "facts_of s = (cs_Name s, cs_Image s, cs_StartedAt s, cs_State s = StateRunning)"

locale workload_engine =
  fixes ok :: "'e \<Rightarrow> bool"
    and new :: 'e
    and start :: "int \<Rightarrow> WorkloadManifest \<Rightarrow> 'e \<Rightarrow> 'e \<times> (runtime_err + ContainerStatus)"
    and stop :: "string \<Rightarrow> 'e \<Rightarrow> 'e \<times> runtime_err option"
    and status :: "string \<Rightarrow> 'e \<Rightarrow> runtime_err + ContainerStatus"
  assumes ok_new: "ok new"
    and ok_start: "ok e \<Longrightarrow> ok (fst (start now m e))"
    and ok_stop: "ok e \<Longrightarrow> ok (fst (stop i e))"
    and status_new: "status i new = Inl ErrWorkloadNotFound"
    and status_start: "ok e \<Longrightarrow> \<exists>s. snd (start now m e) = Inr s \<and>
      facts_of s = (Name m, Image m, now, True) \<and>
      status i (fst (start now m e)) = (if i = WorkloadID m then Inr s else status i e)"
    and status_stop: "ok e \<Longrightarrow> status j (fst (stop i e)) =
      (if i = j then (case status i e of Inl x \<Rightarrow> Inl x | Inr s \<Rightarrow> Inr (s\<lparr>cs_State := StateStopped\<rparr>)) else status j e)"
begin

fun step :: "engine_op \<Rightarrow> 'e \<Rightarrow> 'e" where
  "step (Start now m) e = fst (start now m e)"
| "step (Stop i) e = fst (stop i e)"

lemma ok_history: "ok (fold step ops new)"
proof (induction ops rule: rev_induct)
  case (snoc x ops)
  then show ?case by (cases x) (simp_all add: ok_start ok_stop)
qed (simp add: ok_new)

lemma status_history:
  "(case status i (fold step ops new) of Inl x \<Rightarrow> None | Inr s \<Rightarrow> Some (facts_of s)) = told i (rev ops)"
proof (induction ops rule: rev_induct)
  case Nil
  then show ?case by (simp add: status_new)
next
  case (snoc x ops)
  let ?e = "fold step ops new"
  show ?case
  proof (cases x)
    case (Start now m)
    obtain s where "facts_of s = (Name m, Image m, now, True)"
      "status i (fst (start now m ?e)) = (if i = WorkloadID m then Inr s else status i ?e)"
      using status_start [OF ok_history [of ops], of now m i] by blast
    with snoc Start show ?thesis by simp
  next
    case (Stop j)
    have old: "told i (rev ops) = (case status i ?e of Inl x \<Rightarrow> None | Inr s \<Rightarrow> Some (facts_of s))" by (rule snoc [symmetric])
    have "status i (fst (stop j ?e)) =
        (if j = i then (case status j ?e of Inl x \<Rightarrow> Inl x | Inr s \<Rightarrow> Inr (s\<lparr>cs_State := StateStopped\<rparr>)) else status i ?e)"
      by (rule status_stop [OF ok_history])
    with Stop old show ?thesis by (cases "j = i") (auto simp: facts_of_def split: sum.splits)
  qed
qed

end

definition engine_ok :: "Engine \<Rightarrow> bool" where
  "engine_ok e \<longleftrightarrow> map_ok (workloads e)"

interpretation linux: workload_engine engine_ok NewEngine StartWorkload StopWorkload GetWorkloadStatus
  by unfold_locales
    (auto simp: engine_ok_def NewEngine_def StartWorkload_def StopWorkload_def GetWorkloadStatus_def facts_of_def
       Let_def split: option.split)

text \<open>The operations on an engine, one after the other.\<close>

fun engine_step :: "engine_op \<Rightarrow> Engine \<Rightarrow> Engine" where
  "engine_step (Start now m) e = fst (StartWorkload now m e)"
| "engine_step (Stop i) e = fst (StopWorkload i e)"

lemma engine_step_linux: "engine_step = linux.step"
proof (intro ext)
  show "engine_step x e = linux.step x e" for x e by (cases x) simp_all
qed

text \<open>
  C22: After any operations, an engine knows a workload exactly when it was started, with the name,
  the image and the time of its latest start, and it is running unless it was stopped since.
\<close>
theorem engine_history:
  "(case GetWorkloadStatus i (fold engine_step ops NewEngine) of Inl x \<Rightarrow> None | Inr s \<Rightarrow> Some (facts_of s)) =
     told i (rev ops)"
  unfolding engine_step_linux by (rule linux.status_history)

text \<open>A list of the workloads, in whatever order the range loop goes, holds each status once.\<close>

lemma ListWorkloads_set:
  assumes "engine_ok e" "range_order (workloads e) (order (workloads e))" "ListWorkloads order e = Inr xs"
  shows "length xs = length (workloads e)" "s \<in> set xs \<longleftrightarrow> (\<exists>i. GetWorkloadStatus i e = Inr s)"
proof -
  have xs: "xs = map snd (order (workloads e))" using assms(3) by (simp add: ListWorkloads_def)
  show "length xs = length (workloads e)" using range_order_length [OF assms(2)] by (simp add: xs)
  have "s \<in> set xs \<longleftrightarrow> (\<exists>i. (i, s) \<in> set (order (workloads e)))" unfolding xs by force
  also have "\<dots> \<longleftrightarrow> (\<exists>i. map_get (workloads e) i = Some s)"
    using range_order_get(2) [OF _ assms(2)] assms(1) by (simp add: engine_ok_def)
  finally show "s \<in> set xs \<longleftrightarrow> (\<exists>i. GetWorkloadStatus i e = Inr s)"
    by (auto simp: GetWorkloadStatus_def split: option.split)
qed

section \<open>Process numbers and addresses\<close>

text \<open>
  Both come from the size of the table. As long as every workload is started once, no two share
  them; a second start of a workload takes the ones the next new workload is given too.
\<close>

definition numbered :: "Engine \<Rightarrow> bool" where
  "numbered e \<longleftrightarrow> map (\<lambda>(i, s). cs_Pid s) (workloads e) = map (\<lambda>k. 1000 + int k) [0..<length (workloads e)]"

lemma update_new: "map_get m k = None \<Longrightarrow> map_put k v m = m @ [(k, v)]"
  by (induction m) (auto split: if_splits)

lemma numbered_start:
  "numbered e \<Longrightarrow> map_get (workloads e) (WorkloadID m) = None \<Longrightarrow> numbered (fst (StartWorkload now m e))"
  by (simp add: numbered_def StartWorkload_def Let_def update_new)

text \<open>
  When a workload the engine knows is started again and then one it does not know, the two
  run with the same process number and the same address.
\<close>
theorem restart_shares_address:
  assumes "GetWorkloadStatus (WorkloadID m) e = Inr s" "GetWorkloadStatus (WorkloadID m') e = Inl x"
  shows "\<exists>s1 s2. let e' = fst (StartWorkload now' m' (fst (StartWorkload now m e))) in
    WorkloadID m \<noteq> WorkloadID m' \<and>
    GetWorkloadStatus (WorkloadID m) e' = Inr s1 \<and> GetWorkloadStatus (WorkloadID m') e' = Inr s2 \<and>
    cs_State s1 = StateRunning \<and> cs_State s2 = StateRunning \<and>
    cs_Pid s1 = cs_Pid s2 \<and> cs_IPAddress s1 = cs_IPAddress s2"
proof -
  have get: "map_get (workloads e) (WorkloadID m) = Some s" "map_get (workloads e) (WorkloadID m') = None"
    using assms by (simp_all add: GetWorkloadStatus_def split: option.splits)
  then have "WorkloadID m \<noteq> WorkloadID m'" by auto
  with get show ?thesis
    by (simp add: GetWorkloadStatus_def StartWorkload_def Let_def length_map_put)
qed

definition other_manifest :: WorkloadManifest where
  "other_manifest = demo_manifest\<lparr>WorkloadID := ''v''\<rparr>"

theorem restart_shares_address_witness:
  "\<exists>s1 s2. let e' = fst (StartWorkload 2 other_manifest (fst (StartWorkload 1 demo_manifest (fst (StartWorkload 0 demo_manifest NewEngine))))) in
    WorkloadID demo_manifest \<noteq> WorkloadID other_manifest \<and>
    GetWorkloadStatus (WorkloadID demo_manifest) e' = Inr s1 \<and> GetWorkloadStatus (WorkloadID other_manifest) e' = Inr s2 \<and>
    cs_State s1 = StateRunning \<and> cs_State s2 = StateRunning \<and>
    cs_Pid s1 = cs_Pid s2 \<and> cs_IPAddress s1 = cs_IPAddress s2"
  by (rule restart_shares_address)
    (auto simp: GetWorkloadStatus_def StartWorkload_def Let_def NewEngine_def demo_manifest_def other_manifest_def)

text \<open>The last part of an address is a byte for the first 246 sizes of the table only.\<close>

lemma ip_of_245: "ip_of 245 = ''10.244.0.255''" "ip_of 246 = ''10.244.0.256''"
  by code_simp+

end
