(* ===== verification/ComputeCmd.thy ===== *)
theory ComputeCmd
  imports Runtime
begin

text \<open>
  The commands \<open>aldea compute deploy, list, stop, recover, expose\<close> (\<open>src/cmd/aldea/compute.go\<close>),
  on any engine with the interface of \<open>runtime.go\<close>. What a command prints is a list of messages,
  one constructor for each format string. The manifest file and the YAML decoder are arguments, as
  are the text that stands in the standard input and the reading of the clock.
\<close>

section \<open>The commands\<close>

datatype message =
    SecurityWarning
  | Aborted
  | Scheduling string string string
  | Deployed string ContainerState string
  | ListHeader
  | ListRow string string string ContainerState string
  | StoppedOk string
  | Restoring string string
  | Restored
  | Opening string
  | TunnelActive string

datatype compute_err =
    ReadingManifest
  | InvalidManifest manifest_err
  | SchedulingWorkload sched_err
  | StartingWorkload runtime_err
  | ListingWorkloads runtime_err
  | StoppingWorkload runtime_err

definition local_node :: NodeComputeCapability where
  "local_node = \<lparr>NodeID = ''local-node'', OS = ''linux'', ComputeEnabled = True, IsHealthy = True,
     TotalCPUCores = Finite False 4, AllocatedCPUCores = f_zero, TotalMemoryMB = 4096, AllocatedMemoryMB = 0\<rparr>"

text \<open>\<open>ReadString\<close> gives the text up to and with the first line feed, or all of it.\<close>

definition read_line :: "string \<Rightarrow> string" where
  "read_line s = (let l = takeWhile (\<lambda>c. c \<noteq> CHR 0x0A) s in if length l < length s then l @ [CHR 0x0A] else l)"

definition confirms :: "string \<Rightarrow> bool" where
  "confirms stdin = (let input = TrimSpace (ToLower (read_line stdin)) in input = ''y'' \<or> input = ''yes'')"

definition run_deploy ::
  "'e Runtime \<Rightarrow> ('d \<Rightarrow> string + WorkloadManifest) \<Rightarrow> 'd option \<Rightarrow> bool \<Rightarrow> string \<Rightarrow> int \<Rightarrow> 'e
     \<Rightarrow> 'e \<times> message list \<times> compute_err option" where
  "run_deploy rt unmarshal file autoConfirm stdin now e =
     (case file of
        None \<Rightarrow> (e, [], Some ReadingManifest)
      | Some data \<Rightarrow>
          (case ParseManifestYAML unmarshal data of
             Inl err \<Rightarrow> (e, [], Some (InvalidManifest err))
           | Inr m \<Rightarrow>
               (let warned = (if autoConfirm then [] else [SecurityWarning]) in
                if \<not> autoConfirm \<and> \<not> confirms stdin then (e, warned @ [Aborted], None)
                else case SelectNode m [local_node] of
                       Inl err \<Rightarrow> (e, warned, Some (SchedulingWorkload err))
                     | Inr node \<Rightarrow>
                         (let out = warned @ [Scheduling (Name m) (WorkloadID m) (NodeID node)] in
                          case rt_Start rt now m e of
                            (e', Inl err) \<Rightarrow> (e', out, Some (StartingWorkload err))
                          | (e', Inr s) \<Rightarrow>
                              (e', out @ [Deployed (cs_WorkloadID s) (cs_State s) (cs_IPAddress s)], None)))))"

definition list_row :: "ContainerStatus \<Rightarrow> message" where
  "list_row w = ListRow (cs_WorkloadID w) (cs_Name w) (cs_Image w) (cs_State w) (cs_IPAddress w)"

definition run_list ::
  "'e Runtime \<Rightarrow> ((string, ContainerStatus) gomap \<Rightarrow> (string, ContainerStatus) gomap) \<Rightarrow> 'e
     \<Rightarrow> 'e \<times> message list \<times> compute_err option" where
  "run_list rt order e =
     (case rt_List rt order e of
        Inl err \<Rightarrow> (e, [], Some (ListingWorkloads err))
      | Inr xs \<Rightarrow> (e, ListHeader # map list_row xs, None))"

definition run_stop :: "'e Runtime \<Rightarrow> string \<Rightarrow> 'e \<Rightarrow> 'e \<times> message list \<times> compute_err option" where
  "run_stop rt workloadID e =
     (case rt_Stop rt workloadID e of
        (e', Some err) \<Rightarrow> (e', [], Some (StoppingWorkload err))
      | (e', None) \<Rightarrow> (e', [StoppedOk workloadID], None))"

definition run_recover :: "string \<Rightarrow> string \<Rightarrow> 'e \<Rightarrow> 'e \<times> message list \<times> compute_err option" where
  "run_recover snapshotID targetPath e = (e, [Restoring snapshotID targetPath, Restored], None)"

definition run_expose :: "string \<Rightarrow> 'e \<Rightarrow> 'e \<times> message list \<times> compute_err option" where
  "run_expose workloadID e = (e, [Opening workloadID, TunnelActive workloadID], None)"

section \<open>What a deployment needs\<close>

text \<open>The one candidate has 4 cores and 4096 MB.\<close>

lemma local_node_score: "score local_node = f_one" "AvailableCPU local_node = Finite False 4"
  "AvailableMemoryMB local_node = 4096"
  by code_simp+

lemma local_node_os: "ToLower ''linux'' = ''linux''"
  by code_simp

lemma SelectNode_local:
  "SelectNode m [local_node] =
     (if f_lt (Finite False 4) (CPUCores m) \<or> 4096 < MemoryMB m then Inl ErrNoEligibleComputeNode else Inr local_node)"
proof -
  have fixed: "OS local_node = ''linux''" "ComputeEnabled local_node" "IsHealthy local_node"
    by (simp_all add: local_node_def)
  show ?thesis
    by (simp add: SelectNode_def eligible_def fixed local_node_os local_node_score signed_def)
qed

text \<open>
  \<open>compute deploy\<close> starts a workload exactly when the manifest can be read and is valid, the user
  confirms the warning with \<open>y\<close> or \<open>yes\<close> (in any case, blanks around it ignored) or has confirmed
  it beforehand, and it asks for no more than 4 cores (a NaN is no more) and 4096 MB; then it is in the
  engine, and running.
  In every other case the engine is as before, and the command says why.
\<close>
theorem run_deploy_outcome:
  "run_deploy linux_runtime unmarshal (Some data) auto stdin now e =
     (case ParseManifestYAML unmarshal data of
        Inl err \<Rightarrow> (e, [], Some (InvalidManifest err))
      | Inr m \<Rightarrow>
          let warned = (if auto then [] else [SecurityWarning]) in
          if \<not> auto \<and> \<not> confirms stdin then (e, warned @ [Aborted], None)
          else if f_lt (Finite False 4) (CPUCores m) \<or> 4096 < MemoryMB m
          then (e, warned, Some (SchedulingWorkload ErrNoEligibleComputeNode))
          else (fst (StartWorkload now m e),
                warned @ [Scheduling (Name m) (WorkloadID m) ''local-node'',
                  Deployed (WorkloadID m) StateRunning (ip_of (length (workloads e)))], None))"
proof -
  have "NodeID local_node = ''local-node''" by (simp add: local_node_def)
  then show ?thesis
    by (auto simp: run_deploy_def SelectNode_local linux_runtime_def StartWorkload_def Let_def split: sum.split)
qed

text \<open>
  Every run of the program makes its engine anew, so \<open>list\<close> prints only the header and \<open>stop\<close> always
  fails, whatever was deployed by other runs; and on other systems than Linux nothing is started.
\<close>

lemma compute_forgets:
  "run_list linux_runtime (\<lambda>m. m) NewEngine = (NewEngine, [ListHeader], None)"
  "run_stop linux_runtime i NewEngine = (NewEngine, [], Some (StoppingWorkload ErrWorkloadNotFound))"
  by (simp_all add: run_list_def run_stop_def linux_runtime_def NewEngine_def ListWorkloads_def StopWorkload_def)

lemma run_deploy_elsewhere:
  "fst (run_deploy stub_runtime unmarshal file auto stdin now e) = e"
  "\<exists>err. snd (snd (run_deploy stub_runtime unmarshal file True stdin now e)) = Some err"
  by (auto simp: run_deploy_def stub_runtime_def Let_def split: option.split sum.split)

text \<open>A line \<open>Yes\<close> with blanks around it confirms.\<close>

lemma confirms_examples: "confirms (''  Yes '' @ [CHR 0x0A])" "\<not> confirms [CHR 0x0A]" "\<not> confirms ''yess''"
  by code_simp+

end
