(* ===== verification/StatusCmd.thy ===== *)
theory StatusCmd
  imports PutGet
begin

text \<open>
  The command \<open>aldea status\<close> (\<open>src/cmd/aldea/status.go\<close>): the nodes the tracker lists, one by one, and
  the totals of their storage, which are \<open>int64\<close> sums.
\<close>

datatype status_line =
    Title nat
  | NodeLine string string
  | AddressLine string
  | StorageLine int int
  | TotalLine int int

definition status_str :: "NodeMetadata \<Rightarrow> string" where
  "status_str n = (if \<not> nm_IsHealthy n then ''UNHEALTHY'' else ''HEALTHY'')"

fun print_nodes :: "NodeMetadata list \<Rightarrow> int \<Rightarrow> int \<Rightarrow> status_line list" where
  "print_nodes [] totalAllocated totalUsed = [TotalLine totalUsed totalAllocated]"
| "print_nodes (n # ns) totalAllocated totalUsed =
     [NodeLine (nm_NodeID n) (status_str n), AddressLine (nm_Address n),
      StorageLine (nm_StorageUsed n) (nm_StorageAllocated n)] @
     print_nodes ns (wrap64 (totalAllocated + nm_StorageAllocated n)) (wrap64 (totalUsed + nm_StorageUsed n))"

definition runStatus ::
  "network \<Rightarrow> config_err + ClientConfig \<Rightarrow> 'd world \<Rightarrow> status_line list outcome \<times> 'd world" where
  "runStatus N config w =
     (case config of
        Inl e \<Rightarrow> (Failed (ErrConfig e), w)
      | Inr cfg \<Rightarrow>
          (case listNodes N cfg w of
             (Panicked, w') \<Rightarrow> (Panicked, w')
           | (Failed e, w') \<Rightarrow> (Failed e, w')
           | (Done nodes, w') \<Rightarrow> (Done (Title (length nodes) # print_nodes nodes 0 0), w')))"

section \<open>What is shown\<close>

lemma print_nodes_lines:
  "set (print_nodes ns a u) = (\<Union>n \<in> set ns. {NodeLine (nm_NodeID n) (status_str n), AddressLine (nm_Address n),
      StorageLine (nm_StorageUsed n) (nm_StorageAllocated n)}) \<union> {last (print_nodes ns a u)}"
proof (induction ns arbitrary: a u)
  case (Cons n ns)
  have "print_nodes ns a' u' \<noteq> []" for a' u' by (cases ns) simp_all
  with Cons show ?case by auto
qed simp

lemma print_nodes_total:
  "in_int64 a \<Longrightarrow> in_int64 u \<Longrightarrow> last (print_nodes ns a u) =
     TotalLine (wrap64 (u + sum_list (map nm_StorageUsed ns))) (wrap64 (a + sum_list (map nm_StorageAllocated ns)))"
proof (induction ns arbitrary: a u)
  case (Cons n ns)
  have "print_nodes ns a' u' \<noteq> []" for a' u' by (cases ns) simp_all
  with Cons.IH [of "wrap64 (a + nm_StorageAllocated n)" "wrap64 (u + nm_StorageUsed n)"] show ?case
    by (simp add: wrap64_add add.assoc)
qed simp

text \<open>What is to be printed for a set of nodes.\<close>

definition shown :: "NodeMetadata set \<Rightarrow> status_line set" where
  "shown R = {Title (card R), TotalLine (wrap64 (\<Sum>n \<in> R. nm_StorageUsed n)) (wrap64 (\<Sum>n \<in> R. nm_StorageAllocated n))} \<union>
     (\<Union>n \<in> R. {NodeLine (nm_NodeID n) (if nm_IsHealthy n then ''HEALTHY'' else ''UNHEALTHY''), AddressLine (nm_Address n),
        StorageLine (nm_StorageUsed n) (nm_StorageAllocated n)})"

text \<open>
  On a network where the tracker answers, \<open>status\<close> changes nothing and shows every registered
  node with its health, its address and its storage, and nothing else, and as totals the sums over
  the registered nodes, each node counted once, as \<open>int64\<close> gives them.
\<close>
theorem runStatus_shows:
  assumes "tracker_at N (cc_TrackerAddr cfg) w t" "\<And>n. net_fate N n = Delivered"
    and "new_request_ok N (cc_TrackerAddr cfg @ ''/nodes'')" "header_value N (cc_NetworkKey cfg) = Some k" "authenticated k t"
    and "bb_view (db_ops (ts_store t)) (db_file (ts_store t)) = None"
  shows "\<exists>lines w' R. runStatus N (Inr cfg) w = (Done lines, w') \<and> same_world w w' \<and>
    finite R \<and> (\<forall>n. n \<in> R \<longleftrightarrow> node_at (net_json N) (ts_store t) (nm_NodeID n) = Some n) \<and> set lines = shown R"
proof -
  from listNodes_delivered [OF assms] obtain ns w' where ns: "listNodes N cfg w = (Done ns, w')"
    "distinct (map nm_NodeID ns)" "\<forall>n. n \<in> set ns \<longleftrightarrow> node_at (net_json N) (ts_store t) (nm_NodeID n) = Some n" by blast
  have d: "distinct ns" using ns(2) by (simp add: distinct_map)
  have "last (print_nodes ns 0 0) = TotalLine (wrap64 (\<Sum>n \<in> set ns. nm_StorageUsed n)) (wrap64 (\<Sum>n \<in> set ns. nm_StorageAllocated n))"
    using print_nodes_total [of 0 0 ns] by (simp add: in_int64_def sum_list_distinct_conv_sum_set [OF d])
  with print_nodes_lines [of ns 0 0]
  have "set (Title (length ns) # print_nodes ns 0 0) = shown (set ns)"
    unfolding shown_def distinct_card [OF d] by (auto simp: status_str_def)
  moreover have "runStatus N (Inr cfg) w = (Done (Title (length ns) # print_nodes ns 0 0), w')"
    by (simp add: runStatus_def ns(1))
  ultimately show ?thesis using listNodes_world [OF assms(1) ns(1)] ns(3) by blast
qed

theorem runStatus_shows_witness:
  "\<exists>lines w' R. runStatus demo_net (Inr demo_client) demo_world = (Done lines, w') \<and> same_world demo_world w' \<and>
    finite R \<and> (\<forall>n. n \<in> R \<longleftrightarrow> node_at (net_json demo_net) (ts_store (demo_tracker\<lparr>ts_store := demo8_store\<rparr>)) (nm_NodeID n) = Some n) \<and>
    set lines = shown R"
proof (rule runStatus_shows [OF demo_world_ok(2) demo_net_ok(3) _ demo_key])
  show "new_request_ok demo_net (cc_TrackerAddr demo_client @ ''/nodes'')" using demo_url [of "''nodes''"] by simp
  show "authenticated ''k'' (demo_tracker\<lparr>ts_store := demo8_store\<rparr>)" by (simp add: authenticated_def demo_tracker_def)
qed (use demo_view8 in simp)

end
