(* ===== verification/Ingress.thy ===== *)
theory Ingress
  imports Prelude Gostd Gomap
begin

text \<open>
  The tunnels to workloads behind NAT (\<open>src/internal/ingress/ingress.go\<close>): a table of tunnels by
  their identifier, which is made of the workload and the second in which the tunnel is opened. The
  two readings of the clock, the one for the identifier in seconds, are arguments.
\<close>

section \<open>State and operations\<close>

datatype ingress_err = ErrTunnelNotFound | ErrInvalidPort

record IngressTunnel =
  it_TunnelID :: string
  it_WorkloadID :: string
  it_PublicAddr :: string
  it_TargetPort :: int
  it_RelayAddr :: string
  it_IsActive :: bool
  it_CreatedAt :: int

record Manager =
  tunnels :: "(string, IngressTunnel) gomap"

definition NewManager :: Manager where
  "NewManager = \<lparr>tunnels = []\<rparr>"

definition tunnel_id :: "string \<Rightarrow> int \<Rightarrow> string" where
  "tunnel_id workloadID unix = ''tun-'' @ workloadID @ ''-'' @ show_int unix"

definition public_addr :: "string \<Rightarrow> string" where
  "public_addr workloadID = ''https://'' @ workloadID @ ''.tunnel.aldea.net''"

definition CreateTunnel ::
  "string \<Rightarrow> int \<Rightarrow> string \<Rightarrow> int \<Rightarrow> int \<Rightarrow> Manager \<Rightarrow> Manager \<times> (ingress_err + IngressTunnel)" where
  "CreateTunnel workloadID targetPort relayAddr unix now m =
     (if targetPort \<le> 0 \<or> 65535 < targetPort then (m, Inl ErrInvalidPort)
      else let tunnelID = tunnel_id workloadID unix;
               tunnel = \<lparr>it_TunnelID = tunnelID, it_WorkloadID = workloadID, it_PublicAddr = public_addr workloadID,
                 it_TargetPort = targetPort, it_RelayAddr = relayAddr, it_IsActive = True, it_CreatedAt = now\<rparr>
           in (m\<lparr>tunnels := map_put tunnelID tunnel (tunnels m)\<rparr>, Inr tunnel))"

definition CloseTunnel :: "string \<Rightarrow> Manager \<Rightarrow> Manager \<times> ingress_err option" where
  "CloseTunnel tunnelID m =
     (case map_get (tunnels m) tunnelID of
        None \<Rightarrow> (m, Some ErrTunnelNotFound)
      | Some tunnel \<Rightarrow> (m\<lparr>tunnels := map_del tunnelID (tunnels m)\<rparr>, None))"

definition ListTunnels ::
  "((string, IngressTunnel) gomap \<Rightarrow> (string, IngressTunnel) gomap) \<Rightarrow> Manager \<Rightarrow> ingress_err + IngressTunnel list" where
  "ListTunnels order m = Inr (map snd (order (tunnels m)))"

section \<open>Invariant\<close>

text \<open>
  A tunnel is filed under its identifier, its port is one, it is active, and its address is made of
  its workload.
\<close>

definition tunnel_ok :: "string \<times> IngressTunnel \<Rightarrow> bool" where
  "tunnel_ok = (\<lambda>(i, t). it_TunnelID t = i \<and> 0 < it_TargetPort t \<and> it_TargetPort t \<le> 65535 \<and> it_IsActive t \<and>
     it_PublicAddr t = public_addr (it_WorkloadID t))"

definition manager_ok :: "Manager \<Rightarrow> bool" where
  "manager_ok m \<longleftrightarrow> map_ok (tunnels m) \<and> list_all tunnel_ok (tunnels m)"

lemma NewManager_ok [keeps_inv]: "manager_ok NewManager"
  by (simp add: manager_ok_def NewManager_def)

lemma CreateTunnel_ok [keeps_inv]: "manager_ok m \<Longrightarrow> manager_ok (fst (CreateTunnel w p r u now m))"
  using set_map_put [of "tunnel_id w u" _ "tunnels m"]
  by (fastforce simp: manager_ok_def CreateTunnel_def Let_def list_all_iff tunnel_ok_def)

lemma CloseTunnel_ok [keeps_inv]: "manager_ok m \<Longrightarrow> manager_ok (fst (CloseTunnel i m))"
  by (auto simp: manager_ok_def CloseTunnel_def list_all_iff set_map_del split: option.split)

datatype tunnel_op = Open string int string int int | Close string

fun tunnel_step :: "tunnel_op \<Rightarrow> Manager \<Rightarrow> Manager" where
  "tunnel_step (Open w p r u now) m = fst (CreateTunnel w p r u now m)"
| "tunnel_step (Close i) m = fst (CloseTunnel i m)"

lemma tunnel_steps_ok: "manager_ok (fold tunnel_step ops NewManager)"
proof (induction ops rule: rev_induct)
  case (snoc x ops)
  then show ?case by (cases x) (simp_all add: keeps_inv)
qed (simp add: keeps_inv)

text \<open>
  C30: After any openings and closings, \<open>ListTunnels\<close> gives tunnels with different identifiers, each
  active and with a valid port, and \<open>CloseTunnel\<close> succeeds exactly for these identifiers and takes
  that tunnel, and no other, out of the table.
\<close>
theorem tunnels_consistent:
  "let m = fold tunnel_step ops NewManager in
     distinct (map it_TunnelID (map snd (tunnels m))) \<and>
     list_all (\<lambda>t. it_IsActive t \<and> 0 < it_TargetPort t \<and> it_TargetPort t \<le> 65535) (map snd (tunnels m)) \<and>
     (\<forall>i. (snd (CloseTunnel i m) = None) = (i \<in> it_TunnelID ` snd ` set (tunnels m)) \<and>
          snd ` set (tunnels (fst (CloseTunnel i m))) = {t \<in> snd ` set (tunnels m). it_TunnelID t \<noteq> i})"
proof -
  define m where "m = fold tunnel_step ops NewManager"
  have ok: "map_ok (tunnels m)" "\<And>x. x \<in> set (tunnels m) \<Longrightarrow> tunnel_ok x"
    using tunnel_steps_ok [of ops] by (simp_all add: m_def manager_ok_def list_all_iff)
  have ids: "map it_TunnelID (map snd (tunnels m)) = map fst (tunnels m)"
    using ok(2) by (auto simp: tunnel_ok_def)
  have id: "it_TunnelID t = i" if "(i, t) \<in> set (tunnels m)" for i t using ok(2) [OF that] by (simp add: tunnel_ok_def)
  have known: "map_get (tunnels m) i = None \<longleftrightarrow> i \<notin> fst ` set (tunnels m)" for i by (rule map_of_eq_None_iff)
  have fst_ids: "it_TunnelID ` snd ` set (tunnels m) = fst ` set (tunnels m)"
    using id by (force simp: image_iff)
  have a: "(snd (CloseTunnel i m) = None) = (i \<in> it_TunnelID ` snd ` set (tunnels m))" for i
    using known [of i] unfolding fst_ids by (auto simp: CloseTunnel_def split: option.split)
  have b: "snd ` set (tunnels (fst (CloseTunnel i m))) = {t \<in> snd ` set (tunnels m). it_TunnelID t \<noteq> i}" for i
    using id known [of i] by (force simp: CloseTunnel_def set_map_del split: option.split)
  have c: "distinct (map it_TunnelID (map snd (tunnels m)))" using ok(1) unfolding ids by (simp add: map_ok_def)
  have d: "list_all (\<lambda>t. it_IsActive t \<and> 0 < it_TargetPort t \<and> it_TargetPort t \<le> 65535) (map snd (tunnels m))"
    using ok(2) by (auto simp: list_all_iff tunnel_ok_def)
  show ?thesis unfolding Let_def m_def [symmetric] by (intro conjI allI a b c d)
qed

section \<open>Two tunnels in one second\<close>

text \<open>
  A second tunnel to a workload that is opened in the same second gets the identifier of the
  first and replaces it: both openings succeed, the ports and relays may differ, and there is one
  tunnel, the second.
\<close>
theorem tunnels_of_one_second:
  assumes "0 < p" "p \<le> 65535" "0 < q" "q \<le> 65535" "manager_ok m"
  shows "\<exists>t1 t2. let m1 = fst (CreateTunnel w p r u now m); m2 = fst (CreateTunnel w q r' u now' m1) in
    snd (CreateTunnel w p r u now m) = Inr t1 \<and> snd (CreateTunnel w q r' u now' m1) = Inr t2 \<and>
    it_TunnelID t1 = it_TunnelID t2 \<and> it_TargetPort t1 = p \<and> it_TargetPort t2 = q \<and>
    map_get (tunnels m2) (it_TunnelID t1) = Some t2 \<and> length (tunnels m2) = length (tunnels m1)"
  using assms by (auto simp: CreateTunnel_def Let_def length_map_put)

theorem tunnels_of_one_second_witness:
  "\<exists>t1 t2. let m1 = fst (CreateTunnel ''w'' 80 ''r'' 7 1 NewManager); m2 = fst (CreateTunnel ''w'' 443 ''s'' 7 2 m1) in
    snd (CreateTunnel ''w'' 80 ''r'' 7 1 NewManager) = Inr t1 \<and> snd (CreateTunnel ''w'' 443 ''s'' 7 2 m1) = Inr t2 \<and>
    it_TunnelID t1 = it_TunnelID t2 \<and> it_TargetPort t1 = 80 \<and> it_TargetPort t2 = 443 \<and>
    map_get (tunnels m2) (it_TunnelID t1) = Some t2 \<and> length (tunnels m2) = length (tunnels m1)"
  by (rule tunnels_of_one_second) (simp_all add: NewManager_ok)

end
