(* ===== verification/Snapshot.thy ===== *)
theory Snapshot
  imports Sha256 Gostd Gomap Config
begin

text \<open>
  Volume snapshots (\<open>src/internal/snapshot/snapshot.go\<close>): a table of what was snapshotted; no content
  is kept, and what \<open>RestoreSnapshot\<close> writes is a constant. The files are those of the configuration
  model, the readings of the clock arguments.
\<close>

section \<open>State and operations\<close>

datatype snapshot_err = ErrSnapshotNotFound | ErrInvalidVolume string | WritingVolume string

record SnapshotMetadata =
  sm_SnapshotID :: string
  sm_WorkloadID :: string
  sm_StorageFileID :: string
  sm_SizeBytes :: int
  sm_CreatedAt :: int

record SnapshotEngine =
  snapshots :: "(string, SnapshotMetadata) gomap"

definition NewSnapshotEngine :: SnapshotEngine where
  "NewSnapshotEngine = \<lparr>snapshots = []\<rparr>"

definition snapshot_id :: "string \<Rightarrow> int \<Rightarrow> string" where
  "snapshot_id workloadID unix = ''snap-'' @ workloadID @ ''-'' @ show_int unix"

definition CreateSnapshot ::
  "string \<Rightarrow> string \<Rightarrow> int \<Rightarrow> int \<Rightarrow> os_files \<Rightarrow> SnapshotEngine \<Rightarrow> SnapshotEngine \<times> (snapshot_err + SnapshotMetadata)" where
  "CreateSnapshot workloadID volumePath unix now files e =
     (case os_read files volumePath of
        Inl err \<Rightarrow> (e, Inl (ErrInvalidVolume err))
      | Inr data \<Rightarrow>
          (let meta = \<lparr>sm_SnapshotID = snapshot_id workloadID unix, sm_WorkloadID = workloadID,
                 sm_StorageFileID = ''p2p-file-'' @ hex_encode (take 8 (sha256 data)),
                 sm_SizeBytes = wrap64 (int (length data)), sm_CreatedAt = now\<rparr>
           in (e\<lparr>snapshots := map_put (sm_SnapshotID meta) meta (snapshots e)\<rparr>, Inr meta)))"

definition dummyRestoredData :: bytes where
  "dummyRestoredData = bytes_of_string ''postgres-database-snapshot-content-v1''"

text \<open>\<open>left\<close> is what a failed write leaves in the file, if it comes to change it.\<close>

definition RestoreSnapshot ::
  "string \<Rightarrow> string \<Rightarrow> bytes option \<Rightarrow> os_files \<Rightarrow> SnapshotEngine \<Rightarrow> os_files \<times> snapshot_err option" where
  "RestoreSnapshot snapshotID targetPath left files e =
     (case map_get (snapshots e) snapshotID of
        None \<Rightarrow> (files, Some ErrSnapshotNotFound)
      | Some meta \<Rightarrow>
          if 0 < sm_SizeBytes meta \<and> sm_WorkloadID meta \<noteq> [] then
            (case os_write files targetPath dummyRestoredData of
               Inl err \<Rightarrow>
                 (case left of None \<Rightarrow> files | Some b \<Rightarrow> files\<lparr>os_read := (os_read files)(targetPath := Inr b)\<rparr>,
                  Some (WritingVolume err))
             | Inr files' \<Rightarrow> (files', None))
          else (files, None))"

definition ListSnapshots ::
  "((string, SnapshotMetadata) gomap \<Rightarrow> (string, SnapshotMetadata) gomap) \<Rightarrow> string \<Rightarrow> SnapshotEngine
     \<Rightarrow> SnapshotMetadata list" where
  "ListSnapshots order workloadID e =
     filter (\<lambda>meta. workloadID = [] \<or> sm_WorkloadID meta = workloadID) (map snd (order (snapshots e)))"

section \<open>What is recorded\<close>

lemma CreateSnapshot_known:
  assumes "CreateSnapshot w vol unix now files e = (e', Inr meta)"
  shows "map_get (snapshots e') (sm_SnapshotID meta) = Some meta" "sm_WorkloadID meta = w"
    "\<exists>data. os_read files vol = Inr data \<and> sm_SizeBytes meta = wrap64 (int (length data)) \<and>
       sm_StorageFileID meta = ''p2p-file-'' @ hex_encode (take 8 (sha256 data))"
  using assms by (auto simp: CreateSnapshot_def Let_def split: sum.splits)

text \<open>Each snapshot of a workload is listed once, whatever the order of the range loop.\<close>

lemma ListSnapshots_set:
  assumes "map_ok (snapshots e)" "range_order (snapshots e) (order (snapshots e))"
  shows "set (ListSnapshots order w e) = {meta. (\<exists>i. map_get (snapshots e) i = Some meta) \<and> (w = [] \<or> sm_WorkloadID meta = w)}"
proof -
  have "meta \<in> snd ` set (order (snapshots e)) \<longleftrightarrow> (\<exists>i. map_get (snapshots e) i = Some meta)" for meta
    using range_order_get(2) [OF assms] by force
  then show ?thesis unfolding ListSnapshots_def by auto
qed

section \<open>What is restored\<close>

text \<open>
  A snapshot of a volume that is read and restored at once does not bring the volume back: the
  target holds a fixed text whatever the content was, or, when the volume was empty or the workload
  has no name, nothing is written at all and the restoration is reported as successful.
\<close>
theorem restore_writes_constant:
  assumes "CreateSnapshot w vol unix now files e = (e', Inr meta)" "os_read files vol = Inr data"
    and "length data < 2 ^ 63" "os_write_err files target = None"
  shows "RestoreSnapshot (sm_SnapshotID meta) target left files e' =
    (if data = [] \<or> w = [] then files else files\<lparr>os_read := (os_read files)(target := Inr dummyRestoredData)\<rparr>, None)"
proof -
  have "int (length data) < 2 ^ 63"
    using assms(3) by (metis of_nat_less_iff of_nat_numeral of_nat_power)
  then have "wrap64 (int (length data)) = int (length data)" by (simp add: in_int64_def)
  then show ?thesis using CreateSnapshot_known [OF assms(1)] assms(2,4)
    by (auto simp: RestoreSnapshot_def os_write_def)
qed

definition demo_files :: os_files where
  "demo_files = \<lparr>os_read = \<lambda>p. if p = ''vol'' then Inr [1, 2, 3] else Inl ''no such file'', os_mkdir = \<lambda>_. None, os_write_err = \<lambda>_. None\<rparr>"

theorem restore_writes_constant_witness:
  "RestoreSnapshot ''snap-db-7'' ''vol2'' None demo_files (fst (CreateSnapshot ''db'' ''vol'' 7 9 demo_files NewSnapshotEngine)) =
    (demo_files\<lparr>os_read := (os_read demo_files)(''vol2'' := Inr dummyRestoredData)\<rparr>, None)"
proof -
  obtain e' meta where c: "CreateSnapshot ''db'' ''vol'' 7 9 demo_files NewSnapshotEngine = (e', Inr meta)"
    by (simp add: CreateSnapshot_def demo_files_def Let_def)
  have "show_int 7 = ''7''" by code_simp
  with c have "sm_SnapshotID meta = ''snap-db-7''"
    by (auto simp: CreateSnapshot_def demo_files_def Let_def snapshot_id_def)
  with restore_writes_constant [OF c, of "[1, 2, 3]" "''vol2''"] c show ?thesis by (simp add: demo_files_def)
qed

end
