(* ===== verification/Relay.thy ===== *)
theory Relay
  imports Prelude Gotext
begin

text \<open>
  The relay (\<open>src/internal/relay/relay.go\<close>): a client names a target in one line, the server dials it,
  answers \<open>OK\<close> or \<open>ERR\<close>, and pipes bytes both ways. A TCP connection is the list of the pieces that
  arrive on it, in order; a \<open>Read\<close> returns at most its buffer's size of the first piece, and fails
  when nothing arrives any more (the end of the stream, or the deadline). TCP cuts a stream as it
  likes, so the property of a session is one over all pieces. Who can be dialled, and what comes back
  from there, is an argument.
\<close>

section \<open>Reading from a connection\<close>

type_synonym stream = "bytes list"

definition conn_read :: "nat \<Rightarrow> stream \<Rightarrow> (bytes \<times> stream) option" where
  "conn_read n s =
     (case s of [] \<Rightarrow> None | p # ps \<Rightarrow> Some (take n p, if length p \<le> n then ps else drop n p # ps))"

definition text_of :: "bytes \<Rightarrow> string" where
  "text_of b = map (\<lambda>x. char_of (unat x)) b"

lemma text_of_bytes [simp]: "text_of (bytes_of_string s) = s"
  by (simp add: text_of_def bytes_of_string_def comp_def)

lemma conn_read_all: "length p \<le> n \<Longrightarrow> conn_read n (p # ps) = Some (p, ps)"
  by (simp add: conn_read_def)

text \<open>A read takes bytes off the front and loses none.\<close>

lemma conn_read_concat: "conn_read n s = Some (b, s') \<Longrightarrow> concat s = b @ concat s'"
  by (auto simp: conn_read_def split: list.splits if_splits)

section \<open>The server\<close>

text \<open>
  A dialled target is the stream it sends. A handled connection ends before a request, with a
  refused target, or piped: then the server has sent on the bytes that came after the request.
\<close>

datatype handled = NoRequest | Refused string | Piped string stream stream

definition handleConn :: "(string \<Rightarrow> stream option) \<Rightarrow> stream \<Rightarrow> handled" where
  "handleConn dial src =
     (case conn_read 256 src of
        None \<Rightarrow> NoRequest
      | Some (buf, rest) \<Rightarrow>
          (let targetAddr = TrimSpace (text_of buf) in
           case dial targetAddr of None \<Rightarrow> Refused targetAddr | Some dst \<Rightarrow> Piped targetAddr rest dst))"

fun to_client :: "handled \<Rightarrow> bytes" where
  "to_client NoRequest = []"
| "to_client (Refused a) = bytes_of_string (''ERR'' @ [CHR 0x0A])"
| "to_client (Piped a rest dst) = bytes_of_string (''OK'' @ [CHR 0x0A]) @ concat dst"

fun to_target :: "handled \<Rightarrow> bytes" where
  "to_target (Piped a rest dst) = concat rest"
| "to_target _ = []"

text \<open>The server's loop ends with the first error of the listener; every connection is handled.\<close>

fun Serve :: "(string \<Rightarrow> stream option) \<Rightarrow> stream option list \<Rightarrow> handled list" where
  "Serve dial [] = []"
| "Serve dial (None # cs) = []"
| "Serve dial (Some conn # cs) = handleConn dial conn # Serve dial cs"

section \<open>The client\<close>

datatype relay_err = ConnectingRelay | SendingTarget | ReadingHandshake | Rejected string

text \<open>
  A dialled peer takes the bytes of the request and gives what arrives in answer, or no answer when
  the bytes cannot be written. A session is what arrives after the handshake.
\<close>

type_synonym peer = "bytes \<Rightarrow> stream option"

definition CreateSession :: "(string \<Rightarrow> peer option) \<Rightarrow> string \<Rightarrow> string \<Rightarrow> relay_err + stream" where
  "CreateSession dial relayAddr targetAddr =
     (case dial relayAddr of
        None \<Rightarrow> Inl ConnectingRelay
      | Some p \<Rightarrow>
          (case p (bytes_of_string (targetAddr @ [CHR 0x0A])) of
             None \<Rightarrow> Inl SendingTarget
           | Some answer \<Rightarrow>
               (case conn_read 4 answer of
                  None \<Rightarrow> Inl ReadingHandshake
                | Some (resp, rest) \<Rightarrow>
                    if TrimSpace (text_of resp) \<noteq> ''OK'' then Inl (Rejected targetAddr) else Inr rest)))"

section \<open>Relay specifications\<close>

text \<open>\<open>url.ParseQuery\<close>: parameters between ampersands, percent signs undone.\<close>

fun split_on :: "char \<Rightarrow> string \<Rightarrow> string list" where
  "split_on c [] = [[]]"
| "split_on c (x # xs) =
     (if x = c then [] # split_on c xs
      else case split_on c xs of [] \<Rightarrow> [[x]] | s # ss \<Rightarrow> (x # s) # ss)"

definition cut :: "char \<Rightarrow> string \<Rightarrow> string \<times> string" where
  "cut c s = (let a = takeWhile (\<lambda>x. x \<noteq> c) s in (a, drop (length a + 1) s))"

definition unhex :: "char \<Rightarrow> nat option" where
  "unhex c = (let n = of_char c :: nat in
     if 48 \<le> n \<and> n \<le> 57 then Some (n - 48) else if 97 \<le> n \<and> n \<le> 102 then Some (n - 87)
     else if 65 \<le> n \<and> n \<le> 70 then Some (n - 55) else None)"

fun QueryUnescape :: "string \<Rightarrow> string option" where
  "QueryUnescape [] = Some []"
| "QueryUnescape (c # cs) =
     (if c = CHR ''%'' then
        (case cs of
           h # l # rest \<Rightarrow>
             (case (unhex h, unhex l) of
                (Some a, Some b) \<Rightarrow> map_option (Cons (char_of (16 * a + b))) (QueryUnescape rest)
              | _ \<Rightarrow> None)
         | _ \<Rightarrow> None)
      else map_option (Cons (if c = CHR ''+'' then CHR '' '' else c)) (QueryUnescape cs))"

text \<open>A parameter is skipped when it is empty, and spoils the query when it is malformed.\<close>

fun parse_param :: "string \<Rightarrow> (string \<times> string) option option" where
  "parse_param p =
     (if CHR '';'' \<in> set p then None
      else if p = [] then Some None
      else case cut (CHR ''='') p of (k, v) \<Rightarrow>
        (case (QueryUnescape k, QueryUnescape v) of (Some k', Some v') \<Rightarrow> Some (Some (k', v')) | _ \<Rightarrow> None))"

definition maxParams :: nat where
  "maxParams = 10000"

definition ParseQuery :: "string \<Rightarrow> (string \<times> string) list option" where
  "ParseQuery q =
     (let ps = split_on (CHR ''&'') q in
      if maxParams < length ps then None
      else map_option (concat \<circ> map (\<lambda>p. case p of None \<Rightarrow> [] | Some kv \<Rightarrow> [kv])) (those (map parse_param ps)))"

definition query_get :: "(string \<times> string) list \<Rightarrow> string \<Rightarrow> string" where
  "query_get kvs k = (case map_of kvs k of None \<Rightarrow> [] | Some v \<Rightarrow> v)"

definition parseRelaySpec :: "string \<Rightarrow> (string \<times> string) option" where
  "parseRelaySpec spec =
     (case cut (CHR ''?'') spec of (relayAddr, query) \<Rightarrow>
        if CHR ''?'' \<notin> set spec then Some (relayAddr, [])
        else case ParseQuery query of None \<Rightarrow> None | Some params \<Rightarrow> Some (relayAddr, query_get params ''target''))"

section \<open>The dialer\<close>

datatype dial_err = NoRelayConfigured | InvalidRelaySpec string | RelayFallbackFailed relay_err

text \<open>
  \<open>direct\<close> is the outcome of the direct attempt within the caller's timeout: what arrives on the
  connection, if it succeeds. The Boolean tells whether the relay is used.
\<close>

definition FallbackDial :: "(string \<Rightarrow> peer option) \<Rightarrow> stream option \<Rightarrow> string \<Rightarrow> dial_err + stream \<times> bool" where
  "FallbackDial dial direct relaySpec =
     (case direct of
        Some conn \<Rightarrow> Inr (conn, False)
      | None \<Rightarrow>
          if relaySpec = [] then Inl NoRelayConfigured
          else case parseRelaySpec relaySpec of
                 None \<Rightarrow> Inl (InvalidRelaySpec relaySpec)
               | Some (relayAddr, targetAddr) \<Rightarrow>
                   (case CreateSession dial relayAddr targetAddr of
                      Inl e \<Rightarrow> Inl (RelayFallbackFailed e)
                    | Inr conn \<Rightarrow> Inr (conn, True)))"

section \<open>A session\<close>

text \<open>An address that is trimmed to itself, and fits the server's buffer with its line feed.\<close>

definition plain_addr :: "string \<Rightarrow> bool" where
  "plain_addr a \<longleftrightarrow> a \<noteq> [] \<and> printable (hd a) \<and> printable (last a) \<and> length a < 256"

lemma TrimSpace_line:
  assumes "s \<noteq> []" "printable (hd s)" "printable (last s)"
  shows "TrimSpace (s @ [CHR 0x0A]) = s"
proof -
  let ?c = "map of_char s :: nat list"
  have l: "skip_all space_codes (map of_char (s @ [CHR 0x0A])) = ?c @ [10]"
  proof (rule trans [OF skip_all_id])
    show "\<forall>p \<in> set space_codes. \<not> starts_with p (map of_char (s @ [CHR 0x0A]))"
    proof (intro ballI notI)
      fix p assume "p \<in> set space_codes" "starts_with p (map of_char (s @ [CHR 0x0A]))"
      with space_codes_ends(1) [of p] starts_with_hd [of p "map of_char (s @ [CHR 0x0A])"] assms(1,2) show False
        by (auto simp: printable_def hd_append hd_map)
    qed
  qed simp
  have "find (\<lambda>p. starts_with p (10 # rev ?c)) (map rev space_codes) = Some [10]"
    by (simp add: space_codes_def starts_with_def)
  from skip_all_step [OF this] have r: "skip_all (map rev space_codes) (10 # rev ?c) = skip_all (map rev space_codes) (rev ?c)"
    by simp
  have "skip_all (map rev space_codes) (rev ?c) = rev ?c"
    by (rule skip_all_rev) (use assms in simp_all)
  then show ?thesis unfolding TrimSpace_def Let_def l by (simp add: r comp_def)
qed

text \<open>
  What arrives in pieces, none of them empty: a read takes the front of everything sent, as far as
  the first piece and the buffer go.
\<close>

lemma conn_read_front:
  fixes n :: nat
  assumes "[] \<notin> set ps" "concat ps \<noteq> []"
  defines "k \<equiv> min n (length (hd ps))"
  shows "\<exists>rest. conn_read n ps = Some (take k (concat ps), rest) \<and> concat rest = drop k (concat ps)"
proof -
  from assms(2) obtain q qs where ps: "ps = q # qs" by (cases ps) auto
  then obtain rest where read: "conn_read n ps = Some (take n q, rest)" by (simp add: conn_read_def)
  have front: "take k (concat ps) = take n q" by (simp add: k_def ps min_def)
  have k: "length (take n q) = k" by (simp add: k_def ps min.commute)
  from conn_read_concat [OF read] have "drop (length (take n q)) (concat ps) = concat rest" by simp
  then have "concat rest = drop k (concat ps)" unfolding k by (rule sym)
  with read show ?thesis unfolding front by (intro exI [of _ rest] conjI)
qed

lemma ok_codes: "char_of (79 :: nat) = CHR ''O''" "char_of (75 :: nat) = CHR ''K''" "char_of (10 :: nat) = CHR 0x0A"
  by code_simp+

lemma TrimSpace_ok_byte:
  "TrimSpace (''OK'' @ [CHR 0x0A, c]) = (if (of_char c :: nat) \<in> {9, 10, 11, 12, 13, 32} then ''OK'' else ''OK'' @ [CHR 0x0A, c])"
proof -
  let ?n = "of_char c :: nat"
  have l: "skip_all space_codes [79, 75, 10, ?n] = [79, 75, 10, ?n]"
    by (rule skip_all_id) (simp add: space_codes_def starts_with_def)
  have ok: "skip_all (map rev space_codes) [75, 79] = [75, 79 :: nat]"
    by (rule skip_all_id) (simp add: space_codes_def starts_with_def)
  have "find (\<lambda>p. starts_with p [10, 75, 79]) (map rev space_codes) = Some [10]"
    by (simp add: space_codes_def starts_with_def)
  from skip_all_step [OF this] ok have nl: "skip_all (map rev space_codes) [10, 75, 79] = [75, 79 :: nat]" by simp
  have "find (\<lambda>p. starts_with p [?n, 10, 75, 79]) (map rev space_codes)
      = (if ?n \<in> {9, 10, 11, 12, 13, 32} then Some [?n] else None)"
    by (auto simp: space_codes_def starts_with_def)
  then have r: "skip_all (map rev space_codes) [?n, 10, 75, 79] = (if ?n \<in> {9, 10, 11, 12, 13, 32} then [75, 79] else [?n, 10, 75, 79])"
    using nl by (subst skip_all.simps) (simp split: if_splits)
  show ?thesis unfolding TrimSpace_def using l r by (simp add: Let_def ok_codes)
qed

lemma text_of_take [simp]: "text_of (take n b) = take n (text_of b)"
  by (simp add: text_of_def take_map)

lemma text_of_length [simp]: "length (text_of b) = length b"
  by (simp add: text_of_def)

lemma nonempty_hd:
  assumes "[] \<notin> set ps" "concat ps \<noteq> []"
  shows "0 < length (hd ps)" "length (hd ps) \<le> length (concat ps)"
  using assms by (cases ps; force)+

text \<open>The answers, as far as the client's first read got.\<close>

abbreviation ok_line :: bytes where
  "ok_line \<equiv> bytes_of_string (''OK'' @ [CHR 0x0A])"

abbreviation err_line :: bytes where
  "err_line \<equiv> bytes_of_string (''ERR'' @ [CHR 0x0A])"

definition blank_byte :: "byte \<Rightarrow> bool" where
  "blank_byte b \<longleftrightarrow> unat b \<in> {9, 10, 11, 12, 13, 32}"

lemma ok_bytes: "ok_line = [79, 75, 10]"
  by (simp add: bytes_of_string_def)

lemma err_bytes: "err_line = [69, 82, 82, 10]"
  by (simp add: bytes_of_string_def)

lemma TrimSpace_err_front: "TrimSpace (text_of (take k err_line)) \<noteq> ''OK''"
proof -
  have "take k [69, 82, 82, 10 :: byte] \<in> {[], [69], [69, 82], [69, 82, 82], [69, 82, 82, 10]}"
    by (simp add: take_Cons split: nat.split)
  moreover have "TrimSpace (text_of b) \<noteq> ''OK''" if "b \<in> {[], [69], [69, 82], [69, 82, 82], [69, 82, 82, 10]}" for b
    using that by (elim insertE emptyE; hypsubst; code_simp)
  ultimately show ?thesis unfolding err_bytes by blast
qed

lemma TrimSpace_ok_front:
  assumes "0 < k" "k \<le> 4" "k \<le> length (ok_line @ d)"
  shows "TrimSpace (text_of (take k (ok_line @ d))) = ''OK'' \<longleftrightarrow> k = 2 \<or> k = 3 \<or> k = 4 \<and> blank_byte (hd d)"
proof -
  from assms(1,2) consider "k = 1" | "k = 2" | "k = 3" | "k = 4" by linarith
  then show ?thesis
  proof cases
    case 4
    with assms(3) obtain b bs where d: "d = b # bs" unfolding ok_bytes by (cases d) auto
    have "text_of [79, 75, 10, b] = ''OK'' @ [CHR 0x0A, char_of (unat b)]" by (simp add: text_of_def ok_codes)
    moreover have "of_char (char_of (unat b) :: char) = unat b" by simp
    ultimately have "TrimSpace (text_of [79, 75, 10, b]) = ''OK'' \<longleftrightarrow> blank_byte b"
      using TrimSpace_ok_byte [of "char_of (unat b)"] by (simp add: blank_byte_def)
    moreover have "take k (ok_line @ d) = [79, 75, 10, b]" unfolding ok_bytes by (simp add: 4 d)
    ultimately show ?thesis by (simp add: 4 d)
  next
    case 1
    have "TrimSpace (text_of [79]) \<noteq> ''OK''" by code_simp
    moreover have "take k (ok_line @ d) = [79]" unfolding ok_bytes by (simp add: 1)
    ultimately show ?thesis by (simp add: 1)
  next
    case 2
    have "TrimSpace (text_of [79, 75]) = ''OK''" by code_simp
    moreover have "take k (ok_line @ d) = [79, 75]" unfolding ok_bytes by (simp add: 2)
    ultimately show ?thesis by (simp add: 2)
  next
    case 3
    have "TrimSpace (text_of [79, 75, 10]) = ''OK''" by code_simp
    moreover have "take k (ok_line @ d) = [79, 75, 10]" unfolding ok_bytes by (simp add: 3)
    ultimately show ?thesis by (simp add: 3)
  qed
qed

text \<open>A line of a plain address, cut anywhere: the line feed counts for nothing.\<close>

lemma TrimSpace_front:
  assumes "plain_addr a" "length a \<le> n"
  shows "TrimSpace (take n (a @ [CHR 0x0A])) = a"
  using assms TrimSpace_line [of a] TrimSpace_id [of a] by (cases "n = length a") (auto simp: plain_addr_def)

text \<open>The server, on a request that arrives in any pieces.\<close>

lemma handleConn_pieces:
  assumes "concat src = bytes_of_string (target @ [CHR 0x0A]) @ data" "[] \<notin> set src"
    "length (hd src) \<le> length target + 1" "length target < 256"
  defines "asked \<equiv> TrimSpace (take (length (hd src)) (target @ [CHR 0x0A]))"
  shows "case onward asked of None \<Rightarrow> handleConn onward src = Refused asked
    | Some dst \<Rightarrow> \<exists>rest. handleConn onward src = Piped asked rest dst
        \<and> concat rest = drop (length (hd src)) (bytes_of_string (target @ [CHR 0x0A]) @ data)"
proof -
  let ?n = "length (hd src)" and ?line = "bytes_of_string (target @ [CHR 0x0A])"
  have n: "min 256 ?n = ?n" using assms(3,4) by simp
  have "concat src \<noteq> []" unfolding assms(1) by (simp add: bytes_of_string_def)
  from conn_read_front [OF assms(2) this, of 256] obtain rest where
    read: "conn_read 256 src = Some (take ?n (?line @ data), rest)" "concat rest = drop ?n (?line @ data)"
    unfolding n assms(1) by blast
  have "length ?line = length target + 1" by simp
  with assms(3) have "take ?n (?line @ data) = take ?n ?line" by simp
  then have "TrimSpace (text_of (take ?n (?line @ data))) = asked"
    unfolding asked_def by (simp only: text_of_take text_of_bytes)
  with read show ?thesis by (auto simp: handleConn_def Let_def split: option.split)
qed

text \<open>
  C24: A session through a relay, for every way in which TCP cuts the request and the answer into
  pieces. The server's first read has the first \<open>n\<close> bytes of the line with the target's name (the
  client sends no data before it has an answer), and it dials what they spell, which is the target
  when all of the name is among them. If this cannot be dialled the client reports a refusal. If it
  can, what is sent to it is exactly what the client sent and the first read had not; and the client's
  first read, of \<open>k \<le> 4\<close> bytes, decides what it makes of the answer: with \<open>OK\<close> and its line feed
  (\<open>k = 3\<close>) it gets a session on which it reads exactly what the target sends; with \<open>OK\<close> alone,
  the line feed comes first; with a byte of the target as well, a blank is lost and any other byte
  makes the client report a refusal, as does half an \<open>OK\<close>.
\<close>
theorem relay_session:
  assumes "plain_addr target"
    and "concat src = bytes_of_string (target @ [CHR 0x0A]) @ data" "[] \<notin> set src" "length (hd src) \<le> length target + 1"
    and "dial relayAddr = Some p" "p (bytes_of_string (target @ [CHR 0x0A])) = Some answer"
    and "concat answer = to_client (handleConn onward src)" "[] \<notin> set answer"
  shows "let n = length (hd src); asked = TrimSpace (take n (target @ [CHR 0x0A])); k = min 4 (length (hd answer))
    in (length target \<le> n \<longrightarrow> asked = target)
     \<and> (case onward asked of
          None \<Rightarrow> CreateSession dial relayAddr target = Inl (Rejected target)
        | Some dst \<Rightarrow>
            to_target (handleConn onward src) = drop n (bytes_of_string (target @ [CHR 0x0A]) @ data)
          \<and> map_sum id concat (CreateSession dial relayAddr target) =
              (if k = 2 then Inr (10 # concat dst)
               else if k = 3 then Inr (concat dst)
               else if k = 4 \<and> blank_byte (hd (concat dst)) then Inr (tl (concat dst))
               else Inl (Rejected target)))"
proof -
  define n where "n = length (hd src)"
  define asked where "asked = TrimSpace (take n (target @ [CHR 0x0A]))"
  define k where "k = min 4 (length (hd answer))"
  have short: "length target < 256" using assms(1) by (simp add: plain_addr_def)
  note server = handleConn_pieces [OF assms(2-4) short, of onward, folded n_def, folded asked_def]
  have name: "length target \<le> n \<longrightarrow> asked = target" using TrimSpace_front [OF assms(1)] by (simp add: asked_def)
  have session: "\<exists>rest. concat rest = drop k (concat answer)
      \<and> CreateSession dial relayAddr target =
          (if TrimSpace (text_of (take k (concat answer))) \<noteq> ''OK'' then Inl (Rejected target) else Inr rest)"
    if "concat answer \<noteq> []"
    using conn_read_front [OF assms(8) that, of 4] assms(5,6) by (auto simp: CreateSession_def k_def)
  have "case onward asked of
          None \<Rightarrow> CreateSession dial relayAddr target = Inl (Rejected target)
        | Some dst \<Rightarrow>
            to_target (handleConn onward src) = drop n (bytes_of_string (target @ [CHR 0x0A]) @ data)
          \<and> map_sum id concat (CreateSession dial relayAddr target) =
              (if k = 2 then Inr (10 # concat dst)
               else if k = 3 then Inr (concat dst)
               else if k = 4 \<and> blank_byte (hd (concat dst)) then Inr (tl (concat dst))
               else Inl (Rejected target))"
  proof (cases "onward asked")
    case None
    with server assms(7) have "concat answer = err_line" by simp
    moreover have "err_line \<noteq> []" unfolding err_bytes by simp
    ultimately show ?thesis using session TrimSpace_err_front [of k] None by (auto simp del: text_of_take)
  next
    case (Some dst)
    with server obtain rest where piped: "handleConn onward src = Piped asked rest dst"
      "concat rest = drop n (bytes_of_string (target @ [CHR 0x0A]) @ data)" by auto
    with assms(7) have ans: "concat answer = ok_line @ concat dst" by (simp only: to_client.simps)
    then have ne: "concat answer \<noteq> []" unfolding ok_bytes by simp
    note len = nonempty_hd [OF assms(8) ne]
    have k: "0 < k" "k \<le> 4" "k \<le> length (ok_line @ concat dst)" using len by (auto simp: k_def ans)
    from session [OF ne] obtain conn where conn: "concat conn = drop k (ok_line @ concat dst)"
      "CreateSession dial relayAddr target =
        (if \<not> (k = 2 \<or> k = 3 \<or> k = 4 \<and> blank_byte (hd (concat dst))) then Inl (Rejected target) else Inr conn)"
      unfolding ans TrimSpace_ok_front [OF k] by blast
    from conn(1) have "k = 2 \<Longrightarrow> concat conn = 10 # concat dst" "k = 3 \<Longrightarrow> concat conn = concat dst"
      "k = 4 \<Longrightarrow> concat conn = tl (concat dst)"
      unfolding ok_bytes by (simp_all add: drop_Suc)
    with conn(2) Some piped show ?thesis by simp
  qed
  with name show ?thesis unfolding Let_def n_def [symmetric] asked_def [symmetric] k_def [symmetric] by blast
qed

text \<open>
  Three runs. The request and the answer each arrive in one piece: the client reads what the
  target sends. The target's first byte arrives with the answer: refused. The request is cut
  before its last digit: another target is dialled, and gets the digit and the line feed.
\<close>

definition demo_onward :: "string \<Rightarrow> stream option" where
  "demo_onward a = (if a = ''t:21'' then Some [[1, 2], [3]] else if a = ''t:2'' then Some [[4]] else None)"

definition demo_dial :: "stream \<Rightarrow> string \<Rightarrow> peer option" where
  "demo_dial answer a = (if a = ''r:1'' then Some (\<lambda>_. Some answer) else None)"

theorem relay_session_witness:
  "map_sum id concat (CreateSession (demo_dial [ok_line, [1, 2], [3]]) ''r:1'' ''t:21'') = Inr [1, 2, 3]
   \<and> CreateSession (demo_dial [ok_line @ [1, 2], [3]]) ''r:1'' ''t:21'' = Inl (Rejected ''t:21'')
   \<and> map_sum id concat (CreateSession (demo_dial [ok_line, [4]]) ''r:1'' ''t:21'') = Inr [4]
   \<and> to_target (handleConn demo_onward [bytes_of_string ''t:2'', bytes_of_string (''1'' @ [CHR 0x0A]), [9]])
       = bytes_of_string (''1'' @ [CHR 0x0A]) @ [9]"
proof -
  let ?line = "bytes_of_string (''t:21'' @ [CHR 0x0A])"
  let ?whole = "[?line, [9]]" and ?parts = "[bytes_of_string ''t:2'', bytes_of_string (''1'' @ [CHR 0x0A]), [9 :: byte]]"
  have plain: "plain_addr ''t:21''" "plain_addr ''t:2''" by (simp_all add: plain_addr_def printable_def)
  have asked: "TrimSpace (take 5 (''t:21'' @ [CHR 0x0A])) = ''t:21''" "TrimSpace (take 3 (''t:21'' @ [CHR 0x0A])) = ''t:2''"
    using TrimSpace_front [OF plain(1), of 5] TrimSpace_front [OF plain(2), of 2] TrimSpace_id [of "''t:2''"]
    by (simp_all add: printable_def)
  have src: "concat ?whole = ?line @ [9]" "[] \<notin> set ?whole" "length (hd ?whole) = 5"
    "concat ?parts = ?line @ [9]" "[] \<notin> set ?parts" "length (hd ?parts) = 3"
    by (simp_all add: bytes_of_string_def)
  have whole: "to_client (handleConn demo_onward ?whole) = ok_line @ [1, 2, 3]"
    using handleConn_pieces [OF src(1,2), of demo_onward, unfolded src(3) asked(1)] by (auto simp: demo_onward_def)
  have parts: "to_client (handleConn demo_onward ?parts) = ok_line @ [4]"
    using handleConn_pieces [OF src(4,5), of demo_onward, unfolded src(6) asked(2)] by (auto simp: demo_onward_def)
  have dialled: "demo_dial answer ''r:1'' = Some (\<lambda>_. Some answer)" for answer by (simp add: demo_dial_def)
  have first: "map_sum id concat (CreateSession (demo_dial ans) ''r:1'' ''t:21'') =
      (if length (hd ans) = 3 then Inr [1, 2, 3] else Inl (Rejected ''t:21''))"
    if "concat ans = ok_line @ [1, 2, 3]" "[] \<notin> set ans" "3 \<le> length (hd ans)" for ans
    using relay_session [where target = "''t:21''" and src = ?whole and data = "[9]" and dial = "demo_dial ans" and relayAddr = "''r:1''"
        and p = "\<lambda>_. Some ans" and answer = ans and onward = demo_onward, OF plain(1) src(1,2), unfolded src(3) asked Let_def whole]
      that by (simp add: demo_onward_def blank_byte_def dialled)
  have second: "to_target (handleConn demo_onward ?parts) = bytes_of_string (''1'' @ [CHR 0x0A]) @ [9]
      \<and> map_sum id concat (CreateSession (demo_dial [ok_line, [4]]) ''r:1'' ''t:21'') = Inr [4]"
    using relay_session [where target = "''t:21''" and src = ?parts and data = "[9]" and dial = "demo_dial [ok_line, [4]]" and relayAddr = "''r:1''"
        and p = "\<lambda>_. Some [ok_line, [4]]" and answer = "[ok_line, [4]]" and onward = demo_onward, OF plain(1) src(4,5), unfolded src(6) asked Let_def parts]
    by (simp add: demo_onward_def ok_bytes dialled) (simp add: bytes_of_string_def)
  have refused: "x = Inl e" if "map_sum id concat x = Inl e" for x :: "relay_err + stream" and e
    using that by (cases x) simp_all
  have "ok_line \<noteq> []" unfolding ok_bytes by simp
  then show ?thesis
    using first [of "[ok_line, [1, 2], [3]]"] refused [OF first [of "[ok_line @ [1, 2], [3]]", simplified]] second
    by simp
qed

section \<open>Specifications and the dialer\<close>

lemma split_on_single: "c \<notin> set s \<Longrightarrow> split_on c s = [s]"
  by (induction s) auto

lemma cut_first: "c \<notin> set a \<Longrightarrow> cut c (a @ c # b) = (a, b)"
  by (simp add: cut_def takeWhile_append2 takeWhile_append dropWhile_append)

lemma QueryUnescape_plain: "CHR ''%'' \<notin> set s \<Longrightarrow> CHR ''+'' \<notin> set s \<Longrightarrow> QueryUnescape s = Some s"
  by (induction s) auto

lemma parseRelaySpec_cut:
  assumes "CHR ''?'' \<notin> set relay" "set target \<inter> {CHR ''&'', CHR '';'', CHR ''%'', CHR ''+''} = {}"
  shows "parseRelaySpec (relay @ ''?target='' @ target) = Some (relay, target)"
proof -
  have "split_on (CHR ''&'') (''target='' @ target) = [''target='' @ target]"
    by (rule split_on_single) (use assms(2) in auto)
  moreover have "cut (CHR ''='') (''target'' @ CHR ''='' # target) = (''target'', target)"
    by (rule cut_first) simp
  then have "parse_param (''target='' @ target) = Some (Some (''target'', target))"
    using assms(2) QueryUnescape_plain [of target] by auto
  ultimately have "ParseQuery (''target='' @ target) = Some [(''target'', target)]"
    by (simp add: ParseQuery_def maxParams_def del: append.simps parse_param.simps)
  moreover have "cut (CHR ''?'') (relay @ CHR ''?'' # ''target='' @ target) = (relay, ''target='' @ target)"
    by (rule cut_first [OF assms(1)])
  ultimately show ?thesis by (simp add: parseRelaySpec_def query_get_def)
qed

text \<open>
  A relay specification made of a relay's address and a target reads back as these two, when the
  relay's address has no question mark and the target none of the characters a query treats
  specially.
\<close>
theorem parseRelaySpec_roundtrip:
  assumes "CHR ''?'' \<notin> set relay" "set target \<inter> {CHR ''&'', CHR '';'', CHR ''%'', CHR ''+''} = {}"
  shows "parseRelaySpec (relay @ ''?target='' @ target) = Some (relay, target)"
  by (rule parseRelaySpec_cut [OF assms])

theorem parseRelaySpec_roundtrip_witness:
  "parseRelaySpec (''r:1'' @ ''?target='' @ ''t:2'') = Some (''r:1'', ''t:2'')"
  by (rule parseRelaySpec_roundtrip) simp_all

text \<open>What the dialer does: the relay is asked only when the direct attempt failed and one is named.\<close>

lemma FallbackDial_direct: "FallbackDial dial (Some conn) spec = Inr (conn, False)"
  by (simp add: FallbackDial_def)

lemma FallbackDial_relay:
  assumes "CHR ''?'' \<notin> set relay" "set target \<inter> {CHR ''&'', CHR '';'', CHR ''%'', CHR ''+''} = {}"
  shows "FallbackDial dial None (relay @ ''?target='' @ target) =
    (case CreateSession dial relay target of Inl e \<Rightarrow> Inl (RelayFallbackFailed e) | Inr conn \<Rightarrow> Inr (conn, True))"
  using parseRelaySpec_cut [OF assms] by (simp add: FallbackDial_def)

end
