(* ===== verification/Discovery.thy ===== *)
theory Discovery
  imports Prelude Gostd
begin

text \<open>
  The discovery of the public address by STUN (\<open>src/internal/nat/nat.go\<close>). The STUN package is not
  under \<open>src/\<close>: building a request, decoding a message and reading its two address attributes are
  parameters. A socket says whether writing fails and what arrives first before a deadline.
\<close>

section \<open>Addresses\<close>

record MappedAddress =
  ma_IP :: bytes
  ma_Port :: int

text \<open>
  \<open>net.IP.String\<close>: dotted decimals for IPv4, also when mapped into IPv6; for IPv6 the groups in
  hexadecimal, the first of the longest runs of at least two zero groups left out.
\<close>

definition To4 :: "bytes \<Rightarrow> bytes option" where
  "To4 ip =
     (if length ip = 4 then Some ip
      else if length ip = 16 \<and> take 10 ip = replicate 10 0 \<and> take 2 (drop 10 ip) = [255, 255]
      then Some (drop 12 ip) else None)"

fun join :: "string \<Rightarrow> string list \<Rightarrow> string" where
  "join sep [] = []"
| "join sep [s] = s"
| "join sep (s # ss) = s @ sep @ join sep ss"

definition show_hex :: "nat \<Rightarrow> string" where
  "show_hex n =
     (let ds = map hex_digit [n div 4096 mod 16, n div 256 mod 16, n div 16 mod 16, n mod 16];
          s = dropWhile (\<lambda>c. c = CHR ''0'') ds
      in if s = [] then ''0'' else s)"

fun groups_of :: "bytes \<Rightarrow> nat list" where
  "groups_of (a # b # bs) = (256 * unat a + unat b) # groups_of bs"
| "groups_of _ = []"

definition zero_run :: "nat list \<Rightarrow> nat \<Rightarrow> nat" where
  "zero_run gs i = length (takeWhile (\<lambda>g. g = 0) (drop i gs))"

text \<open>The loop keeps the start and the length of the best run so far.\<close>

definition longest_run :: "nat list \<Rightarrow> nat \<times> nat" where
  "longest_run gs =
     fold (\<lambda>i (s, l). let r = zero_run gs i in if 2 \<le> r \<and> l < r then (i, r) else (s, l)) [0..<8] (0, 0)"

definition ip6_string :: "bytes \<Rightarrow> string" where
  "ip6_string ip =
     (let gs = groups_of ip; hs = map show_hex gs in
      case longest_run gs of (s, l) \<Rightarrow>
        if l = 0 then join '':'' hs else join '':'' (take s hs) @ ''::'' @ join '':'' (drop (s + l) hs))"

definition ip_string :: "bytes \<Rightarrow> string" where
  "ip_string ip =
     (if ip = [] then ''<nil>''
      else if length ip \<noteq> 4 \<and> length ip \<noteq> 16 then ''?'' @ hex_encode ip
      else case To4 ip of
             Some p4 \<Rightarrow> join ''.'' (map (\<lambda>b. show_int (int (unat b))) p4)
           | None \<Rightarrow> ip6_string ip)"

definition JoinHostPort :: "string \<Rightarrow> string \<Rightarrow> string" where
  "JoinHostPort host port =
     (if CHR '':'' \<in> set host \<or> CHR ''%'' \<in> set host then ''['' @ host @ '']:'' @ port else host @ '':'' @ port)"

definition MappedAddress_String :: "MappedAddress \<Rightarrow> string" where
  "MappedAddress_String m = JoinHostPort (ip_string (ma_IP m)) (show_int (ma_Port m))"

section \<open>The client\<close>

definition DefaultSTUNServer :: string where
  "DefaultSTUNServer = ''stun.l.google.com:19302''"

definition DefaultTimeout :: int where
  "DefaultTimeout = 3 * 1000000000"

datatype nat_err =
    ErrSTUNTimeout
  | ErrInvalidSTUNResponse
  | ResolvingServer string
  | BuildingRequest string
  | SendingRequest string
  | ReadingResponse string
  | DecodingResponse string
  | Listening string

record Client =
  stunServer :: string
  timeout :: int

definition NewClientWithTimeout :: "string \<Rightarrow> int \<Rightarrow> Client" where
  "NewClientWithTimeout server t = \<lparr>stunServer = (if server = [] then DefaultSTUNServer else server), timeout = t\<rparr>"

definition NewClient :: "string \<Rightarrow> Client" where
  "NewClient server = \<lparr>stunServer = (if server = [] then DefaultSTUNServer else server), timeout = DefaultTimeout\<rparr>"

datatype receipt = Datagram string bytes | TimedOut | ReadFailed string

text \<open>Only a socket of the type \<open>UDPConn\<close> is given a deadline; the argument of \<open>pc_receive\<close> is the timeout.\<close>

record packet_conn =
  pc_udp :: bool
  pc_writeTo :: "bytes \<Rightarrow> string \<Rightarrow> string option"
  pc_receive :: "int option \<Rightarrow> receipt"

record 'm stun =
  st_request :: "string + bytes"
  st_decode :: "bytes \<Rightarrow> string + 'm"
  st_xor_mapped :: "'m \<Rightarrow> MappedAddress option"
  st_mapped :: "'m \<Rightarrow> MappedAddress option"

definition read_answer :: "'m stun \<Rightarrow> receipt \<Rightarrow> nat_err + MappedAddress" where
  "read_answer S r =
     (case r of
        TimedOut \<Rightarrow> Inl ErrSTUNTimeout
      | ReadFailed e \<Rightarrow> Inl (ReadingResponse e)
      | Datagram sender d \<Rightarrow>
          (case st_decode S (take 1024 d) of
             Inl e \<Rightarrow> Inl (DecodingResponse e)
           | Inr response \<Rightarrow>
               (case st_xor_mapped S response of
                  Some a \<Rightarrow> Inr a
                | None \<Rightarrow> (case st_mapped S response of Some a \<Rightarrow> Inr a | None \<Rightarrow> Inl ErrInvalidSTUNResponse))))"

definition DiscoverMappedAddress ::
  "'m stun \<Rightarrow> (string \<Rightarrow> string + string) \<Rightarrow> Client \<Rightarrow> packet_conn \<Rightarrow> nat_err + MappedAddress" where
  "DiscoverMappedAddress S resolve c conn =
     (case resolve (stunServer c) of
        Inl e \<Rightarrow> Inl (ResolvingServer e)
      | Inr raddr \<Rightarrow>
          (case st_request S of
             Inl e \<Rightarrow> Inl (BuildingRequest e)
           | Inr raw \<Rightarrow>
               (case pc_writeTo conn raw raddr of
                  Some e \<Rightarrow> Inl (SendingRequest e)
                | None \<Rightarrow> read_answer S (pc_receive conn (if pc_udp conn then Some (timeout c) else None)))))"

definition GetPublicAddress ::
  "'m stun \<Rightarrow> (string \<Rightarrow> string + string) \<Rightarrow> Client \<Rightarrow> string + packet_conn \<Rightarrow> nat_err + MappedAddress" where
  "GetPublicAddress S resolve c listen =
     (case listen of Inl e \<Rightarrow> Inl (Listening e) | Inr conn \<Rightarrow> DiscoverMappedAddress S resolve c conn)"

section \<open>What the answer depends on\<close>

text \<open>
  The address comes from the first datagram that arrives on the socket, whoever sent it: neither
  its sender nor the request, with its transaction identifier, is looked at, so an answer to
  another request, or of another host, is taken as well.
\<close>
theorem any_datagram_is_taken:
  assumes "resolve (stunServer c) = Inr raddr" "st_request S = Inr raw" "pc_writeTo conn raw raddr = None"
    and "pc_receive conn (if pc_udp conn then Some (timeout c) else None) = Datagram sender d"
    and "st_decode S (take 1024 d) = Inr response"
    and "st_xor_mapped S response = Some a \<or> st_xor_mapped S response = None \<and> st_mapped S response = Some a"
  shows "DiscoverMappedAddress S resolve c conn = Inr a \<and>
    DiscoverMappedAddress (S\<lparr>st_request := Inr raw'\<rparr>) resolve c
      (conn\<lparr>pc_writeTo := \<lambda>_ _. None, pc_receive := \<lambda>_. Datagram sender' d\<rparr>) = Inr a"
  using assms by (auto simp: DiscoverMappedAddress_def read_answer_def)

text \<open>A message of a demonstration package carries a transaction identifier and an address.\<close>

definition demo_stun :: "(byte \<times> MappedAddress) stun" where
  "demo_stun = \<lparr>st_request = Inr [1], st_decode = \<lambda>d. case d of t # ip \<Rightarrow> Inr (t, \<lparr>ma_IP = ip, ma_Port = 9\<rparr>) | _ \<Rightarrow> Inl ''short'',
     st_xor_mapped = \<lambda>(t, a). Some a, st_mapped = \<lambda>_. None\<rparr>"

definition demo_conn :: packet_conn where
  "demo_conn = \<lparr>pc_udp = True, pc_writeTo = \<lambda>_ _. None, pc_receive = \<lambda>_. Datagram ''server'' [1, 10, 0, 0, 7]\<rparr>"

theorem any_datagram_is_taken_witness:
  "DiscoverMappedAddress demo_stun Inr (NewClient '''') demo_conn = Inr \<lparr>ma_IP = [10, 0, 0, 7], ma_Port = 9\<rparr> \<and>
   DiscoverMappedAddress (demo_stun\<lparr>st_request := Inr [2]\<rparr>) Inr (NewClient '''')
      (demo_conn\<lparr>pc_writeTo := \<lambda>_ _. None, pc_receive := \<lambda>_. Datagram ''other'' [1, 10, 0, 0, 7]\<rparr>) =
     Inr \<lparr>ma_IP = [10, 0, 0, 7], ma_Port = 9\<rparr>"
  by (rule any_datagram_is_taken [where response = "(1, \<lparr>ma_IP = [10, 0, 0, 7], ma_Port = 9\<rparr>)"])
    (auto simp: demo_stun_def demo_conn_def)

section \<open>Addresses as text\<close>

lemma show_int_nat_not: "(of_char c :: nat) < 45 \<or> 57 < (of_char c :: nat) \<or> (of_char c :: nat) = 46 \<Longrightarrow> c \<notin> set (show_int (int n))"
  using show_nat_not [of c n] by (auto simp: show_int_def)

lemma To4_4: "length p = 4 \<Longrightarrow> To4 p = Some p"
  by (simp add: To4_def)

lemma ip4_text:
  "ip_string [a, b, c, d] = show_int (int (unat a)) @ CHR ''.'' # show_int (int (unat b)) @ CHR ''.'' #
     show_int (int (unat c)) @ CHR ''.'' # show_int (int (unat d))"
  by (simp add: ip_string_def To4_def)

lemma four_bytes: "length p = 4 \<Longrightarrow> \<exists>a b c d. p = [a, b, c, d]"
  by (auto simp: length_Suc_conv numeral_eq_Suc)

text \<open>The text of an IPv4 address with its port determines both.\<close>

lemma ip4_text_inject:
  assumes "length p = 4" "length q = 4"
  shows "ip_string p = ip_string q \<longleftrightarrow> p = q"
proof -
  have dot: "CHR ''.'' \<notin> set (show_int (int n))" for n by (rule show_int_nat_not) simp
  from four_bytes [OF assms(1)] four_bytes [OF assms(2)] obtain a b c d a' b' c' d'
    where pq: "p = [a, b, c, d]" "q = [a', b', c', d']" by blast
  show ?thesis unfolding pq ip4_text by (simp only: cut_at_separator [OF dot dot]) (simp add: word_uint_eq_iff)
qed

lemma MappedAddress_String_inject:
  assumes "length (ma_IP m) = 4" "length (ma_IP m') = 4"
  shows "MappedAddress_String m = MappedAddress_String m' \<longleftrightarrow> m = m'"
proof -
  have no: "c \<notin> set (ip_string p)" if "length p = 4" "(of_char c :: nat) < 45 \<or> 57 < (of_char c :: nat)" for c p
  proof -
    from four_bytes [OF that(1)] obtain a b d e where "p = [a, b, d, e]" by blast
    moreover have "c \<notin> set (show_int (int n))" for n using that(2) by (intro show_int_nat_not) blast
    moreover have "c \<noteq> CHR ''.''" using that(2) by auto
    ultimately show ?thesis by (simp only: ip4_text set_append list.set Un_iff insert_iff) blast
  qed
  have "MappedAddress_String n = ip_string (ma_IP n) @ CHR '':'' # show_int (ma_Port n)" if "length (ma_IP n) = 4" for n :: MappedAddress
    using no [OF that, of "CHR '':''"] no [OF that, of "CHR ''%''"] by (simp add: MappedAddress_String_def JoinHostPort_def)
  moreover have "CHR '':'' \<notin> set (ip_string (ma_IP m))" "CHR '':'' \<notin> set (ip_string (ma_IP m'))"
    using no assms by simp_all
  moreover have "m = m' \<longleftrightarrow> ma_IP m = ma_IP m' \<and> ma_Port m = ma_Port m'" by (cases m; cases m') simp
  ultimately show ?thesis using assms ip4_text_inject [OF assms] by (simp add: cut_at_separator)
qed

end
