(* ===== verification/Gui.thy ===== *)
theory Gui
  imports Invite PutGet Runtime Metrics
begin

text \<open>
  The desktop application's back end (\<open>src/gui/app.go\<close>): the methods the window calls, each under one
  lock, so each is a step. The context that \<open>startup\<close> stores is only handed to an engine that
  ignores it, and is left out here; theory \<open>Window\<close> has it, with the window and the menu
  (\<open>src/gui/main.go\<close>). The directory of shards is a map from file names to contents.
\<close>

section \<open>State\<close>

record FileDTO =
  fd_FileID :: string
  fd_FileName :: string
  fd_Size :: int
  fd_CreatedAt :: int

record App =
  app_dataDir :: string
  app_configured :: bool
  app_paused :: bool
  app_nodeID :: string
  app_trackerAddr :: string
  app_networkKey :: bytes
  app_signingKey :: bytes
  app_storageAlloc :: int
  app_files :: "FileDTO list"
  app_runtimeEngine :: Engine
  app_metrics :: Collector

type_synonym shards_dir = "(string, bytes) gomap"

text \<open>The errors of \<open>rand.Read\<close> are not looked at here; a key that could not be drawn is zero bytes.\<close>

definition drawn_key :: "rand_fun \<Rightarrow> bytes" where
  "drawn_key rnd = (case rnd 32 of None \<Rightarrow> replicate 32 0 | Some b \<Rightarrow> b)"

definition NewApp :: "string \<Rightarrow> rand_fun \<Rightarrow> rand_fun \<Rightarrow> App" where
  "NewApp dataDir rndSigning rndNet =
     \<lparr>app_dataDir = dataDir, app_configured = False, app_paused = False, app_nodeID = '''', app_trackerAddr = '''',
      app_networkKey = drawn_key rndNet, app_signingKey = drawn_key rndSigning,
      app_storageAlloc = 5 * 1024 * 1024 * 1024, app_files = [], app_runtimeEngine = NewEngine, app_metrics = NewCollector\<rparr>"

section \<open>Networks\<close>

datatype gui_err =
    GeneratingNetworkKey
  | CreatingToken invite_err
  | InvalidToken invite_err
  | AllocationNotPositive
  | Chunking chunk_err
  | ErasureEncoder erasure_err
  | MakingSalt crypto_err
  | DerivingKey crypto_err
  | ErasureEncode erasure_err
  | EncryptingShard crypto_err
  | WritingShard string

definition CreateNetwork ::
  "json_codec \<Rightarrow> rand_fun \<Rightarrow> bytes option \<Rightarrow> int \<Rightarrow> string \<Rightarrow> App \<Rightarrow> App \<times> (gui_err + string)" where
  "CreateNetwork jc rndNet rndToken now trackerAddr a =
     (case rndNet 32 of
        None \<Rightarrow> (a, Inl GeneratingNetworkKey)
      | Some netKey \<Rightarrow>
          (let a' = a\<lparr>app_networkKey := netKey, app_trackerAddr := trackerAddr, app_nodeID := ''node-gui-owner'',
                 app_configured := True\<rparr>
           in (a', case CreateToken jc rndToken now (NewTokenManager (app_signingKey a)) trackerAddr netKey
                     (24 * 3600 * 1000000000) 10 of
                     Inl e \<Rightarrow> Inl (CreatingToken e) | Inr tokStr \<Rightarrow> Inr tokStr)))"

definition JoinNetwork :: "json_codec \<Rightarrow> int \<Rightarrow> string \<Rightarrow> App \<Rightarrow> App \<times> gui_err option" where
  "JoinNetwork jc now inviteTokenStr a =
     (case fst (ValidateAndUse jc now inviteTokenStr (NewTokenManager (app_signingKey a))) of
        Inl e \<Rightarrow> (a, Some (InvalidToken e))
      | Inr tok \<Rightarrow>
          (a\<lparr>app_trackerAddr := it_TrackerAddr tok, app_networkKey := it_NetworkKey tok,
             app_nodeID := ''node-gui-member'', app_configured := True\<rparr>, None))"

section \<open>The node's state\<close>

definition IsPaused :: "App \<Rightarrow> bool" where
  "IsPaused a = app_paused a"

definition PauseNode :: "bool \<Rightarrow> App \<Rightarrow> App" where
  "PauseNode paused a = a\<lparr>app_paused := paused\<rparr>"

record NodeStatusDTO =
  ns_Configured :: bool
  ns_NodeID :: string
  ns_TrackerAddr :: string
  ns_StorageAllocated :: int
  ns_StorageUsed :: int
  ns_PeerCount :: int
  ns_IsHealthy :: bool
  ns_StateLabel :: string

text \<open>A file that vanished between the listing and the look at it is not counted.\<close>

fun physical_used :: "(string \<Rightarrow> bool) \<Rightarrow> shards_dir \<Rightarrow> int \<Rightarrow> int" where
  "physical_used vanished [] used = used"
| "physical_used vanished ((name, b) # entries) used =
     physical_used vanished entries (if vanished name then used else wrap64 (used + int (length b)))"

definition GetNodeStatus :: "(string \<Rightarrow> bool) \<Rightarrow> shards_dir \<Rightarrow> App \<Rightarrow> NodeStatusDTO" where
  "GetNodeStatus vanished disk a =
     \<lparr>ns_Configured = app_configured a, ns_NodeID = app_nodeID a, ns_TrackerAddr = app_trackerAddr a,
      ns_StorageAllocated = app_storageAlloc a, ns_StorageUsed = physical_used vanished disk 0, ns_PeerCount = 0,
      ns_IsHealthy = (\<not> app_paused a), ns_StateLabel = (if app_paused a then ''PAUSED'' else ''ONLINE'')\<rparr>"

definition SetStorageAllocation :: "int \<Rightarrow> App \<Rightarrow> App \<times> gui_err option" where
  "SetStorageAllocation bytesAllocated a =
     (if bytesAllocated \<le> 0 then (a, Some AllocationNotPositive)
      else (a\<lparr>app_storageAlloc := bytesAllocated\<rparr>, None))"

definition ListFiles :: "App \<Rightarrow> FileDTO list" where
  "ListFiles a = app_files a"

section \<open>Uploads\<close>

definition file_id :: "int \<Rightarrow> string" where
  "file_id unixNano = ''file-'' @ show_int unixNano"

definition shard_file :: "string \<Rightarrow> nat \<Rightarrow> nat \<Rightarrow> string" where
  "shard_file fileID c i = fileID @ ''_c'' @ show_int (int c) @ ''_s'' @ show_int (int i) @ ''.shard''"

text \<open>\<open>werr\<close> says which writes fail, and what such a write leaves in the file, if anything.\<close>

type_synonym write_errs = "string \<Rightarrow> (string \<times> bytes option) option"

fun write_shards ::
  "write_errs \<Rightarrow> newx_fun \<Rightarrow> (nat \<Rightarrow> rand_fun) \<Rightarrow> bytes \<Rightarrow> string \<Rightarrow> nat \<Rightarrow> nat \<Rightarrow> Shard list \<Rightarrow> shards_dir
     \<Rightarrow> gui_err option \<times> shards_dir" where
  "write_shards werr newx rnd key fileID c i [] disk = (None, disk)"
| "write_shards werr newx rnd key fileID c i (s # ss) disk =
     (case Encrypt newx (rnd i) (sh_Data s) key of
        Inl e \<Rightarrow> (Some (EncryptingShard e), disk)
      | Inr ct \<Rightarrow>
          (let name = shard_file fileID c i in
           case werr name of
             Some (e, left) \<Rightarrow>
               (Some (WritingShard e), case left of None \<Rightarrow> disk | Some b \<Rightarrow> map_put name b disk)
           | None \<Rightarrow> write_shards werr newx rnd key fileID c (Suc i) ss (map_put name ct disk)))"

fun write_chunks ::
  "write_errs \<Rightarrow> newx_fun \<Rightarrow> (nat \<Rightarrow> nat \<Rightarrow> rand_fun) \<Rightarrow> bytes \<Rightarrow> Encoder \<Rightarrow> string \<Rightarrow> nat \<Rightarrow> Chunk list \<Rightarrow> shards_dir
     \<Rightarrow> gui_err option \<times> shards_dir" where
  "write_chunks werr newx rnd key enc fileID c [] disk = (None, disk)"
| "write_chunks werr newx rnd key enc fileID c (ch # chs) disk =
     (case Encode enc (ch_Data ch) of
        Inl e \<Rightarrow> (Some (ErasureEncode e), disk)
      | Inr shards \<Rightarrow>
          (case write_shards werr newx (rnd c) key fileID c 0 shards disk of
             (Some e, disk') \<Rightarrow> (Some e, disk')
           | (None, disk') \<Rightarrow> write_chunks werr newx rnd key enc fileID (Suc c) chs disk'))"

definition upload_size :: "int \<Rightarrow> int" where
  "upload_size sz = (if sz \<le> 0 then 1024 * 1024 else sz)"

definition fileContent :: "int \<Rightarrow> bytes" where
  "fileContent sz = replicate (nat (upload_size sz)) 65"

definition guiChunkSize :: int where
  "guiChunkSize = 4 * 1024 * 1024"

text \<open>
  The content is read by \<open>bytes.NewReader\<close>; \<open>t\<close> and \<open>t'\<close> are the two readings of the clock. \<open>mem\<close> says
  which sizes \<open>bytes.Repeat\<close> can get memory for; for any other the call panics, which is \<^const>\<open>None\<close>, as
  a call that does not return would be.
\<close>

definition UploadFile ::
  "primitives \<Rightarrow> (int \<Rightarrow> bool) \<Rightarrow> rand_fun \<Rightarrow> (nat \<Rightarrow> nat \<Rightarrow> rand_fun) \<Rightarrow> write_errs \<Rightarrow> int \<Rightarrow> int \<Rightarrow> string \<Rightarrow> int
     \<Rightarrow> shards_dir \<Rightarrow> App \<Rightarrow> (gui_err option \<times> shards_dir \<times> App) option" where
  "UploadFile pm mem rndSalt rndNonce werr t t' fileName sz disk a =
     (if \<not> mem (upload_size sz) then None
      else case Split \<lparr>rd_pieces = [fileContent sz], rd_end = EOF\<rparr> guiChunkSize of
        None \<Rightarrow> None
      | Some (Inl e) \<Rightarrow> Some (Some (Chunking e), disk, a)
      | Some (Inr chunks) \<Rightarrow>
          (case NewEncoder (pm_rsNew pm) 4 4 of
             Inl e \<Rightarrow> Some (Some (ErasureEncoder e), disk, a)
           | Inr enc \<Rightarrow>
               (case NewSalt rndSalt of
                  Inl e \<Rightarrow> Some (Some (MakingSalt e), disk, a)
                | Inr salt \<Rightarrow>
                    (case DeriveKey (pm_idkey pm) (app_networkKey a) salt of
                       Inl e \<Rightarrow> Some (Some (DerivingKey e), disk, a)
                     | Inr derivedKey \<Rightarrow>
                         (case write_chunks werr (pm_newx pm) rndNonce derivedKey enc (file_id t) 0 chunks disk of
                            (Some e, disk') \<Rightarrow> Some (Some e, disk', a)
                          | (None, disk') \<Rightarrow>
                              Some (None, disk',
                               a\<lparr>app_files := app_files a @
                                   [\<lparr>fd_FileID = file_id t, fd_FileName = fileName, fd_Size = upload_size sz,
                                     fd_CreatedAt = unix t'\<rparr>]\<rparr>))))))"

section \<open>Workloads and metrics\<close>

record ComputeWorkloadDTO =
  cw_WorkloadID :: string
  cw_Name :: string
  cw_Image :: string
  cw_State :: string
  cw_IPAddress :: string

definition workload_dto :: "ContainerStatus \<Rightarrow> ComputeWorkloadDTO" where
  "workload_dto c = \<lparr>cw_WorkloadID = cs_WorkloadID c, cw_Name = cs_Name c, cw_Image = cs_Image c,
     cw_State = cs_State c, cw_IPAddress = cs_IPAddress c\<rparr>"

definition GetComputeWorkloads ::
  "((string, ContainerStatus) gomap \<Rightarrow> (string, ContainerStatus) gomap) \<Rightarrow> App \<Rightarrow> ComputeWorkloadDTO list" where
  "GetComputeWorkloads order a =
     (case ListWorkloads order (app_runtimeEngine a) of
        Inl e \<Rightarrow> []
      | Inr containers \<Rightarrow> if containers = [] then [] else map workload_dto containers)"

record PeerMetricDTO =
  pd_NodeID :: string
  pd_OS :: string
  pd_LatencyMs :: int
  pd_IsHealthy :: bool

record NetworkMetricsDTO =
  nd_UploadSpeedKBps :: f64
  nd_DownloadSpeedKBps :: f64
  nd_Peers :: "PeerMetricDTO list"

definition GetNetworkMetrics ::
  "((string, PeerMetric) gomap \<Rightarrow> (string, PeerMetric) gomap) \<Rightarrow> App \<Rightarrow> NetworkMetricsDTO" where
  "GetNetworkMetrics order a =
     (let snapshot = GetSnapshot (app_metrics a) in
      \<lparr>nd_UploadSpeedKBps = f_div (f64_of_int (BytesSentTotal snapshot)) (Finite False 1024),
       nd_DownloadSpeedKBps = f_div (f64_of_int (BytesReceivedTotal snapshot)) (Finite False 1024),
       nd_Peers = map (\<lambda>(nodeID, p). \<lparr>pd_NodeID = nodeID, pd_OS = ''linux'', pd_LatencyMs = LatencyMs p,
         pd_IsHealthy = Metrics.PeerMetric.IsHealthy p\<rparr>) (order (Peers snapshot))\<rparr>)"

section \<open>Invite tokens of the application\<close>

text \<open>The token \<open>CreateNetwork\<close> makes; every call of \<open>JoinNetwork\<close> counts its uses from zero.\<close>

definition gui_token :: "bytes \<Rightarrow> bytes \<Rightarrow> int \<Rightarrow> string \<Rightarrow> bytes \<Rightarrow> InviteToken" where
  "gui_token signing tid now addr netKey =
     (\<lambda>t. t\<lparr>it_MAC := computeMAC (NewTokenManager signing) t\<rparr>)
       \<lparr>it_TokenID = hex_encode tid, it_TrackerAddr = addr, it_NetworkKey = netKey,
        it_ExpiresAt = unix (now + 24 * 3600 * 1000000000), it_MaxUses = 10, it_MAC = []\<rparr>"

lemma CreateNetwork_ok:
  assumes "CreateNetwork jc rnd (Some tid) now addr a = (a', Inr str)"
  shows "str = encode_token jc (gui_token (app_signingKey a) tid now addr (app_networkKey a'))"
    "app_signingKey a' = app_signingKey a" "app_trackerAddr a' = addr"
  using assms by (auto simp: CreateNetwork_def CreateToken_encoded gui_token_def Let_def split: option.splits)

lemma JoinNetwork_gui_token:
  fixes signing tid netKey
  assumes "json_codec_ok jc" "utf8_valid addr" "in_int64 (unix (now + 24 * 3600 * 1000000000))"
    and "unix later \<le> unix (now + 24 * 3600 * 1000000000)"
  defines "t \<equiv> gui_token signing tid now addr netKey"
  shows "JoinNetwork jc later (encode_token jc t) b =
    (if hmac_sha256 (app_signingKey b) (token_text t) = hmac_sha256 signing (token_text t)
     then (b\<lparr>app_trackerAddr := addr, app_networkKey := netKey, app_nodeID := ''node-gui-member'', app_configured := True\<rparr>, None)
     else (b, Some (InvalidToken ErrInvalidTokenSignature)))"
proof -
  have t: "token_ok t" "it_ExpiresAt t = unix (now + 24 * 3600 * 1000000000)" "it_MaxUses t = 10"
    "it_TrackerAddr t = addr" "it_NetworkKey t = netKey"
    using assms(2,3) by (simp_all add: t_def gui_token_def token_ok_def in_int64_def)
  have "it_MAC t = hmac_sha256 signing (token_text t)"
    by (simp add: t_def gui_token_def computeMAC_def NewTokenManager_def token_text_def)
  with ValidateAndUse_encoded [OF assms(1) t(1), of later "NewTokenManager (app_signingKey b)"] t assms(4)
  show ?thesis
    by (simp add: JoinNetwork_def computeMAC_def NewTokenManager_def use_token_def Let_def)
qed

text \<open>
  C31: The invite token of a network made in the application is good for the application that made it
  alone, and for that without any limit: \<open>JoinNetwork\<close> accepts it there every time until it expires,
  although it is made for ten uses, and an application with another signing key refuses it as
  forged, unless the two keys sign this token alike.
\<close>
theorem tokens_only_at_home:
  assumes "json_codec_ok jc" "utf8_valid addr" "in_int64 (unix (now + 24 * 3600 * 1000000000))"
    and "unix later \<le> unix (now + 24 * 3600 * 1000000000)"
    and "CreateNetwork jc rnd (Some tid) now addr a = (a', Inr str)"
  shows "snd (JoinNetwork jc later str (((fst \<circ> JoinNetwork jc later str) ^^ n) a')) = None \<and>
    (let txt = token_text (gui_token (app_signingKey a) tid now addr (app_networkKey a')) in
     if hmac_sha256 (app_signingKey b) txt = hmac_sha256 (app_signingKey a) txt then snd (JoinNetwork jc later str b) = None
     else JoinNetwork jc later str b = (b, Some (InvalidToken ErrInvalidTokenSignature)))"
proof -
  note made = CreateNetwork_ok [OF assms(5)]
  let ?t = "gui_token (app_signingKey a) tid now addr (app_networkKey a')"
  note join = JoinNetwork_gui_token [OF assms(1-4), of "app_signingKey a" tid "app_networkKey a'", folded made(1)]
  have "app_signingKey (((fst \<circ> JoinNetwork jc later str) ^^ n) a') = app_signingKey a"
    by (induction n) (simp_all add: made(2) join)
  then show ?thesis using join [of "((fst \<circ> JoinNetwork jc later str) ^^ n) a'"] join [of b] by (simp add: Let_def)
qed

section \<open>What an upload leaves\<close>

lemma shard_file_inject: "shard_file f c i = shard_file f c' i' \<longleftrightarrow> c = c' \<and> i = i'"
proof -
  have us: "CHR ''_'' \<notin> set (show_int (int k))" "CHR ''.'' \<notin> set (show_int (int k))" for k
    by (auto simp: show_int_def dest: show_nat_digits)
  have "shard_file f c i = (f @ ''_c'') @ show_int (int c) @ CHR ''_'' # (CHR ''s'' # show_int (int i) @ CHR ''.'' # ''shard'')" for c i
    by (simp add: shard_file_def)
  then show ?thesis by (simp add: cut_at_separator us)
qed

lemma write_shards_law:
  assumes "newx_ok newx key" "\<And>j. rand_ok (rnd j)" "write_shards werr newx rnd key f c i ss disk = (None, disk')"
  shows "(\<forall>k < length ss. \<exists>ct. map_get disk' (shard_file f c (i + k)) = Some ct \<and>
      Encrypt newx (rnd (i + k)) (sh_Data (ss ! k)) key = Inr ct \<and> Decrypt newx ct key = Inr (sh_Data (ss ! k))) \<and>
    (\<forall>name. (\<forall>k < length ss. name \<noteq> shard_file f c (i + k)) \<longrightarrow> map_get disk' name = map_get disk name)"
  using assms(3)
proof (induction ss arbitrary: i disk)
  case (Cons s ss)
  then obtain ct where ct: "Encrypt newx (rnd i) (sh_Data s) key = Inr ct"
    and rest: "write_shards werr newx rnd key f c (Suc i) ss (map_put (shard_file f c i) ct disk) = (None, disk')"
    by (auto simp: Let_def split: sum.splits option.splits)
  note ih = Cons.IH [OF rest]
  have "map_get disk' (shard_file f c i) = Some ct" using ih by (simp add: shard_file_inject)
  moreover have "Decrypt newx ct key = Inr (sh_Data s)" using cipher.dec_enc [OF assms(1,2) ct] by simp
  ultimately have "\<exists>ct. map_get disk' (shard_file f c (i + k)) = Some ct \<and>
      Encrypt newx (rnd (i + k)) (sh_Data ((s # ss) ! k)) key = Inr ct \<and> Decrypt newx ct key = Inr (sh_Data ((s # ss) ! k))"
    if "k < length (s # ss)" for k
    using ih that ct by (cases k) auto
  moreover have "map_get disk' name = map_get disk name" if other: "\<forall>k < length (s # ss). name \<noteq> shard_file f c (i + k)" for name
  proof -
    have "name \<noteq> shard_file f c i" using other [rule_format, of 0] by simp
    moreover have "\<forall>k < length ss. name \<noteq> shard_file f c (Suc i + k)"
    proof (intro allI impI)
      fix k assume "k < length ss"
      then show "name \<noteq> shard_file f c (Suc i + k)" using other [rule_format, of "Suc k"] by simp
    qed
    ultimately show ?thesis using ih by simp
  qed
  ultimately show ?case by blast
qed simp

lemma write_chunks_law:
  assumes "newx_ok newx key" "\<And>c j. rand_ok (rnd c j)" "write_chunks werr newx rnd key enc f c chs disk = (None, disk')"
  shows "(\<forall>j < length chs. \<exists>shards. Encode enc (ch_Data (chs ! j)) = Inr shards \<and>
      (\<forall>k < length shards. \<exists>ct. map_get disk' (shard_file f (c + j) k) = Some ct \<and>
         Encrypt newx (rnd (c + j) k) (sh_Data (shards ! k)) key = Inr ct \<and> Decrypt newx ct key = Inr (sh_Data (shards ! k)))) \<and>
    (\<forall>name. map_get disk' name \<noteq> map_get disk name \<longrightarrow>
      (\<exists>j < length chs. \<exists>shards. Encode enc (ch_Data (chs ! j)) = Inr shards \<and> (\<exists>k < length shards. name = shard_file f (c + j) k)))"
  using assms(3)
proof (induction chs arbitrary: c disk)
  case (Cons ch chs)
  then obtain shards disk1 where e: "Encode enc (ch_Data ch) = Inr shards"
    and w: "write_shards werr newx (rnd c) key f c 0 shards disk = (None, disk1)"
    and rest: "write_chunks werr newx rnd key enc f (Suc c) chs disk1 = (None, disk')"
    by (auto split: sum.splits option.splits prod.splits)
  note ws = write_shards_law [OF assms(1,2) w] and ih = Cons.IH [OF rest]
  have kept: "map_get disk' (shard_file f c k) = map_get disk1 (shard_file f c k)" for k
  proof (rule ccontr)
    assume "map_get disk' (shard_file f c k) \<noteq> map_get disk1 (shard_file f c k)"
    with ih obtain j k' where "shard_file f c k = shard_file f (Suc c + j) k'" by blast
    then show False by (simp add: shard_file_inject)
  qed
  have "\<exists>shards. Encode enc (ch_Data ((ch # chs) ! j)) = Inr shards \<and>
      (\<forall>k < length shards. \<exists>ct. map_get disk' (shard_file f (c + j) k) = Some ct \<and>
         Encrypt newx (rnd (c + j) k) (sh_Data (shards ! k)) key = Inr ct \<and> Decrypt newx ct key = Inr (sh_Data (shards ! k)))"
    if "j < length (ch # chs)" for j
  proof (cases j)
    case 0
    with e ws kept show ?thesis by simp
  next
    case (Suc m)
    with ih that show ?thesis by simp
  qed
  moreover have "\<exists>j < length (ch # chs). \<exists>shards. Encode enc (ch_Data ((ch # chs) ! j)) = Inr shards \<and>
      (\<exists>k < length shards. name = shard_file f (c + j) k)"
    if changed: "map_get disk' name \<noteq> map_get disk name" for name
  proof (cases "map_get disk' name = map_get disk1 name")
    case True
    with changed ws obtain k where "k < length shards" "name = shard_file f c k" by force
    with e show ?thesis by (intro exI [of _ 0]) auto
  next
    case False
    with ih obtain j sh k where "j < length chs" "Encode enc (ch_Data (chs ! j)) = Inr sh" "k < length sh" "name = shard_file f (Suc c + j) k"
      by blast
    then show ?thesis by (intro exI [of _ "Suc j"]) auto
  qed
  ultimately show ?case by blast
qed simp

text \<open>The slots of a chunk, read from the directory with a key; the ones outside \<open>A\<close> are given up.\<close>

definition read_slots :: "newx_fun \<Rightarrow> bytes \<Rightarrow> shards_dir \<Rightarrow> string \<Rightarrow> nat \<Rightarrow> nat set \<Rightarrow> Shard list" where
  "read_slots newx key disk f c A =
     map (\<lambda>i. \<lparr>sh_Index = int i, sh_Data =
         if i \<in> A then (case map_get disk (shard_file f c i) of None \<Rightarrow> []
                        | Some ct \<Rightarrow> (case Decrypt newx ct key of Inl e \<Rightarrow> [] | Inr p \<Rightarrow> p)) else []\<rparr>) [0..<8]"

lemma UploadFile_ok:
  assumes "UploadFile pm mem rndSalt rndNonce werr t t' name sz disk a = Some (None, disk', a')" "primitives_ok pm"
  obtains enc salt key where "NewEncoder (pm_rsNew pm) 4 4 = Inr enc" "encoder_ok enc" "dataShards enc = 4" "totalShards enc = 8"
    "rndSalt 32 = Some salt" "DeriveKey (pm_idkey pm) (app_networkKey a) salt = Inr key" "newx_ok (pm_newx pm) key"
    "write_chunks werr (pm_newx pm) rndNonce key enc (file_id t) 0 (number_chunks 0 (chunks_of (chunk_size guiChunkSize) (fileContent sz))) disk = (None, disk')"
    "a' = a\<lparr>app_files := app_files a @ [\<lparr>fd_FileID = file_id t, fd_FileName = name, fd_Size = upload_size sz, fd_CreatedAt = unix t'\<rparr>]\<rparr>"
proof -
  let ?chs = "number_chunks 0 (chunks_of (chunk_size guiChunkSize) (fileContent sz))"
  have split: "Split \<lparr>rd_pieces = [fileContent sz], rd_end = EOF\<rparr> guiChunkSize = Some (Inr ?chs)"
    by (simp add: Split_eq split_result_def rd_content_def)
  obtain rs where rs: "pm_rsNew pm 4 4 = Inr rs" "rs_ok 4 4 rs" using assms(2) by (auto simp: primitives_ok_def)
  define enc where "enc = \<lparr>dataShards = 4, parityShards = 4, enc_rs = rs\<rparr>"
  have enc: "NewEncoder (pm_rsNew pm) 4 4 = Inr enc" "encoder_ok enc" "dataShards enc = 4" "totalShards enc = 8"
    using rs by (simp_all add: enc_def NewEncoder_def encoder_ok_def totalShards_def)
  from assms(1) obtain salt key where k: "NewSalt rndSalt = Inr salt" "DeriveKey (pm_idkey pm) (app_networkKey a) salt = Inr key"
    and w: "write_chunks werr (pm_newx pm) rndNonce key enc (file_id t) 0 ?chs disk = (None, disk')"
      "a' = a\<lparr>app_files := app_files a @ [\<lparr>fd_FileID = file_id t, fd_FileName = name, fd_Size = upload_size sz, fd_CreatedAt = unix t'\<rparr>]\<rparr>"
    by (auto simp: UploadFile_def split enc(1) split: sum.splits option.splits prod.splits if_splits)
  have "length key = 32" using k(2) assms(2) by (auto simp: DeriveKey_def primitives_ok_def keySize_def split: if_splits)
  then have "newx_ok (pm_newx pm) key" using assms(2) by (simp add: primitives_ok_def)
  moreover have "rndSalt 32 = Some salt" using k(1) by (simp add: NewSalt_def split: option.splits)
  ultimately show thesis using that enc k(2) w by blast
qed

text \<open>
  C16: After an upload that reports success, any four shard files of each chunk, decrypted with the key
  derived from the network key and the salt drawn, rebuild the chunk; but the chunks are those of
  a text of letters A of the given size (1 MiB when none is given), whatever file the name stands
  for. The salt is kept nowhere: all that changes in the application is one entry of its list of
  files, with identifier, name, size and time, and all that changes in the directory are the shard
  files, each of which is the ciphertext of one shard.
\<close>
theorem upload_rebuilds:
  assumes "primitives_ok pm" "\<And>c j. rand_ok (rndNonce c j)"
    and "UploadFile pm mem rndSalt rndNonce werr t t' name sz disk a = Some (None, disk', a')"
  shows "\<exists>enc salt key chunks. NewEncoder (pm_rsNew pm) 4 4 = Inr enc \<and> rndSalt 32 = Some salt \<and>
    DeriveKey (pm_idkey pm) (app_networkKey a) salt = Inr key \<and>
    concat chunks = replicate (nat (if sz \<le> 0 then 1024 * 1024 else sz)) 65 \<and>
    (\<forall>c A. c < length chunks \<and> A \<subseteq> {..<8} \<and> 4 \<le> card A \<longrightarrow>
       Reconstruct enc (read_slots (pm_newx pm) key disk' (file_id t) c A) (int (length (chunks ! c))) = Inr (chunks ! c)) \<and>
    a' = a\<lparr>app_files := app_files a @ [\<lparr>fd_FileID = file_id t, fd_FileName = name,
       fd_Size = (if sz \<le> 0 then 1024 * 1024 else sz), fd_CreatedAt = unix t'\<rparr>]\<rparr> \<and>
    (\<forall>x. map_get disk' x \<noteq> map_get disk x \<longrightarrow>
       (\<exists>c i shards ct. c < length chunks \<and> Encode enc (chunks ! c) = Inr shards \<and> i < 8 \<and> x = shard_file (file_id t) c i \<and>
          Encrypt (pm_newx pm) (rndNonce c i) (sh_Data (shards ! i)) key = Inr ct \<and> map_get disk' x = Some ct))"
proof -
  from assms(3,1) obtain enc salt key where e: "NewEncoder (pm_rsNew pm) 4 4 = Inr enc" "encoder_ok enc" "dataShards enc = 4" "totalShards enc = 8"
    "rndSalt 32 = Some salt" "DeriveKey (pm_idkey pm) (app_networkKey a) salt = Inr key" "newx_ok (pm_newx pm) key"
    and w: "write_chunks werr (pm_newx pm) rndNonce key enc (file_id t) 0 (number_chunks 0 (chunks_of (chunk_size guiChunkSize) (fileContent sz))) disk = (None, disk')"
    and a': "a' = a\<lparr>app_files := app_files a @ [\<lparr>fd_FileID = file_id t, fd_FileName = name, fd_Size = upload_size sz, fd_CreatedAt = unix t'\<rparr>]\<rparr>"
    by (rule UploadFile_ok)
  let ?cs = "number_chunks 0 (chunks_of (chunk_size guiChunkSize) (fileContent sz))"
  define chunks where "chunks = chunks_of (chunk_size guiChunkSize) (fileContent sz)"
  have "concat chunks = fileContent sz" by (simp add: chunks_def concat_chunks_of chunk_size_pos)
  then have content: "concat chunks = replicate (nat (if sz \<le> 0 then 1024 * 1024 else sz)) 65"
    by (simp add: fileContent_def upload_size_def)
  note law = write_chunks_law [OF e(7) assms(2) w]
  have same: "length ?cs = length chunks" "c < length chunks \<Longrightarrow> ch_Data (?cs ! c) = chunks ! c" for c
    by (simp_all add: chunks_def nth_number_chunks)
  have stored: "\<exists>shards. Encode enc (chunks ! c) = Inr shards \<and>
      (\<forall>k < length shards. \<exists>ct. map_get disk' (shard_file (file_id t) c k) = Some ct \<and>
         Encrypt (pm_newx pm) (rndNonce c k) (sh_Data (shards ! k)) key = Inr ct \<and> Decrypt (pm_newx pm) ct key = Inr (sh_Data (shards ! k)))"
    if "c < length chunks" for c
    using conjunct1 [OF law] that same by simp
  have only: "\<exists>c < length chunks. \<exists>shards. Encode enc (chunks ! c) = Inr shards \<and> (\<exists>i < length shards. x = shard_file (file_id t) c i)"
    if "map_get disk' x \<noteq> map_get disk x" for x
  proof -
    from conjunct2 [OF law, rule_format, OF that] same obtain j shards k where
      "j < length chunks" "Encode enc (chunks ! j) = Inr shards" "k < length shards" "x = shard_file (file_id t) j k" by auto
    then show ?thesis by blast
  qed
  have eight: "length shards = 8" if "Encode enc d = Inr shards" for d shards
    using rs_code.encode_ok [OF e(2), of d] that e(4) by auto
  have files: "\<exists>c i shards ct. c < length chunks \<and> Encode enc (chunks ! c) = Inr shards \<and> i < 8 \<and> x = shard_file (file_id t) c i \<and>
      Encrypt (pm_newx pm) (rndNonce c i) (sh_Data (shards ! i)) key = Inr ct \<and> map_get disk' x = Some ct"
    if changed: "map_get disk' x \<noteq> map_get disk x" for x
  proof -
    from only [OF changed] obtain c shards i where c: "c < length chunks" "Encode enc (chunks ! c) = Inr shards" "i < length shards"
      "x = shard_file (file_id t) c i" by blast
    from stored [OF c(1)] c(2,3) obtain ct where "map_get disk' (shard_file (file_id t) c i) = Some ct"
      "Encrypt (pm_newx pm) (rndNonce c i) (sh_Data (shards ! i)) key = Inr ct" by auto
    with c eight [OF c(2)] show ?thesis by metis
  qed
  have rebuild: "Reconstruct enc (read_slots (pm_newx pm) key disk' (file_id t) c A) (int (length (chunks ! c))) = Inr (chunks ! c)"
    if c: "c < length chunks" and A: "A \<subseteq> {..<8}" "4 \<le> card A" for c A
  proof -
    from stored [OF c] obtain shards where s: "Encode enc (chunks ! c) = Inr shards"
      "\<forall>k < length shards. \<exists>ct. map_get disk' (shard_file (file_id t) c k) = Some ct \<and> Decrypt (pm_newx pm) ct key = Inr (sh_Data (shards ! k))"
      by blast
    from rs_code.encode_ok [OF e(2), of "chunks ! c"] s(1) e(4) have len: "length shards = 8"
      and nonempty: "\<And>i. i < 8 \<Longrightarrow> sh_Data (shards ! i) = [] \<longleftrightarrow> chunks ! c = []" by auto
    let ?got = "read_slots (pm_newx pm) key disk' (file_id t) c A"
    have got: "length ?got = 8" "\<And>i. i < 8 \<Longrightarrow> ?got ! i = \<lparr>sh_Index = int i, sh_Data = if i \<in> A then sh_Data (shards ! i) else []\<rparr>"
      using s(2) len by (force simp: read_slots_def)+
    have "chunks ! c = [] \<or> {i. i < 8 \<and> sh_Data (?got ! i) \<noteq> []} = A" using got(2) nonempty A(1) by (auto split: if_splits)
    then have "chunks ! c = [] \<or> 4 \<le> card {i. i < 8 \<and> sh_Data (?got ! i) \<noteq> []}" using A(2) by metis
    with rs_code.recover [OF e(2) s(1), of ?got] got e(3,4) show ?thesis by simp
  qed
  have state: "a' = a\<lparr>app_files := app_files a @ [\<lparr>fd_FileID = file_id t, fd_FileName = name,
      fd_Size = (if sz \<le> 0 then 1024 * 1024 else sz), fd_CreatedAt = unix t'\<rparr>]\<rparr>"
    using a' by (simp add: upload_size_def)
  show ?thesis
    by (rule exI [of _ enc], rule exI [of _ salt], rule exI [of _ key], rule exI [of _ chunks], intro conjI allI impI)
       (use e(1,5,6) content state rebuild files in \<open>simp_all only:\<close>)
qed

text \<open>An upload that can write its files succeeds.\<close>

lemma write_shards_succeeds:
  assumes "newx_ok newx key" "\<And>j. rand_ok (rnd j)" "\<And>x. werr x = None"
  shows "\<exists>disk'. write_shards werr newx rnd key f c i ss disk = (None, disk')"
proof (induction ss arbitrary: i disk)
  case (Cons s ss)
  obtain ct where "Encrypt newx (rnd i) (sh_Data s) key = Inr ct"
    using cipher.enc_dec [OF assms(1) assms(2) [of i], of "sh_Data s"] by blast
  with Cons assms(3) show ?case by (simp add: Let_def)
qed simp

lemma write_chunks_succeeds:
  assumes "newx_ok newx key" "\<And>c j. rand_ok (rnd c j)" "\<And>x. werr x = None" "encoder_ok enc"
  shows "\<exists>disk'. write_chunks werr newx rnd key enc f c chs disk = (None, disk')"
proof (induction chs arbitrary: c disk)
  case (Cons ch chs)
  obtain shards where s: "Encode enc (ch_Data ch) = Inr shards" using rs_code.encode_ok [OF assms(4), of "ch_Data ch"] by blast
  obtain disk1 where "write_shards werr newx (rnd c) key f c 0 shards disk = (None, disk1)"
    using write_shards_succeeds [OF assms(1), of "rnd c" werr f c 0 shards disk] assms(2,3) by blast
  with s Cons show ?case by simp
qed simp

lemma UploadFile_succeeds:
  assumes "primitives_ok pm" "\<And>c j. rand_ok (rndNonce c j)" "rand_ok rndSalt" "\<And>x. werr x = None"
    and "mem (upload_size sz)"
  shows "\<exists>disk' a'. UploadFile pm mem rndSalt rndNonce werr t t' name sz disk a = Some (None, disk', a')"
proof -
  have split: "Split \<lparr>rd_pieces = [fileContent sz], rd_end = EOF\<rparr> guiChunkSize
      = Some (Inr (number_chunks 0 (chunks_of (chunk_size guiChunkSize) (fileContent sz))))"
    by (simp add: Split_eq split_result_def rd_content_def)
  obtain rs where rs: "pm_rsNew pm 4 4 = Inr rs" "rs_ok 4 4 rs" using assms(1) by (auto simp: primitives_ok_def)
  define enc where "enc = \<lparr>dataShards = 4, parityShards = 4, enc_rs = rs\<rparr>"
  have enc: "NewEncoder (pm_rsNew pm) 4 4 = Inr enc" "encoder_ok enc"
    using rs by (simp_all add: enc_def NewEncoder_def encoder_ok_def)
  obtain salt where salt: "rndSalt 32 = Some salt" "length salt = 32" using assms(3) by (auto simp: rand_ok_def)
  obtain key where key: "DeriveKey (pm_idkey pm) (app_networkKey a) salt = Inr key" "length key = 32"
    using assms(1) salt(2) by (simp add: DeriveKey_def minSaltSize_def primitives_ok_def keySize_def)
  then have "newx_ok (pm_newx pm) key" using assms(1) by (simp add: primitives_ok_def)
  from write_chunks_succeeds [where rnd = rndNonce and werr = werr, OF this assms(2,4) enc(2)] obtain disk' where
    "write_chunks werr (pm_newx pm) rndNonce key enc (file_id t) 0
       (number_chunks 0 (chunks_of (chunk_size guiChunkSize) (fileContent sz))) disk = (None, disk')" by blast
  with split enc(1) salt(1) key(1) assms(5) show ?thesis by (simp add: UploadFile_def NewSalt_def)
qed

theorem upload_rebuilds_witness:
  "\<exists>disk' a' chunks enc key. UploadFile demo_pm (\<lambda>n. n < 2 ^ 30) zero_rand (\<lambda>_ _. zero_rand) (\<lambda>_. None) 5 6 ''report.pdf'' 3 [] (NewApp ''d'' zero_rand zero_rand) = Some (None, disk', a')
    \<and> concat chunks = replicate (nat 3) 65
    \<and> (\<forall>c A. c < length chunks \<and> A \<subseteq> {..<8} \<and> 4 \<le> card A \<longrightarrow>
         Reconstruct enc (read_slots (pm_newx demo_pm) key disk' (file_id 5) c A) (int (length (chunks ! c))) = Inr (chunks ! c))"
proof -
  obtain disk' a' where up: "UploadFile demo_pm (\<lambda>n. n < 2 ^ 30) zero_rand (\<lambda>_ _. zero_rand) (\<lambda>_. None) 5 6 ''report.pdf'' 3 [] (NewApp ''d'' zero_rand zero_rand) = Some (None, disk', a')"
    using UploadFile_succeeds [OF demo_pm_ok, of "\<lambda>_ _. zero_rand" zero_rand "\<lambda>_. None" "\<lambda>n. n < 2 ^ 30" 3 5 6 "''report.pdf''" "[]" "NewApp ''d'' zero_rand zero_rand"]
      zero_rand_ok by (auto simp: upload_size_def)
  from upload_rebuilds [OF demo_pm_ok _ up] zero_rand_ok obtain enc key chunks where
    "concat chunks = replicate (nat (if (3 :: int) \<le> 0 then 1024 * 1024 else 3)) 65"
    "\<forall>c A. c < length chunks \<and> A \<subseteq> {..<8} \<and> 4 \<le> card A \<longrightarrow>
         Reconstruct enc (read_slots (pm_newx demo_pm) key disk' (file_id 5) c A) (int (length (chunks ! c))) = Inr (chunks ! c)"
    by blast
  with up show ?thesis by (intro exI [of _ disk'] exI [of _ a'] exI [of _ chunks] exI [of _ enc] exI [of _ key]) simp
qed

theorem tokens_only_at_home_witness:
  "\<exists>a' str. CreateNetwork ser_codec zero_rand (Some [1, 2]) 0 ''tracker'' (NewApp ''d'' zero_rand zero_rand) = (a', Inr str) \<and>
     snd (JoinNetwork ser_codec 5 str (((fst \<circ> JoinNetwork ser_codec 5 str) ^^ 11) a')) = None"
proof -
  obtain a' str where c: "CreateNetwork ser_codec zero_rand (Some [1, 2]) 0 ''tracker'' (NewApp ''d'' zero_rand zero_rand) = (a', Inr str)"
    by (simp add: CreateNetwork_def zero_rand_def CreateToken_encoded Let_def)
  have "utf8_valid ''tracker''" by (simp add: utf8_valid_ascii)
  from tokens_only_at_home [OF ser_codec_ok this _ _ c, of 5 11] c show ?thesis
    by (auto simp: unix_def in_int64_def)
qed

section \<open>The application in use\<close>

text \<open>One call of a method, with whatever arguments, clock, random bytes and failing writes.\<close>

inductive app_step :: "json_codec \<Rightarrow> primitives \<Rightarrow> App \<times> shards_dir \<Rightarrow> App \<times> shards_dir \<Rightarrow> bool" for jc pm where
  create: "app_step jc pm (a, d) (fst (CreateNetwork jc rnd tid now addr a), d)"
| join: "app_step jc pm (a, d) (fst (JoinNetwork jc now str a), d)"
| pause: "app_step jc pm (a, d) (PauseNode p a, d)"
| allocate: "app_step jc pm (a, d) (fst (SetStorageAllocation n a), d)"
| upload: "UploadFile pm mem rs rn we t t' name sz d a = Some (e, d', a') \<Longrightarrow> app_step jc pm (a, d) (a', d')"

inductive_cases app_stepE: "app_step jc pm x y"

text \<open>A state that a new application can get to.\<close>

inductive app_reach :: "json_codec \<Rightarrow> primitives \<Rightarrow> App \<times> shards_dir \<Rightarrow> bool" for jc pm where
  start: "app_reach jc pm (NewApp dir rnd rnd', [])"
| step: "app_reach jc pm x \<Longrightarrow> app_step jc pm x y \<Longrightarrow> app_reach jc pm y"

definition app_ok :: "App \<Rightarrow> bool" where
  "app_ok a \<longleftrightarrow> 0 < app_storageAlloc a \<and> list_all (\<lambda>f. 0 < fd_Size f) (app_files a) \<and>
     app_configured a = (app_nodeID a \<noteq> '''') \<and> app_runtimeEngine a = NewEngine \<and> app_metrics a = NewCollector"

lemma NewApp_ok [keeps_inv]: "app_ok (NewApp dir rnd rnd')"
  by (simp add: app_ok_def NewApp_def)

lemma UploadFile_state:
  "UploadFile pm mem rs rn we t t' name sz d a = Some (e, d', a') \<Longrightarrow>
     a' = a \<or> a' = a\<lparr>app_files := app_files a @
       [\<lparr>fd_FileID = file_id t, fd_FileName = name, fd_Size = upload_size sz, fd_CreatedAt = unix t'\<rparr>]\<rparr>"
  by (auto simp: UploadFile_def split: option.splits sum.splits prod.splits if_splits)

lemma app_step_ok [keeps_inv]:
  assumes "app_step jc pm x y" "app_ok (fst x)"
  shows "app_ok (fst y)"
  using assms(1)
proof cases
  case (create a d rnd tid now addr)
  then show ?thesis using assms(2) by (auto simp: app_ok_def CreateNetwork_def Let_def split: option.split)
next
  case (join a d now str)
  then show ?thesis using assms(2) by (auto simp: app_ok_def JoinNetwork_def split: sum.split)
next
  case (pause a d p)
  then show ?thesis using assms(2) by (simp add: app_ok_def PauseNode_def)
next
  case (allocate a d n)
  then show ?thesis using assms(2) by (auto simp: app_ok_def SetStorageAllocation_def)
next
  case (upload mem rs rn we t t' name sz d a e d' a')
  then show ?thesis using assms(2) UploadFile_state [OF upload(3)] by (auto simp: app_ok_def upload_size_def)
qed

lemma app_reach_ok: "app_reach jc pm x \<Longrightarrow> app_ok (fst x)"
  by (induction rule: app_reach.induct) (simp_all add: keeps_inv app_step_ok)

text \<open>
  C29: However the application is used, its allocation is positive, every file it lists has a
  positive size, and it has a node identifier exactly when it is configured; and since no method
  starts a workload or reports to the collector, the window never shows a workload, a peer or a
  transfer.
\<close>
theorem app_invariant:
  assumes "app_reach jc pm (a, disk)"
  shows "0 < ns_StorageAllocated (GetNodeStatus v disk a) \<and> list_all (\<lambda>f. 0 < fd_Size f) (ListFiles a) \<and>
    ns_Configured (GetNodeStatus v disk a) = (ns_NodeID (GetNodeStatus v disk a) \<noteq> '''') \<and>
    GetComputeWorkloads (\<lambda>m. m) a = [] \<and>
    GetNetworkMetrics (\<lambda>m. m) a = \<lparr>nd_UploadSpeedKBps = f_zero, nd_DownloadSpeedKBps = f_zero, nd_Peers = []\<rparr>"
proof -
  from app_reach_ok [OF assms] have ok: "app_ok a" by simp
  have "f_div (f64_of_int 0) (Finite False 1024) = f_zero" by code_simp
  with ok show ?thesis
    by (simp add: app_ok_def GetNodeStatus_def ListFiles_def GetComputeWorkloads_def ListWorkloads_def NewEngine_def
        GetNetworkMetrics_def GetSnapshot_def NewCollector_def Let_def)
qed

theorem app_invariant_witness:
  "0 < ns_StorageAllocated (GetNodeStatus (\<lambda>_. False) [] (PauseNode True (NewApp ''d'' zero_rand zero_rand))) \<and>
   GetComputeWorkloads (\<lambda>m. m) (PauseNode True (NewApp ''d'' zero_rand zero_rand)) = []"
proof -
  have "app_reach ser_codec demo_pm (PauseNode True (NewApp ''d'' zero_rand zero_rand), [])"
    by (rule app_reach.step [OF app_reach.start app_step.pause])
  from app_invariant [OF this] show ?thesis by simp
qed

end
