(* ===== verification/Window.thy ===== *)
theory Window
  imports Gui
begin

text \<open>
  The window around the desktop application (\<open>src/gui/main.go\<close>): where its data are, its menu, and the
  life of the process. What Wails does is taken from its documentation: it calls \<open>OnStartup\<close> once,
  closing a window with \<open>HideWindowOnClose\<close> hides it, the methods of a bound object are the calls that
  the page can make, and \<open>Quit\<close> makes \<open>Run\<close> return.
\<close>

section \<open>The menu\<close>

datatype menu_action = ShowInterface | PauseService | QuitAldea

datatype menu_entry = TextItem string "char option" menu_action | Separator

text \<open>A shortcut is the key pressed with Cmd or Ctrl.\<close>

definition aldeaMenu :: "menu_entry list" where
  "aldeaMenu = [TextItem ''Mostrar Interfaz'' (Some (CHR ''o'')) ShowInterface,
     TextItem ''Pausar Servicio'' None PauseService,
     Separator,
     TextItem ''Salir de Aldea'' (Some (CHR ''q'')) QuitAldea]"

section \<open>The process\<close>

record window =
  wn_app :: App
  wn_disk :: shards_dir
  wn_ctx :: bool          \<comment> \<open>\<open>app.ctx != nil\<close>\<close>
  wn_visible :: bool
  wn_exit :: "int option" \<comment> \<open>the exit status, once it has ended\<close>

text \<open>The home directory, when it is known.\<close>

definition appDataDir :: "string option \<Rightarrow> string" where
  "appDataDir userHome = (case userHome of None \<Rightarrow> ''.'' | Some h \<Rightarrow> h) @ ''/.aldea''"

definition gui_main :: "string option \<Rightarrow> rand_fun \<Rightarrow> rand_fun \<Rightarrow> window" where
  "gui_main userHome rnd rnd' =
     \<lparr>wn_app = NewApp (appDataDir userHome) rnd rnd', wn_disk = [], wn_ctx = False, wn_visible = True, wn_exit = None\<rparr>"

definition startup :: "window \<Rightarrow> window" where
  "startup w = w\<lparr>wn_ctx := True\<rparr>"

definition close_window :: "window \<Rightarrow> window" where
  "close_window w = w\<lparr>wn_visible := False\<rparr>"

text \<open>\<open>Quit\<close> lets \<open>main\<close> return; before the startup the menu ends the process itself.\<close>

definition click :: "menu_action \<Rightarrow> window \<Rightarrow> window" where
  "click m w =
     (case m of
        ShowInterface \<Rightarrow> if wn_ctx w then w\<lparr>wn_visible := True\<rparr> else w
      | PauseService \<Rightarrow> w\<lparr>wn_app := PauseNode True (wn_app w)\<rparr>
      | QuitAldea \<Rightarrow> w\<lparr>wn_exit := Some 0\<rparr>)"

inductive window_step :: "json_codec \<Rightarrow> primitives \<Rightarrow> window \<Rightarrow> window \<Rightarrow> bool" for jc pm where
  startup: "wn_exit w = None \<Longrightarrow> window_step jc pm w (startup w)"
| close: "wn_exit w = None \<Longrightarrow> window_step jc pm w (close_window w)"
| menu: "wn_exit w = None \<Longrightarrow> TextItem t k m \<in> set aldeaMenu \<Longrightarrow> window_step jc pm w (click m w)"
| page: "wn_exit w = None \<Longrightarrow> wn_ctx w \<Longrightarrow> app_step jc pm (wn_app w, wn_disk w) (a, d) \<Longrightarrow>
    window_step jc pm w (w\<lparr>wn_app := a, wn_disk := d\<rparr>)"

inductive_cases window_stepE: "window_step jc pm w w'"

inductive window_reach :: "json_codec \<Rightarrow> primitives \<Rightarrow> window \<Rightarrow> bool" for jc pm where
  main: "window_reach jc pm (gui_main userHome rnd rnd')"
| step: "window_reach jc pm w \<Longrightarrow> window_step jc pm w w' \<Longrightarrow> window_reach jc pm w'"

section \<open>What the window adds\<close>

text \<open>
  Whatever is clicked and closed, the application behind the window is one that its own methods reach,
  so everything shown for those holds in the window.
\<close>

lemma window_app: "window_reach jc pm w \<Longrightarrow> app_reach jc pm (wn_app w, wn_disk w)"
proof (induction rule: window_reach.induct)
  case (main userHome rnd rnd')
  show ?case by (simp add: gui_main_def app_reach.start)
next
  case (step w w')
  from step(2) show ?case
  proof cases
    case (menu t k m)
    have "app_reach jc pm (PauseNode True (wn_app w), wn_disk w)" by (rule app_reach.step [OF step(3) app_step.pause])
    with step(3) menu show ?thesis by (cases m) (simp_all add: click_def)
  next
    case (page a d)
    with step(3) show ?thesis by (auto intro: app_reach.step)
  qed (use step(3) in \<open>simp_all add: startup_def close_window_def\<close>)
qed

text \<open>A closed window leaves the service running, and only the last entry of the menu ends it.\<close>

lemma only_quit_ends:
  "window_step jc pm w w' \<Longrightarrow> wn_exit w' \<noteq> None \<Longrightarrow> w' = click QuitAldea w"
  by (auto elim!: window_stepE simp: startup_def close_window_def click_def split: menu_action.splits if_splits)

text \<open>The menu pauses the service and has no entry to go on with it.\<close>

lemma menu_never_resumes:
  "TextItem t k m \<in> set aldeaMenu \<Longrightarrow> IsPaused (wn_app w) \<Longrightarrow> IsPaused (wn_app (click m w))"
  by (auto simp: click_def IsPaused_def PauseNode_def split: menu_action.split)

lemma window_app_ok: "window_reach jc pm w \<Longrightarrow> app_ok (wn_app w)"
  using app_reach_ok [OF window_app] by simp

end
