(* ===== verification/Daemons.thy ===== *)
theory Daemons
  imports PutGet Liveness
begin

text \<open>
  The two servers as processes (\<open>src/cmd/noded/main.go\<close>, \<open>src/cmd/trackerd/main.go\<close>): how they start, what a
  stop leaves, and what outlives it. A process ends with a signal, a kill or a loss of power: what
  its database has committed by then is in the file, which the next start opens. What the flags,
  the signals and the socket do is an argument where the code depends on it.
\<close>

section \<open>Database files\<close>

text \<open>The files at their paths; \<open>bolt.Open\<close> opens what is there and makes what is not.\<close>

type_synonym 'd dbs = "string \<Rightarrow> 'd option"

definition bolt_on :: "'d bolt \<Rightarrow> (string \<Rightarrow> string option) \<Rightarrow> 'd dbs \<Rightarrow> 'd bolt" where
  "bolt_on B open_err dbs = B\<lparr>bb_open := \<lambda>p.
     case open_err p of
       Some e \<Rightarrow> Inl e
     | None \<Rightarrow> (case dbs p of Some d \<Rightarrow> Inr d | None \<Rightarrow> bb_open B p)\<rparr>"

text \<open>A database that was just made is empty.\<close>

definition fresh_empty :: "'d bolt \<Rightarrow> bool" where
  "fresh_empty B \<longleftrightarrow> (\<forall>p d. bb_open B p = Inr d \<longrightarrow> bb_get B d = (\<lambda>_ _. None))"

definition file_content :: "'d bolt \<Rightarrow> 'd dbs \<Rightarrow> string \<Rightarrow> kv" where
  "file_content B dbs p = (case dbs p of None \<Rightarrow> \<lambda>_ _. None | Some d \<Rightarrow> bb_get B d)"

lemma bolt_on_simps [simp]:
  "bb_get (bolt_on B oe dbs) = bb_get B" "bb_update (bolt_on B oe dbs) = bb_update B"
  "bb_create (bolt_on B oe dbs) = bb_create B" "bb_view (bolt_on B oe dbs) = bb_view B"
  "bb_entries (bolt_on B oe dbs) = bb_entries B" "bolt_ok (bolt_on B oe dbs) = bolt_ok B"
  by (simp_all add: bolt_on_def bolt_ok_def)

lemma open_content:
  assumes "fresh_empty B" "bb_open (bolt_on B oe dbs) p = Inr d"
  shows "bb_get B d = file_content B dbs p"
  using assms by (auto simp: bolt_on_def fresh_empty_def file_content_def split: option.splits)

section \<open>The storage node's process\<close>

datatype noded_exit = LoadingConfig config_err | CreatingDataDir string | InitializingServer node_err

text \<open>A process that could not listen has only logged it, and waits for a signal all the same.\<close>

datatype 'd node_process = Exited noded_exit | Serving "'d shardServer" | Deaf "'d shardServer"

definition node_config_path :: "string option \<Rightarrow> string" where
  "node_config_path flag = (case flag of None \<Rightarrow> ''node.yaml'' | Some p \<Rightarrow> p)"

definition noded_main ::
  "'d bolt \<Rightarrow> NodeConfig yaml \<Rightarrow> os_files \<Rightarrow> (string \<Rightarrow> string option) \<Rightarrow> network \<Rightarrow> string option \<Rightarrow> (string \<Rightarrow> bool)
     \<Rightarrow> 'd world \<Rightarrow> 'd node_process \<times> 'd world" where
  "noded_main B y files mkdirAll N flag listens w =
     (case LoadNodeConfig y files (node_config_path flag) of
        Inl e \<Rightarrow> (Exited (LoadingConfig e), w)
      | Inr cfg \<Rightarrow>
          (case mkdirAll (nc_DataDir cfg) of
             Some e \<Rightarrow> (Exited (CreatingDataDir e), w)
           | None \<Rightarrow>
               (case newShardServer B cfg of
                  Inl e \<Rightarrow> (Exited (InitializingServer e), w)
                | Inr srv \<Rightarrow>
                    (if listens (nc_ListenAddr cfg) then Serving srv else Deaf srv,
                     if nc_TrackerAddr cfg \<noteq> '''' then registerWithTracker N cfg w else w))))"

definition node_db :: "NodeConfig \<Rightarrow> string" where
  "node_db cfg = nc_DataDir cfg @ ''/shards.db''"

definition node_close :: "'d shardServer \<Rightarrow> 'd dbs \<Rightarrow> 'd dbs" where
  "node_close s dbs = dbs(node_db (sv_cfg s) \<mapsto> db_file (sv_db s))"

section \<open>The tracker's process\<close>

datatype trackerd_exit = LoadingTrackerConfig config_err | InitializingTracker tracker_err

datatype 'd tracker_process = TrackerExited trackerd_exit | TrackerServing "'d trackerServer" | TrackerDeaf "'d trackerServer"

definition tracker_config_path :: "string option \<Rightarrow> string" where
  "tracker_config_path flag = (case flag of None \<Rightarrow> ''tracker.yaml'' | Some p \<Rightarrow> p)"

definition trackerd_main ::
  "'d bolt \<Rightarrow> TrackerConfig yaml \<Rightarrow> os_files \<Rightarrow> string option \<Rightarrow> (string \<Rightarrow> bool) \<Rightarrow> 'd tracker_process" where
  "trackerd_main B y files flag listens =
     (case LoadTrackerConfig y files (tracker_config_path flag) of
        Inl e \<Rightarrow> TrackerExited (LoadingTrackerConfig e)
      | Inr cfg \<Rightarrow>
          (case newTrackerServer B cfg of
             Inl e \<Rightarrow> TrackerExited (InitializingTracker e)
           | Inr srv \<Rightarrow> if listens (tc_ListenAddr cfg) then TrackerServing srv else TrackerDeaf srv))"

definition tracker_close :: "'d trackerServer \<Rightarrow> 'd dbs \<Rightarrow> 'd dbs" where
  "tracker_close t dbs = dbs(tc_DBPath (ts_cfg t) \<mapsto> db_file (ts_store t))"

section \<open>Lives of a process\<close>

text \<open>
  A machine is down, with what is on its disk, or up, with a server that was started from the disk.
  The events are what requests have done, in their order.
\<close>

datatype ('disk, 's) machine = Down 'disk | Up 'disk 's

inductive life ::
  "('disk \<Rightarrow> 's \<Rightarrow> bool) \<Rightarrow> ('s \<Rightarrow> 'ev \<Rightarrow> 's \<Rightarrow> bool) \<Rightarrow> ('s \<Rightarrow> 'disk \<Rightarrow> 'disk) \<Rightarrow> 'disk \<Rightarrow> 'ev list \<Rightarrow> ('disk, 's) machine \<Rightarrow> bool"
  for starts serves closes D0 where
  off: "life starts serves closes D0 [] (Down D0)"
| start: "life starts serves closes D0 evs (Down D) \<Longrightarrow> starts D s \<Longrightarrow> life starts serves closes D0 evs (Up D s)"
| request: "life starts serves closes D0 evs (Up D s) \<Longrightarrow> serves s ev s' \<Longrightarrow> life starts serves closes D0 (evs @ [ev]) (Up D s')"
| stop: "life starts serves closes D0 evs (Up D s) \<Longrightarrow> life starts serves closes D0 evs (Down (closes s D))"

text \<open>What a server promises so that its state outlives it.\<close>

locale durable =
  fixes starts :: "'disk \<Rightarrow> 's \<Rightarrow> bool" and serves :: "'s \<Rightarrow> 'ev \<Rightarrow> 's \<Rightarrow> bool" and closes :: "'s \<Rightarrow> 'disk \<Rightarrow> 'disk"
    and disk_ok :: "'disk \<Rightarrow> bool" and on_disk :: "'disk \<Rightarrow> 'v" and ok :: "'s \<Rightarrow> bool" and content :: "'s \<Rightarrow> 'v"
    and effect :: "'ev \<Rightarrow> 'v \<Rightarrow> 'v"
  assumes start_law: "disk_ok D \<Longrightarrow> starts D s \<Longrightarrow> ok s \<and> content s = on_disk D"
    and serve_law: "ok s \<Longrightarrow> serves s ev s' \<Longrightarrow> ok s' \<and> content s' = effect ev (content s)"
    and close_law: "disk_ok D \<Longrightarrow> ok s \<Longrightarrow> disk_ok (closes s D) \<and> on_disk (closes s D) = content s"
begin

lemma life_keeps:
  assumes "life starts serves closes D0 evs m" "disk_ok D0"
  shows "case m of Down D \<Rightarrow> disk_ok D \<and> on_disk D = fold effect evs (on_disk D0)
    | Up D s \<Rightarrow> disk_ok D \<and> ok s \<and> content s = fold effect evs (on_disk D0)"
  using assms
proof (induction rule: life.induct)
  case (start evs D s)
  then show ?case using start_law [of D s] by simp
next
  case (request evs D s ev s')
  then show ?case using serve_law [of s ev s'] by simp
next
  case (stop evs D s)
  then show ?case using close_law [of D s] by simp
qed simp

end

section \<open>The shards of a node\<close>

text \<open>
  A start of a node on the files \<open>dbs\<close> with its data in \<open>dir\<close>: everything else, its configuration
  included, may be another one each time. A request leaves behind what it has acknowledged.
\<close>

definition node_starts :: "'d bolt \<Rightarrow> NodeConfig yaml \<Rightarrow> string \<Rightarrow> 'd dbs \<Rightarrow> 'd shardServer \<Rightarrow> bool" where
  "node_starts B y dir dbs s \<longleftrightarrow>
     (\<exists>oe files mk N flag listens w w'.
        noded_main (bolt_on B oe dbs) y files mk N flag listens w = (Serving s, w') \<and> nc_DataDir (sv_cfg s) = dir)"

definition acked :: "json_codec \<Rightarrow> 'd shardServer \<Rightarrow> string \<Rightarrow> string \<Rightarrow> bytes option \<Rightarrow> response \<Rightarrow> (string \<times> bytes) list" where
  "acked jc s httpMethod path rbody r =
     (case rbody of
        None \<Rightarrow> []
      | Some body \<Rightarrow>
          if httpMethod = ''POST'' \<and> path = ''/shards'' \<and> rs_status r = StatusOK
          then case receive jc put_PutShardRequest zero_PutShardRequest body (node_key s) of
                 Inl _ \<Rightarrow> [] | Inr (env, q) \<Rightarrow> [(psq_ShardID q, psq_Data q)]
          else [])"

definition node_serves :: "json_codec \<Rightarrow> 'd shardServer \<Rightarrow> (string \<times> bytes) list \<Rightarrow> 'd shardServer \<Rightarrow> bool" where
  "node_serves jc s acks s' \<longleftrightarrow>
     (\<exists>now httpMethod path rbody r. node_routes jc now httpMethod path rbody s = Some (r, s') \<and>
        acks = acked jc s httpMethod path rbody r)"

definition put_all :: "(string \<times> bytes) list \<Rightarrow> (string \<Rightarrow> bytes option) \<Rightarrow> string \<Rightarrow> bytes option" where
  "put_all acks v = fold (\<lambda>(i, d) v. v(i \<mapsto> d)) acks v"

text \<open>The machine's database works, and its YAML decoder gives valid text, as \<open>yaml.v3\<close> does.\<close>

definition node_env :: "'d bolt \<Rightarrow> NodeConfig yaml \<Rightarrow> bool" where
  "node_env B y \<longleftrightarrow> bolt_ok B \<and> fresh_empty B \<and> (\<forall>d. bb_view B d = None) \<and>
     (\<forall>data cfg. yaml_dec y data = Inr cfg \<longrightarrow> utf8_valid (nc_NodeID cfg))"

definition node_up :: "'d bolt \<Rightarrow> string \<Rightarrow> 'd shardServer \<Rightarrow> bool" where
  "node_up B dir s \<longleftrightarrow> server_ok s \<and> bb_get (db_ops (sv_db s)) = bb_get B \<and> nc_DataDir (sv_cfg s) = dir"

lemma newShardServer_opens:
  assumes "node_env B y" "newShardServer (bolt_on B oe dbs) cfg = Inr s"
  shows "sv_cfg s = cfg" "bb_get (db_ops (sv_db s)) = bb_get B" "holds s = file_content B dbs (node_db cfg) bucketShards"
    "bolt_ok (db_ops (sv_db s))" "bb_view (db_ops (sv_db s)) = bb_view B"
proof -
  from assms(2) obtain d d' where o: "bb_open (bolt_on B oe dbs) (node_db cfg) = Inr d" "bb_create B d [bucketShards] = Inr d'"
    and s: "s = \<lparr>sv_cfg = cfg, sv_db = \<lparr>db_ops = bolt_on B oe dbs, db_file = d'\<rparr>\<rparr>"
    by (auto simp: newShardServer_def node_db_def split: sum.splits)
  from assms(1) have B: "bolt_ok B" "fresh_empty B" by (simp_all add: node_env_def)
  show "sv_cfg s = cfg" "bb_get (db_ops (sv_db s)) = bb_get B" "bolt_ok (db_ops (sv_db s))"
    "bb_view (db_ops (sv_db s)) = bb_view B" using B(1) by (simp_all add: s)
  show "holds s = file_content B dbs (node_db cfg) bucketShards"
    using open_content [OF B(2) o(1)] bolt_create [OF B(1) o(2)] by (simp add: s holds_def)
qed

lemma noded_main_Serving:
  assumes "noded_main B y files mk N flag listens w = (Serving s, w')"
  shows "\<exists>cfg. LoadNodeConfig y files (node_config_path flag) = Inr cfg \<and> newShardServer B cfg = Inr s \<and>
    w' = (if nc_TrackerAddr cfg \<noteq> '''' then registerWithTracker N cfg w else w)"
  using assms by (auto simp: noded_main_def split: sum.splits option.splits if_splits)

lemma node_routes_effect:
  assumes "server_ok s" "node_routes jc now m path rbody s = Some (r, s')"
  shows "server_ok s' \<and> sv_cfg s' = sv_cfg s \<and> db_ops (sv_db s') = db_ops (sv_db s) \<and>
    holds s' = put_all (acked jc s m path rbody r) (holds s)"
proof (cases "m = ''POST'' \<and> path = ''/shards'' \<and> rbody \<noteq> None")
  case False
  then have "s' = s" using assms(2) by (auto simp: node_routes_def handlePut_def split: if_splits)
  moreover have "acked jc s m path rbody r = []" using False by (auto simp: acked_def split: option.split)
  ultimately show ?thesis using assms(1) by (simp add: put_all_def)
next
  case True
  then obtain body where b: "rbody = Some body" by blast
  then have h: "handlePut jc now (Some body) s = (r, s')" using True assms(2) by (simp add: node_routes_def)
  have "db_ops (sv_db s') = db_ops (sv_db s)"
    using h by (auto simp: handlePut_def split: sum.splits if_splits)
  with handlePut_cases [OF assms(1) h] show ?thesis
    using True by (auto simp: b acked_def receive_def put_all_def split: sum.splits)
qed

interpretation node_life: durable "node_starts B y dir" "node_serves jc" node_close "\<lambda>_. node_env B y"
    "\<lambda>dbs. file_content B dbs (dir @ ''/shards.db'') bucketShards" "node_up B dir" holds put_all
  for B :: "'d bolt" and y dir jc
proof unfold_locales
  fix dbs :: "'d dbs" and s assume env: "node_env B y" and "node_starts B y dir dbs s"
  then obtain oe files mk N flag listens w w' where
    "noded_main (bolt_on B oe dbs) y files mk N flag listens w = (Serving s, w')" and dir: "nc_DataDir (sv_cfg s) = dir"
    by (auto simp: node_starts_def)
  from noded_main_Serving [OF this(1)] obtain cfg where cfg: "LoadNodeConfig y files (node_config_path flag) = Inr cfg"
    "newShardServer (bolt_on B oe dbs) cfg = Inr s" by blast
  note opens = newShardServer_opens [OF env cfg(2)]
  have "utf8_valid (nc_NodeID cfg)" using cfg(1) env
    by (auto simp: LoadNodeConfig_def load_config_def node_env_def split: sum.splits option.splits)
  then show "node_up B dir s \<and> holds s = file_content B dbs (dir @ ''/shards.db'') bucketShards"
    using opens env dir by (simp add: node_up_def server_ok_def node_db_def node_env_def)
next
  fix s s' :: "'d shardServer" and acks assume "node_up B dir s" "node_serves jc s acks s'"
  then show "node_up B dir s' \<and> holds s' = put_all acks (holds s)"
    using node_routes_effect by (fastforce simp: node_up_def node_serves_def)
next
  fix dbs :: "'d dbs" and s assume "node_env B y" "node_up B dir s"
  then show "node_env B y \<and> file_content B (node_close s dbs) (dir @ ''/shards.db'') bucketShards = holds s"
    by (simp add: file_content_def node_close_def node_up_def node_db_def holds_def)
qed

text \<open>The shards acknowledged, in whatever run of the process, the latest of each identifier.\<close>

lemma put_all_acks: "fold put_all evs v = v ++ map_of (rev (concat evs))"
proof -
  have one: "put_all acks v = v ++ map_of (rev acks)" for acks and v :: "string \<Rightarrow> bytes option"
    by (induction acks arbitrary: v) (auto simp: put_all_def map_add_def fun_eq_iff split: option.split)
  show ?thesis
    by (induction evs arbitrary: v) (simp_all add: one map_add_assoc del: map_add_assoc [symmetric])
qed

text \<open>
  C5: A storage node refines a map that nothing is lost from: over all runs of its process, each
  ended by a signal, a kill or a loss of power and started anew with whatever configuration keeps
  its directory, what is in its file, or in the server while it runs, are the shards of all requests
  acknowledged so far, the latest for each identifier; and a running node answers a signed request
  for a shard with these data.
\<close>
theorem shards_outlive_the_process:
  assumes "json_codec_ok jc" "node_env B y" "dbs0 (dir @ ''/shards.db'') = None"
    and "life (node_starts B y dir) (node_serves jc) node_close dbs0 evs m"
  shows "case m of
      Down dbs \<Rightarrow> file_content B dbs (dir @ ''/shards.db'') bucketShards = map_of (rev (concat evs))
    | Up dbs s \<Rightarrow> holds s = map_of (rev (concat evs)) \<and>
        (\<forall>now t client i msg. in_int64 now \<and> in_int64 t \<and> utf8_valid client \<and> utf8_valid i \<and>
           Protocol.Encode jc t TypeGetShardRequest client (json_GetShardRequest \<lparr>gsq_ShardID = i\<rparr>) (node_key s) = Inr msg \<longrightarrow>
           (\<exists>env ans. handleGet jc now (Some msg) s = http_ok ans \<and>
              receive jc put_GetShardResponse zero_GetShardResponse ans (node_key s) =
                Inr (env, \<lparr>gsr_ShardID = i, gsr_Data = (case map_of (rev (concat evs)) i of None \<Rightarrow> [] | Some v \<Rightarrow> v),
                           gsr_Found = (map_of (rev (concat evs)) i \<noteq> None)\<rparr>)))"
proof -
  have empty: "file_content B dbs0 (dir @ ''/shards.db'') bucketShards = Map.empty"
    by (simp add: file_content_def assms(3) fun_eq_iff)
  note keeps = node_life.life_keeps [OF assms(4,2), unfolded empty put_all_acks]
  show ?thesis
  proof (cases m)
    case (Down dbs)
    with keeps show ?thesis by simp
  next
    case (Up dbs s)
    then have s: "server_ok s" "holds s = map_of (rev (concat evs))" using keeps by (simp_all add: node_up_def)
    show ?thesis unfolding Up machine.case
    proof (intro conjI allI impI, goal_cases)
      case (2 now t client i msg)
      with handleGet_answers [OF assms(1) s(1), of now t client i msg] show ?case unfolding s(2) by blast
    qed (rule s(2))
  qed
qed

section \<open>The records of a tracker\<close>

definition tracker_starts :: "'d bolt \<Rightarrow> TrackerConfig yaml \<Rightarrow> string \<Rightarrow> 'd dbs \<Rightarrow> 'd trackerServer \<Rightarrow> bool" where
  "tracker_starts B y path dbs t \<longleftrightarrow>
     (\<exists>oe files flag listens. trackerd_main (bolt_on B oe dbs) y files flag listens = TrackerServing t \<and>
        tc_DBPath (ts_cfg t) = path)"

datatype tracker_event = Registered NodeMetadata | Saved file_entry | NoChange

definition tracker_ack :: "json_codec \<Rightarrow> tracker_request \<Rightarrow> response option \<Rightarrow> tracker_event" where
  "tracker_ack jc req r =
     (if map_option rs_status r \<noteq> Some StatusOK then NoChange
      else case req of
             PostNodes (Some b) \<Rightarrow>
               (case unmarshal_struct jc put_NodeMetadata zero_NodeMetadata b of None \<Rightarrow> NoChange | Some n \<Rightarrow> Registered n)
           | PostFiles b \<Rightarrow>
               (case Option.bind (json_decode jc b) (dec_struct put_file_entry zero_file_entry) of
                  None \<Rightarrow> NoChange | Some e \<Rightarrow> Saved e)
           | _ \<Rightarrow> NoChange)"

definition tracker_serves ::
  "((NodeMetadata \<Rightarrow> NodeMetadata \<Rightarrow> bool) \<Rightarrow> NodeMetadata list \<Rightarrow> NodeMetadata list) \<Rightarrow> json_codec
     \<Rightarrow> 'd trackerServer \<Rightarrow> tracker_event \<Rightarrow> 'd trackerServer \<Rightarrow> bool" where
  "tracker_serves srt jc t ev t' \<longleftrightarrow>
     (\<exists>key req r. tracker_routes srt jc key req t = (r, t') \<and> ev = tracker_ack jc req r)"

type_synonym records = "(string \<Rightarrow> NodeMetadata option) \<times> (string \<Rightarrow> file_entry option)"

fun record_event :: "tracker_event \<Rightarrow> records \<Rightarrow> records" where
  "record_event (Registered n) (ns, fs) = (ns(nm_NodeID n \<mapsto> n), fs)"
| "record_event (Saved e) (ns, fs) = (ns, fs(entry_id e \<mapsto> e))"
| "record_event NoChange v = v"

definition records_of :: "json_codec \<Rightarrow> 'd Store \<Rightarrow> records" where
  "records_of jc st = (node_at jc st, file_at jc st)"

definition disk_records :: "json_codec \<Rightarrow> 'd bolt \<Rightarrow> 'd dbs \<Rightarrow> string \<Rightarrow> records" where
  "disk_records jc B dbs p =
     (case dbs p of None \<Rightarrow> (Map.empty, Map.empty) | Some d \<Rightarrow> records_of jc \<lparr>db_ops = B, db_file = d\<rparr>)"

definition tracker_env :: "json_codec \<Rightarrow> 'd bolt \<Rightarrow> string \<Rightarrow> 'd dbs \<Rightarrow> bool" where
  "tracker_env jc B p dbs \<longleftrightarrow> json_codec_ok jc \<and> bolt_ok B \<and> fresh_empty B \<and>
     (case dbs p of None \<Rightarrow> True | Some d \<Rightarrow> store_ok jc \<lparr>db_ops = B, db_file = d\<rparr>)"

definition tracker_up :: "json_codec \<Rightarrow> 'd bolt \<Rightarrow> string \<Rightarrow> 'd trackerServer \<Rightarrow> bool" where
  "tracker_up jc B path t \<longleftrightarrow> store_ok jc (ts_store t) \<and> bb_get (db_ops (ts_store t)) = bb_get B \<and> tc_DBPath (ts_cfg t) = path"

text \<open>What a store holds depends on what is stored alone.\<close>

lemma records_stored:
  assumes "stored s = stored s'"
  shows "node_at jc s = node_at jc s'" "file_at jc s = file_at jc s'"
  by (simp_all add: node_at_def file_at_def assms fun_eq_iff)

lemma store_ok_stored:
  assumes "stored s = stored s'" "bolt_ok (db_ops s')" "store_ok jc s"
  shows "store_ok jc s'"
  using assms(2,3) unfolding store_ok_def assms(1) records_stored [OF assms(1)] by simp

lemma store_ok_empty: "json_codec_ok jc \<Longrightarrow> bolt_ok (db_ops s) \<Longrightarrow> stored s = (\<lambda>_ _. None) \<Longrightarrow> store_ok jc s"
  by (simp add: store_ok_def)

lemma newTrackerServer_opens:
  assumes "tracker_env jc B (tc_DBPath cfg) dbs" "newTrackerServer (bolt_on B oe dbs) cfg = Inr t"
  shows "tracker_up jc B (tc_DBPath cfg) t" "records_of jc (ts_store t) = disk_records jc B dbs (tc_DBPath cfg)"
proof -
  from assms(2) obtain d d' where o: "bb_open (bolt_on B oe dbs) (tc_DBPath cfg) = Inr d"
      "bb_create B d [bucketNodes, bucketFiles, bucketPlacements] = Inr d'"
    and t: "t = \<lparr>ts_cfg = cfg, ts_store = \<lparr>db_ops = bolt_on B oe dbs, db_file = d'\<rparr>\<rparr>"
    by (auto simp: newTrackerServer_def NewStore_def split: sum.splits)
  from assms(1) have env: "json_codec_ok jc" "bolt_ok B" "fresh_empty B" by (simp_all add: tracker_env_def)
  have st: "stored (ts_store t) = file_content B dbs (tc_DBPath cfg)"
    using open_content [OF env(3) o(1)] bolt_create [OF env(2) o(2)] by (simp add: t)
  have ops: "bolt_ok (db_ops (ts_store t))" "bb_get (db_ops (ts_store t)) = bb_get B" using env(2) by (simp_all add: t)
  have "store_ok jc (ts_store t) \<and> records_of jc (ts_store t) = disk_records jc B dbs (tc_DBPath cfg)"
  proof (cases "dbs (tc_DBPath cfg)")
    case None
    then have "stored (ts_store t) = (\<lambda>_ _. None)" by (simp add: st file_content_def)
    with store_ok_empty [OF env(1) ops(1)] show ?thesis
      by (simp add: None disk_records_def records_of_def node_at_def file_at_def fun_eq_iff)
  next
    case (Some d0)
    let ?s = "\<lparr>db_ops = B, db_file = d0\<rparr>"
    have same: "stored ?s = stored (ts_store t)" by (simp add: st file_content_def Some)
    have "store_ok jc ?s" using assms(1) Some by (simp add: tracker_env_def)
    with store_ok_stored [OF same ops(1)] records_stored [OF same] show ?thesis
      by (simp add: Some disk_records_def records_of_def)
  qed
  then show "tracker_up jc B (tc_DBPath cfg) t" "records_of jc (ts_store t) = disk_records jc B dbs (tc_DBPath cfg)"
    using ops(2) by (simp_all add: tracker_up_def t)
qed

lemma tracker_routes_ops:
  "tracker_routes srt jc key req t = (r, t') \<Longrightarrow> db_ops (ts_store t') = db_ops (ts_store t)"
  using tracker_serve_ops [of srt jc "[(key, req)]" t "[r]" t'] by simp

lemma tracker_routes_effect:
  assumes "store_ok jc (ts_store t)" "tracker_routes srt jc key req t = (r, t')"
  shows "records_of jc (ts_store t') = record_event (tracker_ack jc req r) (records_of jc (ts_store t))"
proof (cases req)
  case (PostNodes rbody)
  then obtain a where h: "handleRegisterNode jc key rbody t = (a, t')" and r: "r = Some a" using assms(2)
    by (cases "handleRegisterNode jc key rbody t") (auto simp: tracker_routes_def)
  show ?thesis
  proof (cases "authenticated key t \<and> rbody \<noteq> None \<and> unmarshal_struct jc put_NodeMetadata zero_NodeMetadata (the rbody) \<noteq> None")
    case False
    then have "t' = t \<and> rs_status a \<noteq> StatusOK" using h
      by (auto simp: handleRegisterNode_def unauthorized_def http_status split: if_splits option.splits)
    then show ?thesis by (simp add: tracker_ack_def r)
  next
    case True
    then obtain b n where b: "authenticated key t" "rbody = Some b" "unmarshal_struct jc put_NodeMetadata zero_NodeMetadata b = Some n"
      by auto
    obtain e st where reg: "RegisterNode jc (ts_store t) n = (e, st)" by fastforce
    have "t' = t\<lparr>ts_store := st\<rparr> \<and> (rs_status a = StatusOK) = (e = None)"
      using h b reg by (cases e) (auto simp: handleRegisterNode_def http_status)
    with RegisterNode_law [OF assms(1) node_read_ok [OF store_okD(1) [OF assms(1)] b(3)] reg]
    show ?thesis by (simp add: PostNodes tracker_ack_def records_of_def r b(2,3))
  qed
next
  case (PostFiles b)
  then obtain a where h: "handleSaveFilePlacement jc key b t = (a, t')" and r: "r = Some a" using assms(2)
    by (cases "handleSaveFilePlacement jc key b t") (auto simp: tracker_routes_def)
  let ?e = "Option.bind (json_decode jc b) (dec_struct put_file_entry zero_file_entry)"
  show ?thesis
  proof (cases "authenticated key t \<and> ?e \<noteq> None")
    case False
    then have "t' = t \<and> rs_status a \<noteq> StatusOK" using h
      by (cases ?e) (auto simp: handleSaveFilePlacement_def unauthorized_def http_status split: if_splits)
    then show ?thesis by (simp add: tracker_ack_def r)
  next
    case True
    then obtain f ps where b: "authenticated key t" "?e = Some (f, ps)" by auto
    obtain e st where sv: "save_entry jc (ts_store t) (f, ps) = (e, st)" by fastforce
    have "t' = t\<lparr>ts_store := st\<rparr> \<and> (rs_status a = StatusOK) = (e = None)"
      using h b sv by (cases e) (auto simp: handleSaveFilePlacement_def save_entry_def http_status)
    with save_entry_law [OF assms(1) entry_read_ok [OF store_okD(1) [OF assms(1)] b(2)] sv]
    show ?thesis by (simp add: PostFiles tracker_ack_def records_of_def r b(2))
  qed
qed (use assms(2) in \<open>simp_all add: tracker_routes_def tracker_ack_def\<close>)

interpretation tracker_life: durable "tracker_starts B y path" "tracker_serves srt jc" tracker_close "tracker_env jc B path"
    "\<lambda>dbs. disk_records jc B dbs path" "tracker_up jc B path" "\<lambda>t. records_of jc (ts_store t)" record_event
  for B :: "'d bolt" and y path srt jc
proof unfold_locales
  fix dbs :: "'d dbs" and t assume env: "tracker_env jc B path dbs" and "tracker_starts B y path dbs t"
  then obtain oe files flag listens where main: "trackerd_main (bolt_on B oe dbs) y files flag listens = TrackerServing t"
    and path: "tc_DBPath (ts_cfg t) = path" by (auto simp: tracker_starts_def)
  from main obtain cfg where "newTrackerServer (bolt_on B oe dbs) cfg = Inr t"
    by (auto simp: trackerd_main_def split: sum.splits if_splits)
  moreover from this have "ts_cfg t = cfg" by (auto simp: newTrackerServer_def split: sum.splits)
  ultimately show "tracker_up jc B path t \<and> records_of jc (ts_store t) = disk_records jc B dbs path"
    using newTrackerServer_opens [of jc B cfg dbs oe t] env path by simp
next
  fix t t' :: "'d trackerServer" and ev assume up: "tracker_up jc B path t" and "tracker_serves srt jc t ev t'"
  then obtain key req r where run: "tracker_routes srt jc key req t = (r, t')" and ev: "ev = tracker_ack jc req r"
    by (auto simp: tracker_serves_def)
  from up have ok: "store_ok jc (ts_store t)" by (simp add: tracker_up_def)
  from tracker_routes_effect [OF ok run] tracker_routes_keeps [OF ok run] tracker_routes_ops [OF run] up
  show "tracker_up jc B path t' \<and> records_of jc (ts_store t') = record_event ev (records_of jc (ts_store t))"
    by (simp add: tracker_up_def ev)
next
  fix dbs :: "'d dbs" and t assume env: "tracker_env jc B path dbs" and up: "tracker_up jc B path t"
  let ?s = "\<lparr>db_ops = B, db_file = db_file (ts_store t)\<rparr>"
  have same: "stored (ts_store t) = stored ?s" using up by (simp add: tracker_up_def)
  have "bolt_ok B" "store_ok jc (ts_store t)" using env up by (simp_all add: tracker_env_def tracker_up_def)
  with store_ok_stored [OF same] have "store_ok jc ?s" by simp
  with records_stored [OF same] env up
  show "tracker_env jc B path (tracker_close t dbs) \<and> disk_records jc B (tracker_close t dbs) path = records_of jc (ts_store t)"
    by (simp add: tracker_env_def disk_records_def records_of_def tracker_close_def tracker_up_def)
qed

text \<open>
  C6: A tracker refines a pair of maps that nothing is lost from: over all runs of its process, its
  records are the nodes and files of all requests acknowledged so far, the latest for each
  identifier, and a running tracker answers with them: each node once, and each file as it is.
\<close>
theorem records_outlive_the_process:
  assumes "json_codec_ok jc" "bolt_ok B" "fresh_empty B" "dbs0 path = None"
    and "life (tracker_starts B y path) (tracker_serves srt jc) tracker_close dbs0 evs m"
  shows "case m of
      Down dbs \<Rightarrow> disk_records jc B dbs path = fold record_event evs (Map.empty, Map.empty)
    | Up dbs t \<Rightarrow> records_of jc (ts_store t) = fold record_event evs (Map.empty, Map.empty) \<and>
        (bb_view (db_ops (ts_store t)) (db_file (ts_store t)) = None \<longrightarrow>
          (\<exists>ns. tracker_routes srt jc (tc_NetworkKey (ts_cfg t)) GetNodes t = (Some (writeJSON jc (enc_structs json_NodeMetadata ns)), t) \<and>
             distinct (map nm_NodeID ns) \<and>
             (\<forall>n. n \<in> set ns \<longleftrightarrow> fst (fold record_event evs (Map.empty, Map.empty)) (nm_NodeID n) = Some n)) \<and>
          (\<forall>i. tracker_routes srt jc (tc_NetworkKey (ts_cfg t)) (GetFile i) t =
             (Some (case snd (fold record_event evs (Map.empty, Map.empty)) i of
                None \<Rightarrow> http_error (err_text ErrFileNotFound) StatusNotFound
              | Some e \<Rightarrow> writeJSON jc (json_file_entry e)), t)))"
proof -
  have "tracker_env jc B path dbs0" using assms(1-4) by (simp add: tracker_env_def)
  moreover have "disk_records jc B dbs0 path = (Map.empty, Map.empty)" by (simp add: disk_records_def assms(4))
  ultimately have keeps: "case m of Down dbs \<Rightarrow> disk_records jc B dbs path = fold record_event evs (Map.empty, Map.empty)
    | Up dbs t \<Rightarrow> tracker_up jc B path t \<and> records_of jc (ts_store t) = fold record_event evs (Map.empty, Map.empty)"
    using tracker_life.life_keeps [OF assms(5)] by (simp split: machine.splits)
  show ?thesis
  proof (cases m)
    case (Down dbs)
    with keeps show ?thesis by simp
  next
    case (Up dbs t)
    then have t: "store_ok jc (ts_store t)" "records_of jc (ts_store t) = fold record_event evs (Map.empty, Map.empty)"
      using keeps by (simp_all add: tracker_up_def)
    show ?thesis unfolding Up machine.case
    proof (intro conjI impI allI, goal_cases)
      case 2
      then obtain ns where ns: "ListNodes jc (ts_store t) = Inr ns" using ListNodes_ok [OF t(1)] by blast
      with ListNodes_law [OF t(1) ns] show ?case
        by (auto simp: t(2) [symmetric] records_of_def tracker_routes_def handleListNodes_def authenticated_def)
    next
      case (3 i)
      from GetFilePlacement_law(2) [OF t(1) 3, of i] show ?case
        by (auto simp: t(2) [symmetric] records_of_def tracker_routes_def handleGetFilePlacement_def authenticated_def
            split: option.split)
    qed (rule t(2))
  qed
qed

section \<open>What a tracker knows of a node\<close>

definition registration :: "NodeConfig \<Rightarrow> int \<Rightarrow> NodeMetadata" where
  "registration cfg now = \<lparr>nm_NodeID = nc_NodeID cfg, nm_Address = nc_ListenAddr cfg,
     nm_StorageAllocated = nc_StorageAllocated cfg, nm_StorageUsed = 0, nm_LastSeen = now, nm_IsHealthy = True\<rparr>"

lemma registration_arrives:
  assumes "store_ok (net_json N) (ts_store t)" "wd_trackers w (nc_TrackerAddr cfg) = Some t"
    and "new_request_ok N (nc_TrackerAddr cfg @ ''/nodes'')" "net_fate N (wd_calls w) \<noteq> Unreachable"
    and "header_value N (nc_NetworkKey cfg) = Some (tc_NetworkKey (ts_cfg t))"
    and "node_ok (registration cfg (net_clientTime N (wd_calls w)))"
    and "RegisterNode (net_json N) (ts_store t) (registration cfg (net_clientTime N (wd_calls w))) = (None, st)"
  shows "wd_trackers (registerWithTracker N cfg w) (nc_TrackerAddr cfg) = Some (t\<lparr>ts_store := st\<rparr>)"
proof -
  let ?n = "registration cfg (net_clientTime N (wd_calls w))"
  have "unmarshal_struct (net_json N) put_NodeMetadata zero_NodeMetadata (json_marshal (net_json N) (json_NodeMetadata ?n)) = Some ?n"
    by (rule unmarshal_marshal [OF store_okD(1) [OF assms(1)] codec_NodeMetadata [OF assms(6)]])
  then have "handleRegisterNode (net_json N) (tc_NetworkKey (ts_cfg t)) (Some (json_marshal (net_json N) (json_NodeMetadata ?n))) t
      = (http_ok [], t\<lparr>ts_store := st\<rparr>)"
    by (simp add: handleRegisterNode_def authenticated_def assms(7))
  then show ?thesis using assms(2-5)
    by (simp add: registerWithTracker_def tracker_do_def tracker_routes_def next_call_def Let_def
        flip: registration_def split: fate.split)
qed

lemma silent_node:
  fixes seen now :: int
  assumes "in_int64 seen" "in_int64 now" "60 \<le> now - seen" "now - seen \<le> 1000000000" "nm_LastSeen n = seen"
  shows "Evaluate DefaultLivenessConfig n now \<noteq> StatusHealthy"
proof -
  have "in_int64 (now - seen)" "in_int64 ((now - seen) * Second)" using assms(3,4) by (simp_all add: in_int64_def Second_def)
  then have "wrap64 (wrap64 (now - nm_LastSeen n) * Second) = (now - seen) * Second" by (simp add: assms(5))
  then show ?thesis using assms(3) by (simp add: Evaluate_def DefaultLivenessConfig_def Second_def Let_def)
qed

text \<open>
  C33: A node tells the tracker of itself once, when it starts, before it listens, and with no storage
  used, whatever shards it holds. So a liveness pass a minute later, with the default limits, marks
  it unhealthy although it is running; from then on it is dead at every time under every limits and
  is chosen for no upload.
\<close>
theorem running_node_dies:
  assumes "noded_main B y files mk N flag listens w = (p, w')" "p = Serving s \<or> p = Deaf s"
    and "nc_TrackerAddr (sv_cfg s) \<noteq> ''''" "wd_trackers w (nc_TrackerAddr (sv_cfg s)) = Some t"
    and "network_ok N" "store_ok (net_json N) (ts_store t)" "new_request_ok N (nc_TrackerAddr (sv_cfg s) @ ''/nodes'')"
    and "net_fate N (wd_calls w) \<noteq> Unreachable" "header_value N (nc_NetworkKey (sv_cfg s)) = Some (tc_NetworkKey (ts_cfg t))"
    and "node_ok (registration (sv_cfg s) (net_clientTime N (wd_calls w)))"
    and "RegisterNode (net_json N) (ts_store t) (registration (sv_cfg s) (net_clientTime N (wd_calls w))) = (None, st)"
    and "in_int64 now" "60 \<le> now - net_clientTime N (wd_calls w)" "now - net_clientTime N (wd_calls w) \<le> 1000000000"
    and "ApplyLiveness (net_json N) st DefaultLivenessConfig now = ((changed, None), st')"
  shows "wd_trackers w' (nc_TrackerAddr (sv_cfg s)) = Some (t\<lparr>ts_store := st\<rparr>) \<and>
    node_at (net_json N) st (nc_NodeID (sv_cfg s)) = Some (registration (sv_cfg s) (net_clientTime N (wd_calls w))) \<and>
    (\<exists>n. node_at (net_json N) st' (nc_NodeID (sv_cfg s)) = Some n \<and> (\<forall>lc t. Evaluate lc n t = StatusDead)) \<and>
    (\<forall>cnt req res. SelectPlacementNodes (net_sort N) (net_json N) st' cnt req = Some (Inr res) \<longrightarrow>
       nc_NodeID (sv_cfg s) \<notin> nm_NodeID ` set res)"
proof -
  let ?now = "net_clientTime N (wd_calls w)"
  let ?n = "registration (sv_cfg s) ?now" and ?id = "nc_NodeID (sv_cfg s)"
  from assms(1,2) obtain cfg where "newShardServer B cfg = Inr s"
    and w': "w' = (if nc_TrackerAddr cfg \<noteq> '''' then registerWithTracker N cfg w else w)"
    by (auto simp: noded_main_def split: sum.splits option.splits if_splits)
  then have "sv_cfg s = cfg" by (auto simp: newShardServer_def split: sum.splits)
  with w' assms(3) have "w' = registerWithTracker N (sv_cfg s) w" by simp
  with registration_arrives [OF assms(6,4,7-11)] have arrives: "wd_trackers w' (nc_TrackerAddr (sv_cfg s)) = Some (t\<lparr>ts_store := st\<rparr>)"
    by simp
  have id: "nm_NodeID ?n = ?id" "nm_LastSeen ?n = ?now" by (simp_all add: registration_def)
  from RegisterNode_law [OF assms(6,10,11)] have st: "store_ok (net_json N) st" "node_at (net_json N) st ?id = Some ?n"
    by (simp_all add: id(1))
  obtain ns where "ListNodes (net_json N) st = Inr ns"
    using assms(15) by (cases "ListNodes (net_json N) st") (simp_all add: ApplyLiveness_def)
  note pass = ApplyLiveness_run [OF st(1) this assms(15)]
  have "in_int64 ?now" using assms(10) id(2) by (simp add: node_ok_def)
  from silent_node [OF this assms(12-14) id(2)] pass st(2)
  have dead: "node_at (net_json N) st' ?id = Some (?n\<lparr>nm_IsHealthy := False\<rparr>)" by (simp add: after_pass_def)
  have never: "?id \<notin> nm_NodeID ` set res" if sel: "SelectPlacementNodes (net_sort N) (net_json N) st' cnt req = Some (Inr res)" for cnt req res
  proof
    assume "?id \<in> nm_NodeID ` set res"
    then obtain m where m: "m \<in> set res" "nm_NodeID m = ?id" by auto
    have "sort_slice_ok more_space (net_sort N more_space)" using assms(5) by (simp add: network_ok_def)
    from SelectPlacementNodes_nodes(3) [OF conjunct1 [OF pass] this sel m(1)] dead m(2) show False by auto
  qed
  show ?thesis
  proof (intro conjI exI allI impI)
    show "Evaluate lc (?n\<lparr>nm_IsHealthy := False\<rparr>) t = StatusDead" for lc t by (simp add: Evaluate_def)
  qed (use arrives st(2) dead never in blast)+
qed

section \<open>Witnesses\<close>

definition const_yaml :: "'c \<Rightarrow> 'c yaml" where
  "const_yaml c = \<lparr>yaml_dec = \<lambda>_. Inr c, yaml_enc = \<lambda>_. Inr []\<rparr>"

definition some_files :: os_files where
  "some_files = \<lparr>os_read = \<lambda>_. Inr [], os_mkdir = \<lambda>_. None, os_write_err = \<lambda>_. None\<rparr>"

definition no_world :: "'d world" where
  "no_world = \<lparr>wd_nodes = Map.empty, wd_trackers = Map.empty, wd_calls = 0\<rparr>"

lemma alist_fresh: "fresh_empty alist_bolt" "bb_get alist_bolt d b = map_of (d b)"
  by (simp_all add: fresh_empty_def alist_bolt_def fun_eq_iff)

lemma alist_opens: "newShardServer (bolt_on alist_bolt (\<lambda>_. None) dbs) cfg = Inr \<lparr>sv_cfg = cfg,
    sv_db = \<lparr>db_ops = bolt_on alist_bolt (\<lambda>_. None) dbs, db_file = (case dbs (node_db cfg) of None \<Rightarrow> \<lambda>_. [] | Some d \<Rightarrow> d)\<rparr>\<rparr>"
  by (auto simp: newShardServer_def bolt_on_def alist_bolt_def node_db_def split: option.split)

lemma bolt_on_none: "bolt_on alist_bolt (\<lambda>_. None) Map.empty = alist_bolt"
  by (simp add: bolt_on_def alist_bolt_def)

lemma demo_node_starts:
  assumes "cfg = sv_cfg (demo_server 100)"
  shows "\<exists>s. node_starts alist_bolt (const_yaml cfg) ''./data'' dbs s"
    and "node_starts alist_bolt (const_yaml cfg) ''./data'' Map.empty (demo_server 100)"
proof -
  have start: "node_starts alist_bolt (const_yaml cfg) ''./data'' dbs s"
    if "newShardServer (bolt_on alist_bolt (\<lambda>_. None) dbs) cfg = Inr s" for dbs s
  proof -
    have "LoadNodeConfig (const_yaml cfg) some_files (node_config_path None) = Inr cfg"
      by (simp add: assms LoadNodeConfig_def load_config_def const_yaml_def some_files_def demo_server_def node_config_valid_def)
    then have "noded_main (bolt_on alist_bolt (\<lambda>_. None) dbs) (const_yaml cfg) some_files (\<lambda>_. None) N None (\<lambda>_. True) no_world
        = (Serving s, no_world)" for N
      using that by (simp add: noded_main_def assms) (simp add: demo_server_def)
    moreover have "nc_DataDir (sv_cfg s) = ''./data''"
      using that by (auto simp: newShardServer_def assms demo_server_def split: sum.splits)
    ultimately show ?thesis unfolding node_starts_def by blast
  qed
  from start [OF alist_opens] show "\<exists>s. node_starts alist_bolt (const_yaml cfg) ''./data'' dbs s" by blast
  have "newShardServer (bolt_on alist_bolt (\<lambda>_. None) Map.empty) cfg = Inr (demo_server 100)"
    by (simp add: alist_opens) (simp add: bolt_on_none assms demo_server_def)
  then show "node_starts alist_bolt (const_yaml cfg) ''./data'' Map.empty (demo_server 100)" by (rule start)
qed

theorem shards_outlive_the_process_witness:
  "\<exists>evs dbs s. life (node_starts alist_bolt (const_yaml (sv_cfg (demo_server 100))) ''./data'') (node_serves ser_codec) node_close
       Map.empty evs (Up dbs s) \<and> length evs = 1 \<and> holds s = [''s1'' \<mapsto> [1, 2, 3]]"
proof -
  let ?y = "const_yaml (sv_cfg (demo_server 100))" and ?s = "demo_server 100 :: (string \<Rightarrow> (string \<times> bytes) list) shardServer"
  let ?life = "life (node_starts alist_bolt ?y ''./data'') (node_serves ser_codec) node_close Map.empty"
  obtain msg r s' where put: "handlePut ser_codec 5 (Some msg) ?s = (http_ok r, s')" "holds s' = [''s1'' \<mapsto> [1, 2, 3]]"
    using demo_put [of "[1, 2, 3]" 100 "''s1''"] by (auto simp: in_int64_def utf8_valid_ascii)
  define acks where "acks = acked ser_codec ?s ''POST'' ''/shards'' (Some msg) (http_ok r)"
  have routes: "node_routes ser_codec 5 ''POST'' ''/shards'' (Some msg) ?s = Some (http_ok r, s')"
    using put(1) by (simp add: node_routes_def)
  then have served: "node_serves ser_codec ?s acks s'" unfolding node_serves_def acks_def by blast
  obtain s2 where start: "node_starts alist_bolt ?y ''./data'' (node_close s' Map.empty) s2"
    using demo_node_starts(1) [OF refl] by blast
  have up: "?life [] (Up Map.empty ?s)" by (rule life.start, rule life.off, rule demo_node_starts(2) [OF refl])
  have "?life ([] @ [acks]) (Up Map.empty s')" by (rule life.request, rule up, rule served)
  from life.stop [OF this] have down: "?life [acks] (Down (node_close s' Map.empty))" by simp
  have run: "?life [acks] (Up (node_close s' Map.empty) s2)" by (rule life.start, rule down, rule start)
  have env: "node_env alist_bolt ?y"
    by (simp add: node_env_def alist_bolt_ok alist_fresh const_yaml_def) (simp add: demo_server_def utf8_valid_ascii)
  from shards_outlive_the_process [OF ser_codec_ok env _ run] have "holds s2 = map_of (rev acks)" by simp
  moreover have "holds s' = put_all acks Map.empty"
    using node_routes_effect [OF _ routes] by (simp add: acks_def demo_server_holds)
  ultimately have "holds s2 = [''s1'' \<mapsto> [1, 2, 3]]" using put_all_acks [of "[acks]" Map.empty] put(2) by simp
  with run show ?thesis by (intro exI [of _ "[acks]"]) auto
qed

lemma alist_tracker_opens:
  "newTrackerServer (bolt_on alist_bolt (\<lambda>_. None) dbs) cfg = Inr \<lparr>ts_cfg = cfg, ts_store =
    \<lparr>db_ops = bolt_on alist_bolt (\<lambda>_. None) dbs, db_file = (case dbs (tc_DBPath cfg) of None \<Rightarrow> \<lambda>_. [] | Some d \<Rightarrow> d)\<rparr>\<rparr>"
  by (auto simp: newTrackerServer_def NewStore_def bolt_on_def alist_bolt_def split: option.split)

lemma demo_tracker_starts:
  "\<exists>t. tracker_starts alist_bolt (const_yaml (ts_cfg demo_tracker)) ''p'' dbs t \<and> ts_cfg t = ts_cfg demo_tracker \<and>
     db_ops (ts_store t) = bolt_on alist_bolt (\<lambda>_. None) dbs"
proof -
  let ?y = "const_yaml (ts_cfg demo_tracker)"
  have "LoadTrackerConfig ?y some_files (tracker_config_path None) = Inr (ts_cfg demo_tracker)"
    by (simp add: LoadTrackerConfig_def load_config_def const_yaml_def some_files_def demo_tracker_def tracker_config_valid_def)
  with alist_tracker_opens [of dbs "ts_cfg demo_tracker"]
  obtain t where t: "trackerd_main (bolt_on alist_bolt (\<lambda>_. None) dbs) ?y some_files None (\<lambda>_. True) = TrackerServing t"
    "ts_cfg t = ts_cfg demo_tracker" "db_ops (ts_store t) = bolt_on alist_bolt (\<lambda>_. None) dbs"
    by (simp add: trackerd_main_def)
  then have "tracker_starts alist_bolt ?y ''p'' dbs t" unfolding tracker_starts_def by (auto simp: demo_tracker_def)
  with t(2,3) show ?thesis by blast
qed

theorem records_outlive_the_process_witness:
  "\<exists>evs dbs t. life (tracker_starts alist_bolt (const_yaml (ts_cfg demo_tracker)) ''p'') (tracker_serves sort_by ser_codec) tracker_close
       Map.empty evs (Up dbs t) \<and> length evs = 1 \<and> node_at ser_codec (ts_store t) ''c'' = Some (demo_node ''c'' 7)"
proof -
  let ?y = "const_yaml (ts_cfg demo_tracker)"
  let ?life = "life (tracker_starts alist_bolt ?y ''p'') (tracker_serves sort_by ser_codec) tracker_close Map.empty"
  let ?b = "json_marshal ser_codec (json_NodeMetadata (demo_node ''c'' 7))"
  obtain t where t: "tracker_starts alist_bolt ?y ''p'' Map.empty t" "ts_cfg t = ts_cfg demo_tracker"
    "db_ops (ts_store t) = alist_bolt"
    using demo_tracker_starts [of Map.empty] unfolding bolt_on_none by blast
  have ok: "node_ok (demo_node ''c'' 7)" by (rule demo_node_ok [OF _ refl]) (simp_all add: demo_node_def utf8_valid_ascii in_int64_def)
  have read: "unmarshal_struct ser_codec put_NodeMetadata zero_NodeMetadata ?b = Some (demo_node ''c'' 7)"
    by (rule unmarshal_marshal [OF ser_codec_ok codec_NodeMetadata [OF ok]])
  obtain st where "RegisterNode ser_codec (ts_store t) (demo_node ''c'' 7) = (None, st)"
    using alist_RegisterNode [OF t(3), of "demo_node ''c'' 7" ser_codec] by (auto simp: demo_node_def)
  then have "tracker_routes sort_by ser_codec ''k'' (PostNodes (Some ?b)) t = (Some (http_ok []), t\<lparr>ts_store := st\<rparr>)"
    using read by (simp add: tracker_routes_def handleRegisterNode_def authenticated_def t(2))
  moreover have "tracker_ack ser_codec (PostNodes (Some ?b)) (Some (http_ok [])) = Registered (demo_node ''c'' 7)"
    by (simp add: tracker_ack_def read)
  ultimately have served: "tracker_serves sort_by ser_codec t (Registered (demo_node ''c'' 7)) (t\<lparr>ts_store := st\<rparr>)"
    unfolding tracker_serves_def by metis
  let ?dbs = "tracker_close (t\<lparr>ts_store := st\<rparr>) Map.empty"
  obtain t2 where start: "tracker_starts alist_bolt ?y ''p'' ?dbs t2" using demo_tracker_starts by blast
  have up: "?life [] (Up Map.empty t)" by (rule life.start, rule life.off, rule t(1))
  have "?life ([] @ [Registered (demo_node ''c'' 7)]) (Up Map.empty (t\<lparr>ts_store := st\<rparr>))"
    by (rule life.request, rule up, rule served)
  from life.stop [OF this] have down: "?life [Registered (demo_node ''c'' 7)] (Down ?dbs)" by simp
  have run: "?life [Registered (demo_node ''c'' 7)] (Up ?dbs t2)" by (rule life.start, rule down, rule start)
  from records_outlive_the_process [OF ser_codec_ok alist_bolt_ok alist_fresh(1) _ run]
  have "node_at ser_codec (ts_store t2) ''c'' = Some (demo_node ''c'' 7)"
    by (simp add: records_of_def) (simp add: demo_node_def)
  with run show ?thesis by (intro exI [of _ "[Registered (demo_node ''c'' 7)]"]) auto
qed

definition demo_joining :: NodeConfig where
  "demo_joining = \<lparr>nc_NodeID = ''n9'', nc_ListenAddr = ''10.0.0.9:9001'', nc_DataDir = ''./data'',
     nc_StorageAllocated = 100, nc_NetworkKey = ''k'', nc_TrackerAddr = ''http://t''\<rparr>"

theorem running_node_dies_witness:
  "\<exists>s w' t changed st'. noded_main alist_bolt (const_yaml demo_joining) some_files (\<lambda>_. None) demo_net None (\<lambda>_. True) demo_world
        = (Serving s, w') \<and>
     wd_trackers w' ''http://t'' = Some t \<and> node_at ser_codec (ts_store t) ''n9'' = Some (registration demo_joining 5) \<and>
     ApplyLiveness ser_codec (ts_store t) DefaultLivenessConfig 65 = ((changed, None), st') \<and>
     (\<exists>n. node_at ser_codec st' ''n9'' = Some n \<and> Evaluate DefaultLivenessConfig n 66 = StatusDead)"
proof -
  let ?t = "demo_tracker\<lparr>ts_store := demo8_store\<rparr>" and ?n = "registration demo_joining 5"
  define s where "s = \<lparr>sv_cfg = demo_joining, sv_db = \<lparr>db_ops = alist_bolt, db_file = \<lambda>_. [] :: (string \<times> bytes) list\<rparr>\<rparr>"
  have "newShardServer alist_bolt demo_joining = Inr s" by (simp add: newShardServer_def alist_bolt_def s_def)
  moreover have "LoadNodeConfig (const_yaml demo_joining) some_files (node_config_path None) = Inr demo_joining"
    by (simp add: LoadNodeConfig_def load_config_def const_yaml_def some_files_def demo_joining_def node_config_valid_def)
  ultimately obtain w' where main: "noded_main alist_bolt (const_yaml demo_joining) some_files (\<lambda>_. None) demo_net None (\<lambda>_. True) demo_world
      = (Serving s, w')" by (simp add: noded_main_def)
  have cfg: "sv_cfg s = demo_joining" by (simp add: s_def)
  have net: "net_clientTime demo_net n = 5" "header_value demo_net ''k'' = Some ''k''" for n
    by (simp_all add: demo_net_def header_value_def plain_text_def)
  obtain st where st: "RegisterNode ser_codec demo8_store ?n = (None, st)" "db_ops st = alist_bolt"
    using alist_RegisterNode [OF demo8_store_ok(2), of ?n ser_codec] by (auto simp: registration_def demo_joining_def)
  have ok: "node_ok ?n" by (simp add: registration_def demo_joining_def node_ok_def utf8_valid_ascii in_int64_def)
  have stored: "store_ok ser_codec st" using RegisterNode_law [OF demo8_store_ok(1) ok st(1)] by simp
  then obtain ns where ns: "ListNodes ser_codec st = Inr ns" using ListNodes_ok st(2) by fastforce
  have "nm_NodeID n \<noteq> ''''" if "n \<in> set ns" for n
  proof -
    from ListNodes_law [OF stored ns] that have "node_at ser_codec st (nm_NodeID n) = Some n" by blast
    with RegisterNode_law [OF demo8_store_ok(1) ok st(1)] show ?thesis
      using demo8_nodes by (auto simp: demo8_store_ok(3) registration_def demo_joining_def split: if_splits)
  qed
  then obtain c st' where pass: "ApplyLiveness ser_codec st DefaultLivenessConfig 65 = ((c, None), st')"
    using alist_apply_each [OF st(2), of ns ser_codec DefaultLivenessConfig 65 0] ns by (auto simp: ApplyLiveness_def list_all_iff)
  have url: "new_request_ok demo_net ''http://t/nodes''" using demo_url [of "''nodes''"] by (simp add: demo_client_def)
  have "wd_trackers w' ''http://t'' = Some (?t\<lparr>ts_store := st\<rparr>) \<and> node_at ser_codec st ''n9'' = Some ?n \<and> (\<exists>n. node_at ser_codec st' ''n9'' = Some n \<and> (\<forall>lc t. Evaluate lc n t = StatusDead))"
    using running_node_dies [OF main disjI1 [OF refl], of ?t st 65 c st'] demo8_store_ok(1) st(1) ok pass url
    by (simp add: cfg net demo_joining_def demo_world_def in_int64_def)
  with main pass show ?thesis
    by (intro exI [of _ s] exI [of _ w'] exI [of _ "?t\<lparr>ts_store := st\<rparr>"] exI [of _ c] exI [of _ st']) auto
qed

end
