(* ===== verification/CommandLine.thy ===== *)
theory CommandLine
  imports PutGet StatusCmd ComputeCmd Config
begin

text \<open>
  The program \<open>aldea\<close> (\<open>src/cmd/aldea/main.go\<close>): its tree of commands, declared beside each of them, and
  a run of the program from its arguments to its exit status. How the arguments are parsed is cobra's;
  the rules its documentation gives for that are \<open>cobra_ok\<close>. What a run finds around it (the
  network, the files, the random numbers) is the record \<open>surroundings\<close>.
\<close>

section \<open>The tree of commands\<close>

datatype args_rule = AnyArgs | ExactArgs nat

datatype flag_value = FlagString string | FlagInt int | FlagBool bool

record flag =
  fg_name :: string
  fg_short :: string
  fg_default :: flag_value

text \<open>The functions the commands run.\<close>

datatype runner = RunInit | RunPut | RunGet | RunStatus | RunDeploy | RunList | RunStop | RunRecover | RunExpose

datatype command =
  Command (cd_name: string) (cd_params: string) (cd_args: args_rule) (cd_run: "runner option") (cd_flags: "flag list")
    (cd_subs: "command list")

definition cmdInit :: command where
  "cmdInit = Command ''init'' '''' AnyArgs (Some RunInit)
     [\<lparr>fg_name = ''role'', fg_short = '''', fg_default = FlagString ''client''\<rparr>,
      \<lparr>fg_name = ''tracker'', fg_short = '''', fg_default = FlagString ''127.0.0.1:9090''\<rparr>,
      \<lparr>fg_name = ''key'', fg_short = '''', fg_default = FlagString ''''\<rparr>,
      \<lparr>fg_name = ''listen'', fg_short = '''', fg_default = FlagString ''0.0.0.0:9001''\<rparr>,
      \<lparr>fg_name = ''data-dir'', fg_short = '''', fg_default = FlagString ''./data''\<rparr>,
      \<lparr>fg_name = ''out'', fg_short = '''', fg_default = FlagString ''''\<rparr>,
      \<lparr>fg_name = ''alloc-gb'', fg_short = '''', fg_default = FlagInt 10\<rparr>] []"

definition cmdPut :: command where
  "cmdPut = Command ''put'' ''<file>'' (ExactArgs 1) (Some RunPut) [] []"

definition cmdGet :: command where
  "cmdGet = Command ''get'' ''<fileID> <output>'' (ExactArgs 2) (Some RunGet) [] []"

definition cmdStatus :: command where
  "cmdStatus = Command ''status'' '''' AnyArgs (Some RunStatus) [] []"

definition deployCmd :: command where
  "deployCmd = Command ''deploy'' ''<manifest.yaml>'' (ExactArgs 1) (Some RunDeploy)
     [\<lparr>fg_name = ''yes'', fg_short = ''y'', fg_default = FlagBool False\<rparr>] []"

definition listCmd :: command where
  "listCmd = Command ''list'' '''' AnyArgs (Some RunList) [] []"

definition stopCmd :: command where
  "stopCmd = Command ''stop'' ''<workloadID>'' (ExactArgs 1) (Some RunStop) [] []"

definition recoverCmd :: command where
  "recoverCmd = Command ''recover'' ''<snapshotID> <targetPath>'' (ExactArgs 2) (Some RunRecover) [] []"

definition exposeCmd :: command where
  "exposeCmd = Command ''expose'' ''<workloadID> --port=<targetPort>'' (ExactArgs 1) (Some RunExpose) [] []"

definition NewComputeCmd :: command where
  "NewComputeCmd = Command ''compute'' '''' AnyArgs None [] [deployCmd, listCmd, stopCmd, recoverCmd, exposeCmd]"

definition root :: command where
  "root = Command ''aldea'' '''' AnyArgs None
     [\<lparr>fg_name = ''config'', fg_short = '''', fg_default = FlagString ''client.yaml''\<rparr>]
     [cmdInit, cmdPut, cmdGet, cmdStatus, NewComputeCmd]"

text \<open>All the commands of a tree; the tree of the program has two levels below its root.\<close>

definition all_commands :: "command \<Rightarrow> command list" where
  "all_commands c = c # concat (map (\<lambda>d. d # cd_subs d) (cd_subs c))"

definition args_fit :: "args_rule \<Rightarrow> string list \<Rightarrow> bool" where
  "args_fit r args = (case r of AnyArgs \<Rightarrow> True | ExactArgs n \<Rightarrow> length args = n)"

section \<open>Parsing\<close>

text \<open>
  \<open>Execute\<close> refuses the arguments, or prints a help text (that of a group, what \<open>--help\<close> asks for, or
  a command that cobra adds itself), or runs the function of a command with the arguments that are not
  flags and the values of the flags by name. It runs commands of the tree only, with arguments
  that their rule accepts and values of the flags' types; and when there is no flag, it runs the
  command named first with the rest as arguments and the default values. The flags of a group are
  declared persistent: its commands have them too.
\<close>

type_synonym flags = "string \<Rightarrow> flag_value"

datatype parsed = Refused string | ShowsHelp | Runs command "string list" flags

type_synonym cobra = "command \<Rightarrow> string list \<Rightarrow> parsed"

fun same_type :: "flag_value \<Rightarrow> flag_value \<Rightarrow> bool" where
  "same_type (FlagString _) (FlagString _) = True"
| "same_type (FlagInt _) (FlagInt _) = True"
| "same_type (FlagBool _) (FlagBool _) = True"
| "same_type _ _ = False"

definition visible_flags :: "command \<Rightarrow> command \<Rightarrow> flag list" where
  "visible_flags c d = cd_flags d @ cd_flags c"

definition no_flag :: "string \<Rightarrow> bool" where
  "no_flag s \<longleftrightarrow> take 1 s \<noteq> ''-''"

definition cobra_own :: "string list" where
  "cobra_own = [''help'', ''completion'', ''__complete'', ''__completeNoDesc'']"

definition plain_call :: "command \<Rightarrow> command \<Rightarrow> string list \<Rightarrow> bool" where
  "plain_call c d args \<longleftrightarrow> d \<in> set (cd_subs c) \<and> cd_subs d = [] \<and> cd_run d \<noteq> None \<and> distinct (map cd_name (cd_subs c)) \<and>
     distinct (map fg_name (visible_flags c d)) \<and> cd_name d \<notin> set cobra_own \<and> args_fit (cd_args d) args \<and>
     list_all no_flag (cd_name d # args)"

definition cobra_ok :: "cobra \<Rightarrow> bool" where
  "cobra_ok C \<longleftrightarrow>
     (\<forall>c argv d args fl. C c argv = Runs d args fl \<longrightarrow>
        d \<in> set (all_commands c) \<and> cd_run d \<noteq> None \<and> args_fit (cd_args d) args \<and>
        (\<forall>f \<in> set (visible_flags c d). same_type (fl (fg_name f)) (fg_default f))) \<and>
     (\<forall>c d args. plain_call c d args \<longrightarrow>
        (\<exists>fl. C c (cd_name d # args) = Runs d args fl \<and> (\<forall>f \<in> set (visible_flags c d). fl (fg_name f) = fg_default f)))"

definition flag_string :: "flags \<Rightarrow> string \<Rightarrow> string" where
  "flag_string fl n = (case fl n of FlagString s \<Rightarrow> s | _ \<Rightarrow> '''')"

definition flag_int :: "flags \<Rightarrow> string \<Rightarrow> int" where
  "flag_int fl n = (case fl n of FlagInt i \<Rightarrow> i | _ \<Rightarrow> 0)"

definition flag_bool :: "flags \<Rightarrow> string \<Rightarrow> bool" where
  "flag_bool fl n = (case fl n of FlagBool b \<Rightarrow> b | _ \<Rightarrow> False)"

definition init_flags_of :: "flags \<Rightarrow> init_flags" where
  "init_flags_of fl =
     \<lparr>if_role = flag_string fl ''role'', if_tracker = flag_string fl ''tracker'', if_key = flag_string fl ''key'',
      if_listen = flag_string fl ''listen'', if_dataDir = flag_string fl ''data-dir'', if_out = flag_string fl ''out'',
      if_allocGB = flag_int fl ''alloc-gb''\<rparr>"

section \<open>A run of the program\<close>

record ('d, 'e, 'o) surroundings =
  su_net :: network
  su_pm :: primitives
  su_rn :: randomness
  su_random :: "nat \<Rightarrow> bytes"
  su_randomSalt :: "nat \<Rightarrow> bytes"
  su_node_yaml :: "NodeConfig yaml"
  su_tracker_yaml :: "TrackerConfig yaml"
  su_client_yaml :: "ClientConfig yaml"
  su_manifest_yaml :: "string \<Rightarrow> string + WorkloadManifest"
  su_manifest :: "string \<Rightarrow> string option"
  su_open :: "string \<Rightarrow> string + opened_file"
  su_create :: "string \<Rightarrow> string + 'o"
  su_write :: "bytes \<Rightarrow> 'o \<Rightarrow> io_err option \<times> 'o"
  su_runtime :: "'e Runtime"
  su_engine :: 'e
  su_order :: "(string, ContainerStatus) gomap \<Rightarrow> (string, ContainerStatus) gomap"
  su_stdin :: string
  su_now :: int

datatype cli_err = CobraError string | InitError config_err | ClientError client_err | ComputeError compute_err

text \<open>
  What a run has printed at its end (the lines on each chunk are left out), and whether it returned,
  failed, or crashed.
\<close>

datatype printed =
    HelpText
  | ConfigWritten
  | UploadedFile string string
  | DownloadedTo string string
  | StatusLines "status_line list"
  | ComputeLines "message list"

datatype cli_end = Returned printed | Error "message list" cli_err | Crashed

definition exit_code :: "cli_end \<Rightarrow> int" where
  "exit_code e = (case e of Returned _ \<Rightarrow> 0 | Error _ _ \<Rightarrow> 1 | Crashed \<Rightarrow> 2)"

text \<open>An index out of the range of the arguments panics.\<close>

definition with_arg :: "string list \<Rightarrow> nat \<Rightarrow> (string \<Rightarrow> cli_end \<times> 'w) \<Rightarrow> 'w \<Rightarrow> cli_end \<times> 'w" where
  "with_arg args i f w = (if i < length args then f (args ! i) else (Crashed, w))"

definition client_end :: "('a \<Rightarrow> printed) \<Rightarrow> 'a outcome \<Rightarrow> cli_end" where
  "client_end f r = (case r of Done x \<Rightarrow> Returned (f x) | Failed e \<Rightarrow> Error [] (ClientError e) | Panicked \<Rightarrow> Crashed)"

definition compute_end :: "'e \<times> message list \<times> compute_err option \<Rightarrow> cli_end" where
  "compute_end r = (case r of
     (_, out, None) \<Rightarrow> Returned (ComputeLines out) | (_, out, Some e) \<Rightarrow> Error out (ComputeError e))"

text \<open>
  What a run leaves behind: the configuration files, the downloaded files, and the servers. The
  engine of the workloads ends with the run.
\<close>

record ('d, 'o) around =
  ar_files :: os_files
  ar_outputs :: "string \<Rightarrow> 'o option"
  ar_world :: "'d world"

definition config_of :: "('d, 'e, 'o) surroundings \<Rightarrow> flags \<Rightarrow> ('d, 'o) around \<Rightarrow> config_err + ClientConfig" where
  "config_of S fl a = LoadClientConfig (su_client_yaml S) (ar_files a) (flag_string fl ''config'')"

definition exec_get :: "('d, 'e, 'o) surroundings \<Rightarrow> flags \<Rightarrow> string \<Rightarrow> string \<Rightarrow> ('d, 'o) around \<Rightarrow> cli_end \<times> ('d, 'o) around" where
  "exec_get S fl fileID outPath a =
     (case runGet (su_net S) (su_pm S) (config_of S fl a) (su_write S) (su_create S outPath) fileID (ar_world a) of
        (r, out, w) \<Rightarrow> (client_end (\<lambda>_. DownloadedTo fileID outPath) r,
          a\<lparr>ar_outputs := (case out of None \<Rightarrow> ar_outputs a | Some f \<Rightarrow> (ar_outputs a)(outPath \<mapsto> f)), ar_world := w\<rparr>))"

definition exec :: "('d, 'e, 'o) surroundings \<Rightarrow> runner \<Rightarrow> string list \<Rightarrow> flags \<Rightarrow> ('d, 'o) around \<Rightarrow> cli_end \<times> ('d, 'o) around" where
  "exec S r args fl a =
     (case r of
        RunInit \<Rightarrow>
          (case run_init (su_node_yaml S) (su_tracker_yaml S) (su_client_yaml S) (su_random S) (su_randomSalt S) (flag_string fl ''config'')
                  (init_flags_of fl) (ar_files a) of
             Inl e \<Rightarrow> (Error [] (InitError e), a)
           | Inr files \<Rightarrow> (Returned ConfigWritten, a\<lparr>ar_files := files\<rparr>))
      | RunPut \<Rightarrow>
          with_arg args 0 (\<lambda>path.
            case runPut (su_net S) (su_pm S) (su_rn S) (config_of S fl a) (su_open S path) (ar_world a) of
              (r, w) \<Rightarrow> (client_end (UploadedFile path) r, a\<lparr>ar_world := w\<rparr>)) a
      | RunGet \<Rightarrow> with_arg args 0 (\<lambda>fileID. with_arg args 1 (\<lambda>outPath. exec_get S fl fileID outPath a) a) a
      | RunStatus \<Rightarrow>
          (case runStatus (su_net S) (config_of S fl a) (ar_world a) of
             (r, w) \<Rightarrow> (client_end StatusLines r, a\<lparr>ar_world := w\<rparr>))
      | RunDeploy \<Rightarrow>
          with_arg args 0 (\<lambda>path. (compute_end (run_deploy (su_runtime S) (su_manifest_yaml S) (su_manifest S path)
            (flag_bool fl ''yes'') (su_stdin S) (su_now S) (su_engine S)), a)) a
      | RunList \<Rightarrow> (compute_end (run_list (su_runtime S) (su_order S) (su_engine S)), a)
      | RunStop \<Rightarrow> with_arg args 0 (\<lambda>i. (compute_end (run_stop (su_runtime S) i (su_engine S)), a)) a
      | RunRecover \<Rightarrow> with_arg args 0 (\<lambda>i. with_arg args 1 (\<lambda>p. (compute_end (run_recover i p (su_engine S)), a)) a) a
      | RunExpose \<Rightarrow> with_arg args 0 (\<lambda>i. (compute_end (run_expose i (su_engine S)), a)) a)"

definition aldea_main :: "cobra \<Rightarrow> ('d, 'e, 'o) surroundings \<Rightarrow> string list \<Rightarrow> ('d, 'o) around \<Rightarrow> cli_end \<times> ('d, 'o) around" where
  "aldea_main C S argv a =
     (case C root argv of
        Refused e \<Rightarrow> (Error [] (CobraError e), a)
      | ShowsHelp \<Rightarrow> (Returned HelpText, a)
      | Runs c args fl \<Rightarrow>
          (case cd_run c of None \<Rightarrow> (Returned HelpText, a) | Some r \<Rightarrow> exec S r args fl a))"

section \<open>Calls without flags\<close>

definition default_of :: "command \<Rightarrow> command \<Rightarrow> flags" where
  "default_of c d n = (case find (\<lambda>f. fg_name f = n) (visible_flags c d) of None \<Rightarrow> FlagString '''' | Some f \<Rightarrow> fg_default f)"

lemma find_distinct: "distinct (map g xs) \<Longrightarrow> x \<in> set xs \<Longrightarrow> find (\<lambda>y. g y = g x) xs = Some x"
  by (induction xs) (auto simp: rev_image_eqI)

text \<open>The rules of cobra can be kept: by a parser that knows no flags.\<close>

definition plain_cobra :: cobra where
  "plain_cobra c argv =
     (case argv of
        [] \<Rightarrow> ShowsHelp
      | n # args \<Rightarrow>
          (case find (\<lambda>d. cd_name d = n) (cd_subs c) of
             None \<Rightarrow> Refused ''unknown command''
           | Some d \<Rightarrow> if plain_call c d args then Runs d args (default_of c d) else Refused ''usage''))"

lemma same_type_refl [simp]: "same_type v v"
  by (cases v) simp_all

lemma default_of: "plain_call c d args \<Longrightarrow> \<forall>f \<in> set (visible_flags c d). default_of c d (fg_name f) = fg_default f"
  by (auto simp: plain_call_def default_of_def find_distinct)

lemma plain_cobra_ok: "cobra_ok plain_cobra"
  unfolding cobra_ok_def
proof (intro conjI allI impI)
  fix c argv d args fl
  assume "plain_cobra c argv = Runs d args fl"
  then have p: "plain_call c d args" "fl = default_of c d"
    by (auto simp: plain_cobra_def split: list.splits option.splits if_splits)
  show "d \<in> set (all_commands c)" "cd_run d \<noteq> None" "args_fit (cd_args d) args"
    using p(1) by (auto simp: plain_call_def all_commands_def)
  show "\<forall>f \<in> set (visible_flags c d). same_type (fl (fg_name f)) (fg_default f)"
    using default_of [OF p(1)] by (simp add: p(2))
next
  fix c d args
  assume p: "plain_call c d args"
  then have "find (\<lambda>e. cd_name e = cd_name d) (cd_subs c) = Some d" by (intro find_distinct) (simp_all add: plain_call_def)
  with p default_of [OF p]
  show "\<exists>fl. plain_cobra c (cd_name d # args) = Runs d args fl \<and> (\<forall>f \<in> set (visible_flags c d). fl (fg_name f) = fg_default f)"
    by (simp add: plain_cobra_def)
qed

lemmas command_defs = root_def cmdInit_def cmdPut_def cmdGet_def cmdStatus_def NewComputeCmd_def
  deployCmd_def listCmd_def stopCmd_def recoverCmd_def exposeCmd_def

lemma plain_runs:
  assumes "cobra_ok C" "plain_call root d args" "cd_run d = Some r"
  obtains fl where "aldea_main C S (cd_name d # args) a = exec S r args fl a" "flag_string fl ''config'' = ''client.yaml''"
    "\<forall>f \<in> set (cd_flags d). fl (fg_name f) = fg_default f"
proof -
  from assms(1,2) obtain fl where r: "C root (cd_name d # args) = Runs d args fl"
    and fl: "\<forall>f \<in> set (visible_flags root d). fl (fg_name f) = fg_default f"
    unfolding cobra_ok_def by metis
  from fl have "fl ''config'' = FlagString ''client.yaml''" by (simp add: visible_flags_def root_def)
  then have "flag_string fl ''config'' = ''client.yaml''" by (simp add: flag_string_def)
  with that [of fl] r fl assms(3) show thesis by (simp add: aldea_main_def visible_flags_def)
qed

lemma plain_calls:
  "plain_call root cmdInit []" "plain_call root cmdStatus []"
  "no_flag path \<Longrightarrow> plain_call root cmdPut [path]"
  "no_flag i \<Longrightarrow> no_flag path \<Longrightarrow> plain_call root cmdGet [i, path]"
  by (simp_all add: plain_call_def command_defs visible_flags_def no_flag_def cobra_own_def args_fit_def)

section \<open>Where the program crashes\<close>

lemma root_commands: "set (all_commands root) = {root, cmdInit, cmdPut, cmdGet, cmdStatus, NewComputeCmd,
    deployCmd, listCmd, stopCmd, recoverCmd, exposeCmd}"
  by (auto simp: all_commands_def root_def NewComputeCmd_def command_defs(2-5))

lemma client_end_crashed [simp]: "client_end f r = Crashed \<longleftrightarrow> r = Panicked"
  by (simp add: client_end_def split: outcome.split)

lemma compute_end_not_crashed [simp]: "compute_end r \<noteq> Crashed"
  by (simp add: compute_end_def split: prod.split option.split)

text \<open>No command looks for an argument that is not there: what crashes is a client on the network.\<close>

lemma crash_is_client:
  assumes "cobra_ok C" "fst (aldea_main C S argv a) = Crashed"
  obtains c fl where "fst (runStatus (su_net S) c (ar_world a)) = Panicked"
  | c path where "fst (runPut (su_net S) (su_pm S) (su_rn S) c (su_open S path) (ar_world a)) = Panicked"
  | c i path where "fst (runGet (su_net S) (su_pm S) c (su_write S) (su_create S path) i (ar_world a)) = Panicked"
proof -
  obtain c args fl r where run: "C root argv = Runs c args fl" "cd_run c = Some r"
    and crash: "fst (exec S r args fl a) = Crashed"
    using assms(2) by (auto simp: aldea_main_def split: parsed.splits option.splits)
  from assms(1) run(1) have "c \<in> set (all_commands root)" "args_fit (cd_args c) args" unfolding cobra_ok_def by blast+
  then have there: "r \<in> {RunPut, RunDeploy, RunStop, RunExpose} \<Longrightarrow> length args = 1"
    "r \<in> {RunGet, RunRecover} \<Longrightarrow> length args = 2"
    using run(2) unfolding root_commands by (auto simp: command_defs args_fit_def)
  show thesis
  proof (cases r)
    case RunStatus
    with crash have "fst (runStatus (su_net S) (config_of S fl a) (ar_world a)) = Panicked"
      by (simp add: exec_def case_prod_unfold)
    with that(1) show ?thesis .
  next
    case RunPut
    with crash there(1)
    have "fst (runPut (su_net S) (su_pm S) (su_rn S) (config_of S fl a) (su_open S (args ! 0)) (ar_world a)) = Panicked"
      by (simp add: exec_def with_arg_def case_prod_unfold)
    with that(2) show ?thesis .
  next
    case RunGet
    with crash there(2)
    have "fst (runGet (su_net S) (su_pm S) (config_of S fl a) (su_write S) (su_create S (args ! 1)) (args ! 0) (ar_world a)) = Panicked"
      by (simp add: exec_def exec_get_def with_arg_def case_prod_unfold)
    with that(3) show ?thesis .
  qed (use crash there in \<open>auto simp: exec_def with_arg_def split: sum.splits\<close>)
qed

section \<open>A client that was just initialised\<close>

text \<open>The default tracker address has no scheme, so no request to it can be made.\<close>

lemma no_scheme:
  "\<not> new_request_ok N (''127.0.0.1:9090/placement'')" "\<not> new_request_ok N (''127.0.0.1:9090/files'')"
  "\<not> new_request_ok N (''127.0.0.1:9090/nodes'')" "\<not> new_request_ok N (''127.0.0.1:9090/files/'' @ i)"
  by (simp_all add: new_request_ok_def has_scheme_def colon_in_first_segment_def is_letter_def)

definition default_tracker :: "ClientConfig \<Rightarrow> bool" where
  "default_tracker cfg \<longleftrightarrow> cc_TrackerAddr cfg = ''127.0.0.1:9090''"

lemma default_tracker_panics:
  assumes "default_tracker cfg"
  shows "selectNodes N cfg n w = (Panicked, w)" "listNodes N cfg w = (Panicked, w)"
    "saveFilePlacement N cfg f ps w = (Panicked, w)" "getFilePlacement N cfg i w = (Panicked, w)"
  using assms no_scheme
  by (simp_all add: default_tracker_def selectNodes_def listNodes_def saveFilePlacement_def getFilePlacement_def
      tracker_send_def map_reply_def)

lemma default_put_chunks:
  assumes "default_tracker cfg"
  shows "put_chunks N pm rnd cfg key enc fid cs acc w = (r, w') \<Longrightarrow> w' = w \<and> (r = Done acc \<and> cs = [] \<or> r = Panicked \<or> (\<exists>e. r = Failed e))"
  by (cases cs) (auto simp: default_tracker_panics [OF assms] split: sum.splits)

lemma default_runPut:
  assumes "default_tracker cfg" "runPut N pm rn (Inr cfg) file w = (r, w')"
  shows "w' = w \<and> (\<forall>i. r \<noteq> Done i)"
proof -
  have "save_uploaded N cfg fid info n ps w = (Panicked, w)" for fid info n ps
    by (simp add: save_uploaded_def default_tracker_panics [OF assms(1)] split: option.split)
  then show ?thesis using assms(2)
    by (auto simp: runPut_def Let_def split: sum.splits option.splits prod.splits outcome.splits
        dest!: default_put_chunks [OF assms(1)])
qed

lemma default_init:
  assumes "cobra_ok C" "yaml_ok (su_client_yaml S)" "\<And>n. length (su_random S n) = n" "\<And>n. length (su_randomSalt S n) = n"
    and "aldea_main C S [''init''] a = (Returned ConfigWritten, a1)"
  obtains cfg where "LoadClientConfig (su_client_yaml S) (ar_files a1) ''client.yaml'' = Inr cfg" "default_tracker cfg"
    "DecodedSalt cfg = Inr (su_randomSalt S 16)"
proof -
  have "cd_name cmdInit = ''init''" "cd_run cmdInit = Some RunInit" by (simp_all add: cmdInit_def)
  with plain_runs [OF assms(1) plain_calls(1)] obtain fl where
    run: "aldea_main C S [''init''] a = exec S RunInit [] fl a" and p: "flag_string fl ''config'' = ''client.yaml''"
    and fl: "\<forall>f \<in> set (cd_flags cmdInit). fl (fg_name f) = fg_default f" by metis
  from fl have flags: "init_flags_of fl = default_flags"
    by (simp add: cmdInit_def init_flags_of_def default_flags_def flag_string_def flag_int_def)
  from assms(5) run p flags obtain cfg where
    new: "InitClientConfig (su_client_yaml S) (su_random S) (su_randomSalt S) (ar_files a) ''client.yaml'' ''127.0.0.1:9090'' '''' ''''
       = Inr (cfg, ar_files a1)"
    by (auto simp: exec_def run_init_def Let_def default_flags_def default_to_def map_sum_def split: sum.splits)
  have "default_tracker cfg"
    using save_new_same [OF new [unfolded InitClientConfig_def]] by (simp add: default_tracker_def default_to_def)
  with that new_client_loads [OF assms(2,3,4) new] show thesis by blast
qed

lemma default_exec_get:
  assumes "default_tracker cfg" "client_key (su_pm S) cfg = Inr key" "config_of S fl a = Inr cfg"
  shows "exec S RunGet [i, out] fl a = (Crashed, a)"
  by (simp add: exec_def exec_get_def with_arg_def runGet_def default_tracker_panics [OF assms(1)] assms(2,3))

lemma default_exec_status:
  assumes "default_tracker cfg" "config_of S fl a = Inr cfg"
  shows "exec S RunStatus args fl a = (Crashed, a)"
  by (simp add: exec_def runStatus_def default_tracker_panics [OF assms(1)] assms(2))

lemma default_exec_put:
  assumes "default_tracker cfg" "config_of S fl a = Inr cfg"
  shows "\<exists>e. exec S RunPut [path] fl a = (e, a) \<and> exit_code e \<noteq> 0"
proof -
  obtain r where r: "runPut (su_net S) (su_pm S) (su_rn S) (Inr cfg) (su_open S path) (ar_world a) = (r, ar_world a)"
    and fails: "\<forall>i. r \<noteq> Done i" using default_runPut [OF assms(1)] by (metis prod.exhaust)
  then show ?thesis by (cases r) (simp_all add: exec_def with_arg_def assms(2) client_end_def exit_code_def)
qed

text \<open>
  C32: The program as it is set up by default cannot be used: after \<open>aldea init\<close> without flags has
  written a client configuration, \<open>aldea status\<close> and \<open>aldea get\<close> crash whatever they are asked for, and
  \<open>aldea put\<close> fails for every file; the servers and the files are as before. The default tracker
  address has no scheme, the error of \<open>http.NewRequest\<close> is dropped, and the request is nil.
\<close>
theorem fresh_client_crashes:
  assumes "cobra_ok C" "yaml_ok (su_client_yaml S)" "\<And>n. length (su_random S n) = n" "\<And>n. length (su_randomSalt S n) = n"
    and "aldea_main C S [''init''] a = (Returned ConfigWritten, a1)"
    and "no_flag path" "no_flag i" "no_flag out"
  shows "aldea_main C S [''status''] a1 = (Crashed, a1) \<and> aldea_main C S [''get'', i, out] a1 = (Crashed, a1)
     \<and> (\<exists>e. aldea_main C S [''put'', path] a1 = (e, a1) \<and> exit_code e \<noteq> 0)"
proof (intro conjI)
  from default_init [OF assms(1-5)] obtain cfg where
    load: "LoadClientConfig (su_client_yaml S) (ar_files a1) ''client.yaml'' = Inr cfg"
    and cfg: "default_tracker cfg" and salt: "DecodedSalt cfg = Inr (su_randomSalt S 16)" .
  have cfg_of: "config_of S fl a1 = Inr cfg" if "flag_string fl ''config'' = ''client.yaml''" for fl
    using load that by (simp add: config_of_def)
  have runs: "cd_name cmdStatus = ''status''" "cd_run cmdStatus = Some RunStatus" "cd_name cmdGet = ''get''"
    "cd_run cmdGet = Some RunGet" "cd_name cmdPut = ''put''" "cd_run cmdPut = Some RunPut"
    by (simp_all add: command_defs)
  show "aldea_main C S [''status''] a1 = (Crashed, a1)"
    using plain_runs [OF assms(1) plain_calls(2) runs(2), where S = S and a = a1] cfg_of
    by (metis default_exec_status [OF cfg] runs(1))
  obtain key where "client_key (su_pm S) cfg = Inr key"
    using salt assms(4) by (simp add: client_key_def DeriveKey_def minSaltSize_def)
  then show "aldea_main C S [''get'', i, out] a1 = (Crashed, a1)"
    using plain_runs [OF assms(1) plain_calls(4) [OF assms(7,8)] runs(4), where S = S and a = a1] cfg_of
    by (metis default_exec_get [OF cfg] runs(3))
  show "\<exists>e. aldea_main C S [''put'', path] a1 = (e, a1) \<and> exit_code e \<noteq> 0"
    using plain_runs [OF assms(1) plain_calls(3) [OF assms(6)] runs(6), where S = S and a = a1] cfg_of
    by (metis default_exec_put [OF cfg] runs(5))
qed

definition demo_setting :: "((string \<Rightarrow> (string \<times> bytes) list), Engine, bytes) surroundings" where
  "demo_setting = \<lparr>su_net = demo_net, su_pm = demo_pm, su_rn = demo_rn, su_random = (\<lambda>n. replicate n 7), su_randomSalt = (\<lambda>n. replicate n 8),
     su_node_yaml = node_yaml, su_tracker_yaml = tracker_yaml, su_client_yaml = client_yaml,
     su_manifest_yaml = (\<lambda>_. Inl ''no yaml''), su_manifest = (\<lambda>_. None), su_open = (\<lambda>_. Inr demo_file),
     su_create = (\<lambda>_. Inr []), su_write = buffer_write, su_runtime = linux_runtime, su_engine = NewEngine,
     su_order = (\<lambda>m. m), su_stdin = '''', su_now = 0\<rparr>"

definition demo_around :: "((string \<Rightarrow> (string \<times> bytes) list), bytes) around" where
  "demo_around = \<lparr>ar_files = no_files, ar_outputs = (\<lambda>_. None), ar_world = demo_world\<rparr>"

lemma demo_init: "\<exists>a. aldea_main plain_cobra demo_setting [''init''] demo_around = (Returned ConfigWritten, a)"
proof -
  have "cd_name cmdInit = ''init''" "cd_run cmdInit = Some RunInit" by (simp_all add: cmdInit_def)
  with plain_runs [OF plain_cobra_ok plain_calls(1)] obtain fl where
    run: "aldea_main plain_cobra demo_setting [''init''] demo_around = exec demo_setting RunInit [] fl demo_around"
    and fl: "\<forall>f \<in> set (cd_flags cmdInit). fl (fg_name f) = fg_default f" by metis
  from fl have "init_flags_of fl = default_flags"
    by (simp add: cmdInit_def init_flags_of_def default_flags_def flag_string_def flag_int_def)
  moreover obtain cfg w where "InitClientConfig client_yaml (\<lambda>n. replicate n 7) (\<lambda>n. replicate n 8) no_files
      (default_to (flag_string fl ''config'') '''') ''127.0.0.1:9090'' '''' '''' = Inr (cfg, w)"
    using save_new_no_files [OF demo_yaml_ok(3)] unfolding InitClientConfig_def by blast
  ultimately have "run_init node_yaml tracker_yaml client_yaml (\<lambda>n. replicate n 7) (\<lambda>n. replicate n 8) (flag_string fl ''config'') (init_flags_of fl) no_files = Inr w"
    by (simp add: run_init_def default_flags_def)
  then show ?thesis unfolding run by (simp add: exec_def demo_setting_def demo_around_def)
qed

theorem fresh_client_crashes_witness:
  "\<exists>a1. aldea_main plain_cobra demo_setting [''init''] demo_around = (Returned ConfigWritten, a1)
     \<and> aldea_main plain_cobra demo_setting [''status''] a1 = (Crashed, a1)
     \<and> aldea_main plain_cobra demo_setting [''get'', ''f'', ''o''] a1 = (Crashed, a1)
     \<and> (\<exists>e. aldea_main plain_cobra demo_setting [''put'', ''p''] a1 = (e, a1) \<and> exit_code e \<noteq> 0)"
proof -
  obtain a1 where run: "aldea_main plain_cobra demo_setting [''init''] demo_around = (Returned ConfigWritten, a1)"
    using demo_init by blast
  have "yaml_ok (su_client_yaml demo_setting)" "\<And>n. length (su_random demo_setting n) = n" "\<And>n. length (su_randomSalt demo_setting n) = n"
    using demo_yaml_ok(3) by (simp_all add: demo_setting_def)
  from fresh_client_crashes [OF plain_cobra_ok this run, of "''p''" "''f''" "''o''"] run
  show ?thesis by (simp add: no_flag_def)
qed

section \<open>An upload and a download, as two runs of the program\<close>

lemma hex_no_flag: "no_flag (randomHex rnd n)"
proof -
  have "CHR ''-'' \<notin> set (hex_encode b)" for b using hex_encode_chars [of "CHR ''-''" b] by auto
  then show ?thesis unfolding no_flag_def randomHex_def by (metis in_set_takeD list.set_intros(1))
qed

text \<open>
  C4: What one run of the program uploads, another downloads: when \<open>aldea put\<close> has printed a file
  identifier, and later all registered nodes but at most four can be reached, \<open>aldea get\<close> with this
  identifier and the same configuration file exits with success and has written exactly the bytes of
  the file.
\<close>
theorem put_then_get:
  assumes "cobra_ok C" "primitives_ok (su_pm S)" "randomness_ok (su_rn S)" "no_flag path" "su_open S path = Inr f"
    and "LoadClientConfig (su_client_yaml S) (ar_files a) ''client.yaml'' = Inr cfg" "rd_end (of_reader f) = EOF"
    and "in_int64 (int (length (rd_content (of_reader f))))" "of_info f = Some (name, sz)" "utf8_valid name" "in_int64 sz"
    and "rpc_ok (with_key (su_net S, cfg)) (ar_world a)" "tracker_at (su_net S) (cc_TrackerAddr cfg) (ar_world a) t"
    and "\<forall>d. bb_view (db_ops (ts_store t)) d = None"
    and "aldea_main C S [''put'', path] a = (Returned (UploadedFile path fid), a1)"
    and "ar_files a2 = ar_files a" "nodes_lost (ar_world a1) (ar_world a2)"
    and "N' = (su_net S)\<lparr>net_fate := \<lambda>_. Delivered\<rparr>" "new_request_ok N' (cc_TrackerAddr cfg @ ''/files/'' @ fid)"
    and "new_request_ok N' (cc_TrackerAddr cfg @ ''/nodes'')"
    and "wd_trackers (ar_world a1) (cc_TrackerAddr cfg) = Some t1" "finite lost" "card lost \<le> 4"
    and "\<forall>i n. node_at (net_json (su_net S)) (ts_store t1) i = Some n \<longrightarrow>
        i \<in> lost \<or> live_at (with_key (N', cfg)) (ar_world a2) (nm_Address n)"
    and "su_write S = buffer_write" "su_create S out = Inr []" "no_flag out"
  shows "\<exists>a3. aldea_main C (S\<lparr>su_net := N'\<rparr>) [''get'', fid, out] a2 = (Returned (DownloadedTo fid out), a3)
    \<and> ar_outputs a3 out = Some (rd_content (of_reader f))"
proof -
  have put: "cd_name cmdPut = ''put''" "cd_run cmdPut = Some RunPut" and get: "cd_name cmdGet = ''get''" "cd_run cmdGet = Some RunGet"
    by (simp_all add: command_defs)
  from plain_runs [OF assms(1) plain_calls(3) [OF assms(4)] put(2)] obtain fl where
    run: "aldea_main C S [''put'', path] a = exec S RunPut [path] fl a" and fl: "flag_string fl ''config'' = ''client.yaml''"
    by (metis put(1))
  have up: "runPut (su_net S) (su_pm S) (su_rn S) (Inr cfg) (Inr f) (ar_world a) = (Done fid, ar_world a1)"
    using assms(15,6,5) unfolding run
    by (auto simp: exec_def with_arg_def config_of_def fl client_end_def split: prod.splits outcome.splits)
  from runGet_after_runPut [OF assms(2,3,7-14) up assms(17-24), of "[]"] obtain w3 where
    down: "runGet N' (su_pm S) (Inr cfg) buffer_write (Inr []) fid (ar_world a2) = (Done (), Some (rd_content (of_reader f)), w3)"
    by auto
  have "no_flag fid" using runPut_law [OF assms(2,3,7-13) up] hex_no_flag by blast
  from plain_runs [OF assms(1) plain_calls(4) [OF this assms(27)] get(2)] obtain fl' where
    run': "aldea_main C (S\<lparr>su_net := N'\<rparr>) [''get'', fid, out] a2 = exec (S\<lparr>su_net := N'\<rparr>) RunGet [fid, out] fl' a2"
    and fl': "flag_string fl' ''config'' = ''client.yaml''" by (metis get(1))
  show ?thesis unfolding run'
    by (simp add: exec_def exec_get_def with_arg_def config_of_def fl' assms(6,16,25,26) down client_end_def)
qed

definition demo_files :: os_files where
  "demo_files = no_files\<lparr>os_read := (\<lambda>_. yaml_enc client_yaml demo_client)\<rparr>"

lemma demo_config: "LoadClientConfig client_yaml demo_files p = Inr demo_client"
proof -
  obtain t where "yaml_enc client_yaml demo_client = Inr t" "yaml_dec client_yaml t = Inr demo_client"
    using demo_yaml_ok(3) unfolding yaml_ok_def by blast
  moreover have "client_config_valid demo_client = None" by (simp add: client_config_valid_def demo_client_def)
  ultimately show ?thesis by (simp add: LoadClientConfig_def load_config_def demo_files_def)
qed

definition demo_ready :: "((string \<Rightarrow> (string \<times> bytes) list), bytes) around" where
  "demo_ready = demo_around\<lparr>ar_files := demo_files\<rparr>"

lemma demo_put_command:
  assumes "runPut demo_net demo_pm demo_rn (Inr demo_client) (Inr demo_file) demo_world = (Done fid, w1)"
  shows "aldea_main plain_cobra demo_setting [''put'', ''p''] demo_ready =
    (Returned (UploadedFile ''p'' fid), demo_ready\<lparr>ar_world := w1\<rparr>)"
proof -
  have put: "cd_name cmdPut = ''put''" "cd_run cmdPut = Some RunPut" "no_flag ''p''" by (simp_all add: command_defs no_flag_def)
  from plain_runs [OF plain_cobra_ok plain_calls(3) [OF put(3)] put(2)] obtain fl where
    "aldea_main plain_cobra demo_setting [''put'', ''p''] demo_ready = exec demo_setting RunPut [''p''] fl demo_ready"
    by (metis put(1))
  then show ?thesis using assms
    by (simp add: exec_def with_arg_def config_of_def demo_setting_def demo_ready_def demo_around_def demo_config client_end_def)
qed

theorem put_then_get_witness:
  "\<exists>fid a1 a3. aldea_main plain_cobra demo_setting [''put'', ''p''] demo_ready = (Returned (UploadedFile ''p'' fid), a1)
     \<and> aldea_main plain_cobra demo_setting [''get'', fid, ''o''] (a1\<lparr>ar_world := without_b (ar_world a1)\<rparr>) =
         (Returned (DownloadedTo fid ''o''), a3) \<and> ar_outputs a3 ''o'' = Some [1, 2, 3]"
proof -
  obtain fid w1 where run: "runPut demo_net demo_pm demo_rn (Inr demo_client) (Inr demo_file) demo_world = (Done fid, w1)"
    and room: "roomy_at (bytes_of_string (cc_NetworkKey demo_client)) {''a'', ''b''} w1"
    using demo_put_runs by blast
  obtain t1 where t1: "wd_trackers w1 (cc_TrackerAddr demo_client) = Some t1" "node_at ser_codec (ts_store t1) = node_at ser_codec demo8_store"
    by (rule demo_put_nodes [OF run])
  have room': "roomy_at (bytes_of_string (cc_NetworkKey demo_client)) {''a''} (without_b w1)"
    using room by (simp add: roomy_at_def without_b_def)
  let ?a1 = "demo_ready\<lparr>ar_world := w1\<rparr>" and ?a2 = "demo_ready\<lparr>ar_world := without_b w1\<rparr>"
  note put = demo_put_command [OF run]
  have set: "su_net demo_setting = demo_net" "su_pm demo_setting = demo_pm" "su_rn demo_setting = demo_rn"
    "su_open demo_setting p = Inr demo_file" "su_client_yaml demo_setting = client_yaml" "su_write demo_setting = buffer_write"
    "su_create demo_setting p = Inr []" "demo_setting\<lparr>su_net := demo_net\<rparr> = demo_setting" for p
    by (simp_all add: demo_setting_def)
  have ready: "ar_files demo_ready = demo_files" "ar_world demo_ready = demo_world" by (simp_all add: demo_ready_def demo_around_def)
  have flags: "no_flag ''p''" "no_flag ''o''" by (simp_all add: no_flag_def)
  have "\<exists>a3. aldea_main plain_cobra (demo_setting\<lparr>su_net := demo_net\<rparr>) [''get'', fid, ''o''] ?a2 = (Returned (DownloadedTo fid ''o''), a3)
      \<and> ar_outputs a3 ''o'' = Some (rd_content (of_reader demo_file))"
    by (rule put_then_get [OF plain_cobra_ok, where S = demo_setting and a = demo_ready and cfg = demo_client and f = demo_file,
          unfolded set ready, OF demo_pm_ok demo_rn_ok flags(1) refl demo_config demo_reader(2) demo_small(1) demo_reader(3) demo_small(2,3)
          demo_world_ok(1,2) demo_view8 put])
      (use without_b_lost [of w1] demo_same_net demo_urls t1(1) demo_lost demo_alive [OF t1(2) room'] flags in \<open>auto simp: ready set\<close>)
  with put show ?thesis by (simp add: demo_reader(1) set)
qed

end
