(* ===== verification/Spec2Isabelle.thy ===== *)
theory Spec2Isabelle
  imports Prelude Sha256 Gostd Json JsonText Chunker Crypto Erasure Protocol Dht Bolt Tracker Liveness Config Http Noded
    Trackerd Invite Network Calls PutCmd GetCmd PutGet Sound SoundCmds Repair RepairPass System Restore
    Float64 Gotext Gomap Scheduler Metrics Bandwidth Callers Runtime ComputeCmd StatusCmd Ingress Snapshot Relay Discovery Gui
    Window Daemons CommandLine
begin

text \<open>
  A verification library for Aldea, a peer-to-peer file store in Go with a simulated compute layer.

  \<^bold>\<open>The program.\<close> A client cuts a file into chunks, erasure-codes each chunk into eight shards of which
  any four rebuild it, encrypts every shard and puts them on storage nodes (\<open>noded\<close>) that a tracker
  (\<open>trackerd\<close>) selects; the tracker keeps where each shard is. A download collects shards until four
  of each chunk are there. The tracker judges nodes by their last sign of life, and a repair pass
  makes the shards of unhealthy nodes anew on other nodes. Clients talk to nodes in messages signed
  with the network key and to the tracker over HTTP with the key in a header. Beside this the
  repository holds invite tokens, a routing table, a bandwidth limiter, a relay, STUN discovery,
  metrics, a scheduler and a runtime for workloads, tunnels, snapshots, and a desktop application.

  \<^bold>\<open>Theories and code.\<close> All paths are under \<open>src/\<close>; definitions have the names of the code.

  Foundations: \<open>Prelude\<close> (bytes, \<open>int64\<close> with its wrap-around \<open>wrap64\<close>, \<open>sort.Slice\<close>, lists), \<open>Sha256\<close> (SHA-256 and
  HMAC bit by bit, over 32-bit words), \<open>Gostd\<close> (\<open>%d\<close>, \<open>hex\<close>, \<open>base64\<close>),
  \<open>Gotext\<close> (\<open>strings.TrimSpace\<close>, \<open>ToLower\<close>), \<open>Gomap\<close> (Go's maps, with an arbitrary range order),
  \<open>Float64\<close> (binary64 arithmetic over the rationals: rounding, its monotonicity and error bounds),
  \<open>Json\<close> and \<open>JsonText\<close> (\<open>encoding/json\<close> on struct tags, and a codec that meets its laws),
  \<open>Bolt\<close> (a bbolt database with transactions that fail as a whole), \<open>Http\<close> (answers).

  Storage: \<open>Chunker\<close> (\<open>internal/chunker\<close>), \<open>Erasure\<close> (\<open>internal/erasure\<close>), \<open>Crypto\<close>
  (\<open>internal/crypto\<close>), \<open>Protocol\<close> (\<open>internal/protocol\<close>), \<open>Tracker\<close> and \<open>Liveness\<close>
  (\<open>internal/tracker\<close>), \<open>Noded\<close> (\<open>cmd/noded/server.go\<close>), \<open>Trackerd\<close> (\<open>cmd/trackerd/server.go\<close>),
  \<open>Config\<close> (\<open>internal/config\<close>, \<open>cmd/aldea/init.go\<close>), \<open>Network\<close> (the calls of \<open>cmd/aldea/put.go\<close>,
  \<open>get.go\<close>, \<open>cmd/noded/main.go\<close> and \<open>internal/repair\<close> over nodes and a tracker that can be lost or
  fail at any exchange), \<open>Calls\<close> (what these calls do to the tracker), \<open>PutCmd\<close>, \<open>GetCmd\<close> and
  \<open>StatusCmd\<close> (the commands), \<open>Repair\<close> and \<open>RepairPass\<close> (\<open>internal/repair\<close>), \<open>PutGet\<close>, \<open>Sound\<close>,
  \<open>SoundCmds\<close>, \<open>System\<close> and \<open>Restore\<close> (their composition), \<open>Daemons\<close> (\<open>cmd/noded/main.go\<close>,
  \<open>cmd/trackerd/main.go\<close>: the processes of the two servers, started, stopped and started again over
  their files), \<open>CommandLine\<close> (\<open>cmd/aldea/main.go\<close> and the commands declared beside it: the program from
  its arguments to its exit status).

  Around it: \<open>Dht\<close> (\<open>internal/dht\<close>), \<open>Invite\<close> (\<open>internal/invite\<close>), \<open>Bandwidth\<close>
  and \<open>Callers\<close> (\<open>internal/bandwidth\<close>, with one caller and with many), \<open>Relay\<close> (\<open>internal/relay\<close>), \<open>Discovery\<close> (\<open>internal/nat\<close>), \<open>Metrics\<close>
  (\<open>internal/metrics\<close>), \<open>Scheduler\<close> (\<open>internal/scheduler\<close>), \<open>Runtime\<close> (\<open>internal/runtime\<close>, both
  builds), \<open>ComputeCmd\<close> (\<open>cmd/aldea/compute.go\<close>), \<open>Ingress\<close> (\<open>internal/ingress\<close>), \<open>Snapshot\<close>
  (\<open>internal/snapshot\<close>), \<open>Gui\<close> (\<open>gui/app.go\<close>), \<open>Window\<close> (\<open>gui/main.go\<close>).

  \<^bold>\<open>How the state is modelled.\<close> A struct is a record, a method a function from the state to the new
  state and the results; a returned error is the left side of a sum or a \<open>Some\<close>; a panic is the
  outcome \<open>Panicked\<close> or a \<open>None\<close>. A method that holds one lock throughout is one step. The storage
  node's put handler checks the quota outside of the transaction that writes, and is two steps
  where requests interleave (\<open>put_step\<close>; \<open>serving\<close> lets up to \<open>K\<close> requests be under way). A stream is the
  list of the pieces in which it arrives, and a property over a stream holds for every cutting. The world of the commands (\<open>Network.world\<close>) holds the nodes
  and the tracker; every exchange consults a network that may lose the request, the answer, or both.

  \<^bold>\<open>What is shown.\<close> At the top, the network refines a map from file identifiers to contents under
  every sequence of uploads, downloads, node losses, liveness and repair passes (\<open>System\<close>); a
  download gives what was uploaded or fails, and succeeds while at most four nodes are lost
  (\<open>PutGet\<close>, and as two runs of the program in \<open>CommandLine\<close>); a repair pass that nothing hinders makes
  every file whole (\<open>Restore\<close>); what a node or a tracker has acknowledged outlives its process, whenever
  that is stopped or killed (\<open>Daemons\<close>). Below it the
  contracts these rest on, as locales interpreted on the code: the cipher, the erasure code, the
  sink of a reassembly, the metric of the routing table, the remote calls of both clients, the
  tracker's store and listing, the engine of workloads. For each component: the invariant its
  operations keep, what each operation does on every branch, and round trips. In \<open>Noded\<close>, that the
  quota may be passed by the data of the requests that are under way, and by no more, and that a
  message without the right MAC does nothing; in \<open>Relay\<close>, what becomes of a session for every way
  in which its streams are cut; in \<open>Gui\<close>, that an upload can be rebuilt, of a constant text and without
  its salt. In \<open>Bandwidth\<close>, that
  the waiting loops end and the rate is kept although every step rounds, and in \<open>Callers\<close> that callers
  who interleave keep it together, but in no order: a call that joined first may be overtaken by a
  later one for any number of seconds. In \<open>Scheduler\<close>, that the
  one-pass selection in floating point is the pairwise one.

  \<^bold>\<open>Loops.\<close> \<open>Chunker.split_loop\<close> and the loops of \<open>Bandwidth\<close> are \<open>partial_function (option)\<close>: not
  returning is \<open>None\<close>, and \<open>Split_eq\<close> and \<open>limiter_lets_through\<close> show that they return. The
  limiter's argument needs no fuel: with a sleep cut off to nothing each loop still waits for the
  clock, which is only asked to move again after any number of readings. All other recursion is
  structural or has its measure.

  \<^bold>\<open>Parameters.\<close> What is not under \<open>src/\<close> is an argument with its documented laws as hypotheses:
  Argon2id and XChaCha20-Poly1305 (\<open>primitives\<close>, \<open>newx_ok\<close>), klauspost/reedsolomon (\<open>rs_ok\<close>), the YAML
  codec, pion/stun, the sources of random bytes, clocks, files and sockets. Each hypothesis has a
  witness on concrete functions. HMAC is computed; that it does not collide is assumed where a
  property needs it, on the texts in question alone.

  \<^bold>\<open>Not modelled.\<close> What the program hands to cobra, Wails and \<open>net/http\<close>: the parsing of flags (\<open>cobra_ok\<close>
  states what is used of it), help texts, the looks of the window, sockets and signals, which are
  steps of the environment. Locks and fields that nothing reads: the mutex of the scheduler, the
  network key of the relay's server, client and dialer, the constructors that only store them.
  Timing other than the clock readings named; the texts of errors, where the code does not look at them.
\<close>

end
